(* ===== verification/Prelude.thy ===== *)
theory Prelude
  imports Complex_Main "HOL-Library.AList"
begin

section \<open>Shared vocabulary of the development\<close>

text \<open>
  What every component of the model shares:
  \<^item> the named theorem collections of the development;
  \<^item> the part of Python's \<^verbatim>\<open>str\<close> the sources use (\<open>strip\<close>, \<open>lower\<close>,
    \<open>split\<close>, \<open>splitlines\<close>, \<open>join\<close>, \<open>startswith\<close>, the decimal rendering of an
    \<^verbatim>\<open>int\<close>, UTF-8 encoding). A Python string is an Isabelle \<^typ>\<open>string\<close>: one
    \<^typ>\<open>char\<close> is one code point, so the model covers the strings over the code points
    0 to 255;
  \<^item> Python's insertion-ordered \<^verbatim>\<open>dict\<close> as an association list without duplicate keys:
    \<open>AList.update\<close> is \<^verbatim>\<open>d[k] = v\<close> (it keeps the position of an existing key and appends
    a new one), \<open>AList.delete\<close> is \<^verbatim>\<open>del d[k]\<close> and \<open>map_of\<close> is \<^verbatim>\<open>d.get\<close>;
  \<^item> Python's \<^verbatim>\<open>float\<close> with its non-finite values; finite arithmetic is exact (on
    \<^typ>\<open>rat\<close>), rounding is not modelled.
\<close>

named_theorems py_simps \<open>unfoldings of the Python string and number vocabulary\<close>
named_theorems guard_simps \<open>unfoldings of the guards of the audited path\<close>
named_theorems frame_simps \<open>what an operation leaves unchanged\<close>

type_synonym ('k, 'v) pydict = "('k \<times> 'v) list"

abbreviation keys :: "('k, 'v) pydict \<Rightarrow> 'k list" where
  "keys d \<equiv> map fst d"

subsection \<open>Characters and strings\<close>

definition ord :: "char \<Rightarrow> nat" where
  "ord c = of_char c"

definition char_between :: "nat \<Rightarrow> nat \<Rightarrow> char \<Rightarrow> bool" where
  "char_between lo hi c \<longleftrightarrow> lo \<le> ord c \<and> ord c \<le> hi"

text \<open>\<^verbatim>\<open>str.isspace\<close> on code points below 256.\<close>

definition is_space :: "char \<Rightarrow> bool" where
  "is_space c \<longleftrightarrow> char_between 9 13 c \<or> char_between 28 32 c \<or> ord c = 133 \<or> ord c = 160"

definition is_digit :: "char \<Rightarrow> bool" where
  "is_digit c \<longleftrightarrow> char_between 48 57 c"

definition is_upper_letter :: "char \<Rightarrow> bool" where
  "is_upper_letter c \<longleftrightarrow> char_between 65 90 c \<or> (char_between 192 222 c \<and> ord c \<noteq> 215)"

definition is_lower_letter :: "char \<Rightarrow> bool" where
  "is_lower_letter c \<longleftrightarrow> char_between 97 122 c \<or> (char_between 224 254 c \<and> ord c \<noteq> 247)"

definition lower_char :: "char \<Rightarrow> char" where
  "lower_char c = (if is_upper_letter c then char_of (ord c + 32) else c)"

definition upper_char :: "char \<Rightarrow> char" where
  "upper_char c = (if is_lower_letter c then char_of (ord c - 32) else c)"

definition py_lower :: "string \<Rightarrow> string" where
  "py_lower s = map lower_char s"

definition py_lstrip :: "string \<Rightarrow> string" where
  "py_lstrip s = dropWhile is_space s"

definition py_rstrip :: "string \<Rightarrow> string" where
  "py_rstrip s = rev (dropWhile is_space (rev s))"

definition py_strip :: "string \<Rightarrow> string" where
  "py_strip s = py_rstrip (py_lstrip s)"

definition startswith :: "string \<Rightarrow> string \<Rightarrow> bool" where
  "startswith s p \<longleftrightarrow> take (length p) s = p"

fun py_join :: "string \<Rightarrow> string list \<Rightarrow> string" where
  "py_join sep [] = []"
| "py_join sep [x] = x"
| "py_join sep (x # y # xs) = x @ sep @ py_join sep (y # xs)"

text \<open>\<^verbatim>\<open>s.split(sep)\<close> for a one-character separator: always at least one piece.\<close>

fun py_split :: "char \<Rightarrow> string \<Rightarrow> string list" where
  "py_split sep [] = [[]]"
| "py_split sep (c # cs) =
     (if c = sep then [] # py_split sep cs
      else (case py_split sep cs of [] \<Rightarrow> [[c]] | w # ws \<Rightarrow> (c # w) # ws))"

text \<open>\<^verbatim>\<open>s.partition(sep)\<close> where the separator occurs: the text before and after it.\<close>

definition partition_at :: "char \<Rightarrow> string \<Rightarrow> string \<times> string" where
  "partition_at sep s = (takeWhile (\<lambda>c. c \<noteq> sep) s, tl (dropWhile (\<lambda>c. c \<noteq> sep) s))"

text \<open>\<^verbatim>\<open>str.splitlines()\<close>: the line boundaries of Python's \<^verbatim>\<open>str\<close> below code point 256.
  A carriage return followed by a line feed is one boundary; no empty last line is added.\<close>

definition is_linebreak :: "char \<Rightarrow> bool" where
  "is_linebreak c \<longleftrightarrow> char_between 10 13 c \<or> char_between 28 30 c \<or> ord c = 133"

fun splitlines_acc :: "string \<Rightarrow> string \<Rightarrow> string list" where
  "splitlines_acc acc [] = (if acc = [] then [] else [rev acc])"
| "splitlines_acc acc (c # cs) =
     (if is_linebreak c
      then rev acc # splitlines_acc [] (if ord c = 13 \<and> cs \<noteq> [] \<and> ord (hd cs) = 10 then tl cs else cs)
      else splitlines_acc (c # acc) cs)"

definition splitlines :: "string \<Rightarrow> string list" where
  "splitlines s = splitlines_acc [] s"

subsection \<open>Decimal rendering\<close>

definition digit_char :: "nat \<Rightarrow> char" where
  "digit_char d = ''0123456789abcdef'' ! d"

fun nat_str :: "nat \<Rightarrow> string" where
  "nat_str n = (if n < 10 then [digit_char n] else nat_str (n div 10) @ [digit_char (n mod 10)])"

declare nat_str.simps [simp del]

definition int_str :: "int \<Rightarrow> string" where
  "int_str i = (if i < 0 then CHR ''-'' # nat_str (nat (- i)) else nat_str (nat i))"

subsection \<open>UTF-8\<close>

text \<open>\<^verbatim>\<open>str.encode("utf-8")\<close>: one byte below code point 128, two bytes up to 255. A byte is
  a \<^typ>\<open>char\<close>.\<close>

definition utf8_char :: "char \<Rightarrow> string" where
  "utf8_char c =
     (if ord c < 128 then [c]
      else [char_of (192 + ord c div 64), char_of (128 + ord c mod 64)])"

definition utf8_encode :: "string \<Rightarrow> string" where
  "utf8_encode s = concat (map utf8_char s)"

subsection \<open>Floats\<close>

datatype pyfloat = Fin rat | PosInf | NegInf | NaN

fun isfinite :: "pyfloat \<Rightarrow> bool" where
  "isfinite (Fin _) = True"
| "isfinite _ = False"

text \<open>The comparisons are false as soon as one side is NaN.\<close>

fun float_lt :: "pyfloat \<Rightarrow> pyfloat \<Rightarrow> bool" where
  "float_lt (Fin x) (Fin y) = (x < y)"
| "float_lt (Fin _) PosInf = True"
| "float_lt NegInf (Fin _) = True"
| "float_lt NegInf PosInf = True"
| "float_lt _ _ = False"

fun float_add :: "pyfloat \<Rightarrow> pyfloat \<Rightarrow> pyfloat" where
  "float_add (Fin x) (Fin y) = Fin (x + y)"
| "float_add NaN _ = NaN"
| "float_add _ NaN = NaN"
| "float_add PosInf NegInf = NaN"
| "float_add NegInf PosInf = NaN"
| "float_add PosInf _ = PosInf"
| "float_add NegInf _ = NegInf"
| "float_add _ PosInf = PosInf"
| "float_add _ NegInf = NegInf"

subsection \<open>Generic lemmas\<close>

lemma dropWhile_id: "x \<noteq> [] \<Longrightarrow> \<not> P (hd x) \<Longrightarrow> dropWhile P x = x"
  by (cases x) auto

lemma ex_list_iff: "(\<exists>u. P u) \<longleftrightarrow> P [] \<or> (\<exists>x xs. P (x # xs))"
  by (metis list.exhaust)

lemma set_concat_if:
  "x \<in> set (concat (map (\<lambda>m. if P m then f m else []) ms)) \<longleftrightarrow> (\<exists>m \<in> set ms. P m \<and> x \<in> set (f m))"
  by (induction ms) auto

lemma py_strip_id:
  assumes "s \<noteq> []" and "\<not> is_space (hd s)" and "\<not> is_space (last s)"
  shows "py_strip s = s"
  using assms by (simp add: py_strip_def py_lstrip_def py_rstrip_def dropWhile_id hd_rev)

lemma dropWhile_hd: "dropWhile P s = c # r \<Longrightarrow> \<not> P c"
  by (metis hd_dropWhile list.distinct(1) list.sel(1))

lemma lstrip_id: "s = [] \<or> \<not> is_space (hd s) \<Longrightarrow> py_lstrip s = s"
  by (cases s) (auto simp: py_lstrip_def)

lemma strip_last: "py_strip s = [] \<or> \<not> is_space (last (py_strip s))"
proof (cases "dropWhile is_space (rev (py_lstrip s))")
  case (Cons c r)
  then have "\<not> is_space c" by (rule dropWhile_hd)
  then show ?thesis by (simp add: py_strip_def py_rstrip_def Cons)
qed (simp add: py_strip_def py_rstrip_def)

lemma strip_hd: "py_strip s = [] \<or> \<not> is_space (hd (py_strip s))"
proof (cases "py_lstrip s")
  case (Cons c r)
  then have c: "\<not> is_space c" unfolding py_lstrip_def by (rule dropWhile_hd)
  have "dropWhile is_space (rev r @ [c]) = dropWhile is_space (rev r) @ [c]"
    using c by (simp add: dropWhile_append)
  then show ?thesis using c by (simp add: py_strip_def py_rstrip_def Cons)
qed (simp add: py_strip_def py_rstrip_def)

lemma strip_strip [simp]: "py_strip (py_strip s) = py_strip s"
proof -
  have "py_lstrip (py_strip s) = py_strip s" using strip_hd by (rule lstrip_id)
  moreover have "dropWhile is_space (rev (py_strip s)) = rev (py_strip s)"
    using strip_last [of s] by (cases "py_strip s" rule: rev_cases) simp_all
  ultimately show ?thesis unfolding py_strip_def [of "py_strip s"] py_rstrip_def by simp
qed

lemma set_py_strip: "set (py_strip s) \<subseteq> set s"
  by (force simp: py_strip_def py_lstrip_def py_rstrip_def dest: set_dropWhileD)

lemma startswith_append [simp]: "startswith (p @ s) p"
  by (simp add: startswith_def)

lemma py_split_not_Nil [simp]: "py_split sep s \<noteq> []"
  by (induction s) (auto split: list.splits)

lemma py_split_no_sep: "sep \<notin> set s \<Longrightarrow> py_split sep s = [s]"
  by (induction s) auto

lemma py_split_join:
  "\<forall>x \<in> set xs. sep \<notin> set x \<Longrightarrow> xs \<noteq> [] \<Longrightarrow> py_split sep (py_join [sep] xs) = xs"
proof -
  have one: "sep \<notin> set x \<Longrightarrow> py_split sep x = [x]" for x
    by (induction x) auto
  have more: "sep \<notin> set x \<Longrightarrow> py_split sep (x @ sep # r) = x # py_split sep r" for x r
    by (induction x) auto
  show "\<forall>x \<in> set xs. sep \<notin> set x \<Longrightarrow> xs \<noteq> [] \<Longrightarrow> py_split sep (py_join [sep] xs) = xs"
    by (induction "[sep]" xs rule: py_join.induct) (auto simp: one more)
qed

text \<open>A text without a line break between its lines: joining lines with a newline and
  splitting again is the identity.\<close>

lemma splitlines_acc_line:
  "\<forall>c \<in> set l. \<not> is_linebreak c \<Longrightarrow>
   splitlines_acc acc (l @ CHR ''\<newline>'' # cs) = rev (rev l @ acc) # splitlines_acc [] cs"
  by (induction l arbitrary: acc) (auto simp: is_linebreak_def char_between_def ord_def)

lemma splitlines_lines:
  "\<forall>l \<in> set ls. \<forall>c \<in> set l. \<not> is_linebreak c \<Longrightarrow>
   splitlines (concat (map (\<lambda>l. l @ [CHR ''\<newline>'']) ls)) = ls"
  by (induction ls) (auto simp: splitlines_def splitlines_acc_line)

lemma digit_char_inj: "a < 16 \<Longrightarrow> b < 16 \<Longrightarrow> digit_char a = digit_char b \<Longrightarrow> a = b"
  unfolding digit_char_def by (subst (asm) nth_eq_iff_index_eq) auto

lemma nat_str_not_Nil [simp]: "nat_str n \<noteq> []"
  by (subst nat_str.simps) simp

lemma nat_str_chars: "c \<in> set (nat_str n) \<Longrightarrow> \<exists>d < 10. c = digit_char d"
proof (induction n rule: nat_str.induct)
  case (1 n)
  show ?case
  proof (cases "n < 10")
    case True
    with "1.prems" show ?thesis by (auto simp: nat_str.simps [of n])
  next
    case False
    with "1.prems" have "c \<in> set (nat_str (n div 10)) \<or> c = digit_char (n mod 10)"
      by (auto simp: nat_str.simps [of n])
    then show ?thesis
    proof
      assume "c \<in> set (nat_str (n div 10))"
      with False "1.IH" show ?thesis by blast
    next
      assume "c = digit_char (n mod 10)"
      then show ?thesis by (intro exI [of _ "n mod 10"]) simp
    qed
  qed
qed

lemma length_utf8_ge: "length s \<le> length (utf8_encode s)"
  by (induction s) (auto simp: utf8_encode_def utf8_char_def)

lemma utf8_encode_append [simp]: "utf8_encode (s @ t) = utf8_encode s @ utf8_encode t"
  by (simp add: utf8_encode_def)

lemma float_add_finite [simp]: "isfinite x \<Longrightarrow> isfinite y \<Longrightarrow> isfinite (float_add x y)"
  by (cases x; cases y) auto

lemma dict_delete_None [simp]: "map_of (AList.delete k d) k = None"
  by (simp add: delete_conv)

lemma dict_update_Some [simp]: "map_of (AList.update k v d) k = Some v"
  by (simp add: update_conv)

end
