(* ===== verification/PyRe.thy ===== *)
theory PyRe
  imports Prelude
begin

section \<open>Regular expressions as Python's re module runs them\<close>

text \<open>
  The fragment of \<^verbatim>\<open>re\<close> the sources use. A matching state is the character just consumed
  (none at the start of the subject) and the text still to read: that is all the zero-width
  tests of the fragment look at. \<open>ends\<close> is the backtracking matcher: the list of states a
  pattern can stop in, in the order in which \<^verbatim>\<open>re\<close> tries them, so its head is the match
  \<^verbatim>\<open>re\<close> reports. \<open>sem\<close> is the relational reading of a pattern; \<open>ends_sem\<close> shows that
  the matcher computes it, hence that \<open>re_search\<close> succeeds exactly when the pattern relates
  some position of the subject to a later one.
\<close>

type_synonym pos = "char option \<times> string"

datatype rexp =
    Eps
  | Cls "char \<Rightarrow> bool"        \<comment> \<open>one character of a class\<close>
  | Seq rexp rexp
  | Alt rexp rexp
  | Star rexp                   \<comment> \<open>greedy repetition\<close>
  | WordB                       \<comment> \<open>\<open>\b\<close>\<close>
  | AtBegin                     \<comment> \<open>\<open>^\<close>\<close>
  | AtEnd                       \<comment> \<open>\<open>$\<close>: at the end, or before a newline that ends the subject\<close>
  | NotAhead rexp               \<comment> \<open>\<open>(?!r)\<close>\<close>
  | Ahead rexp                  \<comment> \<open>\<open>(?=r)\<close>\<close>
  | NotBehind "char \<Rightarrow> bool"  \<comment> \<open>\<open>(?<![...])\<close>\<close>

text \<open>\<open>\w\<close> on code points below 256: letters, digits, the numeric signs and the underscore.\<close>

definition is_word :: "char \<Rightarrow> bool" where
  "is_word c \<longleftrightarrow> is_digit c \<or> is_upper_letter c \<or> is_lower_letter c \<or>
     ord c \<in> {95, 170, 178, 179, 181, 185, 186, 188, 189, 190, 223, 255}"

lemmas char_classes = is_word_def is_space_def is_digit_def is_upper_letter_def is_lower_letter_def
  char_between_def ord_def

lemma blank_not_word [simp]: "\<not> is_word CHR '' ''"
  by (simp add: char_classes)

lemma blank_is_space [simp]: "is_space CHR '' ''"
  by (simp add: char_classes)

definition word_before :: "pos \<Rightarrow> bool" where
  "word_before q = (case fst q of None \<Rightarrow> False | Some c \<Rightarrow> is_word c)"

definition word_after :: "pos \<Rightarrow> bool" where
  "word_after q = (case snd q of [] \<Rightarrow> False | c # _ \<Rightarrow> is_word c)"

definition at_end :: "pos \<Rightarrow> bool" where
  "at_end q \<longleftrightarrow> snd q = [] \<or> snd q = [CHR ''\<newline>'']"

definition behind :: "(char \<Rightarrow> bool) \<Rightarrow> pos \<Rightarrow> bool" where
  "behind p q = (case fst q of None \<Rightarrow> False | Some c \<Rightarrow> p c)"

function (sequential) ends :: "rexp \<Rightarrow> pos \<Rightarrow> pos list" where
  "ends Eps q = [q]"
| "ends (Cls p) q = (case snd q of [] \<Rightarrow> [] | c # cs \<Rightarrow> if p c then [(Some c, cs)] else [])"
| "ends (Seq a b) q = concat (map (ends b) (ends a q))"
| "ends (Alt a b) q = ends a q @ ends b q"
| "ends (Star a) q =
     concat (map (\<lambda>q'. if length (snd q') < length (snd q) then ends (Star a) q' else [])
       (ends a q)) @ [q]"
| "ends WordB q = (if word_before q \<noteq> word_after q then [q] else [])"
| "ends AtBegin q = (if fst q = None then [q] else [])"
| "ends AtEnd q = (if at_end q then [q] else [])"
| "ends (NotAhead a) q = (if ends a q = [] then [q] else [])"
| "ends (Ahead a) q = (if ends a q = [] then [] else [q])"
| "ends (NotBehind p) q = (if behind p q then [] else [q])"
  by pat_completeness auto
termination
  by (relation "measures [\<lambda>(r, q). size r, \<lambda>(r, q). length (snd q)]") auto

declare ends.simps(5) [simp del]

primrec sem :: "rexp \<Rightarrow> pos rel" where
  "sem Eps = Id"
| "sem (Cls p) = {((b, c # cs), (Some c, cs)) | b c cs. p c}"
| "sem (Seq a b) = sem a O sem b"
| "sem (Alt a b) = sem a \<union> sem b"
| "sem (Star a) = (sem a)\<^sup>*"
| "sem WordB = {(q, q) | q. word_before q \<noteq> word_after q}"
| "sem AtBegin = {(q, q) | q. fst q = None}"
| "sem AtEnd = {(q, q) | q. at_end q}"
| "sem (NotAhead a) = {(q, q) | q. q \<notin> Domain (sem a)}"
| "sem (Ahead a) = {(q, q) | q. q \<in> Domain (sem a)}"
| "sem (NotBehind p) = {(q, q) | q. \<not> behind p q}"

text \<open>\<open>step_to w\<close> reads \<open>w\<close>; a match never does anything but read.\<close>

definition reads :: "pos \<Rightarrow> string \<Rightarrow> pos \<Rightarrow> bool" where
  "reads q w q' \<longleftrightarrow> snd q = w @ snd q' \<and> fst q' = (if w = [] then fst q else Some (last w))"

lemma reads_Nil [simp]: "reads q [] q' \<longleftrightarrow> q = q'"
  by (cases q; cases q') (auto simp: reads_def)

lemma reads_trans: "reads q v q' \<Longrightarrow> reads q' w q'' \<Longrightarrow> reads q (v @ w) q''"
  by (auto simp: reads_def)

lemma sem_reads: "(q, q') \<in> sem r \<Longrightarrow> \<exists>w. reads q w q'"
proof (induction r arbitrary: q q')
  case (Cls p)
  then obtain b c cs where "q = (b, c # cs)" "q' = (Some c, cs)" by auto
  then have "reads q [c] q'" by (simp add: reads_def)
  then show ?case ..
next
  case (Seq a b)
  then obtain q1 where "(q, q1) \<in> sem a" "(q1, q') \<in> sem b" by auto
  with Seq.IH obtain v w where "reads q v q1" "reads q1 w q'" by blast
  then show ?case by (blast intro: reads_trans)
next
  case (Alt a b)
  from Alt.prems have "(q, q') \<in> sem a \<or> (q, q') \<in> sem b" by simp
  with Alt.IH show ?case by blast
next
  case (Star a)
  from Star.prems have "(q, q') \<in> (sem a)\<^sup>*" by simp
  then show ?case
  proof (induction rule: rtrancl_induct)
    case base
    have "reads q [] q" by simp
    then show ?case ..
  next
    case (step y z)
    with Star.IH show ?case by (blast intro: reads_trans)
  qed
qed (auto intro: exI [of _ "[]"])

lemma sem_length: "(q, q') \<in> sem r \<Longrightarrow> length (snd q') \<le> length (snd q)"
  by (drule sem_reads) (auto simp: reads_def)

lemma sem_same_length: "(q, q') \<in> sem r \<Longrightarrow> length (snd q') = length (snd q) \<Longrightarrow> q' = q"
  by (drule sem_reads) (auto simp: reads_def prod_eq_iff)

lemma sem_star_unfold:
  "(q, q') \<in> (sem r)\<^sup>* \<longleftrightarrow>
   q' = q \<or> (\<exists>m. (q, m) \<in> sem r \<and> length (snd m) < length (snd q) \<and> (m, q') \<in> (sem r)\<^sup>*)"
  (is "?l \<longleftrightarrow> ?r")
proof
  assume ?l
  then show ?r
  proof (induction rule: converse_rtrancl_induct)
    case base
    then show ?case by simp
  next
    case (step y z)
    show ?case
    proof (cases "length (snd z) < length (snd y)")
      case True
      with step.hyps show ?thesis by blast
    next
      case False
      with step.hyps(1) have "z = y"
        using sem_length sem_same_length by (meson le_neq_implies_less)
      with step.IH show ?thesis by simp
    qed
  qed
next
  assume ?r
  then show ?l by (auto intro: converse_rtrancl_into_rtrancl)
qed

theorem ends_sem: "set (ends r q) = sem r `` {q}"
proof (induction r q rule: ends.induct)
  case (2 p q)
  then show ?case by (cases q) (auto split: list.splits)
next
  case (3 a b q)
  have "q1 \<in> set (ends a q) \<Longrightarrow> set (ends b q1) = sem b `` {q1}" for q1
    using "3.IH"(2) by blast
  with "3.IH"(1) show ?case by auto
next
  case (5 a q)
  have step: "(q, m) \<in> sem a \<longleftrightarrow> m \<in> set (ends a q)" for m
    using "5.IH"(1) by auto
  have star: "(m, q') \<in> (sem a)\<^sup>* \<longleftrightarrow> q' \<in> set (ends (Star a) m)"
    if "m \<in> set (ends a q)" "length (snd m) < length (snd q)" for m q'
    using "5.IH"(2) [OF that] by simp
  have "q' \<in> set (ends (Star a) q) \<longleftrightarrow> q' = q \<or>
    (\<exists>m \<in> set (ends a q). length (snd m) < length (snd q) \<and> q' \<in> set (ends (Star a) m))" for q'
    unfolding ends.simps(5) [of a q] set_append Un_iff set_concat_if by auto
  also have "\<dots> q' \<longleftrightarrow> (q, q') \<in> (sem a)\<^sup>*" for q'
    unfolding sem_star_unfold [of q q' a] step using star by blast
  finally show ?case by auto
next
  case (9 a q)
  then show ?case by (auto simp: Image_singleton simp flip: set_empty)
next
  case (10 a q)
  then show ?case by (auto simp: Image_singleton simp flip: set_empty)
qed auto

subsection \<open>Searching\<close>

text \<open>\<^verbatim>\<open>pattern.match(s)\<close> anchors at the start, \<^verbatim>\<open>pattern.search(s)\<close> tries every position.\<close>

definition re_match :: "rexp \<Rightarrow> string \<Rightarrow> bool" where
  "re_match r s \<longleftrightarrow> ends r (None, s) \<noteq> []"

fun search_from :: "rexp \<Rightarrow> char option \<Rightarrow> string \<Rightarrow> bool" where
  "search_from r b [] = (ends r (b, []) \<noteq> [])"
| "search_from r b (c # cs) = (ends r (b, c # cs) \<noteq> [] \<or> search_from r (Some c) cs)"

definition re_search :: "rexp \<Rightarrow> string \<Rightarrow> bool" where
  "re_search r s = search_from r None s"

definition last_opt :: "string \<Rightarrow> char option" where
  "last_opt s = (if s = [] then None else Some (last s))"

lemma ends_not_Nil: "ends r q \<noteq> [] \<longleftrightarrow> (\<exists>q'. (q, q') \<in> sem r)"
proof -
  have "ends r q \<noteq> [] \<longleftrightarrow> sem r `` {q} \<noteq> {}"
    by (metis ends_sem set_empty)
  then show ?thesis by auto
qed

lemma search_from_iff:
  "search_from r b s \<longleftrightarrow>
   (\<exists>u v q'. s = u @ v \<and> (((if u = [] then b else Some (last u)), v), q') \<in> sem r)"
proof (induction r b s rule: search_from.induct)
  case (1 r b)
  then show ?case by (simp add: ends_not_Nil)
next
  case (2 r b c cs)
  have "search_from r (Some c) cs \<longleftrightarrow>
    (\<exists>u v q'. cs = u @ v \<and> ((Some (last (c # u)), v), q') \<in> sem r)"
    by (simp only: "2.IH" last.simps if_distrib [of Some])
  then have "search_from r b (c # cs) \<longleftrightarrow> (\<exists>q'. ((b, c # cs), q') \<in> sem r) \<or>
    (\<exists>u v q'. cs = u @ v \<and> ((Some (last (c # u)), v), q') \<in> sem r)"
    by (simp add: ends_not_Nil)
  also have "\<dots> \<longleftrightarrow>
    (\<exists>u v q'. c # cs = u @ v \<and> (((if u = [] then b else Some (last u)), v), q') \<in> sem r)"
    by (subst (3) ex_list_iff) simp
  finally show ?case .
qed

theorem re_search_iff:
  "re_search r s \<longleftrightarrow> (\<exists>u v q'. s = u @ v \<and> ((last_opt u, v), q') \<in> sem r)"
  by (simp add: re_search_def search_from_iff last_opt_def)

lemma re_searchI:
  assumes "s = u @ v" and "((last_opt u, v), q') \<in> sem r"
  shows "re_search r s"
  using assms re_search_iff by blast

subsection \<open>Pattern building\<close>

text \<open>\<^verbatim>\<open>re.IGNORECASE\<close> lets a class match a character whose other case is in it.\<close>

definition ic :: "(char \<Rightarrow> bool) \<Rightarrow> char \<Rightarrow> bool" where
  "ic p c \<longleftrightarrow> p c \<or> p (lower_char c) \<or> p (upper_char c)"

primrec seqs :: "rexp list \<Rightarrow> rexp" where
  "seqs [] = Eps"
| "seqs (r # rs) = (if rs = [] then r else Seq r (seqs rs))"

fun alts :: "rexp list \<Rightarrow> rexp" where
  "alts [] = NotAhead Eps"
| "alts [r] = r"
| "alts (r # rs) = Alt r (alts rs)"

definition lit :: "string \<Rightarrow> rexp" where
  "lit w = seqs (map (\<lambda>x. Cls (\<lambda>c. c = x)) w)"

definition lit_ic :: "string \<Rightarrow> rexp" where
  "lit_ic w = seqs (map (\<lambda>x. Cls (ic (\<lambda>c. c = x))) w)"

definition opt :: "rexp \<Rightarrow> rexp" where
  "opt r = Alt r Eps"

definition many1 :: "rexp \<Rightarrow> rexp" where
  "many1 r = Seq r (Star r)"

primrec rep :: "nat \<Rightarrow> rexp \<Rightarrow> rexp" where
  "rep 0 r = Eps"
| "rep (Suc n) r = Seq r (rep n r)"

primrec rep_upto :: "nat \<Rightarrow> rexp \<Rightarrow> rexp" where
  "rep_upto 0 r = Eps"
| "rep_upto (Suc n) r = opt (Seq r (rep_upto n r))"

definition rep_min :: "nat \<Rightarrow> rexp \<Rightarrow> rexp" where
  "rep_min n r = Seq (rep n r) (Star r)"

definition space :: rexp where
  "space = Cls is_space"

definition spaces :: rexp where
  "spaces = Star space"

definition spaces1 :: rexp where
  "spaces1 = many1 space"

definition not_newline :: rexp where
  "not_newline = Star (Cls (\<lambda>c. c \<noteq> CHR ''\<newline>''))"

definition among :: "string \<Rightarrow> char \<Rightarrow> bool" where
  "among w c \<longleftrightarrow> c \<in> set w"

definition az :: "char \<Rightarrow> bool" where
  "az = char_between 97 122"

definition AZ :: "char \<Rightarrow> bool" where
  "AZ = char_between 65 90"

definition alnum :: "char \<Rightarrow> bool" where
  "alnum c \<longleftrightarrow> az c \<or> AZ c \<or> is_digit c"

subsection \<open>Reading off a match\<close>

text \<open>\<open>after b w\<close> is what a position behind \<open>w\<close> sees to its left.\<close>

definition after :: "char option \<Rightarrow> string \<Rightarrow> char option" where
  "after b w = (if w = [] then b else Some (last w))"

lemma after_Nil [simp]: "after b [] = b"
  by (simp add: after_def)

lemma after_append: "after (after b v) w = after b (v @ w)"
  by (simp add: after_def)

lemma after_last_opt: "after (last_opt v) w = last_opt (v @ w)"
  by (simp add: after_def last_opt_def)

lemma sem_Cls_iff [simp]:
  "((b, s), q) \<in> sem (Cls p) \<longleftrightarrow> (\<exists>c cs. s = c # cs \<and> p c \<and> q = (Some c, cs))"
  by auto

declare sem.simps(2) [simp del]

lemma sem_star_class:
  "\<forall>c \<in> set w. p c \<Longrightarrow> ((b, w @ v), (after b w, v)) \<in> (sem (Cls p))\<^sup>*"
proof (induction w arbitrary: b)
  case Nil
  then show ?case by simp
next
  case (Cons c w)
  have "((b, (c # w) @ v), (Some c, w @ v)) \<in> sem (Cls p)"
    using Cons.prems by simp
  moreover have "((Some c, w @ v), (after (Some c) w, v)) \<in> (sem (Cls p))\<^sup>*"
    using Cons by simp
  moreover have "after (Some c) w = after b (c # w)"
    by (simp add: after_def)
  ultimately show ?case by (metis converse_rtrancl_into_rtrancl)
qed

lemma sem_many1_class:
  assumes "\<forall>c \<in> set w. p c" and "w \<noteq> []"
  shows "((b, w @ v), (after b w, v)) \<in> sem (many1 (Cls p))"
proof -
  obtain c cs where w: "w = c # cs" using assms(2) by (cases w) auto
  have "((b, w @ v), (Some c, cs @ v)) \<in> sem (Cls p)"
    using assms(1) w by simp
  moreover have "((Some c, cs @ v), (after (Some c) cs, v)) \<in> (sem (Cls p))\<^sup>*"
    using assms(1) w by (intro sem_star_class) simp
  moreover have "after (Some c) cs = after b w"
    by (simp add: w after_def)
  ultimately show ?thesis by (auto simp: many1_def)
qed

text \<open>A literal, with or without regard to case.\<close>

definition same_ic :: "string \<Rightarrow> string \<Rightarrow> bool" where
  "same_ic w x \<longleftrightarrow> list_all2 (\<lambda>a c. ic (\<lambda>d. d = a) c) w x"

lemma same_ic_refl [simp]: "same_ic w w"
  by (auto simp: same_ic_def ic_def list_all2_same)

lemma same_ic_Nil [simp]: "same_ic [] x \<longleftrightarrow> x = []"
  by (simp add: same_ic_def)

lemma same_ic_length: "same_ic w x \<Longrightarrow> length w = length x"
  by (auto simp: same_ic_def dest: list_all2_lengthD)

lemma seqs_NilI: "(q, q) \<in> sem (seqs [])"
  by simp

lemma seqs_ConsI: "(q, m) \<in> sem r \<Longrightarrow> (m, q') \<in> sem (seqs rs) \<Longrightarrow> (q, q') \<in> sem (seqs (r # rs))"
  by auto

lemma sem_seqs_Cons [simp]: "sem (seqs (r # rs)) = sem r O sem (seqs rs)"
  by auto

lemma sem_lit_ic: "same_ic w x \<Longrightarrow> ((b, x @ v), (after b x, v)) \<in> sem (lit_ic w)"
proof (induction w arbitrary: x b)
  case Nil
  then show ?case by (simp add: lit_ic_def)
next
  case (Cons a w)
  then obtain c y where x: "x = c # y" and c: "ic (\<lambda>d. d = a) c" and y: "same_ic w y"
    by (auto simp: same_ic_def list_all2_Cons1)
  have "((b, x @ v), (Some c, y @ v)) \<in> sem (Cls (ic (\<lambda>d. d = a)))"
    using x c by simp
  moreover have "((Some c, y @ v), (after (Some c) y, v)) \<in> sem (lit_ic w)"
    using y by (rule Cons.IH)
  moreover have "after (Some c) y = after b x"
    by (simp add: x after_def)
  ultimately show ?case
    by (auto simp: lit_ic_def simp del: seqs.simps)
qed

lemma sem_lit: "((b, w @ v), (after b w, v)) \<in> sem (lit w)"
proof (induction w arbitrary: b)
  case Nil
  then show ?case by (simp add: lit_def)
next
  case (Cons a w)
  have "((b, (a # w) @ v), (Some a, w @ v)) \<in> sem (Cls (\<lambda>c. c = a))" by simp
  moreover have "((Some a, w @ v), (after (Some a) w, v)) \<in> sem (lit w)" by (rule Cons.IH)
  moreover have "after (Some a) w = after b (a # w)" by (simp add: after_def)
  ultimately show ?case by (auto simp: lit_def simp del: seqs.simps)
qed

text \<open>Word boundaries.\<close>

definition boundary_left :: "string \<Rightarrow> bool" where
  "boundary_left u \<longleftrightarrow> u = [] \<or> \<not> is_word (last u)"

definition boundary_right :: "string \<Rightarrow> bool" where
  "boundary_right v \<longleftrightarrow> v = [] \<or> \<not> is_word (hd v)"

lemma wordb_left:
  "boundary_left u \<Longrightarrow> x \<noteq> [] \<Longrightarrow> is_word (hd x) \<Longrightarrow>
   ((last_opt u, x @ v), (last_opt u, x @ v)) \<in> sem WordB"
  by (cases x) (auto simp: boundary_left_def last_opt_def word_before_def word_after_def)

lemma wordb_right:
  "boundary_right v \<Longrightarrow> x \<noteq> [] \<Longrightarrow> is_word (last x) \<Longrightarrow>
   ((last_opt (u @ x), v), (last_opt (u @ x), v)) \<in> sem WordB"
  by (cases v) (auto simp: boundary_right_def last_opt_def word_before_def word_after_def)

end
