(* ===== verification/Patterns.thy ===== *)
theory Patterns
  imports PyRe
begin

section \<open>Classification patterns (execution/patterns.py)\<close>

text \<open>
  The authority tiers and the pattern sets that give a command its blast radius. A pattern of
  the deny list is kept with its source text, which the refusal quotes; the text writes a
  tilde for the backslash (\<open>bs\<close> puts it back). The theorems show what the sets guarantee for
  whole families of commands: a privilege cue anywhere floors the tier at T2, a recursive delete
  of the root is on the deny list in any spelling of the command around it, and the four sets are
  consulted from the highest tier down.
\<close>

definition PATTERNS_VERSION :: int where
  "PATTERNS_VERSION = 4"

datatype tier = T0 | T1 | T2 | T3

fun tier_num :: "tier \<Rightarrow> nat" where
  "tier_num T0 = 0"
| "tier_num T1 = 1"
| "tier_num T2 = 2"
| "tier_num T3 = 3"

instantiation tier :: linorder
begin

definition less_eq_tier :: "tier \<Rightarrow> tier \<Rightarrow> bool" where
  "less_eq_tier a b \<longleftrightarrow> tier_num a \<le> tier_num b"

definition less_tier :: "tier \<Rightarrow> tier \<Rightarrow> bool" where
  "less_tier a b \<longleftrightarrow> tier_num a < tier_num b"

instance
proof
  fix x y z :: tier
  show "x < y \<longleftrightarrow> x \<le> y \<and> \<not> y \<le> x"
    by (auto simp: less_eq_tier_def less_tier_def)
  show "x \<le> x"
    by (simp add: less_eq_tier_def)
  show "x \<le> y \<Longrightarrow> y \<le> z \<Longrightarrow> x \<le> z"
    by (simp add: less_eq_tier_def)
  show "x \<le> y \<Longrightarrow> y \<le> x \<Longrightarrow> x = y"
    by (cases x; cases y) (simp_all add: less_eq_tier_def)
  show "x \<le> y \<or> y \<le> x"
    by (auto simp: less_eq_tier_def)
qed

end

lemmas tier_order = less_eq_tier_def less_tier_def

lemma tier_T0_le [simp]: "T0 \<le> t"
  by (cases t) (simp_all add: tier_order)

lemma tier_le_T3 [simp]: "t \<le> T3"
  by (cases t) (simp_all add: tier_order)

lemma tier_ge_T1_iff: "T1 \<le> t \<longleftrightarrow> t \<noteq> T0"
  by (cases t) (simp_all add: tier_order)

lemma tier_ge_T3_iff: "T3 \<le> t \<longleftrightarrow> t = T3"
  by (cases t) (simp_all add: tier_order)

lemma tier_gt_T0_iff: "T0 < t \<longleftrightarrow> t \<noteq> T0"
  by (cases t) (simp_all add: tier_order)

fun label :: "tier \<Rightarrow> string" where
  "label T0 = ''T0''"
| "label T1 = ''T1''"
| "label T2 = ''T2''"
| "label T3 = ''T3''"

subsection \<open>The pattern sets\<close>

definition bs :: "string \<Rightarrow> string" where
  "bs = map (\<lambda>c. if c = CHR ''~'' then CHR 0x5C else c)"

definition words :: "string list \<Rightarrow> rexp" where
  "words ws = alts (map lit_ic ws)"

definition word :: "string \<Rightarrow> rexp" where
  "word w = seqs [WordB, lit_ic w, WordB]"

definition word_of :: "string list \<Rightarrow> rexp" where
  "word_of ws = seqs [WordB, words ws, WordB]"

definition letters :: rexp where
  "letters = Star (Cls (ic az))"

definition flag_with :: "string \<Rightarrow> rexp" where
  "flag_with x = seqs [lit ''-'', letters, lit_ic x, letters, spaces1]"

definition root_path :: rexp where
  "root_path = seqs [lit ''/'', Star (Cls (among ''/.*'')), spaces, Alt AtEnd space]"

definition end_of_options :: rexp where
  "end_of_options = opt (seqs [lit ''--'', spaces1])"

definition disk :: rexp where
  "disk = seqs [lit_ic ''/dev/'', words [''sd'', ''nvme'', ''vd'', ''hd'']]"

definition mkfs :: rexp where
  "mkfs = seqs [WordB, lit_ic ''mkfs'', opt (seqs [lit ''.'', many1 (Cls is_word)]), WordB]"

definition DENY :: "(string \<times> rexp) list" where
  "DENY =
   [(bs ''~brm~s+(-[a-z]*r[a-z]*~s+)?(-[a-z]*f[a-z]*~s+)?(--~s+)?/[/.*]*~s*($|~s)'',
     seqs [WordB, lit_ic ''rm'', spaces1, opt (flag_with ''r''), opt (flag_with ''f''),
           end_of_options, root_path]),
    (bs ''~brm~s+-[a-z]+~s+(--~s+)?/[/.*]*~s*($|~s)'',
     seqs [WordB, lit_ic ''rm'', spaces1, lit ''-'', many1 (Cls (ic az)), spaces1,
           end_of_options, root_path]),
    (bs '':~s*~(~s*~)~s*~{~s*:~s*~|~s*:~s*&~s*~}~s*;~s*:'',
     seqs [lit '':'', spaces, lit ''('', spaces, lit '')'', spaces, lit ''{'', spaces, lit '':'',
           spaces, lit ''|'', spaces, lit '':'', spaces, lit ''&'', spaces, lit ''}'', spaces,
           lit '';'', spaces, lit '':'']),
    (bs ''~bmkfs(~.~w+)?~b.*/dev/(sd|nvme|vd|hd)'',
     seqs [mkfs, not_newline, disk]),
    (bs ''~bdd~b[^~n]*~bof=/dev/(sd|nvme|vd|hd)'',
     seqs [word ''dd'', not_newline, WordB, lit_ic ''of='', disk]),
    (bs ''~bwipefs~b.*/dev/'',
     seqs [word ''wipefs'', not_newline, lit_ic ''/dev/'']),
    (bs ''>~s*/dev/(sd|nvme|vd|hd)~w*'',
     seqs [lit ''>'', spaces, disk, Star (Cls is_word)]),
    (bs ''~b(chmod|chown)~b[^~n]*-[a-zA-Z]*R[a-zA-Z]*[^~n]*~s/~s*($|~s)'',
     seqs [word_of [''chmod'', ''chown''], not_newline, lit ''-'', letters, lit_ic ''R'', letters,
           not_newline, space, lit ''/'', spaces, Alt AtEnd space]),
    (bs ''~bgit~b.*~bpush~b.*--force.*~b(main|master)~b'',
     seqs [word ''git'', not_newline, word ''push'', not_newline, lit_ic ''--force'', not_newline,
           word_of [''main'', ''master'']])]"

definition PRIV_ESCALATION :: "rexp list" where
  "PRIV_ESCALATION =
   [word ''sudo'', word ''doas'', word ''pkexec'',
    seqs [WordB, lit_ic ''su'', spaces1, lit ''-''],
    word ''runas'']"

definition sql_name :: rexp where
  "sql_name = many1 (Cls (\<lambda>c. is_word c \<or> among [CHR ''.'', CHR 0x22, CHR 0x60] c))"

definition no_where :: rexp where
  "no_where = NotAhead (seqs [Star (Cls (\<lambda>c. \<not> among [CHR ''\<newline>'', CHR '';''] c)), word ''WHERE''])"

definition TIER3 :: "rexp list" where
  "TIER3 =
   [seqs [WordB, lit_ic ''rm'', spaces1, lit ''-'', letters, lit_ic ''r''],
    mkfs,
    seqs [word ''dd'', not_newline, WordB, lit_ic ''of=''],
    word_of [''shutdown'', ''poweroff'', ''halt'', ''reboot''],
    seqs [word ''talosctl'', not_newline, word_of [''reset'', ''upgrade'', ''bootstrap'', ''wipe'']],
    seqs [word_of [''tofu'', ''terraform''], not_newline, word ''destroy''],
    seqs [WordB, lit_ic ''DROP'', spaces1, words [''TABLE'', ''DATABASE'', ''SCHEMA''], WordB],
    seqs [WordB, lit_ic ''TRUNCATE'', spaces1, lit_ic ''TABLE'', WordB],
    word_of [''userdel'', ''groupdel''],
    word_of [''lvremove'', ''vgremove'', ''pvremove''],
    seqs [word ''redfish'', not_newline, word_of [''reset'', ''poweroff'', ''forceoff'']],
    seqs [word ''ipmitool'', not_newline, WordB, lit_ic ''chassis'', spaces1, lit_ic ''power'',
          spaces1, words [''off'', ''cycle'', ''reset''], WordB],
    seqs [word ''find'', not_newline, space, lit_ic ''-delete'', WordB],
    seqs [word ''iptables'', not_newline, space, words [''-F'', ''--flush''], WordB],
    seqs [word ''nft'', not_newline, WordB, lit_ic ''flush'', spaces1, lit_ic ''ruleset'', WordB],
    seqs [WordB, lit_ic ''DELETE'', spaces1, lit_ic ''FROM'', spaces1, sql_name, no_where],
    seqs [WordB, lit_ic ''UPDATE'', spaces1, sql_name, spaces1, lit_ic ''SET'', WordB, no_where],
    seqs [word ''Remove-Item'', not_newline, lit_ic ''-Recurse'', WordB],
    word ''Format-Volume'',
    seqs [WordB, words [''Stop'', ''Restart''], lit_ic ''-Computer'', WordB],
    seqs [lit ''>'', opt (lit ''>''), spaces, Star (Cls (\<lambda>c. \<not> is_space c)),
          lit_ic ''authorized_keys'', WordB],
    seqs [word ''tee'', not_newline, lit_ic ''authorized_keys'', WordB],
    word ''ssh-copy-id'']"

definition TIER2 :: "rexp list" where
  "TIER2 =
   [seqs [WordB, lit_ic ''systemctl'', spaces1,
          words [''start'', ''stop'', ''restart'', ''reload'', ''enable'', ''disable'', ''mask''], WordB],
    seqs [WordB, words [''apt'', ''apt-get'', ''dnf'', ''yum'', ''zypper'', ''pacman''], spaces1,
          words [''install'', ''remove'', ''purge'', ''upgrade''], WordB],
    seqs [WordB, lit_ic ''pip'', spaces1, words [''install'', ''uninstall''], WordB],
    seqs [word_of [''tofu'', ''terraform''], not_newline, word ''apply''],
    seqs [word ''ansible-playbook'', NotAhead (seqs [not_newline, lit_ic ''--check''])],
    seqs [WordB, words [''docker'', ''podman''], spaces1,
          words [''run'', ''rm'', ''stop'', ''kill'', ''restart''], WordB],
    seqs [WordB, lit_ic ''kubectl'', spaces1,
          words [''apply'', ''delete'', ''scale'', ''rollout'', ''patch'', ''edit'', ''drain'',
                 ''cordon'', ''uncordon''], WordB],
    seqs [word ''talosctl'', not_newline, word ''apply-config''],
    word_of [''kill'', ''pkill'', ''killall''],
    word_of [''mount'', ''umount''],
    seqs [word_of [''iptables'', ''nft'', ''ufw'', ''firewall-cmd''], not_newline,
          word_of [''add'', ''insert'', ''delete'', ''deny'', ''allow'', ''drop'', ''reject'']],
    word_of [''useradd'', ''usermod'', ''groupadd'', ''passwd''],
    seqs [word ''git'', not_newline, word ''push''],
    seqs [word_of [''cp'', ''mv'', ''tee'', ''truncate'', ''chmod'', ''chown'', ''ln''], not_newline,
          lit_ic ''/etc/''],
    seqs [lit ''>'', spaces, lit_ic ''/etc/'', WordB]]"

definition TIER1 :: "rexp list" where
  "TIER1 =
   [word_of [''touch'', ''mkdir''],
    seqs [word ''echo'', not_newline, lit ''>''],
    seqs [word ''git'', not_newline, word_of [''add'', ''commit'', ''checkout'', ''switch'', ''stash'']],
    seqs [WordB, words [''docker'', ''podman''], spaces1, words [''pull'', ''build'', ''tag''], WordB]]"

subsection \<open>The operations\<close>

fun deny_search :: "(string \<times> rexp) list \<Rightarrow> string \<Rightarrow> string option" where
  "deny_search [] command = None"
| "deny_search (p # ps) command =
     (if re_search (snd p) command then Some (fst p) else deny_search ps command)"

definition deny_match :: "string \<Rightarrow> string option" where
  "deny_match command = deny_search DENY command"

definition any_match :: "rexp list \<Rightarrow> string \<Rightarrow> bool" where
  "any_match patterns command = list_ex (\<lambda>p. re_search p command) patterns"

definition command_tier :: "string \<Rightarrow> tier" where
  "command_tier command =
     (let tier = (if any_match TIER3 command then T3
                  else if any_match TIER2 command then T2
                  else if any_match TIER1 command then T1
                  else T0)
      in if any_match PRIV_ESCALATION command then max tier T2 else tier)"

subsection \<open>What the sets guarantee\<close>

lemma deny_search_iff: "deny_search ps command \<noteq> None \<longleftrightarrow> (\<exists>p \<in> set ps. re_search (snd p) command)"
  by (induction ps) auto

lemma deny_match_iff: "deny_match command \<noteq> None \<longleftrightarrow> (\<exists>p \<in> set DENY. re_search (snd p) command)"
  by (simp only: deny_match_def deny_search_iff)

lemma command_tier_priv: "any_match PRIV_ESCALATION command \<Longrightarrow> T2 \<le> command_tier command"
  by (simp add: command_tier_def Let_def)

lemma command_tier_T3_iff: "command_tier command = T3 \<longleftrightarrow> any_match TIER3 command"
  by (auto simp: command_tier_def Let_def max_def tier_order)

lemma command_tier_ge_T2_iff:
  "T2 \<le> command_tier command \<longleftrightarrow>
   any_match TIER3 command \<or> any_match TIER2 command \<or> any_match PRIV_ESCALATION command"
  by (auto simp: command_tier_def Let_def max_def tier_order)

lemma command_tier_T0_iff:
  "command_tier command = T0 \<longleftrightarrow>
   \<not> any_match TIER3 command \<and> \<not> any_match TIER2 command \<and> \<not> any_match TIER1 command \<and>
   \<not> any_match PRIV_ESCALATION command"
  by (auto simp: command_tier_def Let_def max_def tier_order)

lemma word_search:
  assumes "boundary_left u" and "boundary_right v" and "same_ic w x"
    and "x \<noteq> []" and "is_word (hd x)" and "is_word (last x)"
  shows "re_search (word w) (u @ x @ v)"
proof (rule re_searchI)
  have 1: "((last_opt u, x @ v), (last_opt u, x @ v)) \<in> sem WordB"
    using assms by (intro wordb_left)
  have 2: "((last_opt u, x @ v), (last_opt (u @ x), v)) \<in> sem (lit_ic w)"
    using sem_lit_ic [OF assms(3), of "last_opt u" v] by (simp only: after_last_opt)
  have 3: "((last_opt (u @ x), v), (last_opt (u @ x), v)) \<in> sem WordB"
    using assms by (intro wordb_right)
  show "((last_opt u, x @ v), (last_opt (u @ x), v)) \<in> sem (word w)"
    unfolding word_def by (rule seqs_ConsI [OF 1 seqs_ConsI [OF 2 seqs_ConsI [OF 3 seqs_NilI]]])
qed simp

text \<open>The privilege cues that are words.\<close>

definition priv_words :: "string list" where
  "priv_words = [''sudo'', ''doas'', ''pkexec'', ''runas'']"

lemma priv_words_search:
  assumes "w \<in> set priv_words" and "boundary_left u" and "boundary_right v"
    and "same_ic w x" and "is_word (hd x)" and "is_word (last x)"
  shows "any_match PRIV_ESCALATION (u @ x @ v)"
proof -
  have "x \<noteq> []"
    using assms(1) same_ic_length [OF assms(4)] by (auto simp: priv_words_def)
  with assms have "re_search (word w) (u @ x @ v)"
    by (intro word_search)
  with assms(1) show ?thesis
    by (auto simp: any_match_def PRIV_ESCALATION_def priv_words_def)
qed

text \<open>A recursive or forced delete of the root: \<^verbatim>\<open>rm\<close>, some option letters, a path of
  slashes, dots and stars rooted at \<^verbatim>\<open>/\<close>, and then the end of the word.\<close>

lemma rm_is_word: "is_word (hd ''rm'')" "is_word (last ''rm'')"
  by (simp_all add: char_classes)

lemma root_path_sem:
  assumes "\<forall>c \<in> set path. among ''/.*'' c" and "v = [] \<or> is_space (hd v)"
  shows "\<exists>q. ((b, ''/'' @ path @ v), q) \<in> sem root_path"
proof -
  let ?m = "after (after b ''/'') path"
  have 1: "((b, ''/'' @ path @ v), (after b ''/'', path @ v)) \<in> sem (lit ''/'')"
    by (rule sem_lit)
  have 2: "((after b ''/'', path @ v), (?m, v)) \<in> sem (Star (Cls (among ''/.*'')))"
    unfolding sem.simps(5) using assms(1) by (rule sem_star_class)
  have 3: "((?m, v), (?m, v)) \<in> sem spaces"
    by (simp add: spaces_def)
  obtain q where 4: "((?m, v), q) \<in> sem (Alt AtEnd space)"
    using assms(2) by (cases v) (auto simp: at_end_def space_def)
  show ?thesis
    unfolding root_path_def
    by (rule exI) (rule seqs_ConsI [OF 1 seqs_ConsI [OF 2 seqs_ConsI [OF 3 seqs_ConsI [OF 4 seqs_NilI]]]])
qed

lemma rm_root_denied:
  assumes "boundary_left u" and "\<forall>c \<in> set s1. is_space c" and "s1 \<noteq> []"
    and "\<forall>c \<in> set flags. ic az c" and "flags \<noteq> []"
    and "\<forall>c \<in> set s2. is_space c" and "s2 \<noteq> []"
    and "\<forall>c \<in> set path. among ''/.*'' c" and "v = [] \<or> is_space (hd v)"
  shows "deny_match (u @ ''rm'' @ s1 @ ''-'' @ flags @ s2 @ ''/'' @ path @ v) \<noteq> None"
proof -
  let ?r = "seqs [WordB, lit_ic ''rm'', spaces1, lit ''-'', many1 (Cls (ic az)), spaces1,
    end_of_options, root_path]"
  let ?s = "s1 @ ''-'' @ flags @ s2 @ ''/'' @ path @ v"
  have 1: "((last_opt u, ''rm'' @ ?s), (last_opt u, ''rm'' @ ?s)) \<in> sem WordB"
    using assms(1) rm_is_word by (intro wordb_left) auto
  have 2: "((last_opt u, ''rm'' @ ?s), (after (last_opt u) ''rm'', ?s)) \<in> sem (lit_ic ''rm'')"
    by (rule sem_lit_ic) simp
  have 3: "((b, w @ t), (after b w, t)) \<in> sem spaces1" if "\<forall>c \<in> set w. is_space c" "w \<noteq> []" for b w t
    using sem_many1_class [OF that] by (simp add: spaces1_def space_def)
  have 4: "(q, q) \<in> sem end_of_options" for q
    by (simp add: end_of_options_def opt_def)
  obtain b where 5: "((b, flags @ s2 @ ''/'' @ path @ v), (after b flags, s2 @ ''/'' @ path @ v))
      \<in> sem (many1 (Cls (ic az)))" and
    b: "b = after (after (after (last_opt u) ''rm'') s1) ''-''"
    using sem_many1_class [OF assms(4,5)] by blast
  obtain q where 6: "((after (after b flags) s2, ''/'' @ path @ v), q) \<in> sem root_path"
    using root_path_sem [OF assms(8,9)] by blast
  have "((last_opt u, ''rm'' @ ?s), q) \<in> sem ?r"
    by (rule seqs_ConsI [OF 1 seqs_ConsI [OF 2 seqs_ConsI [OF 3 [OF assms(2,3)]
      seqs_ConsI [OF sem_lit seqs_ConsI [OF 5 [unfolded b] seqs_ConsI [OF 3 [OF assms(6,7)]
      seqs_ConsI [OF 4 seqs_ConsI [OF 6 [unfolded b] seqs_NilI]]]]]]]])
  then have "re_search ?r (u @ ''rm'' @ ?s)"
    using re_searchI by blast
  then show ?thesis
    unfolding deny_match_iff by (intro bexI [of _ "DENY ! 1"]) (simp_all add: DENY_def)
qed

end
