(* ===== verification/Policy.thy ===== *)
theory Policy
  imports Patterns
begin

section \<open>Tier classification and the deny-first policy gate (execution/policy.py)\<close>

text \<open>
  \<open>classify\<close> rounds the declared base tier up by the content of the probe (tool name and
  command); \<open>check\<close> is \<^verbatim>\<open>Policy.check\<close>: the deny list, then the server mode, then the
  tier gate. The theorems state the order of the gates and what an allowed decision implies.
\<close>

datatype mode = OPEN | GUARDED | READONLY

fun mode_value :: "mode \<Rightarrow> string" where
  "mode_value OPEN = ''open''"
| "mode_value GUARDED = ''guarded''"
| "mode_value READONLY = ''readonly''"

definition probe :: "string \<Rightarrow> string option \<Rightarrow> string" where
  "probe tool command =
     (case command of None \<Rightarrow> tool | Some c \<Rightarrow> if c = [] then tool else tool @ '' '' @ c)"

definition classify :: "string \<Rightarrow> string option \<Rightarrow> tier \<Rightarrow> tier" where
  "classify tool command base_tier =
     (let p = probe tool command in if p \<noteq> [] then max base_tier (command_tier p) else base_tier)"

record decision =
  d_allowed :: bool
  d_tier :: tier
  d_reason :: string
  d_requires_approval :: bool
  d_denied :: bool
  d_patterns_version :: int

definition check :: "mode \<Rightarrow> string \<Rightarrow> string option \<Rightarrow> tier \<Rightarrow> decision" where
  "check mode tool command base_tier =
     (let p = probe tool command;
          denied_by = (if p \<noteq> [] then deny_match p else None)
      in case denied_by of
        Some pattern \<Rightarrow>
          \<lparr>d_allowed = False, d_tier = T3,
           d_reason = ''denied by global deny list: '' @ pattern,
           d_requires_approval = False, d_denied = True, d_patterns_version = PATTERNS_VERSION\<rparr>
      | None \<Rightarrow>
          (let tier = classify tool command base_tier in
           if mode = READONLY \<and> T0 < tier then
             \<lparr>d_allowed = False, d_tier = tier,
              d_reason = ''mode=readonly refuses '' @ label tier,
              d_requires_approval = False, d_denied = False, d_patterns_version = PATTERNS_VERSION\<rparr>
           else if mode = GUARDED \<and> T3 \<le> tier then
             \<lparr>d_allowed = False, d_tier = tier,
              d_reason = ''mode=guarded refuses T3 (irreversible)'',
              d_requires_approval = False, d_denied = False, d_patterns_version = PATTERNS_VERSION\<rparr>
           else
             \<lparr>d_allowed = True, d_tier = tier,
              d_reason = ''allowed at '' @ label tier @ '' (mode='' @ mode_value mode @ '')'',
              d_requires_approval = (T2 \<le> tier), d_denied = False,
              d_patterns_version = PATTERNS_VERSION\<rparr>))"

text \<open>The highest tier a mode lets through.\<close>

fun mode_ceiling :: "mode \<Rightarrow> tier" where
  "mode_ceiling OPEN = T3"
| "mode_ceiling GUARDED = T2"
| "mode_ceiling READONLY = T0"

definition on_deny_list :: "string \<Rightarrow> string option \<Rightarrow> bool" where
  "on_deny_list tool command \<longleftrightarrow> probe tool command \<noteq> [] \<and> deny_match (probe tool command) \<noteq> None"

lemma probe_Some: "c \<noteq> [] \<Longrightarrow> probe tool (Some c) = tool @ '' '' @ c"
  by (simp add: probe_def)

lemma classify_ge_base: "base_tier \<le> classify tool command base_tier"
  by (simp add: classify_def Let_def)

lemma classify_ge_content: "probe tool command \<noteq> [] \<Longrightarrow>
  command_tier (probe tool command) \<le> classify tool command base_tier"
  by (simp add: classify_def Let_def)

lemma check_denied [guard_simps]:
  "on_deny_list tool command \<Longrightarrow>
   \<not> d_allowed (check mode tool command base_tier) \<and> d_denied (check mode tool command base_tier)"
  by (auto simp: check_def on_deny_list_def Let_def)

lemma check_not_denied:
  "\<not> on_deny_list tool command \<Longrightarrow>
   d_tier (check mode tool command base_tier) = classify tool command base_tier \<and>
   \<not> d_denied (check mode tool command base_tier) \<and>
   (d_allowed (check mode tool command base_tier) \<longleftrightarrow>
      classify tool command base_tier \<le> mode_ceiling mode)"
  by (cases mode; cases "classify tool command base_tier")
    (auto simp: check_def on_deny_list_def Let_def tier_order split: option.split)

lemma check_version [simp]: "d_patterns_version (check mode tool command base_tier) = PATTERNS_VERSION"
  by (auto simp: check_def Let_def split: option.split)

lemma check_requires_approval:
  "d_requires_approval (check mode tool command base_tier) \<longleftrightarrow>
   d_allowed (check mode tool command base_tier) \<and> T2 \<le> d_tier (check mode tool command base_tier)"
  by (auto simp: check_def Let_def split: option.split)


lemma boundary_after_space: "boundary_left u \<Longrightarrow> boundary_left (tool @ '' '' @ u)"
  by (auto simp: boundary_left_def)

text \<open>A recursive or forced delete of the root is refused in every mode and at every base
  tier: whatever tool carries it and whatever precedes the \<^verbatim>\<open>rm\<close> word in the command, if
  option letters and a path made of slashes, dots and stars rooted at \<^verbatim>\<open>/\<close> follow, the
  decision is a denial that no approval can lift.\<close>

theorem check_denies_root_delete:
  assumes "boundary_left u"
    and "\<forall>c \<in> set flags. ic az c" and "flags \<noteq> []"
    and "\<forall>c \<in> set path. among ''/.*'' c" and "v = [] \<or> is_space (hd v)"
  shows "let d = check mode tool (Some (u @ ''rm -'' @ flags @ '' /'' @ path @ v)) base_tier
         in \<not> d_allowed d \<and> d_denied d \<and> \<not> d_requires_approval d"
proof -
  let ?c = "u @ ''rm -'' @ flags @ '' /'' @ path @ v"
  have "boundary_left (tool @ '' '' @ u)"
    using assms(1) by (rule boundary_after_space)
  then have "deny_match ((tool @ '' '' @ u) @ ''rm'' @ '' '' @ ''-'' @ flags @ '' '' @ ''/'' @ path @ v) \<noteq> None"
    using assms(2-5) by (intro rm_root_denied) auto
  then have "on_deny_list tool (Some ?c)"
    by (simp add: on_deny_list_def probe_def)
  then show ?thesis
    using check_denied check_requires_approval by (auto simp: Let_def)
qed

theorem check_denies_root_delete_witness:
  "let d = check OPEN ''ssh'' (Some ('' '' @ ''rm -'' @ ''rf'' @ '' /'' @ ''*'' @ [])) T0
   in \<not> d_allowed d \<and> d_denied d \<and> \<not> d_requires_approval d"
  by (rule check_denies_root_delete)
    (simp_all add: boundary_left_def char_classes ic_def az_def among_def)

text \<open>A privilege-escalation cue anywhere floors the tier at T2: if the probe holds
  \<^verbatim>\<open>sudo\<close>, \<^verbatim>\<open>doas\<close>, \<^verbatim>\<open>pkexec\<close> or \<^verbatim>\<open>runas\<close> as a word, in any case, the
  classified tier is at least T2, and an allowed decision then requires a human approval.\<close>

theorem privilege_floors_at_T2:
  assumes "probe tool command = u @ x @ v" and "w \<in> set priv_words" and "same_ic w x"
    and "boundary_left u" and "boundary_right v" and "is_word (hd x)" and "is_word (last x)"
  shows "T2 \<le> classify tool command base_tier \<and>
    (d_allowed (check mode tool command base_tier) \<longrightarrow>
     d_requires_approval (check mode tool command base_tier))"
proof -
  have "x \<noteq> []"
    using assms(2) same_ic_length [OF assms(3)] by (auto simp: priv_words_def)
  have "any_match PRIV_ESCALATION (probe tool command)"
    unfolding assms(1) using assms(2-7) by (intro priv_words_search)
  then have "T2 \<le> command_tier (probe tool command)"
    by (rule command_tier_priv)
  also have "\<dots> \<le> classify tool command base_tier"
    using \<open>x \<noteq> []\<close> assms(1) by (intro classify_ge_content) simp
  finally have "T2 \<le> classify tool command base_tier" .
  moreover have "d_tier (check mode tool command base_tier) = classify tool command base_tier"
    if "d_allowed (check mode tool command base_tier)"
    using that check_denied check_not_denied by blast
  ultimately show ?thesis
    by (auto simp: check_requires_approval)
qed

theorem privilege_floors_at_T2_witness: "T2 \<le> classify ''ssh'' (Some ''Sudo id'') T0"
proof (rule conjunct1 [OF privilege_floors_at_T2 [of _ _ "''ssh ''" "''Sudo''" "'' id''" "''sudo''"]])
  show "same_ic ''sudo'' ''Sudo''"
    by code_simp
qed (simp_all add: probe_def priv_words_def boundary_left_def boundary_right_def char_classes)

end
