(* ===== verification/Concrete.thy ===== *)
theory Concrete
  imports Policy
begin

section \<open>A concrete probe\<close>

text \<open>
  The probe \<^verbatim>\<open>x\<close> (a tool of that name with no command) meets no pattern of any set. The
  concrete instances of the later theories use it, so that the tier of their requests is the
  declared base tier.
\<close>

lemma probe_x_tier: "command_tier ''x'' = T0"
  by code_simp

lemma probe_x_not_denied: "deny_match ''x'' = None"
  by code_simp

lemma classify_x [simp]: "classify ''x'' None base_tier = base_tier"
  by (simp add: classify_def probe_def probe_x_tier Let_def max_absorb1)

lemma not_denied_x [simp]: "\<not> on_deny_list ''x'' None"
  by (simp add: on_deny_list_def probe_def probe_x_not_denied)

lemma check_x_open:
  "check OPEN ''x'' None base_tier =
     \<lparr>d_allowed = True, d_tier = base_tier, d_reason = ''allowed at '' @ label base_tier @ '' (mode=open)'',
      d_requires_approval = (T2 \<le> base_tier), d_denied = False, d_patterns_version = PATTERNS_VERSION\<rparr>"
  by (simp add: check_def probe_def probe_x_not_denied Let_def)

end
