(* ===== verification/Contract.thy ===== *)
theory Contract
  imports Patterns
begin

section \<open>Predicates, budgets, approvals and retry (execution/contract.py)\<close>

text \<open>
  The building blocks the runner composes around the execute step. Every operation of the source
  is a function of the object's state; a raised exception is an \<open>Inl\<close>. The clock a method reads
  and the token \<^verbatim>\<open>secrets\<close> draws are arguments. The locale \<open>nonce_store\<close> is what the
  audited path relies on: its client lemma, that a token is spent at most as often as it was
  minted, is proved once and interpreted on \<open>ApprovalRegistry\<close>.
\<close>

subsection \<open>Predicates and contracts\<close>

datatype severity = HARD | SOFT

text \<open>A test returns a truth value or raises (\<open>None\<close>).\<close>

record 't predicate =
  p_name :: string
  p_test :: "'t \<Rightarrow> bool option"
  p_severity :: severity
  p_message :: string

record violation =
  v_name :: string
  v_severity :: severity
  v_message :: string

record 't contract =
  preconditions :: "'t predicate list"
  invariants :: "'t predicate list"
  postconditions :: "'t predicate list"

definition empty_contract :: "'t contract" where
  "empty_contract = \<lparr>preconditions = [], invariants = [], postconditions = []\<rparr>"

fun eval_predicates :: "'t predicate list \<Rightarrow> 't \<Rightarrow> violation list" where
  "eval_predicates [] subject = []"
| "eval_predicates (p # ps) subject =
     (case p_test p subject of
        None \<Rightarrow> \<lparr>v_name = p_name p, v_severity = HARD,
                 v_message = p_message p @ '' (predicate raised)''\<rparr> # eval_predicates ps subject
      | Some ok \<Rightarrow>
          if \<not> ok then \<lparr>v_name = p_name p, v_severity = p_severity p, v_message = p_message p\<rparr>
                       # eval_predicates ps subject
          else eval_predicates ps subject)"

definition check_pre :: "'t contract \<Rightarrow> 't \<Rightarrow> violation list" where
  "check_pre c subject = eval_predicates (preconditions c @ invariants c) subject"

definition check_post :: "'t contract \<Rightarrow> 't \<Rightarrow> violation list" where
  "check_post c subject = eval_predicates (invariants c @ postconditions c) subject"

definition hard_failures :: "violation list \<Rightarrow> violation list" where
  "hard_failures vs = filter (\<lambda>v. v_severity v = HARD) vs"

text \<open>A predicate blocks when it raises, or when it is HARD and false.\<close>

definition blocks :: "'t predicate \<Rightarrow> 't \<Rightarrow> bool" where
  "blocks p subject \<longleftrightarrow> p_test p subject = None \<or> (p_test p subject = Some False \<and> p_severity p = HARD)"

lemma eval_predicates_append [simp]:
  "eval_predicates (ps @ qs) s = eval_predicates ps s @ eval_predicates qs s"
  by (induction ps) (auto split: option.splits)

lemma hard_failures_append [simp]: "hard_failures (xs @ ys) = hard_failures xs @ hard_failures ys"
  by (simp add: hard_failures_def)

lemma eval_hard_iff: "hard_failures (eval_predicates ps s) \<noteq> [] \<longleftrightarrow> (\<exists>p \<in> set ps. blocks p s)"
  by (induction ps) (auto simp: blocks_def hard_failures_def split: option.splits if_splits)

lemma check_pre_hard_iff [guard_simps]:
  "hard_failures (check_pre c s) = [] \<longleftrightarrow>
   (\<forall>p \<in> set (preconditions c) \<union> set (invariants c). \<not> blocks p s)"
  using eval_hard_iff [of "preconditions c @ invariants c" s] by (auto simp: check_pre_def)

subsection \<open>Budgets\<close>

datatype budget_error =
    Not_finite string pyfloat        \<comment> \<open>must be finite\<close>
  | Negative string pyfloat          \<comment> \<open>must be non-negative\<close>
  | Negative_actions string int
  | Actions_exceeded int int
  | Usd_exceeded pyfloat pyfloat
  | Wall_exceeded pyfloat pyfloat

definition finite_nonneg :: "pyfloat \<Rightarrow> string \<Rightarrow> budget_error + pyfloat" where
  "finite_nonneg value name =
     (if \<not> isfinite value then Inl (Not_finite name value)
      else if float_lt value (Fin 0) then Inl (Negative name value)
      else Inr value)"

record budget_tracker =
  max_actions :: "int option"
  max_usd :: "pyfloat option"
  max_wall_seconds :: "pyfloat option"
  actions :: int
  usd :: pyfloat
  wall_seconds :: pyfloat

definition check_limit :: "pyfloat option \<Rightarrow> string \<Rightarrow> budget_error + unit" where
  "check_limit cap name =
     (case cap of None \<Rightarrow> Inr () | Some v \<Rightarrow>
        (case finite_nonneg v name of Inl e \<Rightarrow> Inl e | Inr _ \<Rightarrow> Inr ()))"

definition budget_init ::
  "int option \<Rightarrow> pyfloat option \<Rightarrow> pyfloat option \<Rightarrow> budget_error + budget_tracker" where
  "budget_init ma mu mw =
     (if (case ma of None \<Rightarrow> False | Some a \<Rightarrow> a < 0)
      then Inl (Negative_actions ''max_actions'' (the ma))
      else case check_limit mu ''max_usd'' of Inl e \<Rightarrow> Inl e | Inr _ \<Rightarrow>
        (case check_limit mw ''max_wall_seconds'' of Inl e \<Rightarrow> Inl e | Inr _ \<Rightarrow>
           Inr \<lparr>max_actions = ma, max_usd = mu, max_wall_seconds = mw,
                actions = 0, usd = Fin 0, wall_seconds = Fin 0\<rparr>))"

definition over :: "pyfloat option \<Rightarrow> pyfloat \<Rightarrow> bool" where
  "over cap v = (case cap of None \<Rightarrow> False | Some m \<Rightarrow> float_lt m v)"

definition charge ::
  "budget_tracker \<Rightarrow> int \<Rightarrow> pyfloat \<Rightarrow> pyfloat \<Rightarrow> budget_error + budget_tracker" where
  "charge b a u w =
     (if a < 0 then Inl (Negative_actions ''actions charge'' a)
      else case finite_nonneg u ''usd charge'' of Inl e \<Rightarrow> Inl e | Inr _ \<Rightarrow>
        (case finite_nonneg w ''wall_seconds charge'' of Inl e \<Rightarrow> Inl e | Inr _ \<Rightarrow>
           (let new_actions = actions b + a;
                new_usd = float_add (usd b) u;
                new_wall = float_add (wall_seconds b) w
            in if (case max_actions b of None \<Rightarrow> False | Some m \<Rightarrow> m < new_actions)
               then Inl (Actions_exceeded new_actions (the (max_actions b)))
               else if over (max_usd b) new_usd then Inl (Usd_exceeded new_usd (the (max_usd b)))
               else if over (max_wall_seconds b) new_wall
               then Inl (Wall_exceeded new_wall (the (max_wall_seconds b)))
               else Inr (b\<lparr>actions := new_actions, usd := new_usd, wall_seconds := new_wall\<rparr>))))"

definition record_spend :: "budget_tracker \<Rightarrow> pyfloat \<Rightarrow> pyfloat \<Rightarrow> budget_error + budget_tracker" where
  "record_spend b u w =
     (case finite_nonneg u ''usd charge'' of Inl e \<Rightarrow> Inl e | Inr cu \<Rightarrow>
        (case finite_nonneg w ''wall_seconds charge'' of Inl e \<Rightarrow> Inl e | Inr cw \<Rightarrow>
           Inr (b\<lparr>usd := float_add (usd b) cu, wall_seconds := float_add (wall_seconds b) cw\<rparr>)))"

text \<open>What the constructor and every operation keep: finite limits and finite, non-negative
  counters.\<close>

definition nonneg :: "pyfloat \<Rightarrow> bool" where
  "nonneg v \<longleftrightarrow> isfinite v \<and> \<not> float_lt v (Fin 0)"

definition limit_ok :: "pyfloat option \<Rightarrow> bool" where
  "limit_ok cap = (case cap of None \<Rightarrow> True | Some v \<Rightarrow> nonneg v)"

definition budget_inv :: "budget_tracker \<Rightarrow> bool" where
  "budget_inv b \<longleftrightarrow>
     (case max_actions b of None \<Rightarrow> True | Some m \<Rightarrow> 0 \<le> m) \<and>
     limit_ok (max_usd b) \<and> limit_ok (max_wall_seconds b) \<and>
     0 \<le> actions b \<and> nonneg (usd b) \<and> nonneg (wall_seconds b)"

lemma finite_nonneg_iff: "finite_nonneg v name = Inr v' \<longleftrightarrow> nonneg v \<and> v' = v"
  by (auto simp: finite_nonneg_def nonneg_def)

lemma finite_nonneg_Inr: "nonneg v \<Longrightarrow> finite_nonneg v name = Inr v"
  by (simp add: finite_nonneg_iff)

lemma finite_nonneg_Inl: "\<not> nonneg v \<Longrightarrow> \<exists>e. finite_nonneg v name = Inl e"
  by (auto simp: finite_nonneg_def nonneg_def)

lemma check_limit_iff: "check_limit cap name = Inr () \<longleftrightarrow> limit_ok cap"
  by (auto simp: check_limit_def limit_ok_def finite_nonneg_def nonneg_def split: option.splits)

lemma nonneg_add [simp]: "nonneg x \<Longrightarrow> nonneg y \<Longrightarrow> nonneg (float_add x y)"
  by (cases x; cases y) (auto simp: nonneg_def)

lemma nonneg_Fin [simp]: "nonneg (Fin x) \<longleftrightarrow> 0 \<le> x"
  by (auto simp: nonneg_def)

lemma budget_init_inv: "budget_init ma mu mw = Inr b \<Longrightarrow> budget_inv b"
  using check_limit_iff [of mu "''max_usd''"] check_limit_iff [of mw "''max_wall_seconds''"]
  by (auto simp: budget_init_def budget_inv_def split: if_splits sum.splits option.splits)

lemma charge_Inr:
  assumes "charge b a u w = Inr b'"
  shows "0 \<le> a" and "nonneg u" and "nonneg w"
    and "b' = b\<lparr>actions := actions b + a, usd := float_add (usd b) u,
                wall_seconds := float_add (wall_seconds b) w\<rparr>"
    and "max_actions b = Some m \<Longrightarrow> actions b + a \<le> m"
    and "\<not> over (max_usd b) (usd b')" and "\<not> over (max_wall_seconds b) (wall_seconds b')"
  using assms
  by (auto simp: charge_def Let_def finite_nonneg_iff split: if_splits sum.splits option.splits)

lemma charge_inv: "charge b a u w = Inr b' \<Longrightarrow> budget_inv b \<Longrightarrow> budget_inv b'"
  using charge_Inr [of b a u w b'] by (auto simp: budget_inv_def)

lemma record_spend_inv: "record_spend b u w = Inr b' \<Longrightarrow> budget_inv b \<Longrightarrow> budget_inv b'"
  by (auto simp: record_spend_def budget_inv_def finite_nonneg_iff split: sum.splits)

lemma record_spend_total:
  "nonneg u \<Longrightarrow> nonneg w \<Longrightarrow>
   record_spend b u w = Inr (b\<lparr>usd := float_add (usd b) u, wall_seconds := float_add (wall_seconds b) w\<rparr>)"
  by (simp add: record_spend_def finite_nonneg_Inr)

subsection \<open>Approvals\<close>

record approval =
  ap_action_id :: string
  ap_token :: string

record pending_approval =
  pa_action_id :: string
  pa_target :: "string option"
  pa_tier :: tier
  pa_patterns_version :: int
  pa_expires_at :: rat

record approval_registry =
  ttl_seconds :: rat
  pending :: "(string, pending_approval) pydict"
  consumed :: "(string, rat) pydict"

definition MAX_PENDING :: nat where
  "MAX_PENDING = 1024"

definition approval_registry_init :: "pyfloat \<Rightarrow> string + approval_registry" where
  "approval_registry_init ttl =
     (case ttl of
        Fin t \<Rightarrow> if t \<le> 0 then Inl ''ttl_seconds must be finite and positive''
                 else Inr \<lparr>ttl_seconds = t, pending = [], consumed = []\<rparr>
      | _ \<Rightarrow> Inl ''ttl_seconds must be finite and positive'')"

text \<open>\<^verbatim>\<open>min(d, key=...)\<close>: the first key whose entry expires first.\<close>

fun oldest :: "(string, pending_approval) pydict \<Rightarrow> string option" where
  "oldest [] = None"
| "oldest (p # ps) =
     (case oldest ps of
        None \<Rightarrow> Some (fst p)
      | Some t \<Rightarrow> if (case map_of ps t of None \<Rightarrow> True
                       | Some q \<Rightarrow> pa_expires_at (snd p) \<le> pa_expires_at q)
                 then Some (fst p) else Some t)"

lemma oldest_in: "oldest ps = Some t \<Longrightarrow> t \<in> set (keys ps)"
  by (induction ps arbitrary: t) (auto split: option.splits if_splits)

lemma oldest_None [simp]: "oldest ps = None \<longleftrightarrow> ps = []"
  by (cases ps) (auto split: option.splits)

lemma length_delete_less: "t \<in> set (keys ps) \<Longrightarrow> length (AList.delete t ps) < length ps"
proof (induction ps)
  case Nil
  then show ?case by simp
next
  case (Cons p ps)
  show ?case
  proof (cases "fst p = t")
    case True
    then show ?thesis using length_delete_le [of t ps] by (cases p) auto
  next
    case False
    with Cons show ?thesis by (cases p) auto
  qed
qed

function evict :: "nat \<Rightarrow> (string, pending_approval) pydict \<Rightarrow> (string, pending_approval) pydict" where
  "evict cap ps =
     (if length ps < cap then ps
      else case oldest ps of None \<Rightarrow> ps | Some t \<Rightarrow> evict cap (AList.delete t ps))"
  by pat_completeness auto
termination
  by (relation "measure (\<lambda>(cap, ps). length ps)") (auto intro: length_delete_less oldest_in)

declare evict.simps [simp del]

definition purge :: "approval_registry \<Rightarrow> rat \<Rightarrow> approval_registry" where
  "purge r now =
     r\<lparr>pending := evict MAX_PENDING (filter (\<lambda>(_, p). \<not> pa_expires_at p < now) (pending r)),
       consumed := filter (\<lambda>(_, expiry). \<not> expiry < now) (consumed r)\<rparr>"

definition mint ::
  "approval_registry \<Rightarrow> rat \<Rightarrow> string \<Rightarrow> string \<Rightarrow> string option \<Rightarrow> tier \<Rightarrow> int \<Rightarrow> approval_registry" where
  "mint r now token action_id target tier patterns_version =
     (let r1 = purge r now in
      r1\<lparr>pending := AList.update token
           \<lparr>pa_action_id = action_id, pa_target = target, pa_tier = tier,
            pa_patterns_version = patterns_version, pa_expires_at = now + ttl_seconds r1\<rparr>
           (pending r1)\<rparr>)"

text \<open>\<^verbatim>\<open>_eq\<close> compares the bytes in constant time; both encodings are injective, so its value is
  equality of the strings. \<^verbatim>\<open>_match_pending\<close> scans every entry and keeps the last match.\<close>

definition eq_token :: "string \<Rightarrow> string \<Rightarrow> bool" where
  "eq_token stored presented \<longleftrightarrow> stored = presented"

definition match_pending :: "approval_registry \<Rightarrow> string \<Rightarrow> string option" where
  "match_pending r token =
     fold (\<lambda>stored m. if eq_token stored token then Some stored else m) (keys (pending r)) None"

definition is_consumed :: "approval_registry \<Rightarrow> string \<Rightarrow> bool" where
  "is_consumed r token =
     fold (\<lambda>stored found. if eq_token stored token then True else found) (keys (consumed r)) False"

definition validate_locked ::
  "approval_registry \<Rightarrow> rat \<Rightarrow> approval \<Rightarrow> string \<Rightarrow> string option \<Rightarrow> tier \<Rightarrow> int \<Rightarrow>
   (string + string) \<times> approval_registry" where
  "validate_locked r now a action_id target tier patterns_version =
     (if ap_action_id a \<noteq> action_id then (Inl ''approval is not bound to this action'', r)
      else if is_consumed r (ap_token a)
      then (Inl ''approval already used; a retry requires a fresh approval'', r)
      else case match_pending r (ap_token a) of
        None \<Rightarrow> (Inl (''approval token was not minted by this server for a pending action; '' @
                    ''run with dry_run=True to mint one''), r)
      | Some token \<Rightarrow>
          (case map_of (pending r) token of
             None \<Rightarrow> (Inl ''KeyError'', r)
           | Some p \<Rightarrow>
               if pa_expires_at p < now
               then (Inl ''approval token has expired; re-run the dry run to mint a fresh one'',
                     r\<lparr>pending := AList.delete token (pending r)\<rparr>)
               else if pa_action_id p \<noteq> action_id
               then (Inl ''approval token is bound to a different action'', r)
               else if pa_target p \<noteq> target
               then (Inl ''approval token is bound to a different target'', r)
               else if pa_tier p \<noteq> tier
               then (Inl ''approval token is bound to a different tier'', r)
               else if pa_patterns_version p \<noteq> patterns_version
               then (Inl (''classification patterns changed since this approval was minted; '' @
                          ''re-run the dry run''), r)
               else (Inr token, r)))"

definition validate ::
  "approval_registry \<Rightarrow> rat \<Rightarrow> approval \<Rightarrow> string \<Rightarrow> string option \<Rightarrow> tier \<Rightarrow> int \<Rightarrow>
   (string + unit) \<times> approval_registry" where
  "validate r now a action_id target tier patterns_version =
     (case validate_locked r now a action_id target tier patterns_version of
        (Inl e, r') \<Rightarrow> (Inl e, r')
      | (Inr _, r') \<Rightarrow> (Inr (), r'))"

definition consume ::
  "approval_registry \<Rightarrow> rat \<Rightarrow> approval \<Rightarrow> string \<Rightarrow> string option \<Rightarrow> tier \<Rightarrow> int \<Rightarrow>
   (string + unit) \<times> approval_registry" where
  "consume r now a action_id target tier patterns_version =
     (case validate_locked r now a action_id target tier patterns_version of
        (Inl e, r') \<Rightarrow> (Inl e, r')
      | (Inr token, r') \<Rightarrow>
          (case map_of (pending r') token of
             None \<Rightarrow> (Inl ''KeyError'', r')
           | Some p \<Rightarrow>
               (Inr (), r'\<lparr>pending := AList.delete token (pending r'),
                           consumed := AList.update token (pa_expires_at p) (consumed r')\<rparr>)))"

subsection \<open>Retry\<close>

definition retry_policy_init :: "int \<Rightarrow> budget_error + int" where
  "retry_policy_init max_retries =
     (if max_retries < 0 then Inl (Negative_actions ''max_retries'' max_retries) else Inr max_retries)"

subsection \<open>The registry: lookup, binding, bounded memory\<close>

abbreviation pending_tokens :: "approval_registry \<Rightarrow> string set" where
  "pending_tokens r \<equiv> set (keys (pending r))"

lemma fold_match:
  "fold (\<lambda>x m. if eq_token x t then Some x else m) xs m0 = (if t \<in> set xs then Some t else m0)"
  by (induction xs arbitrary: m0) (auto simp: eq_token_def)

lemma fold_found:
  "fold (\<lambda>x f. if eq_token x t then True else f) xs f0 = (t \<in> set xs \<or> f0)"
  by (induction xs arbitrary: f0) (auto simp: eq_token_def)

lemma match_pending_eq: "match_pending r t = (if t \<in> pending_tokens r then Some t else None)"
  by (simp only: match_pending_def fold_match)

lemma is_consumed_eq: "is_consumed r t \<longleftrightarrow> t \<in> set (keys (consumed r))"
  by (simp add: is_consumed_def fold_found)

lemma map_of_keys: "t \<in> set (keys d) \<Longrightarrow> \<exists>v. map_of d t = Some v"
  by (metis map_of_eq_None_iff not_None_eq set_map)

text \<open>What a successful validation has checked.\<close>

definition bound_to ::
  "pending_approval \<Rightarrow> string \<Rightarrow> string option \<Rightarrow> tier \<Rightarrow> int \<Rightarrow> rat \<Rightarrow> bool" where
  "bound_to p action_id target tier version now \<longleftrightarrow>
     pa_action_id p = action_id \<and> pa_target p = target \<and> pa_tier p = tier \<and>
     pa_patterns_version p = version \<and> now \<le> pa_expires_at p"

lemma validate_locked_Inr:
  assumes "validate_locked r now a action_id target tier version = (Inr token, r')"
  shows "r' = r" and "token = ap_token a" and "ap_action_id a = action_id"
    and "ap_token a \<notin> set (keys (consumed r))"
    and "\<exists>p. map_of (pending r) token = Some p \<and> bound_to p action_id target tier version now"
  using assms
  by (auto simp: validate_locked_def match_pending_eq is_consumed_eq bound_to_def
      split: if_splits option.splits)

lemma validate_locked_Inl:
  assumes "validate_locked r now a action_id target tier version = (Inl e, r')"
  shows "pending r' = pending r \<or> pending r' = AList.delete (ap_token a) (pending r)"
    and "consumed r' = consumed r" and "ttl_seconds r' = ttl_seconds r"
  using assms
  by (auto simp: validate_locked_def match_pending_eq is_consumed_eq split: if_splits option.splits)

lemma validate_locked_complete:
  assumes "ap_action_id a = action_id" and "ap_token a \<notin> set (keys (consumed r))"
    and "map_of (pending r) (ap_token a) = Some p" and "bound_to p action_id target tier version now"
  shows "validate_locked r now a action_id target tier version = (Inr (ap_token a), r)"
  using assms map_of_SomeD [OF assms(3)]
  by (force simp: validate_locked_def match_pending_eq is_consumed_eq bound_to_def)

lemma consume_Inr:
  assumes "consume r now a action_id target tier version = (Inr u, r')"
  obtains p where "map_of (pending r) (ap_token a) = Some p"
    and "bound_to p action_id target tier version now" and "ap_action_id a = action_id"
    and "ap_token a \<notin> set (keys (consumed r))"
    and "r' = r\<lparr>pending := AList.delete (ap_token a) (pending r),
                consumed := AList.update (ap_token a) (pa_expires_at p) (consumed r)\<rparr>"
proof (cases "validate_locked r now a action_id target tier version")
  case (Pair res r1)
  with assms obtain token where res: "res = Inr token"
    by (cases res) (auto simp: consume_def)
  note v = validate_locked_Inr [OF Pair [unfolded res]]
  from v obtain p where p: "map_of (pending r) (ap_token a) = Some p"
      "bound_to p action_id target tier version now" by blast
  from assms Pair res v p have "r' = r\<lparr>pending := AList.delete (ap_token a) (pending r),
      consumed := AList.update (ap_token a) (pa_expires_at p) (consumed r)\<rparr>"
    by (simp add: consume_def)
  with p v that show ?thesis by blast
qed

lemma consume_Inl:
  assumes "consume r now a action_id target tier version = (Inl e, r')"
  shows "pending_tokens r' \<subseteq> pending_tokens r" and "consumed r' = consumed r"
proof -
  obtain res r1 where v: "validate_locked r now a action_id target tier version = (res, r1)"
    by fastforce
  show "pending_tokens r' \<subseteq> pending_tokens r" "consumed r' = consumed r"
  proof (atomize (full), cases res)
    case (Inl e')
    with assms v have "r' = r1" by (simp add: consume_def)
    with validate_locked_Inl [OF v [unfolded Inl]]
    show "pending_tokens r' \<subseteq> pending_tokens r \<and> consumed r' = consumed r"
      by (auto simp: AList.delete_eq)
  next
    case (Inr token)
    with validate_locked_Inr [OF v [unfolded Inr]] assms v
    show "pending_tokens r' \<subseteq> pending_tokens r \<and> consumed r' = consumed r"
      by (auto simp: consume_def)
  qed
qed

lemma evict_props:
  "set (evict cap ps) \<subseteq> set ps \<and> (0 < cap \<longrightarrow> length (evict cap ps) < cap) \<and>
   (distinct (keys ps) \<longrightarrow> distinct (keys (evict cap ps)))"
proof (induction cap ps rule: evict.induct)
  case (1 cap ps)
  show ?case
  proof (cases "length ps < cap \<or> ps = []")
    case True
    then show ?thesis by (auto simp: evict.simps [of cap ps])
  next
    case False
    then obtain t where t: "oldest ps = Some t"
      by (cases "oldest ps") auto
    have "set (AList.delete t ps) \<subseteq> set ps"
      by (auto simp: AList.delete_eq)
    with "1.IH" [OF _ t] False t show ?thesis
      by (auto simp: evict.simps [of cap ps] distinct_delete)
  qed
qed

lemma keys_evict: "set (keys (evict cap ps)) \<subseteq> set (keys ps)"
  using evict_props [of cap ps] by auto

lemma mint_tokens: "pending_tokens (mint r now token aid target tier version) \<subseteq> insert token (pending_tokens r)"
proof -
  have "set (keys (AList.update token p ps)) = insert token (set (keys ps))" for p and ps :: "(string, pending_approval) pydict"
    by (simp add: dom_update)
  then show ?thesis
    using keys_evict [of MAX_PENDING "filter (\<lambda>(_, p). \<not> pa_expires_at p < now) (pending r)"]
    by (auto simp: mint_def purge_def Let_def)
qed

lemma mint_pending:
  "map_of (pending (mint r now token aid target tier version)) token =
   Some \<lparr>pa_action_id = aid, pa_target = target, pa_tier = tier, pa_patterns_version = version,
         pa_expires_at = now + ttl_seconds r\<rparr>"
  by (simp add: mint_def purge_def Let_def)

lemma length_update_le: "length (AList.update k v ps) \<le> Suc (length ps)"
  by (induction ps) auto

lemma mint_bounded: "length (pending (mint r now token aid target tier version)) \<le> MAX_PENDING"
proof -
  let ?ps = "filter (\<lambda>(_, p). \<not> pa_expires_at p < now) (pending r)"
  have "length (evict MAX_PENDING ?ps) < MAX_PENDING"
    using evict_props [of MAX_PENDING ?ps] by (simp add: MAX_PENDING_def)
  then have "length (AList.update token p (evict MAX_PENDING ?ps)) \<le> MAX_PENDING" for p
    using length_update_le [of token p "evict MAX_PENDING ?ps"] by linarith
  then show ?thesis
    by (simp add: mint_def purge_def Let_def)
qed

subsection \<open>Single use, over every sequence of calls\<close>

datatype ('m, 'u) nonce_op = Mint 'm | Use 'u

text \<open>The tokens spent by a sequence of calls, in order, and the state it leaves.\<close>

fun nonce_run ::
  "('r \<Rightarrow> 'm \<Rightarrow> 'r) \<Rightarrow> ('r \<Rightarrow> 'u \<Rightarrow> bool \<times> 'r) \<Rightarrow> ('u \<Rightarrow> string) \<Rightarrow> 'r \<Rightarrow> ('m, 'u) nonce_op list \<Rightarrow>
   string list \<times> 'r" where
  "nonce_run mnt use tok r [] = ([], r)"
| "nonce_run mnt use tok r (Mint m # ops) = nonce_run mnt use tok (mnt r m) ops"
| "nonce_run mnt use tok r (Use u # ops) =
     (let (ok, r') = use r u; (ts, r'') = nonce_run mnt use tok r' ops
      in (if ok then tok u # ts else ts, r''))"

fun mint_count :: "('m \<Rightarrow> string) \<Rightarrow> string \<Rightarrow> ('m, 'u) nonce_op list \<Rightarrow> nat" where
  "mint_count tok t [] = 0"
| "mint_count tok t (Mint m # ops) = (if tok m = t then Suc (mint_count tok t ops) else mint_count tok t ops)"
| "mint_count tok t (Use u # ops) = mint_count tok t ops"

locale nonce_store =
  fixes tokens :: "'r \<Rightarrow> string set"
    and mnt :: "'r \<Rightarrow> 'm \<Rightarrow> 'r"
    and minted :: "'m \<Rightarrow> string"
    and use :: "'r \<Rightarrow> 'u \<Rightarrow> bool \<times> 'r"
    and presented :: "'u \<Rightarrow> string"
  assumes tokens_mnt: "tokens (mnt r m) \<subseteq> insert (minted m) (tokens r)"
    and use_ok: "use r u = (True, r') \<Longrightarrow> presented u \<in> tokens r \<and> tokens r' \<subseteq> tokens r - {presented u}"
    and use_fail: "use r u = (False, r') \<Longrightarrow> tokens r' \<subseteq> tokens r"
begin

lemma spent_le_minted:
  "nonce_run mnt use presented r ops = (ts, r') \<Longrightarrow>
   count_list ts t + of_bool (t \<in> tokens r') \<le> mint_count minted t ops + of_bool (t \<in> tokens r)"
proof (induction ops arbitrary: r ts)
  case Nil
  then show ?case by simp
next
  case (Cons x ops)
  show ?case
  proof (cases x)
    case (Mint m)
    with Cons.prems have "nonce_run mnt use presented (mnt r m) ops = (ts, r')" by simp
    from Cons.IH [OF this] Mint tokens_mnt [of r m] show ?thesis
      by (auto simp: of_bool_def split: if_splits)
  next
    case (Use u)
    obtain ok r1 where u: "use r u = (ok, r1)" by fastforce
    obtain ts1 where run: "nonce_run mnt use presented r1 ops = (ts1, r')"
      and ts: "ts = (if ok then presented u # ts1 else ts1)"
      using Cons.prems Use u by (auto split: prod.splits)
    show ?thesis
      using Cons.IH [OF run] ts Use u use_ok [of r u r1] use_fail [of r u r1]
      by (cases ok) (auto simp: of_bool_def split: if_splits)
  qed
qed

end

record mint_call =
  mc_now :: rat
  mc_token :: string
  mc_action_id :: string
  mc_target :: "string option"
  mc_tier :: tier
  mc_version :: int

record consume_call =
  cc_now :: rat
  cc_approval :: approval
  cc_action_id :: string
  cc_target :: "string option"
  cc_tier :: tier
  cc_version :: int

definition do_mint :: "approval_registry \<Rightarrow> mint_call \<Rightarrow> approval_registry" where
  "do_mint r m = mint r (mc_now m) (mc_token m) (mc_action_id m) (mc_target m) (mc_tier m) (mc_version m)"

definition do_consume :: "approval_registry \<Rightarrow> consume_call \<Rightarrow> bool \<times> approval_registry" where
  "do_consume r c =
     (case consume r (cc_now c) (cc_approval c) (cc_action_id c) (cc_target c) (cc_tier c) (cc_version c) of
        (Inl _, r') \<Rightarrow> (False, r') | (Inr _, r') \<Rightarrow> (True, r'))"

interpretation registry: nonce_store pending_tokens do_mint mc_token do_consume "\<lambda>c. ap_token (cc_approval c)"
proof unfold_locales
  show "pending_tokens (do_mint r m) \<subseteq> insert (mc_token m) (pending_tokens r)" for r m
    unfolding do_mint_def by (rule mint_tokens)
next
  fix r u r'
  assume "do_consume r u = (True, r')"
  then obtain v where "consume r (cc_now u) (cc_approval u) (cc_action_id u) (cc_target u)
      (cc_tier u) (cc_version u) = (Inr v, r')"
    by (auto simp: do_consume_def split: prod.splits sum.splits)
  then show "ap_token (cc_approval u) \<in> pending_tokens r \<and>
      pending_tokens r' \<subseteq> pending_tokens r - {ap_token (cc_approval u)}"
    by (rule consume_Inr) (force simp: AList.delete_eq dest: map_of_SomeD)
next
  fix r u r'
  assume "do_consume r u = (False, r')"
  then obtain e where "consume r (cc_now u) (cc_approval u) (cc_action_id u) (cc_target u)
      (cc_tier u) (cc_version u) = (Inl e, r')"
    by (auto simp: do_consume_def split: prod.splits sum.splits)
  then show "pending_tokens r' \<subseteq> pending_tokens r"
    by (rule consume_Inl(1))
qed

subsection \<open>The properties of this component\<close>

text \<open>C12: An approval is single use: over every sequence of mint and consume calls on a fresh
  registry, with any clock readings and any requests, a token is consumed successfully at most as
  often as the server minted it.\<close>

theorem approval_single_use:
  assumes "approval_registry_init ttl = Inr r" and "nonce_run do_mint do_consume (\<lambda>c. ap_token (cc_approval c)) r ops = (spent, r')"
  shows "count_list spent t \<le> mint_count mc_token t ops"
proof -
  have "pending_tokens r = {}"
    using assms(1) by (auto simp: approval_registry_init_def split: pyfloat.splits if_splits)
  with registry.spent_le_minted [OF assms(2), of t] show ?thesis
    by simp
qed

text \<open>A consumed approval was minted for exactly this request: consuming succeeds exactly when
  the presented token is pending, not already used, not expired, and bound to the action id, the
  target, the tier and the patterns version of the request; it then removes the token from the
  pending set and remembers it as used, and a failure never adds a pending token.\<close>

theorem consume_iff_bound:
  "(case consume r now a action_id target tier version of
      (Inr _, r') \<Rightarrow>
        ap_token a \<notin> pending_tokens r' \<and> is_consumed r' (ap_token a) \<and>
        pending_tokens r' = pending_tokens r - {ap_token a}
    | (Inl _, r') \<Rightarrow> pending_tokens r' \<subseteq> pending_tokens r) \<and>
   (isl (fst (consume r now a action_id target tier version)) \<longleftrightarrow>
    \<not> (ap_action_id a = action_id \<and> \<not> is_consumed r (ap_token a) \<and>
       (\<exists>p. map_of (pending r) (ap_token a) = Some p \<and> bound_to p action_id target tier version now)))"
proof (cases "consume r now a action_id target tier version")
  case (Pair res r')
  show ?thesis
  proof (cases res)
    case (Inl e)
    have "\<not> (ap_action_id a = action_id \<and> \<not> is_consumed r (ap_token a) \<and>
       (\<exists>p. map_of (pending r) (ap_token a) = Some p \<and> bound_to p action_id target tier version now))"
    proof
      assume "ap_action_id a = action_id \<and> \<not> is_consumed r (ap_token a) \<and>
        (\<exists>p. map_of (pending r) (ap_token a) = Some p \<and> bound_to p action_id target tier version now)"
      then have "validate_locked r now a action_id target tier version = (Inr (ap_token a), r)"
        and "\<exists>p. map_of (pending r) (ap_token a) = Some p"
        by (auto simp: is_consumed_eq intro: validate_locked_complete)
      with Pair Inl show False by (auto simp: consume_def)
    qed
    with Pair Inl consume_Inl(1) [of r now a action_id target tier version e r'] show ?thesis
      by simp
  next
    case (Inr u)
    from Pair Inr have "consume r now a action_id target tier version = (Inr u, r')" by simp
    then show ?thesis
      by (rule consume_Inr) (auto simp: Pair Inr is_consumed_eq AList.delete_eq dom_update)
  qed
qed

text \<open>One concrete history: a token minted, spent once, and refused the second time.\<close>

definition demo_mint :: mint_call where
  "demo_mint = \<lparr>mc_now = 0, mc_token = ''tok'', mc_action_id = ''act'', mc_target = Some ''h'',
     mc_tier = T2, mc_version = 4\<rparr>"

definition demo_use :: consume_call where
  "demo_use = \<lparr>cc_now = 1, cc_approval = \<lparr>ap_action_id = ''act'', ap_token = ''tok''\<rparr>,
     cc_action_id = ''act'', cc_target = Some ''h'', cc_tier = T2, cc_version = 4\<rparr>"

definition demo_registry :: approval_registry where
  "demo_registry = \<lparr>ttl_seconds = 600, pending = [], consumed = []\<rparr>"

lemmas demo_defs = demo_mint_def demo_use_def demo_registry_def

lemma demo_init: "approval_registry_init (Fin 600) = Inr demo_registry"
  by (simp add: approval_registry_init_def demo_registry_def)

lemma demo_run:
  "\<exists>r'. nonce_run do_mint do_consume (\<lambda>c. ap_token (cc_approval c)) demo_registry
     [Mint demo_mint, Use demo_use, Use demo_use] = ([''tok''], r')"
  by (simp add: demo_defs do_mint_def mint_def purge_def evict.simps MAX_PENDING_def Let_def
      do_consume_def consume_def validate_locked_def match_pending_def is_consumed_def eq_token_def)

theorem approval_single_use_witness:
  "approval_registry_init (Fin 600) = Inr demo_registry \<and> count_list [''tok''] ''tok'' = 1 \<and>
   count_list [''tok''] ''tok'' \<le> mint_count mc_token ''tok'' [Mint demo_mint, Use demo_use, Use demo_use]"
proof -
  obtain r' where r: "nonce_run do_mint do_consume (\<lambda>c. ap_token (cc_approval c)) demo_registry
     [Mint demo_mint, Use demo_use, Use demo_use] = ([''tok''], r')"
    using demo_run by blast
  show ?thesis
    using demo_init approval_single_use [OF demo_init r, of "''tok''"] by (simp only: count_list.simps) simp
qed

subsection \<open>Budgets over every sequence of calls\<close>

datatype budget_op = Charge int pyfloat pyfloat | Spend pyfloat pyfloat

text \<open>The actions charged by a sequence of calls and the tracker it leaves; a refused call
  leaves the tracker as it is.\<close>

fun budget_run :: "budget_tracker \<Rightarrow> budget_op list \<Rightarrow> int \<times> budget_tracker" where
  "budget_run b [] = (0, b)"
| "budget_run b (Charge a u w # ops) =
     (case charge b a u w of
        Inl _ \<Rightarrow> budget_run b ops
      | Inr b' \<Rightarrow> (let (n, b'') = budget_run b' ops in (a + n, b'')))"
| "budget_run b (Spend u w # ops) =
     (case record_spend b u w of Inl _ \<Rightarrow> budget_run b ops | Inr b' \<Rightarrow> budget_run b' ops)"

lemma charge_limits: "charge b a u w = Inr b' \<Longrightarrow>
  max_actions b' = max_actions b \<and> max_usd b' = max_usd b \<and> max_wall_seconds b' = max_wall_seconds b"
  using charge_Inr(4) by fastforce

lemma record_spend_frame: "record_spend b u w = Inr b' \<Longrightarrow>
  actions b' = actions b \<and> max_actions b' = max_actions b \<and> max_usd b' = max_usd b \<and>
  max_wall_seconds b' = max_wall_seconds b"
  by (auto simp: record_spend_def split: sum.splits)

definition within_actions :: "budget_tracker \<Rightarrow> bool" where
  "within_actions b = (case max_actions b of None \<Rightarrow> True | Some m \<Rightarrow> actions b \<le> m)"

lemma charge_within: "charge b a u w = Inr b' \<Longrightarrow> within_actions b'"
  using charge_Inr(4,5) [of b a u w b'] by (auto simp: within_actions_def split: option.splits)

lemma budget_run_inv:
  "budget_run b ops = (n, b') \<Longrightarrow> budget_inv b \<Longrightarrow> within_actions b \<Longrightarrow>
   budget_inv b' \<and> within_actions b' \<and> actions b' = actions b + n \<and> max_actions b' = max_actions b"
proof (induction b ops arbitrary: n rule: budget_run.induct)
  case (1 b)
  then show ?case by simp
next
  case (2 b a u w ops)
  show ?case
  proof (cases "charge b a u w")
    case (Inl e)
    with 2 show ?thesis by simp
  next
    case (Inr b1)
    with 2 charge_inv [OF Inr] charge_within [OF Inr] charge_limits [OF Inr] charge_Inr(4) [OF Inr]
    show ?thesis by (fastforce split: prod.splits)
  qed
next
  case (3 b u w ops)
  show ?case
  proof (cases "record_spend b u w")
    case (Inl e)
    with 3 show ?thesis by simp
  next
    case (Inr b1)
    with 3 record_spend_inv [OF Inr] record_spend_frame [OF Inr]
    have "budget_inv b1" "within_actions b1" "budget_run b1 ops = (n, b')"
      by (simp_all add: within_actions_def split: option.splits)
    with 3 Inr record_spend_frame [OF Inr] show ?thesis by simp
  qed
qed

lemma over_add: "limit_ok cap \<Longrightarrow> over cap x \<Longrightarrow> nonneg x \<Longrightarrow> nonneg y \<Longrightarrow> over cap (float_add x y)"
  by (cases x; cases y) (auto simp: over_def limit_ok_def nonneg_def split: option.splits elim!: float_lt.elims)

text \<open>A ceiling is exact and cannot be disabled. A tracker is built only from finite,
  non-negative limits; whatever sequence of charges and recorded spends follows, with any
  arguments (NaN and infinities included), the counters stay finite, the actions charged never
  exceed the ceiling and are exactly counted; and once recorded spending has passed the wall-clock
  or the currency ceiling, every further charge is refused.\<close>

theorem budget_ceiling_exact:
  assumes "budget_init ma mu mw = Inr b" and "budget_run b ops = (n, b')"
  shows "budget_inv b' \<and> actions b' = n \<and> (\<forall>m. ma = Some m \<longrightarrow> n \<le> m) \<and>
    (over (max_wall_seconds b') (wall_seconds b') \<or> over (max_usd b') (usd b') \<longrightarrow>
     (\<forall>a u w. isl (charge b' a u w)))"
proof -
  have b: "budget_inv b" "within_actions b" "actions b = 0" "max_actions b = ma"
    using assms(1) budget_init_inv [OF assms(1)]
    by (auto simp: budget_init_def within_actions_def split: if_splits sum.splits option.splits)
  note r = budget_run_inv [OF assms(2) b(1,2)]
  have "isl (charge b' a u w)"
    if o: "over (max_wall_seconds b') (wall_seconds b') \<or> over (max_usd b') (usd b')" for a u w
  proof (cases "charge b' a u w")
    case (Inr b2)
    note c = charge_Inr [OF Inr]
    from r have "limit_ok (max_usd b')" "limit_ok (max_wall_seconds b')" "nonneg (usd b')"
        "nonneg (wall_seconds b')"
      by (simp_all add: budget_inv_def)
    with c o show ?thesis by (auto dest: over_add)
  qed simp
  moreover have "\<forall>m. ma = Some m \<longrightarrow> n \<le> m"
    using r b by (auto simp: within_actions_def)
  ultimately show ?thesis
    using r b by auto
qed

theorem budget_ceiling_exact_witness:
  "\<exists>b b'. budget_init (Some 1) None (Some (Fin 10)) = Inr b \<and>
     budget_run b [Charge 1 (Fin 0) (Fin 0), Charge 1 (Fin 0) (Fin 0), Charge 0 NaN PosInf, Spend (Fin 0) (Fin 11)] = (1, b') \<and>
     actions b' = 1 \<and> isl (charge b' 0 (Fin 0) (Fin 0))"
proof -
  let ?b = "\<lparr>max_actions = Some 1, max_usd = None, max_wall_seconds = Some (Fin 10),
     actions = 0, usd = Fin 0, wall_seconds = Fin 0\<rparr>"
  let ?ops = "[Charge 1 (Fin 0) (Fin 0), Charge 1 (Fin 0) (Fin 0), Charge 0 NaN PosInf, Spend (Fin 0) (Fin 11)]"
  have i: "budget_init (Some 1) None (Some (Fin 10)) = Inr ?b"
    by (simp add: budget_init_def check_limit_def finite_nonneg_def)
  have r: "budget_run ?b ?ops = (1, ?b\<lparr>actions := 1, wall_seconds := Fin 11\<rparr>)"
    by (simp add: charge_def record_spend_def finite_nonneg_def over_def Let_def)
  from budget_ceiling_exact [OF i r] i r show ?thesis
    by (fastforce simp: over_def)
qed

text \<open>The registry's memory is bounded: whatever was pending before, minting leaves at most
  1024 pending approvals, and the new one among them with its full lifetime.\<close>

theorem mint_bounds_memory:
  "length (pending (mint r now token aid target tier version)) \<le> 1024 \<and>
   map_of (pending (mint r now token aid target tier version)) token =
     Some \<lparr>pa_action_id = aid, pa_target = target, pa_tier = tier, pa_patterns_version = version,
           pa_expires_at = now + ttl_seconds r\<rparr>"
  using mint_bounded mint_pending by (simp add: MAX_PENDING_def)

end
