(* ===== verification/Json.thy ===== *)
theory Json
  imports Prelude "HOL-Library.List_Lexorder" "HOL-Library.Char_ord"
begin

section \<open>Python values and the json module\<close>

text \<open>
  The values that pass through the audit log, the stores and the JSON-RPC transport, and the part
  of Python's \<^verbatim>\<open>json\<close> the sources use: \<^verbatim>\<open>json.dumps\<close> with sorted keys, the
  compact or the default separators, with and without \<^verbatim>\<open>ensure_ascii\<close>, and
  \<^verbatim>\<open>json.loads\<close>. The scanner is a recursive descent over the text with fuel; fuel twice the length
  of the text plus one is always enough (\<open>loads_total\<close>), and reading back a printed value gives
  the value (\<open>loads_dumps\<close>).

  A float is represented by the text json prints for it (its \<^verbatim>\<open>repr\<close>, or
  \<^verbatim>\<open>NaN\<close>, \<^verbatim>\<open>Infinity\<close>, \<^verbatim>\<open>-Infinity\<close>); reading keeps the text of a number. A value that json does not know
  is \<open>POpaque\<close> with the result of its \<^verbatim>\<open>__str__\<close>, \<open>None\<close> if that raises. A character
  written as an escape above code point 255 is outside the model and reported as such. The
  limit of the interpreter on the digits of an integer is the argument of the variants \<open>scan_value_in\<close>
  and \<open>loads_in\<close>, which the transports use; \<open>loads\<close> is without it. Its recursion limit is not
  modelled here.
\<close>

datatype pyval =
    PNone
  | PBool bool
  | PInt int
  | PFloat string
  | PStr string
  | PList "pyval list"
  | PDict "(string \<times> pyval) list"
  | POpaque "string option"

subsection \<open>Printing\<close>

definition backslash :: char where
  "backslash = char_of (92::nat)"

definition quote :: char where
  "quote = CHR 0x22"

definition hex2 :: "nat \<Rightarrow> string" where
  "hex2 n = [digit_char (n div 16 mod 16), digit_char (n mod 16)]"

text \<open>The escape letter of the characters that have one.\<close>

fun short_escape :: "nat \<Rightarrow> char option" where
  "short_escape n =
     (if n = 34 then Some quote
      else if n = 92 then Some backslash
      else if n = 8 then Some CHR ''b''
      else if n = 9 then Some CHR ''t''
      else if n = 10 then Some CHR ''n''
      else if n = 12 then Some CHR ''f''
      else if n = 13 then Some CHR ''r''
      else None)"

declare short_escape.simps [simp del]

definition escape_char :: "bool \<Rightarrow> char \<Rightarrow> string" where
  "escape_char ensure_ascii c =
     (case short_escape (ord c) of
        Some e \<Rightarrow> [backslash, e]
      | None \<Rightarrow> if ord c < 32 \<or> (ensure_ascii \<and> 126 < ord c)
                then backslash # CHR ''u'' # ''00'' @ hex2 (ord c) else [c])"

definition dumps_str :: "bool \<Rightarrow> string \<Rightarrow> string" where
  "dumps_str ensure_ascii s = quote # concat (map (escape_char ensure_ascii) s) @ [quote]"

text \<open>The options of a call: \<^verbatim>\<open>ensure_ascii\<close>, the two separators and \<^verbatim>\<open>default\<close>.
  \<^verbatim>\<open>sort_keys\<close> is set in every modelled call.\<close>

record dump_options =
  ensure_ascii :: bool
  item_sep :: string
  key_sep :: string
  default_str :: "string option \<Rightarrow> string option"

definition str_or_raise :: "string option \<Rightarrow> string option" where
  "str_or_raise s = s"

definition no_default :: "string option \<Rightarrow> string option" where
  "no_default s = None"

text \<open>\<^verbatim>\<open>json.dumps\<close>; \<open>None\<close> is the \<^verbatim>\<open>TypeError\<close> (or the error of \<^verbatim>\<open>default\<close>).\<close>

fun dumps :: "dump_options \<Rightarrow> pyval \<Rightarrow> string option"
and dumps_items :: "dump_options \<Rightarrow> pyval list \<Rightarrow> string list option"
and dumps_members :: "dump_options \<Rightarrow> (string \<times> pyval) list \<Rightarrow> (string \<times> string) list option" where
  "dumps opt PNone = Some ''null''"
| "dumps opt (PBool b) = Some (if b then ''true'' else ''false'')"
| "dumps opt (PInt i) = Some (int_str i)"
| "dumps opt (PFloat f) = Some f"
| "dumps opt (PStr s) = Some (dumps_str (ensure_ascii opt) s)"
| "dumps opt (PList vs) =
     (case dumps_items opt vs of None \<Rightarrow> None
      | Some ts \<Rightarrow> Some (''['' @ py_join (item_sep opt) ts @ '']''))"
| "dumps opt (PDict kvs) =
     (case dumps_members opt kvs of None \<Rightarrow> None
      | Some ms \<Rightarrow> Some (''{'' @ py_join (item_sep opt)
                   (map (\<lambda>(k, t). dumps_str (ensure_ascii opt) k @ key_sep opt @ t) (sort_key fst ms)) @ ''}''))"
| "dumps opt (POpaque s) = map_option (dumps_str (ensure_ascii opt)) (default_str opt s)"
| "dumps_items opt [] = Some []"
| "dumps_items opt (v # vs) =
     (case dumps opt v of None \<Rightarrow> None
      | Some t \<Rightarrow> (case dumps_items opt vs of None \<Rightarrow> None | Some ts \<Rightarrow> Some (t # ts)))"
| "dumps_members opt [] = Some []"
| "dumps_members opt ((k, v) # kvs) =
     (case dumps opt v of None \<Rightarrow> None
      | Some t \<Rightarrow> (case dumps_members opt kvs of None \<Rightarrow> None | Some ms \<Rightarrow> Some ((k, t) # ms)))"

subsection \<open>Reading\<close>

datatype json_error =
    JSONDecodeError
  | Int_digits_error   \<comment> \<open>the \<^verbatim>\<open>ValueError\<close> of an integer literal over the digit limit\<close>
  | Beyond_char        \<comment> \<open>an escape for a character above code point 255\<close>
  | Out_of_fuel

definition json_space :: "char \<Rightarrow> bool" where
  "json_space c \<longleftrightarrow> ord c \<in> {32, 9, 10, 13}"

definition skip_ws :: "string \<Rightarrow> string" where
  "skip_ws s = dropWhile json_space s"

fun hex_value :: "char \<Rightarrow> nat option" where
  "hex_value c =
     (if char_between 48 57 c then Some (ord c - 48)
      else if char_between 97 102 c then Some (ord c - 87)
      else if char_between 65 70 c then Some (ord c - 55)
      else None)"

declare hex_value.simps [simp del]

definition hex4 :: "char \<Rightarrow> char \<Rightarrow> char \<Rightarrow> char \<Rightarrow> nat option" where
  "hex4 a b c d =
     (case (hex_value a, hex_value b, hex_value c, hex_value d) of
        (Some p, Some q, Some r, Some s) \<Rightarrow> Some (((p * 16 + q) * 16 + r) * 16 + s)
      | _ \<Rightarrow> None)"

text \<open>The character a backslash escape other than \<^verbatim>\<open>u\<close> stands for.\<close>

fun unescape :: "char \<Rightarrow> char option" where
  "unescape e =
     (if e = quote then Some quote
      else if e = backslash then Some backslash
      else if e = CHR ''/'' then Some CHR ''/''
      else if e = CHR ''b'' then Some (char_of (8::nat))
      else if e = CHR ''f'' then Some (char_of (12::nat))
      else if e = CHR ''n'' then Some (char_of (10::nat))
      else if e = CHR ''r'' then Some (char_of (13::nat))
      else if e = CHR ''t'' then Some (char_of (9::nat))
      else None)"

declare unescape.simps [simp del]

text \<open>\<^verbatim>\<open>scanstring\<close>, after the opening quote.\<close>

fun scan_string :: "string \<Rightarrow> json_error + string \<times> string" where
  "scan_string [] = Inl JSONDecodeError"
| "scan_string (c # cs) =
     (if c = quote then Inr ([], cs)
      else if c = backslash then
        (case cs of
           [] \<Rightarrow> Inl JSONDecodeError
         | e # r \<Rightarrow>
             if e = CHR ''u'' then
               (case r of
                  h1 # h2 # h3 # h4 # r' \<Rightarrow>
                    (case hex4 h1 h2 h3 h4 of
                       None \<Rightarrow> Inl JSONDecodeError
                     | Some n \<Rightarrow>
                         if 255 < n then Inl Beyond_char
                         else (case scan_string r' of
                                 Inl x \<Rightarrow> Inl x
                               | Inr (s, rest) \<Rightarrow> Inr (char_of n # s, rest)))
                | _ \<Rightarrow> Inl JSONDecodeError)
             else
               (case unescape e of
                  None \<Rightarrow> Inl JSONDecodeError
                | Some d \<Rightarrow> (case scan_string r of
                               Inl x \<Rightarrow> Inl x
                             | Inr (s, rest) \<Rightarrow> Inr (d # s, rest))))
      else if ord c < 32 then Inl JSONDecodeError
      else (case scan_string cs of Inl x \<Rightarrow> Inl x | Inr (s, rest) \<Rightarrow> Inr (c # s, rest)))"

declare scan_string.simps [simp del]

definition digits_value :: "string \<Rightarrow> nat" where
  "digits_value ds = fold (\<lambda>c n. n * 10 + (ord c - 48)) ds 0"

definition digits_of :: "string \<Rightarrow> string \<times> string" where
  "digits_of s = (takeWhile is_digit s, dropWhile is_digit s)"

text \<open>The optional fraction and the optional exponent of a number.\<close>

definition scan_frac :: "string \<Rightarrow> string \<times> string" where
  "scan_frac s =
     (case s of
        c # cs \<Rightarrow> if c = CHR ''.'' \<and> takeWhile is_digit cs \<noteq> []
                   then (c # takeWhile is_digit cs, dropWhile is_digit cs) else ([], s)
      | [] \<Rightarrow> ([], s))"

definition scan_exp :: "string \<Rightarrow> string \<times> string" where
  "scan_exp s =
     (case s of
        c # cs \<Rightarrow>
          if c = CHR ''e'' \<or> c = CHR ''E'' then
            (let (sign, ds) = (case cs of d # r \<Rightarrow> if d = CHR ''+'' \<or> d = CHR ''-'' then ([d], r) else ([], cs)
                                | [] \<Rightarrow> ([], cs))
             in if takeWhile is_digit ds \<noteq> []
                then (c # sign @ takeWhile is_digit ds, dropWhile is_digit ds) else ([], s))
          else ([], s)
      | [] \<Rightarrow> ([], s))"

text \<open>\<^verbatim>\<open>(-?(?:0|[1-9][0-9]*))([.][0-9]+)?([eE][-+]?[0-9]+)?\<close> at the start of the text.\<close>

definition scan_int :: "string \<Rightarrow> (string \<times> string \<times> string) option" where
  "scan_int s =
     (let (sign, r) = (case s of c # cs \<Rightarrow> if c = CHR ''-'' then ([c], cs) else ([], s) | [] \<Rightarrow> ([], s))
      in case r of
           [] \<Rightarrow> None
         | c # cs \<Rightarrow>
             if c = CHR ''0'' then Some (sign, [c], cs)
             else if is_digit c then Some (sign, takeWhile is_digit r, dropWhile is_digit r)
             else None)"

definition scan_number :: "string \<Rightarrow> (pyval \<times> string) option" where
  "scan_number s =
     (case scan_int s of None \<Rightarrow> None
      | Some (sign, ds, r) \<Rightarrow>
          (let (fr, r1) = scan_frac r; (ex, r2) = scan_exp r1
           in if fr = [] \<and> ex = []
              then Some (PInt (if sign = [] then int (digits_value ds) else - int (digits_value ds)), r2)
              else Some (PFloat (sign @ ds @ fr @ ex), r2)))"

text \<open>An integer literal at the start of the text whose number of digits \<open>big\<close> refuses: the interpreter
  converts no text of more than 4300 digits (\<^verbatim>\<open>sys.get_int_max_str_digits\<close>) and raises a plain
  \<^verbatim>\<open>ValueError\<close>. \<open>loads\<close> reads a text without that limit, \<open>loads_in\<close> with one.\<close>

definition long_int :: "(nat \<Rightarrow> bool) \<Rightarrow> string \<Rightarrow> bool" where
  "long_int big s =
     (case scan_int s of
        None \<Rightarrow> False
      | Some (sign, ds, r) \<Rightarrow>
          fst (scan_frac r) = [] \<and> fst (scan_exp (snd (scan_frac r))) = [] \<and> big (length ds))"

lemma long_int_unlimited [simp]: "\<not> long_int (\<lambda>_. False) s"
  by (simp add: long_int_def split: option.splits prod.splits)

text \<open>The named constants, in the order the scanner tries them; a number is tried between
  \<^verbatim>\<open>false\<close> and \<^verbatim>\<open>NaN\<close>.\<close>

definition scan_atom_in :: "(nat \<Rightarrow> bool) \<Rightarrow> string \<Rightarrow> json_error + pyval \<times> string" where
  "scan_atom_in big s =
     (if startswith s ''null'' then Inr (PNone, drop 4 s)
      else if startswith s ''true'' then Inr (PBool True, drop 4 s)
      else if startswith s ''false'' then Inr (PBool False, drop 5 s)
      else case scan_number s of
        Some (v, r) \<Rightarrow> if long_int big s then Inl Int_digits_error else Inr (v, r)
      | None \<Rightarrow>
          if startswith s ''NaN'' then Inr (PFloat ''NaN'', drop 3 s)
          else if startswith s ''Infinity'' then Inr (PFloat ''Infinity'', drop 8 s)
          else if startswith s ''-Infinity'' then Inr (PFloat ''-Infinity'', drop 9 s)
          else Inl JSONDecodeError)"

text \<open>\<^verbatim>\<open>scan_once\<close> and the two container scanners. \<open>scan_items\<close> and
  \<open>scan_members\<close> start at the first character of an item, behind the white space.\<close>

fun scan_value_in :: "(nat \<Rightarrow> bool) \<Rightarrow> nat \<Rightarrow> string \<Rightarrow> json_error + pyval \<times> string"
and scan_items_in :: "(nat \<Rightarrow> bool) \<Rightarrow> nat \<Rightarrow> string \<Rightarrow> json_error + pyval list \<times> string"
and scan_members_in :: "(nat \<Rightarrow> bool) \<Rightarrow> nat \<Rightarrow> string \<Rightarrow> json_error + (string \<times> pyval) list \<times> string" where
  "scan_value_in big 0 s = Inl Out_of_fuel"
| "scan_value_in big (Suc n) s =
     (case s of
        [] \<Rightarrow> Inl JSONDecodeError
      | c # cs \<Rightarrow>
          if c = quote then
            (case scan_string cs of Inl x \<Rightarrow> Inl x | Inr (t, r) \<Rightarrow> Inr (PStr t, r))
          else if c = CHR ''{'' then
            (case skip_ws cs of
               [] \<Rightarrow> Inl JSONDecodeError
             | d # r \<Rightarrow>
                 if d = CHR ''}'' then Inr (PDict [], r)
                 else (case scan_members_in big n (d # r) of
                         Inl x \<Rightarrow> Inl x
                       | Inr (kvs, r') \<Rightarrow> Inr (PDict (fold (\<lambda>(k, v) d. AList.update k v d) kvs []), r')))
          else if c = CHR ''['' then
            (case skip_ws cs of
               [] \<Rightarrow> Inl JSONDecodeError
             | d # r \<Rightarrow>
                 if d = CHR '']'' then Inr (PList [], r)
                 else (case scan_items_in big n (d # r) of Inl x \<Rightarrow> Inl x | Inr (vs, r') \<Rightarrow> Inr (PList vs, r')))
          else scan_atom_in big s)"
| "scan_items_in big 0 s = Inl Out_of_fuel"
| "scan_items_in big (Suc n) s =
     (case scan_value_in big n s of
        Inl x \<Rightarrow> Inl x
      | Inr (v, r) \<Rightarrow>
          (case skip_ws r of
             [] \<Rightarrow> Inl JSONDecodeError
           | c # r1 \<Rightarrow>
               if c = CHR '']'' then Inr ([v], r1)
               else if c = CHR '','' then
                 (case scan_items_in big n (skip_ws r1) of Inl x \<Rightarrow> Inl x | Inr (vs, r2) \<Rightarrow> Inr (v # vs, r2))
               else Inl JSONDecodeError))"
| "scan_members_in big 0 s = Inl Out_of_fuel"
| "scan_members_in big (Suc n) s =
     (case s of
        [] \<Rightarrow> Inl JSONDecodeError
      | c # cs \<Rightarrow>
          if c \<noteq> quote then Inl JSONDecodeError
          else (case scan_string cs of
                  Inl x \<Rightarrow> Inl x
                | Inr (k, r) \<Rightarrow>
                    (case skip_ws r of
                       [] \<Rightarrow> Inl JSONDecodeError
                     | d # r1 \<Rightarrow>
                         if d \<noteq> CHR '':'' then Inl JSONDecodeError
                         else (case scan_value_in big n (skip_ws r1) of
                                 Inl x \<Rightarrow> Inl x
                               | Inr (v, r2) \<Rightarrow>
                                   (case skip_ws r2 of
                                      [] \<Rightarrow> Inl JSONDecodeError
                                    | e # r3 \<Rightarrow>
                                        if e = CHR ''}'' then Inr ([(k, v)], r3)
                                        else if e = CHR '','' then
                                          (case scan_members_in big n (skip_ws r3) of
                                             Inl x \<Rightarrow> Inl x
                                           | Inr (kvs, r4) \<Rightarrow> Inr ((k, v) # kvs, r4))
                                        else Inl JSONDecodeError)))))"

abbreviation scan_atom :: "string \<Rightarrow> json_error + pyval \<times> string" where
  "scan_atom \<equiv> scan_atom_in (\<lambda>_. False)"

abbreviation scan_value :: "nat \<Rightarrow> string \<Rightarrow> json_error + pyval \<times> string" where
  "scan_value \<equiv> scan_value_in (\<lambda>_. False)"

abbreviation scan_items :: "nat \<Rightarrow> string \<Rightarrow> json_error + pyval list \<times> string" where
  "scan_items \<equiv> scan_items_in (\<lambda>_. False)"

abbreviation scan_members :: "nat \<Rightarrow> string \<Rightarrow> json_error + (string \<times> pyval) list \<times> string" where
  "scan_members \<equiv> scan_members_in (\<lambda>_. False)"

definition loads_in :: "(nat \<Rightarrow> bool) \<Rightarrow> string \<Rightarrow> json_error + pyval" where
  "loads_in big s =
     (case scan_value_in big (2 * length s + 1) (skip_ws s) of
        Inl x \<Rightarrow> Inl x
      | Inr (v, r) \<Rightarrow> if skip_ws r = [] then Inr v else Inl JSONDecodeError)"

definition loads :: "string \<Rightarrow> json_error + pyval" where
  "loads s = loads_in (\<lambda>_. False) s"

subsection \<open>Conversions\<close>

text \<open>\<^verbatim>\<open>repr\<close> of a string: single quotes unless the string has a single quote and no double
  one; the backslash, the quote, the three named escapes and the characters that are not printable
  are escaped.\<close>

definition apostrophe :: char where
  "apostrophe = CHR 0x27"

definition repr_char :: "char \<Rightarrow> char \<Rightarrow> string" where
  "repr_char q c =
     (if c = q \<or> c = backslash then [backslash, c]
      else if ord c = 10 then [backslash, CHR ''n'']
      else if ord c = 13 then [backslash, CHR ''r'']
      else if ord c = 9 then [backslash, CHR ''t'']
      else if ord c < 32 \<or> char_between 127 160 c \<or> ord c = 173 then backslash # CHR ''x'' # hex2 (ord c)
      else [c])"

definition repr_str :: "string \<Rightarrow> string" where
  "repr_str s =
     (let q = (if apostrophe \<in> set s \<and> quote \<notin> set s then quote else apostrophe)
      in q # concat (map (repr_char q) s) @ [q])"

fun py_repr :: "pyval \<Rightarrow> string" where
  "py_repr PNone = ''None''"
| "py_repr (PBool b) = (if b then ''True'' else ''False'')"
| "py_repr (PInt i) = int_str i"
| "py_repr (PFloat t) =
     (if t = ''NaN'' then ''nan'' else if t = ''Infinity'' then ''inf'' else if t = ''-Infinity'' then ''-inf'' else t)"
| "py_repr (PStr s) = repr_str s"
| "py_repr (PList vs) = ''['' @ py_join '', '' (map py_repr vs) @ '']''"
| "py_repr (PDict kvs) = ''{'' @ py_join '', '' (map (\<lambda>(k, v). repr_str k @ '': '' @ py_repr v) kvs) @ ''}''"
| "py_repr (POpaque s) = (case s of None \<Rightarrow> [] | Some t \<Rightarrow> t)"

definition py_str :: "pyval \<Rightarrow> string" where
  "py_str v = (case v of PStr s \<Rightarrow> s | _ \<Rightarrow> py_repr v)"

datatype int_error = Int_value_error | Int_type_error | Int_overflow_error

text \<open>The digits of \<^verbatim>\<open>int(s)\<close>: single underscores are allowed between digits.\<close>

fun int_digits :: "string \<Rightarrow> string option" where
  "int_digits [] = None"
| "int_digits [c] = (if is_digit c then Some [c] else None)"
| "int_digits (c # d # cs) =
     (if \<not> is_digit c then None
      else map_option ((#) c) (int_digits (if d = CHR ''_'' then cs else d # cs)))"

definition int_of_str :: "string \<Rightarrow> int_error + int" where
  "int_of_str s =
     (let t = py_strip s;
          (sign, ds) = (case t of c # cs \<Rightarrow> if c = CHR ''-'' then (-1, cs) else if c = CHR ''+'' then (1, cs) else (1, t)
                        | [] \<Rightarrow> (1, t))
      in case int_digits ds of None \<Rightarrow> Inl Int_value_error | Some d \<Rightarrow> Inr (sign * int (digits_value d)))"

subsection \<open>Equality\<close>

text \<open>The number a numeric value stands for: a truth value is 0 or 1, a float the decimal its text
  denotes (exact for the floats that are integers, the only ones the sources compare with one).\<close>

definition exp_value :: "string \<Rightarrow> int" where
  "exp_value ex =
     (case ex of
        [] \<Rightarrow> 0
      | _ # ds \<Rightarrow> (case ds of
                     [] \<Rightarrow> 0
                   | c # r \<Rightarrow> if c = CHR ''-'' then - int (digits_value r)
                              else if c = CHR ''+'' then int (digits_value r)
                              else int (digits_value ds)))"

definition float_value :: "string \<Rightarrow> rat option" where
  "float_value t =
     (case scan_int t of
        None \<Rightarrow> None
      | Some (sign, ds, r) \<Rightarrow>
          (let (fr, r1) = scan_frac r; (ex, r2) = scan_exp r1;
               m = (of_nat (digits_value (ds @ tl fr)) :: rat);
               e = exp_value ex - int (length (tl fr));
               x = (if 0 \<le> e then m * 10 ^ nat e else m / 10 ^ nat (- e))
           in Some (if sign = [] then x else - x)))"

fun num_value :: "pyval \<Rightarrow> rat option" where
  "num_value (PBool b) = Some (if b then 1 else 0)"
| "num_value (PInt i) = Some (of_int i)"
| "num_value (PFloat t) = float_value t"
| "num_value _ = None"

text \<open>\<^verbatim>\<open>int(v)\<close>: a float is truncated towards zero, an infinity overflows.\<close>

fun py_int :: "pyval \<Rightarrow> int_error + int" where
  "py_int (PInt i) = Inr i"
| "py_int (PBool b) = Inr (if b then 1 else 0)"
| "py_int (PStr s) = int_of_str s"
| "py_int (PFloat t) =
     (if t = ''Infinity'' \<or> t = ''-Infinity'' then Inl Int_overflow_error
      else case float_value t of
        None \<Rightarrow> Inl Int_value_error
      | Some x \<Rightarrow> Inr (if x < 0 then - \<lfloor>- x\<rfloor> else \<lfloor>x\<rfloor>))"
| "py_int _ = Inl Int_type_error"

text \<open>Python's \<^verbatim>\<open>==\<close>: numbers by value, lists item by item, dicts key by key in any order.\<close>

fun py_eq :: "pyval \<Rightarrow> pyval \<Rightarrow> bool"
and py_eq_list :: "pyval list \<Rightarrow> pyval list \<Rightarrow> bool"
and py_eq_members :: "(string \<times> pyval) list \<Rightarrow> (string \<times> pyval) list \<Rightarrow> bool" where
  "py_eq PNone w = (w = PNone)"
| "py_eq (PBool b) w = (num_value w = Some (if b then 1 else 0))"
| "py_eq (PInt i) w = (num_value w = Some (of_int i))"
| "py_eq (PFloat t) w = (float_value t \<noteq> None \<and> num_value w = float_value t)"
| "py_eq (PStr s) w = (w = PStr s)"
| "py_eq (PList vs) w = (case w of PList ws \<Rightarrow> py_eq_list vs ws | _ \<Rightarrow> False)"
| "py_eq (PDict kvs) w =
     (case w of PDict kws \<Rightarrow> length kvs = length kws \<and> py_eq_members kvs kws | _ \<Rightarrow> False)"
| "py_eq (POpaque s) w = (w = POpaque s)"
| "py_eq_list [] ws = (ws = [])"
| "py_eq_list (v # vs) ws = (case ws of [] \<Rightarrow> False | w # ws' \<Rightarrow> py_eq v w \<and> py_eq_list vs ws')"
| "py_eq_members [] kws = True"
| "py_eq_members ((k, v) # kvs) kws =
     ((case map_of kws k of None \<Rightarrow> False | Some w \<Rightarrow> py_eq v w) \<and> py_eq_members kvs kws)"

subsection \<open>The fuel is enough\<close>

lemma length_skip_ws: "length (skip_ws s) \<le> length s"
  by (simp add: skip_ws_def length_dropWhile_le)

lemma skip_ws_Cons: "skip_ws s = c # r \<Longrightarrow> length r < length s"
  using length_skip_ws [of s] by simp

lemma scan_string_rest: "scan_string s = Inr (t, r) \<Longrightarrow> length r < length s"
proof (induction s arbitrary: t rule: length_induct)
  case (1 s)
  then have IH: "scan_string s' = Inr (t', r) \<Longrightarrow> length s' < length s \<Longrightarrow> length r < length s'" for s' t'
    by blast
  show ?case
  proof (cases s)
    case Nil
    with "1.prems" show ?thesis by (simp add: scan_string.simps)
  next
    case (Cons c cs)
    with "1.prems" show ?thesis
      by (auto simp: scan_string.simps(2) [of c cs]
          split: if_splits list.splits option.splits sum.splits dest!: IH)
  qed
qed

lemma scan_string_fuel: "scan_string s = Inl Out_of_fuel \<Longrightarrow> False"
proof (induction s rule: length_induct)
  case (1 s)
  then have IH: "scan_string s' = Inl Out_of_fuel \<Longrightarrow> length s' < length s \<Longrightarrow> False" for s'
    by blast
  show ?case
  proof (cases s)
    case Nil
    with "1.prems" show ?thesis by (auto simp: scan_string.simps)
  next
    case (Cons c cs)
    with "1.prems" show ?thesis
      by (auto simp: scan_string.simps(2) [of c cs]
          split: if_splits list.splits option.splits sum.splits dest!: IH)
  qed
qed

lemma scan_int_rest: "scan_int s = Some (sign, ds, r) \<Longrightarrow> length r < length s"
  using length_dropWhile_le [of is_digit "tl s"] length_dropWhile_le [of is_digit "tl (tl s)"]
  by (auto simp: scan_int_def split: list.splits if_splits)

lemma scan_frac_rest: "scan_frac s = (t, r) \<Longrightarrow> length r \<le> length s"
  using length_dropWhile_le [of is_digit "tl s"]
  by (auto simp: scan_frac_def split: list.splits if_splits)

lemma scan_exp_rest: "scan_exp s = (t, r) \<Longrightarrow> length r \<le> length s"
  using length_dropWhile_le [of is_digit "tl s"] length_dropWhile_le [of is_digit "tl (tl s)"]
  by (auto simp: scan_exp_def Let_def split: list.splits if_splits)

lemma scan_number_rest: "scan_number s = Some (v, r) \<Longrightarrow> length r < length s"
  by (fastforce simp: scan_number_def Let_def split: option.splits prod.splits if_splits
      dest!: scan_int_rest scan_frac_rest scan_exp_rest)

lemma startswith_length: "startswith s p \<Longrightarrow> length p \<le> length s"
  by (metis startswith_def length_take min.cobounded1)

lemma scan_atom_rest: "scan_atom s = Inr (v, r) \<Longrightarrow> length r < length s"
  by (auto simp: scan_atom_in_def split: if_splits option.splits
      dest: scan_number_rest dest!: startswith_length)

lemma scan_atom_fuel: "scan_atom s \<noteq> Inl Out_of_fuel"
  by (auto simp: scan_atom_in_def split: option.splits)

lemma skip_ws_less: "length r < length (skip_ws s) \<Longrightarrow> length r < length s"
  using length_skip_ws [of s] by linarith

lemma scan_rest:
  "scan_value n s = Inr (v, r) \<Longrightarrow> length r < length s"
  "scan_items n s = Inr (vs, r) \<Longrightarrow> length r < length s"
  "scan_members n s = Inr (kvs, r) \<Longrightarrow> length r < length s"
proof (induction n arbitrary: s v vs kvs r)
  case 0
  { case 1 then show ?case by simp }
  { case 2 then show ?case by simp }
  { case 3 then show ?case by simp }
next
  case (Suc n)
  { case 1 then show ?case
      by (fastforce split: list.splits if_splits sum.splits prod.splits
          dest: Suc.IH scan_string_rest scan_atom_rest skip_ws_Cons) }
  { case 2 then show ?case
      by (fastforce split: list.splits if_splits sum.splits prod.splits
          dest!: Suc.IH(1,2) skip_ws_Cons skip_ws_less) }
  { case 3 then show ?case
      by (fastforce split: list.splits if_splits sum.splits prod.splits
          dest!: Suc.IH(1,3) skip_ws_Cons scan_string_rest skip_ws_less) }
qed

lemma scan_fuel:
  "2 * length s < n \<Longrightarrow> scan_value n s = Inl Out_of_fuel \<Longrightarrow> False"
  "2 * length s + 1 < n \<Longrightarrow> scan_items n s = Inl Out_of_fuel \<Longrightarrow> False"
  "2 * length s + 1 < n \<Longrightarrow> scan_members n s = Inl Out_of_fuel \<Longrightarrow> False"
proof (induction n arbitrary: s)
  case 0
  { case 1 then show ?case by simp }
  { case 2 then show ?case by simp }
  { case 3 then show ?case by simp }
next
  case (Suc n)
  { case 1
    show ?case
    proof (cases s)
      case (Cons c cs)
      show ?thesis
      proof (cases "skip_ws cs")
        case Nil
        with 1(2) Cons show ?thesis
          by (auto split: if_splits sum.splits dest: scan_string_fuel simp: scan_atom_fuel)
      next
        case (Cons d r)
        then have "scan_items n (d # r) \<noteq> Inl Out_of_fuel" "scan_members n (d # r) \<noteq> Inl Out_of_fuel"
          using 1(1) \<open>s = c # cs\<close> length_skip_ws [of cs] Suc.IH(2,3) [of "d # r"] by auto
        with 1(2) Cons \<open>s = c # cs\<close> show ?thesis
          by (auto split: if_splits sum.splits dest: scan_string_fuel simp: scan_atom_fuel)
      qed
    qed (use 1(2) in simp) }
  { case 2
    have v: "scan_value n s \<noteq> Inl Out_of_fuel"
      using 2(1) Suc.IH(1) [of s] by auto
    have "scan_items n (skip_ws r1) \<noteq> Inl Out_of_fuel"
      if "scan_value n s = Inr (w, r)" "skip_ws r = c # r1" for w r c r1
      using 2(1) scan_rest(1) [OF that(1)] skip_ws_Cons [OF that(2)] length_skip_ws [of r1]
        Suc.IH(2) [of "skip_ws r1"] by auto
    with v 2(2) show ?case
      by (auto split: list.splits if_splits sum.splits prod.splits) }
  { case 3
    have v: "scan_value n (skip_ws r1) \<noteq> Inl Out_of_fuel"
      if "s = c # cs" "scan_string cs = Inr (k, r)" "skip_ws r = d # r1" for c cs k r d r1
      using 3(1) that(1) scan_string_rest [OF that(2)] skip_ws_Cons [OF that(3)] length_skip_ws [of r1]
        Suc.IH(1) [of "skip_ws r1"] by auto
    have m: "scan_members n (skip_ws r3) \<noteq> Inl Out_of_fuel"
      if "s = c # cs" "scan_string cs = Inr (k, r)" "skip_ws r = d # r1"
        "scan_value n (skip_ws r1) = Inr (w, r2)" "skip_ws r2 = e # r3" for c cs k r d r1 w r2 e r3
      using 3(1) that(1) scan_string_rest [OF that(2)] skip_ws_Cons [OF that(3)] length_skip_ws [of r1]
        scan_rest(1) [OF that(4)] skip_ws_Cons [OF that(5)] length_skip_ws [of r3]
        Suc.IH(3) [of "skip_ws r3"] by auto
    from 3(2) show ?case
      by (auto split: list.splits if_splits sum.splits prod.splits dest: scan_string_fuel v m) }
qed

lemma loads_total: "loads s \<noteq> Inl Out_of_fuel"
proof
  assume "loads s = Inl Out_of_fuel"
  then have "scan_value (2 * length s + 1) (skip_ws s) = Inl Out_of_fuel"
    by (auto simp: loads_def loads_in_def split: sum.splits if_splits)
  then show False
    using scan_fuel(1) [of "skip_ws s" "2 * length s + 1"] length_skip_ws [of s] by simp
qed

subsection \<open>Reading what was printed: strings\<close>

lemma less_16_cases:
  "d < 16 \<Longrightarrow> d \<in> {0, 1, 2, 3, 4, 5, 6, 7, 8, 9, 10, 11, 12, 13, 14, 15::nat}"
  unfolding insert_iff empty_iff by presburger

lemma hex_value_digit [simp]: "d < 16 \<Longrightarrow> hex_value (digit_char d) = Some d"
  by (drule less_16_cases) (auto simp: hex_value.simps digit_char_def char_between_def ord_def)

lemma hex4_hex2: "n < 256 \<Longrightarrow> hex4 CHR ''0'' CHR ''0'' (digit_char (n div 16 mod 16)) (digit_char (n mod 16)) = Some n"
  using hex_value_digit [of 0] by (simp add: hex4_def digit_char_def [of 0])

lemma ord_less_256 [simp]: "ord c < 256" "\<not> 255 < ord c"
proof -
  show "ord c < 256" by (simp add: ord_def)
  then show "\<not> 255 < ord c" by linarith
qed

lemma char_of_ord [simp]: "char_of (ord c) = c"
  by (simp add: ord_def)

lemma ord_quote [simp]: "ord quote = 34"
  by (simp add: ord_def quote_def)

lemma ord_backslash [simp]: "ord backslash = 92"
  by (simp add: ord_def backslash_def)

lemma ord_inj: "ord c = ord d \<longleftrightarrow> c = d"
  by (simp add: ord_def)

lemma quote_backslash [simp]: "quote \<noteq> backslash" "backslash \<noteq> quote"
  using ord_inj [of quote backslash] by auto

lemma u_neq [simp]: "CHR ''u'' \<noteq> quote" "CHR ''u'' \<noteq> backslash" "quote \<noteq> CHR ''u''" "backslash \<noteq> CHR ''u''"
  by (simp_all add: quote_def backslash_def) (simp_all flip: ord_inj add: ord_def)

lemma ord_eqD: "ord c = n \<Longrightarrow> c = char_of n"
  by (auto simp: ord_def)

lemma unescape_special:
  "unescape quote = Some (char_of (34::nat))" "unescape backslash = Some (char_of (92::nat))"
  "unescape CHR ''b'' = Some (char_of (8::nat))" "unescape CHR ''t'' = Some (char_of (9::nat))"
  "unescape CHR ''n'' = Some (char_of (10::nat))" "unescape CHR ''f'' = Some (char_of (12::nat))"
  "unescape CHR ''r'' = Some (char_of (13::nat))"
  by code_simp+

lemma short_escape_unescape: "short_escape (ord c) = Some e \<Longrightarrow> unescape e = Some c \<and> e \<noteq> CHR ''u''"
  by (auto simp: short_escape.simps unescape_special split: if_splits dest!: ord_eqD)

definition map_scan :: "char \<Rightarrow> json_error + string \<times> string \<Rightarrow> json_error + string \<times> string" where
  "map_scan c res = (case res of Inl x \<Rightarrow> Inl x | Inr (s, rest) \<Rightarrow> Inr (c # s, rest))"

lemma scan_escape: "scan_string (escape_char a c @ r) = map_scan c (scan_string r)"
proof (cases "short_escape (ord c)")
  case (Some e)
  with short_escape_unescape [OF Some] show ?thesis
    by (simp add: escape_char_def scan_string.simps map_scan_def)
next
  case None
  then have "c \<noteq> quote" "c \<noteq> backslash"
    by (auto simp: short_escape.simps)
  with None show ?thesis
    by (auto simp: escape_char_def scan_string.simps map_scan_def hex2_def hex4_hex2 not_less
        less_imp_le_nat split: sum.splits)
qed

lemma scan_dumps_str: "scan_string (concat (map (escape_char a) s) @ quote # r) = Inr (s, r)"
  by (induction s) (simp_all add: scan_string.simps(2) [of quote] scan_escape map_scan_def)

subsection \<open>Reading what was printed: numbers\<close>

text \<open>What may follow a number without becoming part of it.\<close>

definition stops :: "string \<Rightarrow> bool" where
  "stops r \<longleftrightarrow> r = [] \<or> \<not> is_digit (hd r) \<and> hd r \<notin> set ''.eE''"

lemma takeWhile_stops: "stops r \<Longrightarrow> \<forall>c \<in> set ds. is_digit c \<Longrightarrow>
  takeWhile is_digit (ds @ r) = ds \<and> dropWhile is_digit (ds @ r) = r"
  by (cases r) (auto simp: stops_def takeWhile_append dropWhile_append)

lemma digits_value_snoc: "digits_value (ds @ [c]) = digits_value ds * 10 + (ord c - 48)"
  by (simp add: digits_value_def)

lemma less_10_cases: "d < 10 \<Longrightarrow> d \<in> {0, 1, 2, 3, 4, 5, 6, 7, 8, 9::nat}"
  by auto

lemma ord_digit [simp]: "d < 10 \<Longrightarrow> ord (digit_char d) = 48 + d"
  by (drule less_10_cases) (auto simp: digit_char_def ord_def)

lemma is_digit_nat_str: "c \<in> set (nat_str n) \<Longrightarrow> is_digit c"
  by (auto dest!: nat_str_chars simp: is_digit_def char_between_def)

lemma digits_value_nat_str [simp]: "digits_value (nat_str n) = n"
proof (induction n rule: nat_str.induct)
  case (1 n)
  then show ?case
    by (cases "n < 10") (simp_all add: nat_str.simps [of n] digits_value_snoc, simp add: digits_value_def)
qed

lemma hd_nat_str: "0 < n \<Longrightarrow> hd (nat_str n) \<noteq> CHR ''0''"
proof (induction n rule: nat_str.induct)
  case (1 n)
  have "digit_char n \<noteq> CHR ''0''" if "n < 10"
    using that "1.prems" ord_digit [OF that] by (auto simp: ord_def)
  with 1 show ?case
    by (cases "n < 10") (simp_all add: nat_str.simps [of n] hd_append)
qed

lemma takeWhile_stops_append: "stops r \<Longrightarrow>
  takeWhile is_digit (u @ r) = takeWhile is_digit u \<and> dropWhile is_digit (u @ r) = dropWhile is_digit u @ r"
  by (induction u) (cases r; auto simp: stops_def)+

text \<open>The first character of a number, and the scanners on a number followed by something
  else.\<close>

lemma scan_int_append:
  assumes "scan_int t = Some (sign, ds, r0)" and "stops r"
  shows "scan_int (t @ r) = Some (sign, ds, r0 @ r)"
proof -
  note tw = takeWhile_stops_append [OF assms(2)]
  obtain sg u where su: "(case t of c # cs \<Rightarrow> if c = CHR ''-'' then ([c], cs) else ([], t) | [] \<Rightarrow> ([], t)) = (sg, u)"
    by (rule prod.exhaust)
  moreover have "t \<noteq> []"
    using assms(1) by (auto simp: scan_int_def)
  ultimately have "(case t @ r of c # cs \<Rightarrow> if c = CHR ''-'' then ([c], cs) else ([], t @ r) | [] \<Rightarrow> ([], t @ r)) = (sg, u @ r)"
    by (cases t) (auto split: if_splits)
  moreover have "u \<noteq> []"
    using assms(1) su by (auto simp: scan_int_def)
  ultimately show ?thesis
    using assms(1) su tw [of u] by (cases u) (auto simp: scan_int_def split: if_splits)
qed

lemma scan_frac_append:
  assumes "scan_frac t = (fr, r0)" and "stops r"
  shows "scan_frac (t @ r) = (fr, r0 @ r)"
proof -
  note tw = takeWhile_stops_append [OF assms(2)]
  show ?thesis
    using assms tw by (cases t; cases r) (auto simp: scan_frac_def stops_def split: if_splits)
qed

lemma scan_exp_append:
  assumes "scan_exp t = (ex, [])" and "stops r"
  shows "scan_exp (t @ r) = (ex, r)"
proof (cases t)
  case Nil
  with assms show ?thesis by (cases r) (auto simp: scan_exp_def stops_def)
next
  case (Cons c cs)
  note tw = takeWhile_stops_append [OF assms(2)]
  show ?thesis
    using assms(1) Cons tw by (cases cs) (auto simp: scan_exp_def Let_def split: if_splits)
qed

lemma scan_int_nat_str:
  assumes "stops r"
  shows "scan_int (nat_str n @ r) = Some ([], nat_str n, r)"
    and "scan_int (CHR ''-'' # nat_str n @ r) = Some (''-'', nat_str n, r)"
proof -
  obtain c cs where n: "nat_str n = c # cs" by (cases "nat_str n") auto
  then have d: "is_digit c" "\<forall>x \<in> set cs. is_digit x"
    using is_digit_nat_str [of _ n] by auto
  then have "c \<noteq> CHR ''-''" by (auto simp: is_digit_def char_between_def ord_def)
  moreover have "cs = []" if "c = CHR ''0''"
    using that hd_nat_str [of n] n by (cases "n = 0") (auto simp: nat_str.simps)
  ultimately show "scan_int (nat_str n @ r) = Some ([], nat_str n, r)"
    and "scan_int (CHR ''-'' # nat_str n @ r) = Some (''-'', nat_str n, r)"
    using n d takeWhile_stops [OF assms, of cs] by (auto simp: scan_int_def)
qed

lemma scan_frac_exp_stops [simp]: "stops r \<Longrightarrow> scan_frac r = ([], r)" "stops r \<Longrightarrow> scan_exp r = ([], r)"
  by (cases r; auto simp: scan_frac_def scan_exp_def stops_def)+

lemma scan_number_int: "stops r \<Longrightarrow> scan_number (int_str i @ r) = Some (PInt i, r)"
  by (auto simp: scan_number_def int_str_def scan_int_nat_str)

definition is_float_text :: "string \<Rightarrow> bool" where
  "is_float_text t \<longleftrightarrow> t \<in> {''NaN'', ''Infinity'', ''-Infinity''} \<or> scan_number t = Some (PFloat t, [])"

lemma scan_number_float:
  assumes "scan_number t = Some (PFloat t, [])" and "stops r"
  shows "scan_number (t @ r) = Some (PFloat t, r)"
proof -
  obtain sign ds r0 where i: "scan_int t = Some (sign, ds, r0)"
    using assms(1) by (auto simp: scan_number_def split: option.splits)
  obtain fr r1 where f: "scan_frac r0 = (fr, r1)" by fastforce
  obtain ex r2 where e: "scan_exp r1 = (ex, r2)" by fastforce
  from assms(1) i f e have "r2 = []" "\<not> (fr = [] \<and> ex = [])" "sign @ ds @ fr @ ex = t"
    by (auto simp: scan_number_def split: if_splits)
  with scan_int_append [OF i assms(2)] scan_frac_append [OF f assms(2)] scan_exp_append [of r1 ex r] e assms(2)
  show ?thesis by (auto simp: scan_number_def)
qed

lemma scan_int_hd: "scan_int t = Some x \<Longrightarrow> \<exists>c cs. t = c # cs \<and> (c = CHR ''-'' \<or> is_digit c)"
  by (auto simp: scan_int_def is_digit_def char_between_def ord_def split: list.splits if_splits)

lemma scan_number_hd: "scan_number t = Some x \<Longrightarrow> \<exists>c cs. t = c # cs \<and> (c = CHR ''-'' \<or> is_digit c)"
  by (auto simp: scan_number_def split: option.splits dest: scan_int_hd)

lemma scan_atom_number: "scan_number s = Some (v, r) \<Longrightarrow> scan_atom s = Inr (v, r)"
  using scan_number_hd [of s "(v, r)"]
  by (auto simp: scan_atom_in_def startswith_def is_digit_def char_between_def ord_def)

lemma scan_atom_float: "is_float_text t \<Longrightarrow> stops r \<Longrightarrow> scan_atom (t @ r) = Inr (PFloat t, r)"
  using scan_number_float [of t r]
  by (auto simp: is_float_text_def scan_atom_number)
    (auto simp: scan_atom_in_def startswith_def scan_number_def scan_int_def is_digit_def char_between_def ord_def)

subsection \<open>Reading what was printed: values\<close>

text \<open>What a value becomes on the way through the text: opaque values become their strings and
  the keys of a dict are in order.\<close>

fun json_norm :: "(string option \<Rightarrow> string option) \<Rightarrow> pyval \<Rightarrow> pyval" where
  "json_norm d (PList vs) = PList (map (json_norm d) vs)"
| "json_norm d (PDict kvs) = PDict (sort_key fst (map (\<lambda>(k, v). (k, json_norm d v)) kvs))"
| "json_norm d (POpaque s) = (case d s of None \<Rightarrow> POpaque s | Some t \<Rightarrow> PStr t)"
| "json_norm d v = v"

fun wf_val :: "pyval \<Rightarrow> bool" where
  "wf_val (PFloat t) = is_float_text t"
| "wf_val (PList vs) = (\<forall>v \<in> set vs. wf_val v)"
| "wf_val (PDict kvs) = (distinct (map fst kvs) \<and> (\<forall>(k, v) \<in> set kvs. wf_val v))"
| "wf_val v = True"

definition separators_ok :: "dump_options \<Rightarrow> bool" where
  "separators_ok opt \<longleftrightarrow>
     (case item_sep opt of [] \<Rightarrow> False | c # cs \<Rightarrow> c = CHR '','' \<and> list_all json_space cs) \<and>
     (case key_sep opt of [] \<Rightarrow> False | c # cs \<Rightarrow> c = CHR '':'' \<and> list_all json_space cs)"

lemma insort_key_map:
  "insort_key fst (k, f v) (map (\<lambda>(k, v). (k, f v)) xs) = map (\<lambda>(k, v). (k, f v)) (insort_key fst (k, v) xs)"
  by (induction xs) auto

lemma sort_key_map: "sort_key fst (map (\<lambda>(k, v). (k, f v)) xs) = map (\<lambda>(k, v). (k, f v)) (sort_key fst xs)"
  by (induction xs) (auto simp: insort_key_map)

lemma distinct_keys_sort [simp]: "distinct (keys (sort_key fst d)) \<longleftrightarrow> distinct (keys d)"
  by (simp add: distinct_map)

lemma update_new: "k \<notin> set (keys d) \<Longrightarrow> AList.update k v d = d @ [(k, v)]"
  by (induction d) auto

lemma fold_update_new:
  "distinct (keys (d @ kvs)) \<Longrightarrow> fold (\<lambda>(k, v) d. AList.update k v d) kvs d = d @ kvs"
proof (induction kvs arbitrary: d)
  case (Cons kv kvs)
  then show ?case by (cases kv) (simp add: update_new)
qed simp

lemma skip_ws_append: "list_all json_space w \<Longrightarrow> skip_ws (w @ s) = skip_ws s"
  by (induction w) (auto simp: skip_ws_def)

lemma skip_ws_id: "\<not> json_space c \<Longrightarrow> skip_ws (c # s) = c # s"
  by (simp add: skip_ws_def)

lemma not_json_space [simp]:
  "\<not> json_space CHR '',''" "\<not> json_space CHR '']''" "\<not> json_space CHR ''}''" "\<not> json_space CHR '':''"
  "\<not> json_space CHR ''{''" "\<not> json_space CHR ''[''" "\<not> json_space quote"
  by (simp_all add: json_space_def) (simp_all add: ord_def)

lemma punct_not_quote [simp]: "CHR ''['' \<noteq> quote" "CHR ''{'' \<noteq> quote" "CHR ''}'' \<noteq> quote" "CHR '']'' \<noteq> quote"
  "quote \<noteq> CHR ''}''" "quote \<noteq> CHR '']''"
  by (simp_all add: quote_def)

lemma stops_punct [simp]: "stops (CHR '','' # r)" "stops (CHR '']'' # r)" "stops (CHR ''}'' # r)" "stops []"
  by (simp_all add: stops_def is_digit_def char_between_def ord_def)

text \<open>A text from which the scanner scans_as a value, whatever follows it.\<close>

definition scans_as :: "string \<Rightarrow> pyval \<Rightarrow> bool" where
  "scans_as t v \<longleftrightarrow>
     (\<exists>c cs. t = c # cs \<and> \<not> json_space c \<and> c \<noteq> CHR '']'' \<and> c \<noteq> CHR ''}'') \<and>
     (\<forall>n r. stops r \<longrightarrow> 2 * length (t @ r) < n \<longrightarrow> scan_value n (t @ r) = Inr (v, r))"

lemma scans_as_skip: "scans_as t v \<Longrightarrow> skip_ws (t @ r) = t @ r"
  by (auto simp: scans_as_def skip_ws_id)

lemma scans_as_scan: "scans_as t v \<Longrightarrow> stops r \<Longrightarrow> 2 * length (t @ r) < n \<Longrightarrow> scan_value n (t @ r) = Inr (v, r)"
  by (simp add: scans_as_def)

lemma scan_items_scans_as:
  assumes "sep = CHR '','' # w" and "list_all json_space w"
  shows "\<forall>(t, v) \<in> set tvs. scans_as t v \<Longrightarrow> tvs \<noteq> [] \<Longrightarrow>
    2 * length (py_join sep (map fst tvs) @ CHR '']'' # r) + 1 < n \<Longrightarrow>
    scan_items n (py_join sep (map fst tvs) @ CHR '']'' # r) = Inr (map snd tvs, r)"
proof (induction tvs arbitrary: n)
  case step: (Cons tv tvs)
  obtain t v where tv: "tv = (t, v)" by fastforce
  obtain m where n: "n = Suc m" using step.prems by (cases n) auto
  from step.prems tv have rd: "scans_as t v" by auto
  show ?case
  proof (cases tvs)
    case Nil
    with step.prems tv n rd scans_as_scan [OF rd, of "CHR '']'' # r" m] show ?thesis
      by (simp add: skip_ws_id)
  next
    case (Cons tv' tvs')
    let ?rest = "py_join sep (map fst tvs) @ CHR '']'' # r"
    have rest: "skip_ws (w @ ?rest) = ?rest"
      using step.prems Cons assms(2) scans_as_skip [of "fst tv'" "snd tv'"]
      by (cases tv'; cases tvs') (auto simp: skip_ws_append)
    have "scan_value m (t @ CHR '','' # w @ ?rest) = Inr (v, CHR '','' # w @ ?rest)"
      using step.prems Cons tv n assms(1) by (intro scans_as_scan [OF rd]) auto
    moreover have "scan_items m ?rest = Inr (map snd tvs, r)"
      using step.prems Cons tv n assms(1) by (intro step.IH) auto
    ultimately show ?thesis
      using Cons tv n assms(1) rest by (simp add: skip_ws_id)
  qed
qed simp

lemma scan_members_scans_as:
  fixes a :: bool
  assumes "sep = CHR '','' # w" and "list_all json_space w"
    and "ksep = CHR '':'' # x" and "list_all json_space x"
  defines "txt \<equiv> (\<lambda>(k, t, v). dumps_str a k @ ksep @ t) :: string \<times> string \<times> pyval \<Rightarrow> string"
  shows "\<forall>(k, t, v) \<in> set kvs. scans_as t v \<Longrightarrow> kvs \<noteq> [] \<Longrightarrow>
    2 * length (py_join sep (map txt kvs) @ CHR ''}'' # r) + 1 < n \<Longrightarrow>
    scan_members n (py_join sep (map txt kvs) @ CHR ''}'' # r) = Inr (map (\<lambda>(k, t, v). (k, v)) kvs, r)"
proof (induction kvs arbitrary: n)
  case step: (Cons kv kvs)
  obtain k t v where kv: "kv = (k, t, v)" by (cases kv) auto
  obtain m where n: "n = Suc m" using step.prems by (cases n) auto
  from step.prems kv have rd: "scans_as t v" by auto
  have skip: "skip_ws (x @ t @ u) = t @ u" for u
    using assms(4) scans_as_skip [OF rd, of u] by (simp add: skip_ws_append)
  have key: "scan_string (concat (map (escape_char a) k) @ quote # CHR '':'' # x @ t @ u) =
      Inr (k, CHR '':'' # x @ t @ u)" for u
    by (rule scan_dumps_str)
  show ?case
  proof (cases kvs)
    case Nil
    have "scan_value m (t @ CHR ''}'' # r) = Inr (v, CHR ''}'' # r)"
      using step.prems Nil kv n assms(3) by (intro scans_as_scan [OF rd]) (auto simp: txt_def dumps_str_def)
    with Nil kv n key [of "CHR ''}'' # r"] skip [of "CHR ''}'' # r"] assms(3) show ?thesis
      by (simp add: txt_def dumps_str_def skip_ws_id)
  next
    case (Cons kv' kvs')
    let ?rest = "py_join sep (map txt kvs) @ CHR ''}'' # r"
    obtain q where q: "?rest = quote # q"
      using Cons by (cases kv'; cases kvs') (auto simp: txt_def dumps_str_def)
    then have rest: "skip_ws (w @ ?rest) = ?rest"
      using assms(2) by (simp add: skip_ws_append skip_ws_id)
    have "scan_value m (t @ CHR '','' # w @ ?rest) = Inr (v, CHR '','' # w @ ?rest)"
      using step.prems Cons kv n assms(1,3) by (intro scans_as_scan [OF rd]) (auto simp: txt_def dumps_str_def)
    moreover have "scan_members m ?rest = Inr (map (\<lambda>(k, t, v). (k, v)) kvs, r)"
      using step.prems Cons kv n assms(1,3) by (intro step.IH) (auto simp: txt_def dumps_str_def)
    moreover have "py_join sep (map txt (kv # kvs)) @ CHR ''}'' # r =
        quote # concat (map (escape_char a) k) @ quote # CHR '':'' # x @ t @ CHR '','' # w @ ?rest"
      using Cons kv assms(1,3) by (simp add: txt_def dumps_str_def)
    ultimately show ?thesis
      using kv n key [of "CHR '','' # w @ ?rest"] skip [of "CHR '','' # w @ ?rest"] rest
      by (simp add: skip_ws_id)
  qed
qed simp

lemma dumps_items_Some:
  "dumps_items opt vs = Some ts \<Longrightarrow> (\<forall>v \<in> set vs. dumps opt v \<noteq> None) \<and> ts = map (\<lambda>v. the (dumps opt v)) vs"
  by (induction vs arbitrary: ts) (auto split: option.splits)

lemma dumps_members_Some:
  "dumps_members opt kvs = Some ms \<Longrightarrow>
   (\<forall>(k, v) \<in> set kvs. dumps opt v \<noteq> None) \<and> ms = map (\<lambda>(k, v). (k, the (dumps opt v))) kvs"
  by (induction kvs arbitrary: ms) (auto split: option.splits)

lemma scans_as_atom:
  assumes "t = c # cs" and "c = CHR ''-'' \<or> c = CHR ''N'' \<or> c = CHR ''I'' \<or> c = CHR ''n'' \<or> c = CHR ''t'' \<or> c = CHR ''f'' \<or> is_digit c"
    and "\<And>r. stops r \<Longrightarrow> scan_atom (t @ r) = Inr (v, r)"
  shows "scans_as t v"
proof -
  have c: "\<not> json_space c" "c \<noteq> CHR '']''" "c \<noteq> CHR ''}''" "c \<noteq> CHR ''{''" "c \<noteq> CHR ''[''" "c \<noteq> quote"
    using assms(2) by (auto simp: is_digit_def char_between_def json_space_def quote_def ord_def)
  have "scan_value n (t @ r) = Inr (v, r)" if "stops r" "2 * length (t @ r) < n" for n r
    using that c assms(1,3) by (cases n) auto
  with c assms(1) show ?thesis
    by (auto simp: scans_as_def)
qed

lemma scans_as_int: "scans_as (int_str i) (PInt i)"
proof -
  have "\<exists>c cs. int_str i = c # cs \<and> (c = CHR ''-'' \<or> is_digit c)"
    using scan_number_hd [OF scan_number_int [of "[]" i]] by simp
  then obtain c cs where "int_str i = c # cs" "c = CHR ''-'' \<or> is_digit c" by blast
  then show ?thesis
    using scan_atom_number [OF scan_number_int] by (intro scans_as_atom [of _ c cs]) blast+
qed

lemma scans_as_float: "is_float_text t \<Longrightarrow> scans_as t (PFloat t)"
proof -
  assume f: "is_float_text t"
  then have "\<exists>c cs. t = c # cs \<and> (c = CHR ''-'' \<or> c = CHR ''N'' \<or> c = CHR ''I'' \<or> is_digit c)"
    by (auto simp: is_float_text_def dest: scan_number_hd)
  then obtain c cs where "t = c # cs" "c = CHR ''-'' \<or> c = CHR ''N'' \<or> c = CHR ''I'' \<or> is_digit c" by blast
  then show ?thesis
    using scan_atom_float [OF f] by (intro scans_as_atom [of _ c cs]) blast+
qed

lemma scans_as_str: "scans_as (dumps_str a s) (PStr s)"
proof -
  have "scan_value n (dumps_str a s @ r) = Inr (PStr s, r)" if "2 * length (dumps_str a s @ r) < n" for n r
    using that scan_dumps_str [of a s r] by (cases n) (auto simp: dumps_str_def)
  then show ?thesis
    by (auto simp: scans_as_def dumps_str_def)
qed

lemma scans_as_const:
  "scans_as ''null'' PNone" "scans_as ''true'' (PBool True)" "scans_as ''false'' (PBool False)"
  by (rule scans_as_atom [of _ "CHR ''n''" "''ull''"], simp_all add: scan_atom_in_def startswith_def)
    (rule scans_as_atom [of _ "CHR ''t''" "''rue''"], simp_all add: scan_atom_in_def startswith_def,
     rule scans_as_atom [of _ "CHR ''f''" "''alse''"], simp_all add: scan_atom_in_def startswith_def)

lemma dumps_scans_as:
  "wf_val v \<Longrightarrow> separators_ok opt \<Longrightarrow> dumps opt v = Some t \<Longrightarrow> scans_as t (json_norm (default_str opt) v)"
proof (induction v arbitrary: t)
  case (PList vs)
  then obtain ts where ts: "dumps_items opt vs = Some ts" and t: "t = ''['' @ py_join (item_sep opt) ts @ '']''"
    by (auto split: option.splits)
  let ?tvs = "map (\<lambda>v. (the (dumps opt v), json_norm (default_str opt) v)) vs"
  have rd: "\<forall>(t, v) \<in> set ?tvs. scans_as t v"
    using PList dumps_items_Some [OF ts] by fastforce
  have m: "map fst ?tvs = ts" "map snd ?tvs = map (json_norm (default_str opt)) vs"
    using dumps_items_Some [OF ts] by (simp_all add: comp_def)
  obtain w where w: "item_sep opt = CHR '','' # w" "list_all json_space w"
    using PList.prems(2) by (auto simp: separators_ok_def split: list.splits)
  have "scan_value n (t @ r) = Inr (PList (map (json_norm (default_str opt)) vs), r)"
    if n: "2 * length (t @ r) < n" for n r
  proof (cases vs)
    case Nil
    with ts t n show ?thesis by (cases n) (auto simp: skip_ws_id)
  next
    case (Cons v vs')
    let ?body = "py_join (item_sep opt) ts @ CHR '']'' # r"
    obtain k where k: "n = Suc k" using n by (cases n) auto
    obtain c cs where c: "?body = c # cs" "\<not> json_space c" "c \<noteq> CHR '']''"
      using Cons rd m(1) by (cases vs') (auto simp: scans_as_def)
    have "scan_items k ?body = Inr (map (json_norm (default_str opt)) vs, r)"
      using scan_items_scans_as [OF w rd, of r k] Cons n t k m by simp
    with c t k show ?thesis by (simp add: skip_ws_id)
  qed
  with t show ?case by (auto simp: scans_as_def)
next
  case (PDict kvs)
  then obtain ms where ms: "dumps_members opt kvs = Some ms"
    and t: "t = ''{'' @ py_join (item_sep opt)
        (map (\<lambda>(k, t). dumps_str (ensure_ascii opt) k @ key_sep opt @ t) (sort_key fst ms)) @ ''}''"
    by (auto split: option.splits)
  let ?xs = "map (\<lambda>(k, v). (k, the (dumps opt v), json_norm (default_str opt) v)) (sort_key fst kvs)"
  let ?txt = "(\<lambda>(k, t, v). dumps_str (ensure_ascii opt) k @ key_sep opt @ t) :: string \<times> string \<times> pyval \<Rightarrow> string"
  let ?nkvs = "sort_key fst (map (\<lambda>(k, v). (k, json_norm (default_str opt) v)) kvs)"
  have rd: "\<forall>(k, t, v) \<in> set ?xs. scans_as t v"
    using PDict dumps_members_Some [OF ms] by fastforce
  have body: "map (\<lambda>(k, t). dumps_str (ensure_ascii opt) k @ key_sep opt @ t) (sort_key fst ms) = map ?txt ?xs"
    unfolding conjunct2 [OF dumps_members_Some [OF ms]] sort_key_map
    by (simp add: case_prod_unfold comp_def)
  have kv: "map (\<lambda>(k, t, v). (k, v)) ?xs = ?nkvs"
    unfolding sort_key_map by (simp add: case_prod_unfold comp_def)
  obtain w x where w: "item_sep opt = CHR '','' # w" "list_all json_space w"
      "key_sep opt = CHR '':'' # x" "list_all json_space x"
    using PDict.prems(2) by (auto simp: separators_ok_def split: list.splits)
  have "distinct (keys ?nkvs)"
    using PDict.prems(1) by (simp add: case_prod_unfold comp_def)
  then have upd: "fold (\<lambda>(k, v) d. AList.update k v d) ?nkvs [] = ?nkvs"
    using fold_update_new [of "[]" ?nkvs] by simp
  have "scan_value n (t @ r) = Inr (PDict ?nkvs, r)" if n: "2 * length (t @ r) < n" for n r
  proof (cases "kvs = []")
    case True
    with ms t n show ?thesis by (cases n) (auto simp: skip_ws_id)
  next
    case False
    let ?body = "py_join (item_sep opt) (map ?txt ?xs) @ CHR ''}'' # r"
    have "length ?xs \<noteq> 0" using False by simp
    then have xs: "?xs \<noteq> []" by (simp only: length_0_conv not_False_eq_True)
    obtain k where k: "n = Suc k" using n by (cases n) auto
    obtain q where q: "?body = quote # q"
      using xs by (cases ?xs rule: remdups_adj.cases) (auto simp: dumps_str_def)
    have "scan_members k ?body = Inr (?nkvs, r)"
      using scan_members_scans_as [OF w rd xs, of "ensure_ascii opt" r k] n t k body kv by simp
    with q t k body upd show ?thesis by (simp add: skip_ws_id)
  qed
  with t show ?case by (auto simp: scans_as_def)
qed (auto simp: scans_as_const scans_as_int scans_as_float scans_as_str split: option.splits)

text \<open>Printing is total up to the values \<^verbatim>\<open>default\<close> refuses, and only depends on the
  normal form.\<close>

fun opaques :: "pyval \<Rightarrow> string option set" where
  "opaques (PList vs) = (\<Union>v \<in> set vs. opaques v)"
| "opaques (PDict kvs) = (\<Union>(k, v) \<in> set kvs. opaques v)"
| "opaques (POpaque s) = {s}"
| "opaques v = {}"

lemma dumps_defined: "(\<forall>s \<in> opaques v. default_str opt s \<noteq> None) \<Longrightarrow> \<exists>t. dumps opt v = Some t"
proof (induction v)
  case (PList vs)
  then have "\<forall>v \<in> set vs. dumps opt v \<noteq> None" by fastforce
  then have "\<exists>ts. dumps_items opt vs = Some ts" by (induction vs) auto
  then show ?case by auto
next
  case (PDict kvs)
  then have "\<forall>kv \<in> set kvs. dumps opt (snd kv) \<noteq> None" by fastforce
  then have "\<exists>ts. dumps_members opt kvs = Some ts" by (induction kvs) auto
  then show ?case by auto
qed auto

lemma loads_dumps:
  assumes "wf_val v" and "separators_ok opt" and "dumps opt v = Some t"
  shows "loads t = Inr (json_norm (default_str opt) v)"
proof -
  note rd = dumps_scans_as [OF assms]
  have "skip_ws t = t" using scans_as_skip [OF rd, of "[]"] by simp
  moreover have "scan_value (2 * length t + 1) t = Inr (json_norm (default_str opt) v, [])"
    using scans_as_scan [OF rd, of "[]" "2 * length t + 1"] by simp
  ultimately show ?thesis
    by (simp add: loads_def loads_in_def skip_ws_def)
qed

lemma json_norm_wf: "wf_val v \<Longrightarrow> wf_val (json_norm d v)"
proof (induction v)
  case (PDict kvs)
  then show ?case by (auto simp: case_prod_unfold comp_def)
qed (auto split: option.splits)

lemma dumps_items_map:
  "\<forall>v \<in> set vs. dumps opt (f v) = dumps opt v \<Longrightarrow> dumps_items opt (map f vs) = dumps_items opt vs"
  by (induction vs) (simp_all cong: option.case_cong)

lemma dumps_members_map:
  "\<forall>(k, v) \<in> set kvs. dumps opt (f v) = dumps opt v \<Longrightarrow>
   dumps_members opt (map (\<lambda>(k, v). (k, f v)) kvs) = dumps_members opt kvs"
  by (induction kvs) (auto split: prod.splits cong: option.case_cong)

lemma dumps_members_None: "dumps_members opt kvs = None \<longleftrightarrow> (\<exists>(k, v) \<in> set kvs. dumps opt v = None)"
  by (induction kvs) (auto split: option.splits)

lemma dumps_members_sort:
  "dumps_members opt (sort_key fst kvs) = map_option (sort_key fst) (dumps_members opt kvs)"
proof (cases "dumps_members opt kvs")
  case None
  then have "dumps_members opt (sort_key fst kvs) = None"
    by (simp add: dumps_members_None)
  with None show ?thesis by simp
next
  case (Some ms)
  then have "dumps_members opt (sort_key fst kvs) \<noteq> None"
    using dumps_members_None [of opt kvs] dumps_members_None [of opt "sort_key fst kvs"] by simp
  then obtain ms' where ms': "dumps_members opt (sort_key fst kvs) = Some ms'" by blast
  have "ms' = sort_key fst ms"
    unfolding conjunct2 [OF dumps_members_Some [OF Some]] conjunct2 [OF dumps_members_Some [OF ms']] sort_key_map ..
  with Some ms' show ?thesis by simp
qed

lemma sort_sort [simp]: "sort_key fst (sort_key fst d) = sort_key fst d"
  by (rule sort_key_id_if_sorted) simp

lemma dumps_norm: "dumps opt (json_norm (default_str opt) v) = dumps opt v"
proof (induction v)
  case (PList vs)
  then show ?case by (simp add: dumps_items_map)
next
  case (PDict kvs)
  then have "dumps_members opt (map (\<lambda>(k, v). (k, json_norm (default_str opt) v)) kvs) = dumps_members opt kvs"
    by (intro dumps_members_map) fastforce
  then show ?case
    by (cases "dumps_members opt kvs") (simp_all add: dumps_members_sort)
qed (auto split: option.splits)

lemma opaques_norm: "(\<forall>s \<in> opaques v. d s \<noteq> None) \<Longrightarrow> opaques (json_norm d v) = {}"
  by (induction v) (fastforce split: option.splits)+

lemma json_norm_norm: "json_norm d' (json_norm d v) = json_norm d v" if "opaques (json_norm d v) = {}"
  using that
proof (induction v)
  case (PDict kvs)
  then have "map (\<lambda>(k, v). (k, json_norm d' v)) (map (\<lambda>(k, v). (k, json_norm d v)) kvs) = map (\<lambda>(k, v). (k, json_norm d v)) kvs"
    by fastforce
  then have "map (\<lambda>(k, v). (k, json_norm d' v)) (sort_key fst (map (\<lambda>(k, v). (k, json_norm d v)) kvs)) =
      sort_key fst (map (\<lambda>(k, v). (k, json_norm d v)) kvs)"
    by (metis sort_key_map)
  then show ?case by simp
qed (auto simp: map_idI split: option.splits)

subsection \<open>What is read is well formed\<close>

lemma scan_int_token:
  assumes "scan_int s = Some (sign, ds, r)" and "r' = [] \<or> \<not> is_digit (hd r')"
  shows "scan_int (sign @ ds @ r') = Some (sign, ds, r')"
proof -
  have split: "takeWhile is_digit (takeWhile is_digit x @ r') = takeWhile is_digit x \<and>
      dropWhile is_digit (takeWhile is_digit x @ r') = r'" for x
    using assms(2) by (cases r'; induction x) auto
  show ?thesis
  proof (cases "s \<noteq> [] \<and> hd s = CHR ''-''")
    case True
    then obtain cs where "s = CHR ''-'' # cs" by (cases s) auto
    with assms(1) split [of cs] show ?thesis
      by (cases cs) (auto simp: scan_int_def split: if_splits)
  next
    case False
    then have "scan_int s = (case s of [] \<Rightarrow> None | c # cs \<Rightarrow>
        if c = CHR ''0'' then Some ([], [c], cs)
        else if is_digit c then Some ([], takeWhile is_digit s, dropWhile is_digit s) else None)"
      by (cases s) (auto simp: scan_int_def)
    moreover have "\<not> is_digit CHR ''-''" by (simp add: is_digit_def char_between_def ord_def)
    ultimately show ?thesis
      using assms(1) split [of s] by (cases s) (auto simp: scan_int_def split: if_splits)
  qed
qed

lemma scan_frac_token:
  assumes "scan_frac s = (fr, r)" and "ex = [] \<or> hd ex \<in> {CHR ''e'', CHR ''E''}"
  shows "scan_frac (fr @ ex) = (fr, ex)" and "fr = [] \<or> hd fr = CHR ''.''"
proof -
  have "takeWhile is_digit (takeWhile is_digit x @ ex) = takeWhile is_digit x \<and>
      dropWhile is_digit (takeWhile is_digit x @ ex) = ex" for x
    using assms(2) by (cases ex; induction x) (auto simp: is_digit_def char_between_def ord_def)
  then show "scan_frac (fr @ ex) = (fr, ex)"
    using assms by (cases s; cases ex) (auto simp: scan_frac_def split: if_splits)
  show "fr = [] \<or> hd fr = CHR ''.''"
    using assms(1) by (auto simp: scan_frac_def split: list.splits if_splits)
qed

lemma scan_exp_token:
  assumes "scan_exp s = (ex, r)"
  shows "scan_exp ex = (ex, [])" and "ex = [] \<or> hd ex \<in> {CHR ''e'', CHR ''E''}"
proof -
  have t: "takeWhile is_digit (takeWhile is_digit x) = takeWhile is_digit x \<and>
      dropWhile is_digit (takeWhile is_digit x) = []" for x
    by (induction x) auto
  have h: "takeWhile is_digit x = c # cs \<Longrightarrow> c \<noteq> CHR ''+'' \<and> c \<noteq> CHR ''-''" for x c cs
    by (cases x) (auto simp: is_digit_def char_between_def ord_def split: if_splits)
  show "ex = [] \<or> hd ex \<in> {CHR ''e'', CHR ''E''}"
    using assms by (auto simp: scan_exp_def Let_def split: list.splits if_splits)
  show "scan_exp ex = (ex, [])"
    using assms t by (auto simp: scan_exp_def Let_def split: list.splits if_splits dest: h)
qed

lemma scan_number_wf: "scan_number s = Some (v, r) \<Longrightarrow> wf_val v"
proof -
  assume n: "scan_number s = Some (v, r)"
  then obtain sign ds r0 where i: "scan_int s = Some (sign, ds, r0)"
    by (auto simp: scan_number_def split: option.splits)
  obtain fr r1 where f: "scan_frac r0 = (fr, r1)" by fastforce
  obtain ex r2 where e: "scan_exp r1 = (ex, r2)" by fastforce
  note et = scan_exp_token [OF e] and ft = scan_frac_token [OF f scan_exp_token(2) [OF e]]
  have "fr @ ex = [] \<or> \<not> is_digit (hd (fr @ ex))"
    using et(2) ft(2) by (cases fr; cases ex) (auto simp: is_digit_def char_between_def ord_def)
  from scan_int_token [OF i this] et ft n i f e show "wf_val v"
    by (auto simp: scan_number_def is_float_text_def split: if_splits)
qed

lemma scan_atom_wf: "scan_atom s = Inr (v, r) \<Longrightarrow> wf_val v"
  by (auto simp: scan_atom_in_def is_float_text_def split: if_splits option.splits dest: scan_number_wf)

lemma update_wf: "wf_val (PDict d) \<Longrightarrow> wf_val v \<Longrightarrow> wf_val (PDict (AList.update k v d))"
proof -
  assume a: "wf_val (PDict d)" "wf_val v"
  have "set (AList.update k v d) \<subseteq> insert (k, v) (set d)"
    by (induction d) auto
  with a show ?thesis by (auto simp: distinct_update)
qed

lemma fold_update_wf:
  "wf_val (PDict d) \<Longrightarrow> \<forall>(k, v) \<in> set kvs. wf_val v \<Longrightarrow>
   wf_val (PDict (fold (\<lambda>(k, v) d. AList.update k v d) kvs d))"
proof (induction kvs arbitrary: d)
  case (Cons kv kvs)
  then show ?case using update_wf [of d "snd kv" "fst kv"] by (cases kv) (auto simp del: wf_val.simps)
qed simp

lemma scan_wf:
  "scan_value n s = Inr (v, r) \<Longrightarrow> wf_val v"
  "scan_items n s = Inr (vs, r) \<Longrightarrow> \<forall>v \<in> set vs. wf_val v"
  "scan_members n s = Inr (kvs, r) \<Longrightarrow> \<forall>(k, v) \<in> set kvs. wf_val v"
proof (induction n arbitrary: s v vs kvs r)
  case 0
  { case 1 then show ?case by simp }
  { case 2 then show ?case by simp }
  { case 3 then show ?case by simp }
next
  case (Suc n)
  { case 1
    have d: "wf_val (PDict (fold (\<lambda>(k, v) d. AList.update k v d) kvs []))"
      if "scan_members n s' = Inr (kvs, r')" for s' kvs r'
      using Suc.IH(3) [OF that] by (intro fold_update_wf) simp_all
    have nil: "wf_val (PDict [])" by simp
    from 1 show ?case
      by (auto split: list.splits if_splits sum.splits prod.splits simp del: wf_val.simps(3)
          simp: nil dest: Suc.IH(2) scan_atom_wf intro: d) }
  { case 2 then show ?case
      by (fastforce split: list.splits if_splits sum.splits prod.splits dest: Suc.IH(1,2)) }
  { case 3 then show ?case
      by (fastforce split: list.splits if_splits sum.splits prod.splits dest: Suc.IH(1,3)) }
qed

lemma loads_wf: "loads s = Inr v \<Longrightarrow> wf_val v"
  by (auto simp: loads_def loads_in_def simp del: scan_value_in.simps split: sum.splits if_splits dest: scan_wf(1))

subsection \<open>The digit limit\<close>

text \<open>A text on which the limit is not met is read as without one.\<close>

definition within_limit :: "json_error + 'a \<Rightarrow> json_error + 'a \<Rightarrow> bool" where
  "within_limit x y \<longleftrightarrow> x = Inl Int_digits_error \<or> x = y"

lemma within_limit_refl: "within_limit x x"
  by (simp add: within_limit_def)

lemma within_limit_if:
  "(b \<Longrightarrow> within_limit x y) \<Longrightarrow> (\<not> b \<Longrightarrow> within_limit x' y') \<Longrightarrow>
   within_limit (if b then x else x') (if b then y else y')"
  by simp

lemma within_limit_list:
  "within_limit x y \<Longrightarrow> (\<And>c cs. within_limit (f c cs) (g c cs)) \<Longrightarrow>
   within_limit (case s of [] \<Rightarrow> x | c # cs \<Rightarrow> f c cs) (case s of [] \<Rightarrow> y | c # cs \<Rightarrow> g c cs)"
  by (simp split: list.splits)

lemma within_limit_bind:
  "within_limit x y \<Longrightarrow> (\<And>v r. within_limit (f v r) (g v r)) \<Longrightarrow>
   within_limit (case x of Inl e \<Rightarrow> Inl e | Inr p \<Rightarrow> (case p of (v, r) \<Rightarrow> f v r))
     (case y of Inl e \<Rightarrow> Inl e | Inr p \<Rightarrow> (case p of (v, r) \<Rightarrow> g v r))"
  by (auto simp: within_limit_def split: sum.splits prod.splits)

lemmas within_limit_intros =
  within_limit_if within_limit_list within_limit_bind within_limit_refl

lemma scan_atom_limit: "within_limit (scan_atom_in big s) (scan_atom s)"
  by (auto simp: scan_atom_in_def within_limit_def split: option.splits prod.splits if_splits)

lemma scan_limit:
  "within_limit (scan_value_in big n s) (scan_value n s)"
  "within_limit (scan_items_in big n s) (scan_items n s)"
  "within_limit (scan_members_in big n s) (scan_members n s)"
proof (induction n arbitrary: s)
  case (Suc n)
  { case 1 show ?case
      unfolding scan_value_in.simps by (intro within_limit_intros Suc.IH scan_atom_limit) }
  { case 2 show ?case
      unfolding scan_items_in.simps by (intro within_limit_intros Suc.IH) }
  { case 3 show ?case
      unfolding scan_members_in.simps by (intro within_limit_intros Suc.IH) }
qed (simp_all add: within_limit_refl)

lemma loads_limit: "within_limit (loads_in big s) (loads s)"
  unfolding loads_def loads_in_def by (intro within_limit_intros scan_limit)

lemma loads_in_total: "loads_in big s \<noteq> Inl Out_of_fuel"
  using loads_limit [of big s] loads_total [of s] by (auto simp: within_limit_def)

lemma loads_in_loads: "loads_in big s = Inr v \<Longrightarrow> loads s = Inr v"
  using loads_limit [of big s] by (simp add: within_limit_def)

end
