(* ===== verification/AuditLog.thy ===== *)
theory AuditLog
  imports Json
begin

section \<open>The append-only, hash-chained audit log (execution/audit.py)\<close>

text \<open>
  One \<open>audit_logger\<close> is an \<^verbatim>\<open>AuditLogger\<close> together with what it writes to: the text of the
  audit file, the lines on standard error, the lines forwarded to the secondary sinks and the calls
  of the post-record hook. SHA-256 is the parameter \<open>H\<close> from the bytes to the hexadecimal digest.
  What the outside decides (the clock, whether a write fails and after how many characters, whether
  standard error or a sink is broken) is the \<open>write_env\<close> of a call.

  A payload is a JSON value; the fallbacks of \<^verbatim>\<open>_canonical\<close> for cyclic values and keys that
  are not strings are never taken on the values of the model (\<open>canonical_dumps\<close>). The file is its
  text: an encoding error is not modelled.
\<close>

definition GENESIS :: string where
  "GENESIS = replicate 64 CHR ''0''"

definition sha256_text :: "(string \<Rightarrow> string) \<Rightarrow> string \<Rightarrow> string" where
  "sha256_text H text = H (utf8_encode text)"

definition EMPTY_SHA256 :: "(string \<Rightarrow> string) \<Rightarrow> string" where
  "EMPTY_SHA256 H = H []"

record audit_record =
  ar_payload :: "(string \<times> pyval) list"
  ar_entry_hash :: string

definition to_dict :: "audit_record \<Rightarrow> pyval" where
  "to_dict r = PDict (ar_payload r @ [(''entry_hash'', PStr (ar_entry_hash r))])"

definition safe_str :: "string option \<Rightarrow> string option" where
  "safe_str value = (case value of None \<Rightarrow> Some ''<unserializable>'' | Some s \<Rightarrow> Some s)"

definition MAX_ACYCLIC_DEPTH :: nat where
  "MAX_ACYCLIC_DEPTH = 64"

fun acyclic_copy :: "nat \<Rightarrow> pyval \<Rightarrow> pyval" where
  "acyclic_copy depth v =
     (if MAX_ACYCLIC_DEPTH < depth then PStr ''<truncated>''
      else case v of
        PDict kvs \<Rightarrow> PDict (map (\<lambda>(k, w). (k, acyclic_copy (depth + 1) w)) kvs)
      | PList vs \<Rightarrow> PList (map (acyclic_copy (depth + 1)) vs)
      | _ \<Rightarrow> v)"

declare acyclic_copy.simps [simp del]

definition canonical_options :: dump_options where
  "canonical_options =
     \<lparr>ensure_ascii = False, item_sep = '','', key_sep = '':'', default_str = safe_str\<rparr>"

definition canonical :: "pyval \<Rightarrow> string" where
  "canonical payload =
     (case dumps canonical_options payload of
        Some t \<Rightarrow> t
      | None \<Rightarrow> (case dumps canonical_options (acyclic_copy 0 payload) of Some t \<Rightarrow> t | None \<Rightarrow> ''{}''))"

definition compute_entry_hash :: "(string \<Rightarrow> string) \<Rightarrow> pyval \<Rightarrow> string" where
  "compute_entry_hash H payload = sha256_text H (canonical payload)"

subsection \<open>The logger\<close>

record audit_logger =
  lg_seq :: int
  lg_prev_hash :: string
  lg_to_file :: bool            \<comment> \<open>the primary sink is the file, not standard error\<close>
  lg_degraded :: bool
  lg_hooked :: bool             \<comment> \<open>a post-record hook is configured\<close>
  lg_sinks :: "string list"     \<comment> \<open>names of the secondary sinks\<close>
  lg_failed :: "string set"     \<comment> \<open>sinks in a failure streak\<close>
  lg_file :: string
  lg_stderr :: "string list"
  lg_forwarded :: "(string \<times> string) list"
  lg_hook_calls :: "audit_record list"

record write_env =
  we_ts :: string
  we_file :: "nat option"       \<comment> \<open>\<open>Some n\<close>: the file write fails after n characters\<close>
  we_stderr :: bool             \<comment> \<open>standard error accepts writes\<close>
  we_sink :: "string \<Rightarrow> bool"   \<comment> \<open>the sink of that name accepts the line\<close>

datatype audit_exc = Stderr_broken | Overflow_in_recovery | Json_failure

record entry =
  en_tool :: string
  en_tier :: string
  en_decision :: string
  en_args :: "(string \<times> pyval) list"
  en_output_sha256 :: string
  en_output_len :: nat
  en_target :: "string option"
  en_error :: "string option"
  en_request_id :: "string option"
  en_client_id :: "string option"
  en_patterns_version :: int

definition opt_str :: "string option \<Rightarrow> pyval" where
  "opt_str s = (case s of None \<Rightarrow> PNone | Some t \<Rightarrow> PStr t)"

definition payload_of :: "int \<Rightarrow> string \<Rightarrow> string \<Rightarrow> entry \<Rightarrow> pyval" where
  "payload_of seq ts prev e =
     PDict [(''seq'', PInt seq), (''ts'', PStr ts), (''tool'', PStr (en_tool e)),
            (''target'', opt_str (en_target e)), (''tier'', PStr (en_tier e)),
            (''decision'', PStr (en_decision e)), (''args'', PDict (en_args e)),
            (''output_sha256'', PStr (en_output_sha256 e)), (''output_len'', PInt (int (en_output_len e))),
            (''error'', opt_str (en_error e)), (''request_id'', opt_str (en_request_id e)),
            (''client_id'', opt_str (en_client_id e)),
            (''patterns_version'', PInt (en_patterns_version e)), (''prev_hash'', PStr prev)]"

definition stderr_note :: "write_env \<Rightarrow> string \<Rightarrow> audit_logger \<Rightarrow> audit_logger" where
  "stderr_note env msg lg =
     (if we_stderr env then lg\<lparr>lg_stderr := lg_stderr lg @ [''[praxis.audit] '' @ msg]\<rparr> else lg)"

text \<open>\<^verbatim>\<open>MultiSink.emit\<close>: one sink after the other, a failure contained and noted once.\<close>

definition emit_one :: "write_env \<Rightarrow> string \<Rightarrow> string \<Rightarrow> audit_logger \<Rightarrow> audit_logger" where
  "emit_one env line name lg =
     (if we_sink env name
      then lg\<lparr>lg_forwarded := lg_forwarded lg @ [(name, line)], lg_failed := lg_failed lg - {name}\<rparr>
      else if name \<notin> lg_failed lg
      then stderr_note env (''audit sink '' @ repr_str name @ '' failed; other sinks unaffected'')
             (lg\<lparr>lg_failed := insert name (lg_failed lg)\<rparr>)
      else lg)"

definition emit :: "write_env \<Rightarrow> string \<Rightarrow> audit_logger \<Rightarrow> audit_logger" where
  "emit env line lg = fold (emit_one env line) (lg_sinks lg) lg"

text \<open>\<^verbatim>\<open>_degrade\<close>: the note on standard error is not contained.\<close>

definition degrade :: "write_env \<Rightarrow> string \<Rightarrow> audit_logger \<Rightarrow> (audit_exc + unit) \<times> audit_logger" where
  "degrade env msg lg =
     (let lg1 = lg\<lparr>lg_degraded := True, lg_to_file := False\<rparr>
      in if we_stderr env
         then (Inr (), lg1\<lparr>lg_stderr := lg_stderr lg1 @ [''[praxis.audit] '' @ msg]\<rparr>)
         else (Inl Stderr_broken, lg1))"

abbreviation newline :: string where
  "newline \<equiv> [CHR ''\<newline>'']"

text \<open>The write to the primary sink and its flush: whether it raised, and what reached the
  sink.\<close>

definition sink_write :: "write_env \<Rightarrow> string \<Rightarrow> audit_logger \<Rightarrow> bool \<times> audit_logger" where
  "sink_write env line lg =
     (if lg_to_file lg
      then (case we_file env of
              None \<Rightarrow> (True, lg\<lparr>lg_file := lg_file lg @ line @ newline\<rparr>)
            | Some n \<Rightarrow> (False, lg\<lparr>lg_file := lg_file lg @ take n (line @ newline)\<rparr>))
      else if we_stderr env then (True, lg\<lparr>lg_stderr := lg_stderr lg @ [line]\<rparr>)
      else (False, lg))"

definition write_record :: "write_env \<Rightarrow> audit_record \<Rightarrow> audit_logger \<Rightarrow> (audit_exc + unit) \<times> audit_logger" where
  "write_record env r lg =
     (let line = canonical (to_dict r);
          (ok, lg1) = sink_write env line lg;
          (res, lg2) =
            (if ok \<or> lg_degraded lg1 then (Inr (), lg1)
             else case degrade env ''audit write failed; degraded to stderr'' lg1 of
               (Inl x, lg') \<Rightarrow> (Inl x, lg')
             | (Inr _, lg') \<Rightarrow> (Inr (), snd (sink_write env line lg')))
      in case res of
           Inl x \<Rightarrow> (Inl x, lg2)
         | Inr _ \<Rightarrow> (Inr (), emit env line lg2))"

text \<open>\<^verbatim>\<open>AuditLogger.record\<close>.\<close>

definition record_entry ::
  "(string \<Rightarrow> string) \<Rightarrow> write_env \<Rightarrow> entry \<Rightarrow> audit_logger \<Rightarrow> (audit_exc + audit_record) \<times> audit_logger" where
  "record_entry H env e lg =
     (case loads (canonical (payload_of (lg_seq lg) (we_ts env) (lg_prev_hash lg) e)) of
        Inr (PDict kvs) \<Rightarrow>
          (let entry_hash = compute_entry_hash H (PDict kvs);
               r = \<lparr>ar_payload = kvs, ar_entry_hash = entry_hash\<rparr>
           in case write_record env r lg of
                (Inl x, lg') \<Rightarrow> (Inl x, lg')
              | (Inr _, lg') \<Rightarrow>
                  (let lg1 = lg'\<lparr>lg_seq := lg_seq lg' + 1, lg_prev_hash := entry_hash\<rparr>
                   in (Inr r,
                       if lg_hooked lg1 \<and> \<not> lg_degraded lg1
                       then lg1\<lparr>lg_hook_calls := lg_hook_calls lg1 @ [r]\<rparr> else lg1)))
      | _ \<Rightarrow> (Inl Json_failure, lg))"

subsection \<open>Recovery and construction\<close>

text \<open>Iterating over a text file: a line ends at a line feed, a carriage return or both.\<close>

fun file_lines_acc :: "string \<Rightarrow> string \<Rightarrow> string list" where
  "file_lines_acc acc [] = (if acc = [] then [] else [rev acc])"
| "file_lines_acc acc (c # cs) =
     (if ord c = 10 \<or> ord c = 13
      then rev acc # file_lines_acc [] (if ord c = 13 \<and> cs \<noteq> [] \<and> ord (hd cs) = 10 then tl cs else cs)
      else file_lines_acc (c # acc) cs)"

definition file_lines :: "string \<Rightarrow> string list" where
  "file_lines s = file_lines_acc [] s"

definition nonempty_stripped :: "string list \<Rightarrow> string list" where
  "nonempty_stripped ls = filter (\<lambda>l. l \<noteq> []) (map py_strip ls)"

text \<open>\<^verbatim>\<open>_recover\<close>: the sequence number and the previous hash to continue with. A tail that
  cannot be read resumes at genesis; an infinite sequence number raises \<^verbatim>\<open>OverflowError\<close>, which
  is not among the exceptions caught.\<close>

definition recover :: "string option \<Rightarrow> audit_exc + int \<times> string" where
  "recover file =
     (case file of
        None \<Rightarrow> Inr (0, GENESIS)
      | Some text \<Rightarrow>
          (case nonempty_stripped (file_lines text) of
             [] \<Rightarrow> Inr (0, GENESIS)
           | l # ls \<Rightarrow>
               (case loads (last (l # ls)) of
                  Inr (PDict kvs) \<Rightarrow>
                    (case map_of kvs ''seq'' of
                       None \<Rightarrow> Inr (0, GENESIS)
                     | Some v \<Rightarrow>
                         (case py_int v of
                            Inl Int_overflow_error \<Rightarrow> Inl Overflow_in_recovery
                          | Inl _ \<Rightarrow> Inr (0, GENESIS)
                          | Inr n \<Rightarrow>
                              (case map_of kvs ''entry_hash'' of
                                 None \<Rightarrow> Inr (0, GENESIS)
                               | Some h \<Rightarrow> Inr (n + 1, py_str h))))
                | _ \<Rightarrow> Inr (0, GENESIS))))"

record open_env =
  oe_exists :: bool             \<comment> \<open>the audit file exists\<close>
  oe_readable :: bool
  oe_openable :: bool           \<comment> \<open>it can be opened for appending\<close>
  oe_stderr :: bool

text \<open>\<^verbatim>\<open>AuditLogger.__init__\<close> over what is on disk; \<open>with_path\<close> is whether a path is
  configured.\<close>

definition new_logger :: "int \<Rightarrow> string \<Rightarrow> bool \<Rightarrow> bool \<Rightarrow> string list \<Rightarrow> string \<Rightarrow> string list \<Rightarrow> audit_logger" where
  "new_logger seq prev to_file hooked sinks text err =
     \<lparr>lg_seq = seq, lg_prev_hash = prev, lg_to_file = to_file, lg_degraded = False, lg_hooked = hooked,
      lg_sinks = sinks, lg_failed = {}, lg_file = text, lg_stderr = err, lg_forwarded = [], lg_hook_calls = []\<rparr>"

definition audit_init ::
  "open_env \<Rightarrow> bool \<Rightarrow> bool \<Rightarrow> string list \<Rightarrow> string \<Rightarrow> audit_exc + audit_logger" where
  "audit_init env with_path hooked sinks text =
     (if \<not> with_path then Inr (new_logger 0 GENESIS False hooked sinks text [])
      else if oe_exists env \<and> \<not> oe_readable env
      then (if oe_stderr env
            then Inr ((new_logger 0 GENESIS False hooked sinks text
                         [''[praxis.audit] audit sink unavailable; degraded to stderr''])\<lparr>lg_degraded := True\<rparr>)
            else Inl Stderr_broken)
      else case recover (if oe_exists env then Some text else None) of
        Inl x \<Rightarrow> Inl x
      | Inr (seq, prev) \<Rightarrow>
          if oe_openable env then Inr (new_logger seq prev True hooked sinks text [])
          else if oe_stderr env
          then Inr ((new_logger seq prev False hooked sinks text
                       [''[praxis.audit] audit sink unavailable; degraded to stderr''])\<lparr>lg_degraded := True\<rparr>)
          else Inl Stderr_broken)"

subsection \<open>Verification\<close>

record verify_result =
  vr_ok :: bool
  vr_count :: nat
  vr_broken_at :: "nat option"
  vr_reason :: "string option"

datatype verify_stop = Break verify_result | AttributeError

definition verify_break :: "nat \<Rightarrow> string \<Rightarrow> verify_stop" where
  "verify_break count reason =
     Break \<lparr>vr_ok = False, vr_count = count, vr_broken_at = Some count, vr_reason = Some reason\<rparr>"

text \<open>The body of the loop of \<^verbatim>\<open>verify_chain\<close> on one line; the expected sequence number is
  always the count. \<^verbatim>\<open>rec.get\<close> on a value that is not a dict raises \<^verbatim>\<open>AttributeError\<close>.\<close>

definition verify_line :: "(string \<Rightarrow> string) \<Rightarrow> string \<Rightarrow> string \<times> nat \<Rightarrow> verify_stop + string \<times> nat" where
  "verify_line H line st =
     (let (prev, count) = st in
      case loads line of
        Inl _ \<Rightarrow> Inl (verify_break count ''bad json'')
      | Inr (PDict kvs) \<Rightarrow>
          (let stored = map_of kvs ''entry_hash'';
               payload = PDict (filter (\<lambda>(k, v). k \<noteq> ''entry_hash'') kvs)
           in if map_of kvs ''prev_hash'' \<noteq> Some (PStr prev)
              then Inl (verify_break count ''prev_hash mismatch'')
              else if (case map_of kvs ''seq'' of None \<Rightarrow> True | Some v \<Rightarrow> \<not> py_eq v (PInt (int count)))
              then Inl (verify_break count ''seq discontinuity'')
              else if stored \<noteq> Some (PStr (compute_entry_hash H payload))
              then Inl (verify_break count ''entry_hash mismatch'')
              else Inr (compute_entry_hash H payload, count + 1))
      | Inr _ \<Rightarrow> Inl AttributeError)"

fun verify_lines :: "(string \<Rightarrow> string) \<Rightarrow> string list \<Rightarrow> string \<times> nat \<Rightarrow> verify_stop + string \<times> nat" where
  "verify_lines H [] st = Inr st"
| "verify_lines H (l # ls) st =
     (case verify_line H l st of Inl x \<Rightarrow> Inl x | Inr st' \<Rightarrow> verify_lines H ls st')"

text \<open>The lines \<^verbatim>\<open>verify_chain\<close> looks at; \<open>None\<close> is a file that cannot be read.\<close>

definition log_lines :: "string \<Rightarrow> string list" where
  "log_lines text = nonempty_stripped (splitlines text)"

definition verify_chain :: "(string \<Rightarrow> string) \<Rightarrow> string option \<Rightarrow> verify_stop + verify_result" where
  "verify_chain H file =
     (case file of
        None \<Rightarrow> Inr \<lparr>vr_ok = False, vr_count = 0, vr_broken_at = None, vr_reason = Some ''OSError''\<rparr>
      | Some text \<Rightarrow>
          (case verify_lines H (log_lines text) (GENESIS, 0) of
             Inl AttributeError \<Rightarrow> Inl AttributeError
           | Inl (Break r) \<Rightarrow> Inr r
           | Inr (prev, count) \<Rightarrow>
               Inr \<lparr>vr_ok = True, vr_count = count, vr_broken_at = None, vr_reason = None\<rparr>))"

subsection \<open>Canonical text\<close>

lemma canonical_dumps: "dumps canonical_options v = Some (canonical v)"
proof -
  have "\<exists>t. dumps canonical_options v = Some t"
    by (rule dumps_defined) (auto simp: canonical_options_def safe_str_def split: option.splits)
  then show ?thesis by (auto simp: canonical_def)
qed

lemma separators_canonical: "separators_ok canonical_options"
  by (simp add: separators_ok_def canonical_options_def)

lemma default_canonical [simp]: "default_str canonical_options = safe_str"
  by (simp add: canonical_options_def)

lemma loads_canonical: "wf_val v \<Longrightarrow> loads (canonical v) = Inr (json_norm safe_str v)"
  using loads_dumps [OF _ separators_canonical canonical_dumps] by simp

lemma canonical_norm: "canonical (json_norm safe_str v) = canonical v"
  using dumps_norm [of canonical_options v] canonical_dumps [of v]
    canonical_dumps [of "json_norm safe_str v"] by simp

lemma opaques_norm_safe [simp]: "opaques (json_norm safe_str v) = {}"
  by (rule opaques_norm) (auto simp: safe_str_def split: option.splits)

lemma norm_safe_idem [simp]: "json_norm safe_str (json_norm safe_str v) = json_norm safe_str v"
  by (rule json_norm_norm) simp

text \<open>The characters of a value that the text holds unescaped.\<close>

fun chars :: "pyval \<Rightarrow> char set" where
  "chars (PFloat t) = set t"
| "chars (PStr s) = set s"
| "chars (PList vs) = (\<Union>v \<in> set vs. chars v)"
| "chars (PDict kvs) = (\<Union>(k, v) \<in> set kvs. set k \<union> chars v)"
| "chars (POpaque s) = (case s of None \<Rightarrow> {} | Some t \<Rightarrow> set t)"
| "chars v = {}"

definition plain :: "char \<Rightarrow> bool" where
  "plain c \<longleftrightarrow> 32 \<le> ord c \<and> ord c < 127"

lemma plain_not_break: "plain c \<Longrightarrow> \<not> is_linebreak c"
  by (auto simp: plain_def is_linebreak_def char_between_def)

lemma less_16_plain: "d < 16 \<Longrightarrow> plain (digit_char d)"
  by (drule less_16_cases) (auto simp: plain_def digit_char_def ord_def)

lemma escape_char_chars: "x \<in> set (escape_char False c) \<Longrightarrow> plain x \<or> x = c \<and> 32 \<le> ord c"
proof (cases "short_escape (ord c)")
  case (Some e)
  moreover assume "x \<in> set (escape_char False c)"
  ultimately show ?thesis
    by (auto simp: escape_char_def short_escape.simps plain_def split: if_splits) (simp_all add: ord_def)
next
  case None
  moreover assume "x \<in> set (escape_char False c)"
  ultimately show ?thesis
    by (auto simp: escape_char_def hex2_def less_16_plain split: if_splits) (simp_all add: plain_def, simp_all add: ord_def)
qed

lemma dumps_str_chars: "x \<in> set (dumps_str False s) \<Longrightarrow> plain x \<or> x \<in> set s \<and> 32 \<le> ord x"
  by (auto simp: dumps_str_def dest: escape_char_chars) (simp_all add: plain_def)

lemma set_py_join: "set (py_join sep ts) \<subseteq> set sep \<union> (\<Union>t \<in> set ts. set t)"
  by (induction sep ts rule: py_join.induct) auto

lemma plain_chars [simp]:
  "plain CHR ''['' " "plain CHR '']''" "plain CHR ''{''" "plain CHR ''}''" "plain CHR '',''" "plain CHR '':''"
  "plain CHR ''-''"
  by (simp_all add: plain_def ord_def)

lemma plain_int_str: "x \<in> set (int_str i) \<Longrightarrow> plain x"
  by (auto simp: int_str_def less_16_plain split: if_splits dest!: nat_str_chars)

lemma digit_plain: "is_digit x \<Longrightarrow> plain x"
  by (auto simp: is_digit_def char_between_def plain_def)

lemma number_parts_plain:
  "scan_int t = Some (sign, ds, r) \<Longrightarrow> x \<in> set (sign @ ds) \<Longrightarrow> plain x"
  "scan_frac t = (fr, r) \<Longrightarrow> x \<in> set fr \<Longrightarrow> plain x"
  "scan_exp t = (ex, r) \<Longrightarrow> x \<in> set ex \<Longrightarrow> plain x"
  by (auto simp: scan_int_def scan_frac_def scan_exp_def Let_def digit_plain
      split: list.splits if_splits dest!: set_takeWhileD) (simp_all add: plain_def ord_def)

lemma float_text_plain: "is_float_text t \<Longrightarrow> x \<in> set t \<Longrightarrow> plain x"
proof -
  assume f: "is_float_text t" and x: "x \<in> set t"
  show "plain x"
  proof (cases "t \<in> {''NaN'', ''Infinity'', ''-Infinity''}")
    case True
    with x show ?thesis by (auto simp: plain_def ord_def)
  next
    case False
    with f have n: "scan_number t = Some (PFloat t, [])" by (simp add: is_float_text_def)
    then obtain sign ds r where i: "scan_int t = Some (sign, ds, r)"
      by (auto simp: scan_number_def split: option.splits)
    obtain fr r1 where fr: "scan_frac r = (fr, r1)" by fastforce
    obtain ex r2 where ex: "scan_exp r1 = (ex, r2)" by fastforce
    from n i fr ex have "t = sign @ ds @ fr @ ex"
      by (auto simp: scan_number_def split: if_splits)
    with x number_parts_plain(1) [OF i] number_parts_plain(2) [OF fr] number_parts_plain(3) [OF ex]
    show ?thesis by auto
  qed
qed

lemma dumps_chars:
  "wf_val v \<Longrightarrow> dumps canonical_options v = Some t \<Longrightarrow> x \<in> set t \<Longrightarrow> plain x \<or> x \<in> chars v \<and> 32 \<le> ord x"
proof (induction v arbitrary: t)
  case (PList vs)
  then obtain ts where ts: "dumps_items canonical_options vs = Some ts" and t: "t = ''['' @ py_join '','' ts @ '']''"
    by (auto simp: canonical_options_def split: option.splits)
  from t PList.prems(3) set_py_join [of "'',''" ts] have "plain x \<or> (\<exists>u \<in> set ts. x \<in> set u)" by auto
  then show ?case
    using PList.IH PList.prems(1) dumps_items_Some [OF ts] by fastforce
next
  case (PDict kvs)
  then obtain ms where ms: "dumps_members canonical_options kvs = Some ms"
    and t: "t = ''{'' @ py_join '','' (map (\<lambda>(k, u). dumps_str False k @ '':'' @ u) (sort_key fst ms)) @ ''}''"
    by (auto simp: canonical_options_def split: option.splits)
  from t PDict.prems(3) set_py_join [of "'',''" "map (\<lambda>(k, u). dumps_str False k @ '':'' @ u) (sort_key fst ms)"]
  have "plain x \<or> (\<exists>(k, u) \<in> set ms. x \<in> set (dumps_str False k) \<or> x \<in> set u)"
    by (fastforce dest: subsetD)
  then show ?case
  proof
    assume "\<exists>(k, u) \<in> set ms. x \<in> set (dumps_str False k) \<or> x \<in> set u"
    then obtain k v where kv: "(k, v) \<in> set kvs" and
        x: "x \<in> set (dumps_str False k) \<or> x \<in> set (the (dumps canonical_options v))" and
        d: "dumps canonical_options v \<noteq> None"
      using dumps_members_Some [OF ms] by auto
    from kv PDict.prems(1) have "wf_val v" by auto
    with kv x d PDict.IH [of "(k, v)" v] have "plain x \<or> x \<in> set k \<union> chars v \<and> 32 \<le> ord x"
      by (auto dest!: dumps_str_chars)
    with kv show ?case by auto
  qed simp
qed (auto simp: canonical_options_def safe_str_def float_text_plain plain_int_str split: option.splits if_splits
    dest!: dumps_str_chars, simp_all add: plain_def ord_def)

subsection \<open>Lines\<close>

definition line_safe :: "pyval \<Rightarrow> bool" where
  "line_safe v \<longleftrightarrow> (\<forall>c \<in> chars v. ord c \<noteq> 133)"

definition good_line :: "string \<Rightarrow> bool" where
  "good_line l \<longleftrightarrow> l \<noteq> [] \<and> (\<forall>c \<in> set l. \<not> is_linebreak c) \<and> py_strip l = l"

definition file_of :: "string list \<Rightarrow> string" where
  "file_of ls = concat (map (\<lambda>l. l @ newline) ls)"

lemma file_of_simps [simp]: "file_of [] = []" "file_of (ls @ [l]) = file_of ls @ l @ newline"
  by (simp_all add: file_of_def)

lemma canonical_no_break:
  assumes "wf_val v" and "line_safe v" and "c \<in> set (canonical v)"
  shows "\<not> is_linebreak c"
  using dumps_chars [OF assms(1) canonical_dumps assms(3)] assms(2)
  by (auto simp: plain_def line_safe_def is_linebreak_def char_between_def)

lemma canonical_dict: "\<exists>body. canonical (PDict kvs) = CHR ''{'' # body @ ''}''"
  using canonical_dumps [of "PDict kvs"]
  by (cases "dumps_members canonical_options kvs") (auto dest: sym)

lemma good_line_canonical:
  assumes "wf_val (PDict kvs)" and "line_safe (PDict kvs)"
  shows "good_line (canonical (PDict kvs))"
proof -
  obtain body where b: "canonical (PDict kvs) = CHR ''{'' # body @ ''}''"
    using canonical_dict by blast
  have "py_strip (canonical (PDict kvs)) = canonical (PDict kvs)"
    unfolding b by (rule py_strip_id) (simp_all add: is_space_def char_between_def ord_def)
  with b canonical_no_break [OF assms] show ?thesis
    by (auto simp: good_line_def)
qed

lemma nonempty_stripped_id: "\<forall>l \<in> set ls. good_line l \<Longrightarrow> nonempty_stripped ls = ls"
  unfolding nonempty_stripped_def by (induction ls) (auto simp: good_line_def)

lemma log_lines_file_of: "\<forall>l \<in> set ls. good_line l \<Longrightarrow> log_lines (file_of ls) = ls"
  using splitlines_lines [of ls] by (simp add: log_lines_def nonempty_stripped_id file_of_def good_line_def)

lemma file_lines_acc_line:
  "\<forall>c \<in> set l. \<not> is_linebreak c \<Longrightarrow>
   file_lines_acc acc (l @ CHR ''\<newline>'' # cs) = rev (rev l @ acc) # file_lines_acc [] cs"
  by (induction l arbitrary: acc) (auto simp: is_linebreak_def char_between_def ord_def)

lemma file_lines_file_of: "\<forall>l \<in> set ls. good_line l \<Longrightarrow> file_lines (file_of ls) = ls"
  by (induction ls) (auto simp: file_lines_def file_of_def file_lines_acc_line good_line_def)

subsection \<open>What a call writes\<close>

definition entry_payload :: "string \<Rightarrow> entry \<Rightarrow> audit_logger \<Rightarrow> (string \<times> pyval) list" where
  "entry_payload ts e lg =
     (case json_norm safe_str (payload_of (lg_seq lg) ts (lg_prev_hash lg) e) of PDict kvs \<Rightarrow> kvs | _ \<Rightarrow> [])"

definition entry_record :: "(string \<Rightarrow> string) \<Rightarrow> string \<Rightarrow> entry \<Rightarrow> audit_logger \<Rightarrow> audit_record" where
  "entry_record H ts e lg =
     \<lparr>ar_payload = entry_payload ts e lg, ar_entry_hash = compute_entry_hash H (PDict (entry_payload ts e lg))\<rparr>"

abbreviation wf_entry :: "entry \<Rightarrow> bool" where
  "wf_entry e \<equiv> wf_val (PDict (en_args e))"

lemma payload_wf: "wf_entry e \<Longrightarrow> wf_val (payload_of seq ts prev e)"
  by (auto simp: payload_of_def opt_str_def split: option.splits)

lemma entry_payload_eq:
  "json_norm safe_str (payload_of (lg_seq lg) ts (lg_prev_hash lg) e) = PDict (entry_payload ts e lg)"
  by (simp add: entry_payload_def payload_of_def)

lemma record_entry_eq:
  assumes "wf_entry e"
  shows "record_entry H env e lg =
    (case write_record env (entry_record H (we_ts env) e lg) lg of
       (Inl x, lg') \<Rightarrow> (Inl x, lg')
     | (Inr _, lg') \<Rightarrow>
         (let lg1 = lg'\<lparr>lg_seq := lg_seq lg' + 1, lg_prev_hash := ar_entry_hash (entry_record H (we_ts env) e lg)\<rparr>
          in (Inr (entry_record H (we_ts env) e lg),
              if lg_hooked lg1 \<and> \<not> lg_degraded lg1
              then lg1\<lparr>lg_hook_calls := lg_hook_calls lg1 @ [entry_record H (we_ts env) e lg]\<rparr> else lg1)))"
  using loads_canonical [OF payload_wf [OF assms]]
  by (simp add: record_entry_def entry_payload_eq entry_record_def Let_def split: prod.splits sum.splits)

text \<open>The secondary sinks leave everything else as it is.\<close>

lemma stderr_note_frame [simp]:
  "lg_seq (stderr_note env m lg) = lg_seq lg" "lg_prev_hash (stderr_note env m lg) = lg_prev_hash lg"
  "lg_to_file (stderr_note env m lg) = lg_to_file lg" "lg_degraded (stderr_note env m lg) = lg_degraded lg"
  "lg_file (stderr_note env m lg) = lg_file lg" "lg_hooked (stderr_note env m lg) = lg_hooked lg"
  "lg_sinks (stderr_note env m lg) = lg_sinks lg" "lg_hook_calls (stderr_note env m lg) = lg_hook_calls lg"
  "lg_forwarded (stderr_note env m lg) = lg_forwarded lg" "lg_failed (stderr_note env m lg) = lg_failed lg"
  by (simp_all add: stderr_note_def)

lemma emit_one_frame [simp]:
  "lg_seq (emit_one env l n lg) = lg_seq lg" "lg_prev_hash (emit_one env l n lg) = lg_prev_hash lg"
  "lg_to_file (emit_one env l n lg) = lg_to_file lg" "lg_degraded (emit_one env l n lg) = lg_degraded lg"
  "lg_file (emit_one env l n lg) = lg_file lg" "lg_hooked (emit_one env l n lg) = lg_hooked lg"
  "lg_sinks (emit_one env l n lg) = lg_sinks lg" "lg_hook_calls (emit_one env l n lg) = lg_hook_calls lg"
  by (simp_all add: emit_one_def)

lemma fold_emit_frame:
  "lg_seq (fold (emit_one env l) ns lg) = lg_seq lg \<and> lg_prev_hash (fold (emit_one env l) ns lg) = lg_prev_hash lg \<and>
   lg_to_file (fold (emit_one env l) ns lg) = lg_to_file lg \<and> lg_degraded (fold (emit_one env l) ns lg) = lg_degraded lg \<and>
   lg_file (fold (emit_one env l) ns lg) = lg_file lg \<and> lg_hooked (fold (emit_one env l) ns lg) = lg_hooked lg \<and>
   lg_sinks (fold (emit_one env l) ns lg) = lg_sinks lg \<and> lg_hook_calls (fold (emit_one env l) ns lg) = lg_hook_calls lg"
  by (induction ns arbitrary: lg) auto

lemma emit_frame [simp]:
  "lg_seq (emit env l lg) = lg_seq lg" "lg_prev_hash (emit env l lg) = lg_prev_hash lg"
  "lg_to_file (emit env l lg) = lg_to_file lg" "lg_degraded (emit env l lg) = lg_degraded lg"
  "lg_file (emit env l lg) = lg_file lg" "lg_hooked (emit env l lg) = lg_hooked lg"
  "lg_sinks (emit env l lg) = lg_sinks lg" "lg_hook_calls (emit env l lg) = lg_hook_calls lg"
  using fold_emit_frame by (auto simp: emit_def)

lemma record_to_file:
  assumes "wf_entry e" and "lg_to_file lg" and "we_file env = None"
  shows "\<exists>lg'. record_entry H env e lg = (Inr (entry_record H (we_ts env) e lg), lg') \<and>
    lg_file lg' = lg_file lg @ canonical (to_dict (entry_record H (we_ts env) e lg)) @ newline \<and>
    lg_seq lg' = lg_seq lg + 1 \<and> lg_prev_hash lg' = ar_entry_hash (entry_record H (we_ts env) e lg) \<and>
    lg_to_file lg' \<and> lg_degraded lg' = lg_degraded lg"
  using assms by (simp add: record_entry_eq write_record_def sink_write_def Let_def)

subsection \<open>Reading back a written line\<close>

lemma entry_payload_sorted: "json_norm safe_str (PDict (entry_payload ts e lg)) = PDict (entry_payload ts e lg)"
  unfolding entry_payload_eq [symmetric] by (rule norm_safe_idem)

lemma entry_payload_wf: "wf_entry e \<Longrightarrow> wf_val (PDict (entry_payload ts e lg))"
  unfolding entry_payload_eq [symmetric] by (rule json_norm_wf [OF payload_wf])

lemma norm_dict_members:
  "json_norm d (PDict kvs) = PDict kvs' \<Longrightarrow> distinct (keys kvs) \<Longrightarrow>
   map_of kvs' k = map_option (json_norm d) (map_of kvs k) \<and> set (keys kvs') = set (keys kvs)"
proof -
  assume n: "json_norm d (PDict kvs) = PDict kvs'" and dist: "distinct (keys kvs)"
  let ?m = "map (\<lambda>(k, v). (k, json_norm d v)) kvs"
  have "distinct (keys ?m)" using dist by (simp add: case_prod_unfold comp_def)
  then have "map_of (sort_key fst ?m) k = map_of ?m k"
    by (intro map_of_inject_set [THEN iffD2, THEN fun_cong]) simp_all
  moreover have "map_of ?m k = map_option (json_norm d) (map_of kvs k)"
    by (simp add: map_of_map)
  moreover have "set (keys (sort_key fst ?m)) = set (keys kvs)"
    by force
  moreover have "kvs' = sort_key fst ?m" using n by simp
  ultimately show ?thesis by (simp only:)
qed

lemma entry_payload_fields:
  assumes "wf_entry e"
  shows "map_of (entry_payload ts e lg) ''seq'' = Some (PInt (lg_seq lg))"
    and "map_of (entry_payload ts e lg) ''prev_hash'' = Some (PStr (lg_prev_hash lg))"
    and "''entry_hash'' \<notin> set (keys (entry_payload ts e lg))"
proof -
  obtain kvs where k: "payload_of (lg_seq lg) ts (lg_prev_hash lg) e = PDict kvs"
    by (simp add: payload_of_def)
  have d: "distinct (keys kvs)"
    using payload_wf [OF assms, of "lg_seq lg" ts "lg_prev_hash lg"] k by simp
  note m = norm_dict_members [OF entry_payload_eq [of lg ts e, unfolded k] d]
  show "map_of (entry_payload ts e lg) ''seq'' = Some (PInt (lg_seq lg))"
    and "map_of (entry_payload ts e lg) ''prev_hash'' = Some (PStr (lg_prev_hash lg))"
    and "''entry_hash'' \<notin> set (keys (entry_payload ts e lg))"
    using k m by (auto simp: payload_of_def)
qed

lemma to_dict_wf:
  assumes "wf_entry e"
  shows "wf_val (to_dict (entry_record H ts e lg))"
  using entry_payload_wf [OF assms, of ts lg] entry_payload_fields(3) [OF assms, of ts lg]
  by (auto simp: to_dict_def entry_record_def)

lemma loads_written:
  assumes "wf_entry e"
  shows "\<exists>kvs. loads (canonical (to_dict (entry_record H ts e lg))) = Inr (PDict kvs) \<and>
    map_of kvs ''entry_hash'' = Some (PStr (ar_entry_hash (entry_record H ts e lg))) \<and>
    map_of kvs ''seq'' = Some (PInt (lg_seq lg)) \<and>
    map_of kvs ''prev_hash'' = Some (PStr (lg_prev_hash lg)) \<and>
    filter (\<lambda>(k, v). k \<noteq> ''entry_hash'') kvs = entry_payload ts e lg"
proof -
  let ?p = "entry_payload ts e lg" and ?h = "ar_entry_hash (entry_record H ts e lg)"
  let ?d = "?p @ [(''entry_hash'', PStr ?h)]"
  note f = entry_payload_fields [OF assms, of ts lg]
  obtain kvs where n: "json_norm safe_str (PDict ?d) = PDict kvs" by simp
  have wf: "wf_val (PDict ?d)"
    using to_dict_wf [OF assms, of H ts lg] by (simp add: to_dict_def entry_record_def)
  note m = norm_dict_members [OF n]
  have "filter (\<lambda>(k, v). k \<noteq> ''entry_hash'') kvs =
      sort_key fst (filter (\<lambda>(k, v). k \<noteq> ''entry_hash'') (map (\<lambda>(k, v). (k, json_norm safe_str v)) ?d))"
    using n by (auto simp: filter_sort)
  also have "filter (\<lambda>(k, v). k \<noteq> ''entry_hash'') (map (\<lambda>(k, v). (k, json_norm safe_str v)) ?d) =
      map (\<lambda>(k, v). (k, json_norm safe_str v)) ?p"
    using f(3) by (simp add: filter_map) (rule arg_cong [where f = "map _"], force intro: filter_True)
  also have "sort_key fst (map (\<lambda>(k, v). (k, json_norm safe_str v)) ?p) = ?p"
    using entry_payload_sorted [of ts e lg] by simp
  finally have "filter (\<lambda>(k, v). k \<noteq> ''entry_hash'') kvs = ?p" .
  moreover have "distinct (keys ?d)" using wf by simp
  moreover have "map_of ?p ''entry_hash'' = None"
    using f(3) by (simp add: map_of_eq_None_iff)
  ultimately show ?thesis
    using loads_canonical [OF wf] n m f
    by (auto simp: to_dict_def entry_record_def map_add_def)
qed

lemma verify_written:
  assumes "wf_entry e" and "lg_seq lg = int n"
  shows "verify_line H (canonical (to_dict (entry_record H ts e lg))) (lg_prev_hash lg, n) =
    Inr (ar_entry_hash (entry_record H ts e lg), n + 1)"
  using loads_written [OF assms(1), of H ts lg] assms(2)
  by (auto simp: verify_line_def entry_record_def)

lemma verify_lines_append:
  "verify_lines H (ls @ ls') st =
   (case verify_lines H ls st of Inl x \<Rightarrow> Inl x | Inr st' \<Rightarrow> verify_lines H ls' st')"
  by (induction ls arbitrary: st) (auto split: sum.splits)

text \<open>A line that verifies is a line from which recovery reads the next state.\<close>

lemma py_int_of_eq: "py_eq v (PInt n) \<Longrightarrow> py_int v = Inr n"
proof (cases v)
  case (PFloat t)
  moreover assume "py_eq v (PInt n)"
  moreover have "float_value ''Infinity'' = None" "float_value ''-Infinity'' = None"
    by (simp_all add: float_value_def scan_int_def is_digit_def char_between_def ord_def)
  ultimately show ?thesis by auto
qed auto

lemma verify_line_recover:
  assumes "verify_line H l (prev, n) = Inr (h, m)"
  shows "m = n + 1 \<and> (\<exists>kvs v. loads l = Inr (PDict kvs) \<and> map_of kvs ''seq'' = Some v \<and> py_int v = Inr (int n) \<and>
    map_of kvs ''entry_hash'' = Some (PStr h))"
  using assms
  by (auto simp: verify_line_def Let_def split: sum.splits pyval.splits if_splits option.splits dest: py_int_of_eq)

lemma verify_lines_count: "verify_lines H ls (prev, n) = Inr (h, m) \<Longrightarrow> m = n + length ls"
proof (induction ls arbitrary: prev n)
  case (Cons l ls)
  then obtain p' n' where v: "verify_line H l (prev, n) = Inr (p', n')" and r: "verify_lines H ls (p', n') = Inr (h, m)"
    by (auto split: sum.splits)
  from Cons.IH [OF r] verify_line_recover [OF v] show ?case by simp
qed simp

lemma recover_file_of:
  assumes "\<forall>l \<in> set ls. good_line l" and "verify_lines H ls (GENESIS, 0) = Inr (h, n)"
  shows "recover (Some (file_of ls)) = Inr (int n, h)"
proof (cases ls rule: rev_cases)
  case Nil
  with assms show ?thesis by (simp add: recover_def file_lines_def nonempty_stripped_def)
next
  case (snoc ls' l)
  then obtain p k where k: "verify_line H l (p, k) = Inr (h, n)"
    using assms(2) by (auto simp: verify_lines_append split: sum.splits)
  have "ls \<noteq> []" using snoc by simp
  then obtain y ys where ls: "ls = y # ys" by (auto simp: neq_Nil_conv)
  then have y: "nonempty_stripped (file_lines (file_of ls)) = y # ys"
    using file_lines_file_of [OF assms(1)] nonempty_stripped_id [OF assms(1)] by simp
  have l: "last (y # ys) = l" using ls snoc by (metis last_snoc)
  from verify_line_recover [OF k] show ?thesis
    using y l by (auto simp: recover_def py_str_def)
qed

subsection \<open>The chain over every sequence of records and restarts\<close>

definition chain_inv :: "(string \<Rightarrow> string) \<Rightarrow> string list \<Rightarrow> audit_logger \<Rightarrow> bool" where
  "chain_inv H ls lg \<longleftrightarrow>
     lg_file lg = file_of ls \<and> (\<forall>l \<in> set ls. good_line l) \<and> lg_seq lg = int (length ls) \<and>
     verify_lines H ls (GENESIS, 0) = Inr (lg_prev_hash lg, length ls) \<and> lg_to_file lg \<and>
     (\<forall>c \<in> set (lg_prev_hash lg). ord c \<noteq> 133)"

text \<open>SHA-256 digests are written with hexadecimal digits.\<close>

definition hex_digest :: "(string \<Rightarrow> string) \<Rightarrow> bool" where
  "hex_digest H \<longleftrightarrow> (\<forall>b. set (H b) \<subseteq> set ''0123456789abcdef'')"

text \<open>A call whose strings hold no U+0085 and whose clock, too.\<close>

definition clean_call :: "write_env \<Rightarrow> entry \<Rightarrow> bool" where
  "clean_call env e \<longleftrightarrow> wf_entry e \<and> we_file env = None \<and> line_safe (payload_of 0 (we_ts env) [] e)"

lemma chars_norm: "chars (json_norm safe_str v) \<subseteq> chars v \<union> set ''<unserializable>''"
proof (induction v)
  case (PList vs)
  then show ?case by fastforce
next
  case (PDict kvs)
  then show ?case by fastforce
next
  case (POpaque s)
  then show ?case by (auto simp: safe_str_def split: option.splits)
qed auto

lemma hex_chars: "\<forall>c \<in> set ''0123456789abcdef''. ord c \<noteq> 133" "\<forall>c \<in> set ''<unserializable>''. ord c \<noteq> 133"
    "\<forall>c \<in> set ''entry_hash''. ord c \<noteq> 133"
  by (simp_all add: ord_def)

lemma hex_not_133: "hex_digest H \<Longrightarrow> c \<in> set (H b) \<Longrightarrow> ord c \<noteq> 133"
  using hex_chars(1) unfolding hex_digest_def by blast

lemma line_safe_norm: "line_safe v \<Longrightarrow> line_safe (json_norm safe_str v)"
  using chars_norm [of v] hex_chars(2) unfolding line_safe_def by blast

lemma chars_payload: "chars (payload_of seq ts prev e) \<subseteq> chars (payload_of 0 ts [] e) \<union> set prev"
  by (auto simp: payload_of_def)

lemma written_line_safe:
  assumes "clean_call env e" and "hex_digest H" and "\<forall>c \<in> set (lg_prev_hash lg). ord c \<noteq> 133"
  shows "line_safe (to_dict (entry_record H (we_ts env) e lg))"
proof -
  have "line_safe (payload_of (lg_seq lg) (we_ts env) (lg_prev_hash lg) e)"
    using assms(1,3) chars_payload unfolding clean_call_def line_safe_def by blast
  then have "line_safe (PDict (entry_payload (we_ts env) e lg))"
    unfolding entry_payload_eq [symmetric] by (rule line_safe_norm)
  moreover have "\<forall>c \<in> set (ar_entry_hash (entry_record H (we_ts env) e lg)). ord c \<noteq> 133"
    using hex_not_133 [OF assms(2)] by (simp add: entry_record_def compute_entry_hash_def sha256_text_def)
  ultimately show ?thesis
    using hex_chars(3) unfolding line_safe_def to_dict_def entry_record_def by fastforce
qed

lemma record_chain:
  assumes "chain_inv H ls lg" and "clean_call env e" and "hex_digest H"
  shows "\<exists>lg'. record_entry H env e lg = (Inr (entry_record H (we_ts env) e lg), lg') \<and>
    chain_inv H (ls @ [canonical (to_dict (entry_record H (we_ts env) e lg))]) lg'"
proof -
  let ?r = "entry_record H (we_ts env) e lg"
  have wf: "wf_entry e" and ok: "we_file env = None"
    using assms(2) by (simp_all add: clean_call_def)
  obtain lg' where r: "record_entry H env e lg = (Inr ?r, lg')"
      "lg_file lg' = lg_file lg @ canonical (to_dict ?r) @ newline"
      "lg_seq lg' = lg_seq lg + 1" "lg_prev_hash lg' = ar_entry_hash ?r" "lg_to_file lg'"
    using record_to_file [OF wf _ ok, of lg H] assms(1) by (auto simp: chain_inv_def)
  have "good_line (canonical (to_dict ?r))"
    using good_line_canonical to_dict_wf [OF wf] written_line_safe [OF assms(2,3)] assms(1)
    by (auto simp: to_dict_def chain_inv_def)
  moreover have "verify_line H (canonical (to_dict ?r)) (lg_prev_hash lg, length ls) =
      Inr (ar_entry_hash ?r, length ls + 1)"
    using verify_written [OF wf, of lg "length ls"] assms(1) by (simp add: chain_inv_def)
  moreover have "\<forall>c \<in> set (ar_entry_hash ?r). ord c \<noteq> 133"
    using hex_not_133 [OF assms(3)] by (auto simp: entry_record_def compute_entry_hash_def sha256_text_def)
  ultimately show ?thesis
    using r assms(1) by (auto simp: chain_inv_def verify_lines_append)
qed

datatype audit_step = Log write_env entry | Reopen

text \<open>Closing and opening again: a new logger over the text on disk.\<close>

definition reopen :: "audit_logger \<Rightarrow> audit_exc + audit_logger" where
  "reopen lg = audit_init \<lparr>oe_exists = True, oe_readable = True, oe_openable = True, oe_stderr = True\<rparr>
     True (lg_hooked lg) (lg_sinks lg) (lg_file lg)"

fun audit_run :: "(string \<Rightarrow> string) \<Rightarrow> audit_step list \<Rightarrow> audit_logger \<Rightarrow> audit_exc + audit_logger" where
  "audit_run H [] lg = Inr lg"
| "audit_run H (Log env e # steps) lg =
     (case record_entry H env e lg of (Inl x, _) \<Rightarrow> Inl x | (Inr _, lg') \<Rightarrow> audit_run H steps lg')"
| "audit_run H (Reopen # steps) lg =
     (case reopen lg of Inl x \<Rightarrow> Inl x | Inr lg' \<Rightarrow> audit_run H steps lg')"

fun clean_step :: "audit_step \<Rightarrow> bool" where
  "clean_step (Log env e) = clean_call env e"
| "clean_step Reopen = True"

fun records_of :: "audit_step list \<Rightarrow> nat" where
  "records_of [] = 0"
| "records_of (Log env e # steps) = Suc (records_of steps)"
| "records_of (Reopen # steps) = records_of steps"

lemma reopen_chain: "chain_inv H ls lg \<Longrightarrow> \<exists>lg'. reopen lg = Inr lg' \<and> chain_inv H ls lg'"
  using recover_file_of [of ls H "lg_prev_hash lg" "length ls"]
  by (auto simp: reopen_def audit_init_def new_logger_def chain_inv_def)

lemma run_chain:
  "chain_inv H ls lg \<Longrightarrow> hex_digest H \<Longrightarrow> \<forall>s \<in> set steps. clean_step s \<Longrightarrow>
   \<exists>lg' ls'. audit_run H steps lg = Inr lg' \<and> chain_inv H ls' lg' \<and> length ls' = length ls + records_of steps"
proof (induction steps arbitrary: ls lg)
  case (Cons s steps)
  show ?case
  proof (cases s)
    case (Log env e)
    with Cons.prems have "clean_call env e" by simp
    from record_chain [OF Cons.prems(1) this Cons.prems(2)] obtain lg1 r l where
      "record_entry H env e lg = (Inr r, lg1)" "chain_inv H (ls @ [l]) lg1" by blast
    with Cons.IH [of "ls @ [l]" lg1] Cons.prems Log show ?thesis by auto
  next
    case Reopen
    from reopen_chain [OF Cons.prems(1)] obtain lg1 where "reopen lg = Inr lg1" "chain_inv H ls lg1" by blast
    with Cons.IH [of ls lg1] Cons.prems Reopen show ?thesis by auto
  qed
qed auto

lemma chain_verifies:
  "chain_inv H ls lg \<Longrightarrow> verify_chain H (Some (lg_file lg)) =
   Inr \<lparr>vr_ok = True, vr_count = length ls, vr_broken_at = None, vr_reason = None\<rparr>"
  by (auto simp: chain_inv_def verify_chain_def log_lines_file_of)

lemma fresh_chain:
  "audit_init env True hooked sinks [] = Inr lg \<Longrightarrow> \<not> lg_degraded lg \<Longrightarrow> chain_inv H [] lg"
  by (auto simp: audit_init_def new_logger_def chain_inv_def recover_def file_lines_def nonempty_stripped_def
      GENESIS_def ord_def split: if_splits)

text \<open>C8: Every record the logger writes verifies, across restarts: after any sequence of records
  and of restarts of the process over a new audit file, none of which fails to write, no call
  raises, the whole file passes \<^verbatim>\<open>verify_chain\<close>, and the count it reports is the number of
  records written. The hypotheses on the calls: arguments with distinct keys, and no U+0085 in the
  strings.\<close>

theorem audit_log_verifies:
  assumes "hex_digest H" and "audit_init env True hooked sinks [] = Inr lg" and "\<not> lg_degraded lg"
    and "\<forall>s \<in> set steps. clean_step s"
  shows "\<exists>lg'. audit_run H steps lg = Inr lg' \<and>
    verify_chain H (Some (lg_file lg')) =
      Inr \<lparr>vr_ok = True, vr_count = records_of steps, vr_broken_at = None, vr_reason = None\<rparr>"
  using run_chain [OF fresh_chain [OF assms(2,3)] assms(1,4)] chain_verifies by fastforce

definition demo_env :: write_env where
  "demo_env = \<lparr>we_ts = ''2026-01-01'', we_file = None, we_stderr = True, we_sink = (\<lambda>_. True)\<rparr>"

definition demo_entry :: entry where
  "demo_entry = \<lparr>en_tool = ''x'', en_tier = ''T0'', en_decision = ''allowed'', en_args = [(''k'', PInt 1)],
     en_output_sha256 = ''ab'', en_output_len = 0, en_target = None, en_error = None, en_request_id = None,
     en_client_id = None, en_patterns_version = 4\<rparr>"

definition demo_open :: open_env where
  "demo_open = \<lparr>oe_exists = False, oe_readable = True, oe_openable = True, oe_stderr = True\<rparr>"

lemma demo_clean: "clean_call demo_env demo_entry"
  by (simp add: clean_call_def line_safe_def payload_of_def demo_env_def demo_entry_def opt_str_def) (simp add: ord_def)

lemma demo_digest: "hex_digest (\<lambda>_. ''ab'')"
  by (simp add: hex_digest_def)

lemma demo_logger:
  "audit_init demo_open True False [] [] = Inr (new_logger 0 GENESIS True False [] [] [])"
  by (simp add: audit_init_def demo_open_def recover_def)

theorem audit_log_verifies_witness:
  "\<exists>lg'. audit_run (\<lambda>_. ''ab'') [Log demo_env demo_entry, Reopen, Log demo_env demo_entry]
       (new_logger 0 GENESIS True False [] [] []) = Inr lg' \<and>
     verify_chain (\<lambda>_. ''ab'') (Some (lg_file lg')) =
       Inr \<lparr>vr_ok = True, vr_count = 2, vr_broken_at = None, vr_reason = None\<rparr>"
  using audit_log_verifies [OF demo_digest demo_logger, of "[Log demo_env demo_entry, Reopen, Log demo_env demo_entry]"]
  by (simp add: demo_clean new_logger_def eval_nat_numeral)

subsection \<open>Tamper evidence\<close>

definition strip_hash :: "(string \<times> pyval) list \<Rightarrow> pyval" where
  "strip_hash kvs = PDict (filter (\<lambda>(k, v). k \<noteq> ''entry_hash'') kvs)"

text \<open>What the hash of a line commits to: the canonical text of its payload.\<close>

definition line_text :: "string \<Rightarrow> string" where
  "line_text l = (case loads l of Inr (PDict kvs) \<Rightarrow> canonical (strip_hash kvs) | _ \<Rightarrow> [])"

text \<open>The head of a log: the entry hash its last line stores.\<close>

definition head_hash :: "string \<Rightarrow> pyval option" where
  "head_hash text =
     (if log_lines text = [] then Some (PStr GENESIS)
      else case loads (last (log_lines text)) of Inr (PDict kvs) \<Rightarrow> map_of kvs ''entry_hash'' | _ \<Rightarrow> None)"

lemma map_of_filter_key: "k \<noteq> k' \<Longrightarrow> map_of (filter (\<lambda>(k, v). k \<noteq> k') d) k = map_of d k"
  by (induction d) auto

lemma distinct_keys_filter: "distinct (keys d) \<Longrightarrow> distinct (keys (filter P d))"
  by (induction d) auto

lemma verify_line_Inr:
  assumes "verify_line H l (p, n) = Inr (h, m)"
  obtains kvs where "loads l = Inr (PDict kvs)" and "map_of kvs ''prev_hash'' = Some (PStr p)"
    and "h = sha256_text H (line_text l)" and "map_of kvs ''entry_hash'' = Some (PStr h)"
  using assms
  by (auto simp: verify_line_def Let_def line_text_def strip_hash_def compute_entry_hash_def
      split: sum.splits pyval.splits if_splits)

lemma line_text_prev:
  assumes "verify_line H l1 (p1, n1) = Inr (h1, m1)" and "verify_line H l2 (p2, n2) = Inr (h2, m2)"
    and "line_text l1 = line_text l2"
  shows "p1 = p2"
proof -
  obtain k1 where k1: "loads l1 = Inr (PDict k1)" "map_of k1 ''prev_hash'' = Some (PStr p1)"
    using assms(1) by (rule verify_line_Inr)
  obtain k2 where k2: "loads l2 = Inr (PDict k2)" "map_of k2 ''prev_hash'' = Some (PStr p2)"
    using assms(2) by (rule verify_line_Inr)
  have w: "wf_val (strip_hash k1)" "wf_val (strip_hash k2)"
    using loads_wf [OF k1(1)] loads_wf [OF k2(1)] by (auto simp: strip_hash_def distinct_keys_filter)
  have "canonical (strip_hash k1) = canonical (strip_hash k2)"
    using assms(3) k1(1) k2(1) by (simp add: line_text_def)
  then have n: "json_norm safe_str (strip_hash k1) = json_norm safe_str (strip_hash k2)"
    using loads_canonical [OF w(1)] loads_canonical [OF w(2)] by simp
  obtain k where k: "json_norm safe_str (strip_hash k1) = PDict k" by (simp add: strip_hash_def)
  have "map_of k ''prev_hash'' = Some (PStr p1)"
    using norm_dict_members [OF k [unfolded strip_hash_def]] w(1) k1(2)
    by (simp add: strip_hash_def map_of_filter_key)
  moreover have "map_of k ''prev_hash'' = Some (PStr p2)"
    using norm_dict_members [OF k [unfolded n, unfolded strip_hash_def]] w(2) k2(2)
    by (simp add: strip_hash_def map_of_filter_key)
  ultimately show ?thesis by simp
qed

lemma verify_snoc:
  assumes "verify_lines H (ls @ [l]) (GENESIS, 0) = Inr (h, n)"
  obtains p m where "verify_lines H ls (GENESIS, 0) = Inr (p, m)" and "verify_line H l (p, m) = Inr (h, n)"
  using assms by (auto simp: verify_lines_append split: sum.splits)

lemma chain_determined:
  "verify_lines H ls1 (GENESIS, 0) = Inr (h, n1) \<Longrightarrow> verify_lines H ls2 (GENESIS, 0) = Inr (h, n2) \<Longrightarrow>
   inj_on (sha256_text H) (line_text ` (set ls1 \<union> set ls2)) \<Longrightarrow>
   GENESIS \<notin> sha256_text H ` line_text ` (set ls1 \<union> set ls2) \<Longrightarrow>
   map line_text ls1 = map line_text ls2"
proof (induction ls1 arbitrary: ls2 h n1 n2 rule: rev_induct)
  case Nil
  show ?case
  proof (cases ls2 rule: rev_cases)
    case (snoc ls l)
    with Nil.prems(2) obtain p m where "verify_line H l (p, m) = Inr (h, n2)"
      by (auto elim: verify_snoc)
    then have "h = sha256_text H (line_text l)" by (rule verify_line_Inr)
    with Nil snoc show ?thesis by auto
  qed simp
next
  case (snoc l1 ls1)
  obtain p1 m1 where v1: "verify_lines H ls1 (GENESIS, 0) = Inr (p1, m1)" "verify_line H l1 (p1, m1) = Inr (h, n1)"
    using snoc.prems(1) by (rule verify_snoc)
  have h1: "h = sha256_text H (line_text l1)" using v1(2) by (rule verify_line_Inr)
  show ?case
  proof (cases ls2 rule: rev_cases)
    case Nil
    with snoc.prems h1 show ?thesis by auto
  next
    case (snoc ls2' l2)
    obtain p2 m2 where v2: "verify_lines H ls2' (GENESIS, 0) = Inr (p2, m2)" "verify_line H l2 (p2, m2) = Inr (h, n2)"
      using snoc.prems(2) unfolding snoc by (rule verify_snoc)
    have "h = sha256_text H (line_text l2)" using v2(2) by (rule verify_line_Inr)
    with h1 snoc.prems(3) snoc have t: "line_text l1 = line_text l2"
      by (auto dest: inj_onD)
    with line_text_prev [OF v1(2) v2(2)] have "p1 = p2" by simp
    moreover have "inj_on (sha256_text H) (line_text ` (set ls1 \<union> set ls2'))"
      using snoc.prems(3) snoc by (auto intro: inj_on_subset)
    moreover have "GENESIS \<notin> sha256_text H ` line_text ` (set ls1 \<union> set ls2')"
      using snoc.prems(4) snoc by auto
    ultimately have "map line_text ls1 = map line_text ls2'"
      using snoc.IH [OF v1(1)] v2(1) by blast
    with t snoc show ?thesis by simp
  qed
qed

lemma verify_line_break: "verify_line H l st = Inl (Break r) \<Longrightarrow> \<not> vr_ok r"
  by (auto simp: verify_line_def verify_break_def Let_def split: prod.splits sum.splits pyval.splits if_splits)

lemma verify_lines_break: "verify_lines H ls st = Inl (Break r) \<Longrightarrow> \<not> vr_ok r"
  by (induction ls arbitrary: st) (auto split: sum.splits dest: verify_line_break)

lemma verify_chain_ok:
  assumes "verify_chain H (Some t) = Inr r" and "vr_ok r"
  obtains h n where "verify_lines H (log_lines t) (GENESIS, 0) = Inr (h, n)" and "head_hash t = Some (PStr h)"
    and "vr_count r = length (log_lines t)"
proof -
  obtain h n where v: "verify_lines H (log_lines t) (GENESIS, 0) = Inr (h, n)" and r: "vr_count r = n"
    using assms
    by (auto simp: verify_chain_def split: sum.splits verify_stop.splits dest: verify_lines_break)
  have "head_hash t = Some (PStr h)"
  proof (cases "log_lines t" rule: rev_cases)
    case Nil
    with v show ?thesis by (simp add: head_hash_def)
  next
    case (snoc ls l)
    with v obtain p m where "verify_line H l (p, m) = Inr (h, n)" by (auto elim: verify_snoc)
    then obtain kvs where "loads l = Inr (PDict kvs)" "map_of kvs ''entry_hash'' = Some (PStr h)"
      by (rule verify_line_Inr)
    then show ?thesis using snoc by (simp add: head_hash_def)
  qed
  with that v r verify_lines_count [OF v] show ?thesis by simp
qed

text \<open>C4: The chain is tamper evident: two logs that both pass \<^verbatim>\<open>verify_chain\<close> and end in the
  same entry hash hold the same records in the same order, payload by payload, provided the digest
  has no collision among those payloads and none of them hashes to the genesis value. So an edit,
  an insertion, a deletion or a reordering of a log whose head hash is known is always reported.\<close>

theorem audit_chain_tamper_evident:
  assumes "verify_chain H (Some t1) = Inr r1" and "vr_ok r1" and "verify_chain H (Some t2) = Inr r2" and "vr_ok r2"
    and "head_hash t1 = head_hash t2"
    and "inj_on (sha256_text H) (line_text ` (set (log_lines t1) \<union> set (log_lines t2)))"
    and "GENESIS \<notin> sha256_text H ` line_text ` (set (log_lines t1) \<union> set (log_lines t2))"
  shows "map line_text (log_lines t1) = map line_text (log_lines t2) \<and> vr_count r1 = vr_count r2"
proof -
  obtain h1 n1 where v1: "verify_lines H (log_lines t1) (GENESIS, 0) = Inr (h1, n1)" "head_hash t1 = Some (PStr h1)"
      "vr_count r1 = length (log_lines t1)"
    using assms(1,2) by (rule verify_chain_ok)
  obtain h2 n2 where v2: "verify_lines H (log_lines t2) (GENESIS, 0) = Inr (h2, n2)" "head_hash t2 = Some (PStr h2)"
      "vr_count r2 = length (log_lines t2)"
    using assms(3,4) by (rule verify_chain_ok)
  from v1 v2 assms(5) have "h1 = h2" by simp
  then have "map line_text (log_lines t1) = map line_text (log_lines t2)"
    using chain_determined [OF v1(1) _ assms(6,7)] v2(1) by simp
  then show ?thesis
    using v1(3) v2(3) map_eq_imp_length_eq by fastforce
qed

definition demo_line :: string where
  "demo_line = canonical (to_dict (entry_record (\<lambda>_. ''ab'') ''2026-01-01'' demo_entry (new_logger 0 GENESIS True False [] [] [])))"

lemma demo_chain:
  "good_line demo_line" "verify_lines (\<lambda>_. ''ab'') [demo_line] (GENESIS, 0) = Inr (''ab'', 1)"
proof -
  have ts: "we_ts demo_env = ''2026-01-01''" by (simp add: demo_env_def)
  let ?lg = "new_logger 0 GENESIS True False [] [] []"
  have "chain_inv (\<lambda>_. ''ab'') [] ?lg"
    by (rule fresh_chain [OF demo_logger]) (simp add: new_logger_def)
  from record_chain [OF this demo_clean demo_digest, unfolded ts] obtain lg' where
    r: "record_entry (\<lambda>_. ''ab'') demo_env demo_entry ?lg = (Inr (entry_record (\<lambda>_. ''ab'') ''2026-01-01'' demo_entry ?lg), lg')"
    and c: "chain_inv (\<lambda>_. ''ab'') [demo_line] lg'"
    by (auto simp: demo_line_def)
  have "lg_prev_hash lg' = ''ab''"
    using c by (auto simp: chain_inv_def verify_line_def Let_def compute_entry_hash_def sha256_text_def
        split: sum.splits pyval.splits if_splits)
  with c show "good_line demo_line" "verify_lines (\<lambda>_. ''ab'') [demo_line] (GENESIS, 0) = Inr (''ab'', 1)"
    by (auto simp: chain_inv_def)
qed

lemma demo_texts: "log_lines (demo_line @ newline) = [demo_line]" "log_lines (demo_line @ newline @ newline) = [demo_line]"
proof -
  have g: "\<forall>c \<in> set demo_line. \<not> is_linebreak c" "py_strip demo_line = demo_line" "demo_line \<noteq> []"
    using demo_chain(1) by (auto simp: good_line_def)
  have "splitlines (demo_line @ newline @ u) = demo_line # splitlines u" for u
    using splitlines_acc_line [OF g(1), of "[]" u] by (simp add: splitlines_def)
  from this [of "[]"] this [of newline] g show
      "log_lines (demo_line @ newline) = [demo_line]" "log_lines (demo_line @ newline @ newline) = [demo_line]"
    by (auto simp: log_lines_def nonempty_stripped_def splitlines_def is_linebreak_def char_between_def ord_def
        py_strip_def py_lstrip_def py_rstrip_def)
qed

theorem audit_chain_tamper_evident_witness:
  "demo_line @ newline \<noteq> demo_line @ newline @ newline \<and>
   map line_text (log_lines (demo_line @ newline)) = map line_text (log_lines (demo_line @ newline @ newline))"
proof -
  let ?H = "\<lambda>_::string. ''ab''" and ?r = "\<lparr>vr_ok = True, vr_count = 1, vr_broken_at = None, vr_reason = None\<rparr>"
  have v: "verify_chain ?H (Some (demo_line @ newline)) = Inr ?r" "verify_chain ?H (Some (demo_line @ newline @ newline)) = Inr ?r"
    using demo_chain(2) demo_texts by (simp_all add: verify_chain_def)
  have g: "GENESIS \<noteq> ''ab''" by (simp add: GENESIS_def numeral_eq_Suc)
  have "map line_text (log_lines (demo_line @ newline)) = map line_text (log_lines (demo_line @ newline @ newline)) \<and>
      vr_count ?r = vr_count ?r"
    by (rule audit_chain_tamper_evident [OF v(1) _ v(2)])
      (use g demo_texts in \<open>simp_all add: head_hash_def sha256_text_def\<close>)
  then show ?thesis by simp
qed

subsection \<open>Failures of the sinks\<close>

lemma write_record_raises:
  "isl (fst (write_record env r lg)) \<longleftrightarrow>
   \<not> lg_degraded lg \<and> \<not> we_stderr env \<and> (lg_to_file lg \<longrightarrow> we_file env \<noteq> None)"
  by (auto simp: write_record_def sink_write_def degrade_def Let_def split: option.splits)

definition record_can_raise :: "write_env \<Rightarrow> audit_logger \<Rightarrow> bool" where
  "record_can_raise env lg \<longleftrightarrow>
     \<not> lg_degraded lg \<and> \<not> we_stderr env \<and> (lg_to_file lg \<longrightarrow> we_file env \<noteq> None)"

lemma write_record_frame: "lg_seq (snd (write_record env r lg)) = lg_seq lg"
  by (simp add: write_record_def sink_write_def degrade_def Let_def split: option.splits)

lemma write_record_exc: "write_record env r lg = (Inl x, lg') \<Longrightarrow> x = Stderr_broken"
  by (auto simp: write_record_def sink_write_def degrade_def Let_def split: option.splits if_splits)

lemma record_outcome:
  assumes "wf_entry e"
  shows "(\<exists>lg'. record_entry H env e lg = (Inl Stderr_broken, lg') \<and> record_can_raise env lg) \<or>
    (\<exists>lg'. record_entry H env e lg = (Inr (entry_record H (we_ts env) e lg), lg') \<and> \<not> record_can_raise env lg \<and>
       lg_seq lg' = lg_seq lg + 1 \<and> lg_prev_hash lg' = ar_entry_hash (entry_record H (we_ts env) e lg))"
proof (cases "write_record env (entry_record H (we_ts env) e lg) lg")
  case (Pair res lg1)
  then have s: "lg_seq lg1 = lg_seq lg" using write_record_frame [of env "entry_record H (we_ts env) e lg" lg] by simp
  have r: "isl res \<longleftrightarrow> record_can_raise env lg"
    using Pair write_record_raises [of env "entry_record H (we_ts env) e lg" lg] by (simp add: record_can_raise_def)
  show ?thesis
  proof (cases res)
    case (Inl x)
    with Pair r write_record_exc [of env _ lg x lg1] show ?thesis by (simp add: record_entry_eq [OF assms])
  next
    case (Inr u)
    with Pair r s show ?thesis by (simp add: record_entry_eq [OF assms] Let_def)
  qed
qed


lemma demo_entry_wf: "wf_entry demo_entry"
  by (simp add: demo_entry_def)


lemma fold_emit_forwarded:
  "lg_forwarded (fold (emit_one env line) ns lg) = lg_forwarded lg @ map (\<lambda>n. (n, line)) (filter (we_sink env) ns)"
  by (induction ns arbitrary: lg) (auto simp: emit_one_def)

text \<open>One failing sink never silences another: the fan-out hands the line to exactly the
  secondary sinks that accept it, in order, whatever the others do, and leaves the audit file, the
  chain and the degraded flag as they are.\<close>

theorem emit_contains_failures:
  "lg_forwarded (emit env line lg) = lg_forwarded lg @ map (\<lambda>n. (n, line)) (filter (we_sink env) (lg_sinks lg)) \<and>
   lg_file (emit env line lg) = lg_file lg \<and> lg_seq (emit env line lg) = lg_seq lg \<and>
   lg_prev_hash (emit env line lg) = lg_prev_hash lg \<and> lg_degraded (emit env line lg) = lg_degraded lg"
  by (simp add: fold_emit_forwarded [folded emit_def] emit_def fold_emit_forwarded)
    (use fold_emit_frame in blast)

subsection \<open>Inputs on which the log does not keep its promises\<close>

text \<open>\<^verbatim>\<open>verify_chain\<close> raises on a line that is JSON but not an object.\<close>

lemma verify_chain_raises: "verify_chain H (Some ''1'') = Inl AttributeError"
proof -
  have "log_lines ''1'' = [''1'']" by code_simp
  moreover have "loads ''1'' = Inr (PInt 1)" by code_simp
  ultimately show ?thesis by (simp add: verify_chain_def verify_line_def)
qed

definition poisoned_tail :: string where
  "poisoned_tail = canonical (PDict [(''entry_hash'', PStr ''x''), (''seq'', PFloat ''Infinity'')])"

lemma recover_poisoned: "recover (Some poisoned_tail) = Inl Overflow_in_recovery"
  by code_simp

text \<open>When recovery raises: opening an existing log fails with an exception exactly when its last
  line is an object whose sequence number is an infinite float, and such a log exists; every other
  tail, however corrupt, is resumed from.\<close>

theorem recover_raises_iff:
  "((\<exists>x. recover (Some tail) = Inl x) \<longleftrightarrow>
     nonempty_stripped (file_lines tail) \<noteq> [] \<and>
     (\<exists>kvs. loads (last (nonempty_stripped (file_lines tail))) = Inr (PDict kvs) \<and>
        (map_of kvs ''seq'' = Some (PFloat ''Infinity'') \<or> map_of kvs ''seq'' = Some (PFloat ''-Infinity'')))) \<and>
   recover (Some poisoned_tail) = Inl Overflow_in_recovery"
proof -
  have i: "py_int v = Inl Int_overflow_error \<longleftrightarrow> v = PFloat ''Infinity'' \<or> v = PFloat ''-Infinity''" for v
    by (cases v) (auto simp: int_of_str_def Let_def split: option.splits prod.splits)
  show ?thesis
    using recover_poisoned
    by (cases "nonempty_stripped (file_lines tail)")
      (auto simp: recover_def i split: sum.splits pyval.splits option.splits int_error.splits)
qed

text \<open>A record with an argument name that holds U+0085 is written on one line, and
  \<^verbatim>\<open>splitlines\<close> makes two of it: the log the logger just wrote does not verify.\<close>

definition nel_entry :: entry where
  "nel_entry = demo_entry\<lparr>en_args := [([char_of (133::nat)], PNone)]\<rparr>"

definition nel_prefix :: string where
  "nel_prefix = ''{'' @ dumps_str False ''args'' @ '':{'' @ [quote]"

lemma nel_line:
  "take 11 (canonical (to_dict (entry_record (\<lambda>_. ''ab'') ''t'' nel_entry (new_logger 0 GENESIS True False [] [] [])))) =
   nel_prefix @ [char_of (133::nat)]"
  by code_simp

lemma splitlines_acc_break:
  "\<forall>c \<in> set l. \<not> is_linebreak c \<Longrightarrow>
   splitlines_acc acc (l @ char_of (133::nat) # cs) = rev (rev l @ acc) # splitlines_acc [] cs"
  by (induction l arbitrary: acc) (auto simp: is_linebreak_def char_between_def ord_def)

lemma nel_prefix_facts:
  "\<forall>c \<in> set nel_prefix. \<not> is_linebreak c" "nonempty_stripped (nel_prefix # ls) = nel_prefix # nonempty_stripped ls"
  "loads nel_prefix = Inl JSONDecodeError"
proof -
  show "loads nel_prefix = Inl JSONDecodeError" "\<forall>c \<in> set nel_prefix. \<not> is_linebreak c" by code_simp+
  have "py_strip nel_prefix = nel_prefix" "nel_prefix \<noteq> []" by code_simp+
  then show "nonempty_stripped (nel_prefix # ls) = nel_prefix # nonempty_stripped ls"
    by (simp add: nonempty_stripped_def)
qed

text \<open>Not every log the logger writes verifies: there is a record, written without any failure,
  after which \<^verbatim>\<open>verify_chain\<close> reports the file as broken at its first line.\<close>

theorem nel_record_breaks_verification:
  "\<exists>lg' r. record_entry (\<lambda>_. ''ab'') (demo_env\<lparr>we_ts := ''t''\<rparr>) nel_entry (new_logger 0 GENESIS True False [] [] []) = (Inr r, lg') \<and>
   verify_chain (\<lambda>_. ''ab'') (Some (lg_file lg')) =
     Inr \<lparr>vr_ok = False, vr_count = 0, vr_broken_at = Some 0, vr_reason = Some ''bad json''\<rparr>"
proof -
  let ?lg = "new_logger 0 GENESIS True False [] [] []" and ?env = "demo_env\<lparr>we_ts := ''t''\<rparr>"
  let ?r = "entry_record (\<lambda>_. ''ab'') ''t'' nel_entry ?lg"
  have "wf_entry nel_entry" by (simp add: nel_entry_def)
  from record_to_file [OF this, of ?lg ?env "\<lambda>_. ''ab''"] obtain lg' where
    r: "record_entry (\<lambda>_. ''ab'') ?env nel_entry ?lg = (Inr ?r, lg')"
    and f: "lg_file lg' = canonical (to_dict ?r) @ newline"
    by (auto simp: demo_env_def new_logger_def)
  obtain rest where "lg_file lg' = nel_prefix @ char_of (133::nat) # rest"
    using nel_line f append_take_drop_id [of 11 "canonical (to_dict ?r)"]
    by (metis append.assoc append_Cons append_Nil)
  then have "log_lines (lg_file lg') = nel_prefix # nonempty_stripped (splitlines rest)"
    using splitlines_acc_break [OF nel_prefix_facts(1), of "[]" rest] nel_prefix_facts(2)
    by (simp add: log_lines_def splitlines_def)
  then have "verify_chain (\<lambda>_. ''ab'') (Some (lg_file lg')) =
      Inr \<lparr>vr_ok = False, vr_count = 0, vr_broken_at = Some 0, vr_reason = Some ''bad json''\<rparr>"
    by (simp add: verify_chain_def verify_line_def nel_prefix_facts(3) verify_break_def)
  with r show ?thesis by blast
qed

end
