(* ===== verification/Redaction.thy ===== *)
theory Redaction
  imports PyRe Json
begin

section \<open>Redaction of audited parameters and error strings (execution/redaction.py)\<close>

text \<open>
  Every entry of \<^verbatim>\<open>_VALUE_PATTERNS\<close> is a \<open>sub_rule\<close>: the part of the pattern whose text the
  replacement keeps (the groups \<^verbatim>\<open>\1\<close>, \<^verbatim>\<open>\2\<close>, always a prefix of the match; empty when the
  replacement is a constant), the rest of the pattern, and the replacement as a function of the kept
  text. \<open>re_sub\<close> is \<^verbatim>\<open>re.sub\<close>: leftmost matches from left to right, each the first in the
  order of the backtracking matcher. The lazy \<^verbatim>\<open>.*?X\<close> of the first pattern is written
  \<^verbatim>\<open>(?:(?!X).)*X\<close>. Arguments are the string-keyed values of \<open>pyval\<close>.
\<close>

definition REDACTED :: string where
  "REDACTED = ''[REDACTED]''"

definition opt_sep :: rexp where
  "opt_sep = opt (Cls (among ''_-''))"

definition SECRET_KEY :: rexp where
  "SECRET_KEY = alts
     [Seq (lit_ic ''pass'') (opt (alts [lit_ic ''word'', lit_ic ''wd''])),
      lit_ic ''secret'', lit_ic ''token'',
      seqs [lit_ic ''api'', opt_sep, lit_ic ''key''],
      seqs [lit_ic ''priv'', opt (lit_ic ''ate''), opt_sep, lit_ic ''key''],
      lit_ic ''credential'', lit_ic ''bearer'', lit_ic ''authorization'',
      seqs [lit_ic ''auth'', opt_sep, lit_ic ''token''],
      seqs [lit_ic ''access'', opt_sep, lit_ic ''key''],
      seqs [lit_ic ''session'', opt_sep, lit_ic ''key''],
      seqs [lit_ic ''client'', opt_sep, lit_ic ''secret''],
      lit_ic ''otp'', lit_ic ''passphrase'']"

record sub_rule =
  kept :: rexp
  rest :: rexp
  replacement :: "string \<Rightarrow> string"

definition blanket :: "rexp \<Rightarrow> sub_rule" where
  "blanket r = \<lparr>kept = Eps, rest = r, replacement = (\<lambda>_. REDACTED)\<rparr>"

definition pem_end :: rexp where
  "pem_end = seqs [lit ''-----END '', Star (Cls (\<lambda>c. AZ c \<or> c = CHR '' '')), lit ''PRIVATE KEY-----'']"

definition alnum_with :: "string \<Rightarrow> rexp" where
  "alnum_with w = Cls (\<lambda>c. alnum c \<or> among w c)"

definition any_char :: rexp where
  "any_char = Cls (\<lambda>_. True)"

definition non_space :: rexp where
  "non_space = Cls (\<lambda>c. \<not> is_space c)"

definition opt_quote :: rexp where
  "opt_quote = opt (Cls (\<lambda>c. c = quote))"

definition VALUE_PATTERNS :: "sub_rule list" where
  "VALUE_PATTERNS =
   [blanket (seqs [lit ''-----BEGIN '', Star (Cls (\<lambda>c. AZ c \<or> c = CHR '' '')), lit ''PRIVATE KEY-----'',
       Star (Seq (NotAhead pem_end) any_char), pem_end]),
    blanket (seqs [WordB, lit ''AKIA'', rep 16 (Cls (\<lambda>c. is_digit c \<or> AZ c)), WordB]),
    blanket (seqs [WordB, lit ''ASIA'', rep 16 (Cls (\<lambda>c. is_digit c \<or> AZ c)), WordB]),
    blanket (seqs [WordB, lit ''gh'', Cls (among ''pousr''), lit ''_'', rep_min 20 (alnum_with ''''), WordB]),
    blanket (seqs [WordB, lit ''github_pat_'', rep_min 20 (alnum_with ''_''), WordB]),
    blanket (seqs [WordB, lit ''glpat-'', rep_min 20 (alnum_with ''_-'')]),
    blanket (seqs [WordB, lit ''npm_'', rep_min 36 (alnum_with '''')]),
    blanket (seqs [WordB, lit ''pypi-AgEIcHlwaS5vcmc'', rep_min 16 (alnum_with ''_-'')]),
    blanket (seqs [WordB, lit ''xox'', Cls (among ''baprs''), lit ''-'', rep_min 10 (alnum_with ''-''), WordB]),
    blanket (seqs [WordB, lit ''sk-'', alts [lit ''proj'', lit ''svcacct'', lit ''admin''], lit ''-'',
       rep_min 16 (alnum_with ''_-'')]),
    blanket (seqs [WordB, lit ''sk-ant-'', many1 (Cls (\<lambda>c. az c \<or> is_digit c)), lit ''-'', rep_min 20 (alnum_with ''_-'')]),
    blanket (seqs [WordB, lit ''sk-'', rep_min 20 (alnum_with ''''), WordB]),
    blanket (seqs [WordB, lit ''hf_'', rep_min 20 (alnum_with '''')]),
    blanket (seqs [WordB, lit ''do'', Cls (among ''opr''), lit ''_v1_'',
       rep_min 40 (Cls (\<lambda>c. is_digit c \<or> char_between 97 102 c))]),
    blanket (seqs [WordB, Cls (among ''sr''), lit ''k_'', alts [lit ''live'', lit ''test'', lit ''prod''], lit ''_'',
       rep_min 10 (alnum_with '''')]),
    blanket (seqs [WordB, lit ''AIza'', rep_min 35 (alnum_with ''_-'')]),
    blanket (seqs [WordB, lit ''ya29.'', rep_min 20 (alnum_with ''._-'')]),
    blanket (seqs [WordB, lit ''eyJ'', rep_min 10 (alnum_with ''_-''), lit ''.'', rep_min 10 (alnum_with ''_-''), lit ''.'',
       rep_min 6 (alnum_with ''_-''), WordB]),
    \<lparr>kept = seqs [WordB, opt (lit_ic ''proxy-''), lit_ic ''authorization''],
     rest = seqs [WordB, spaces, Cls (among '':=''), spaces, opt_quote,
       many1 (Cls (\<lambda>c. c \<noteq> quote \<and> ord c \<noteq> 13 \<and> ord c \<noteq> 10)), opt_quote],
     replacement = (\<lambda>k. k @ '': '' @ REDACTED)\<rparr>,
    blanket (seqs [WordB, lit_ic ''bearer'', spaces1, many1 (alnum_with ''._-'')]),
    blanket (seqs [alts [Seq (lit_ic ''pass'') (opt (alts [lit_ic ''word'', lit_ic ''wd''])), lit_ic ''secret'', lit_ic ''token'',
       seqs [lit_ic ''api'', opt_sep, lit_ic ''key''], lit_ic ''credential'', lit_ic ''passphrase''],
       spaces, Cls (among ''=:''), spaces, opt_quote, many1 (Cls (\<lambda>c. \<not> is_space c \<and> c \<noteq> quote \<and> c \<noteq> CHR ''&'')), opt_quote]),
    \<lparr>kept = seqs [lit ''-'', opt (lit ''-''),
       alts [lit_ic ''password'', lit_ic ''passwd'', lit_ic ''token'', seqs [lit_ic ''api'', opt_sep, lit_ic ''key''],
         lit_ic ''secret'', lit_ic ''bearer'', seqs [lit_ic ''auth'', opt_sep, lit_ic ''token''],
         seqs [lit_ic ''access'', opt_sep, lit_ic ''key''], seqs [lit_ic ''client'', opt_sep, lit_ic ''secret''],
         lit_ic ''passphrase''],
       many1 (Cls (\<lambda>c. c = CHR ''='' \<or> is_space c))],
     rest = many1 non_space,
     replacement = (\<lambda>k. k @ REDACTED)\<rparr>,
    \<lparr>kept = seqs [WordB, Cls (ic az), Star (Cls (ic (\<lambda>c. az c \<or> is_digit c \<or> among ''+.-'' c))), lit ''://'',
       many1 (Cls (\<lambda>c. \<not> is_space c \<and> \<not> among '':/@'' c)), lit '':''],
     rest = seqs [many1 (Cls (\<lambda>c. \<not> is_space c \<and> \<not> among ''@/'' c)), lit ''@''],
     replacement = (\<lambda>k. k @ REDACTED @ ''@'')\<rparr>]"

definition MYSQL_FAMILY :: rexp where
  "MYSQL_FAMILY = seqs [WordB,
     alts [Seq (lit_ic ''mysql'') (Star (Cls is_word)), Seq (lit_ic ''mariadb'') (Star (Cls is_word)),
       lit_ic ''mysqldump'', lit_ic ''mycli''], WordB]"

definition MYSQL_COMPACT_PW :: sub_rule where
  "MYSQL_COMPACT_PW =
     \<lparr>kept = Seq (NotBehind (\<lambda>c. alnum c \<or> c = CHR ''-'')) (lit ''-p''),
      rest = Seq (Cls (\<lambda>c. \<not> is_space c \<and> c \<noteq> CHR ''='' \<and> c \<noteq> CHR ''-'')) (Star non_space),
      replacement = (\<lambda>k. k @ REDACTED)\<rparr>"

subsection \<open>Substitution\<close>

text \<open>The match at a position: the first way to match the kept part that lets the rest match, and
  the first way to match the rest from there.\<close>

definition match_at :: "sub_rule \<Rightarrow> pos \<Rightarrow> (string \<times> pos) option" where
  "match_at rule q =
     (case concat (map (\<lambda>q1. map (\<lambda>q2. (take (length (snd q) - length (snd q1)) (snd q), q2)) (ends (rest rule) q1))
             (ends (kept rule) q)) of
        [] \<Rightarrow> None
      | m # _ \<Rightarrow> Some m)"

text \<open>Every pattern reads at least one character; the length test stands for it.\<close>

function re_sub_from :: "sub_rule \<Rightarrow> char option \<Rightarrow> string \<Rightarrow> string" where
  "re_sub_from rule b s =
     (case s of
        [] \<Rightarrow> []
      | c # cs \<Rightarrow>
          (case match_at rule (b, s) of
             None \<Rightarrow> c # re_sub_from rule (Some c) cs
           | Some (k, q2) \<Rightarrow>
               if length (snd q2) < length s
               then replacement rule k @ re_sub_from rule (fst q2) (snd q2)
               else c # re_sub_from rule (Some c) cs))"
  by pat_completeness auto
termination
  by (relation "measure (\<lambda>(rule, b, s). length s)") auto

declare re_sub_from.simps [simp del]

definition re_sub :: "sub_rule \<Rightarrow> string \<Rightarrow> string" where
  "re_sub rule s = re_sub_from rule None s"

definition redact :: "string \<Rightarrow> string" where
  "redact text =
     (if text = [] then text
      else let out = fold re_sub VALUE_PATTERNS text
           in if re_search MYSQL_FAMILY out then re_sub MYSQL_COMPACT_PW out else out)"

subsection \<open>Arguments\<close>

definition MAX_DEPTH :: nat where
  "MAX_DEPTH = 32"

definition TOO_DEEP :: string where
  "TOO_DEEP = ''[REDACTED:depth-limit]''"

definition is_secret_key :: "string \<Rightarrow> bool" where
  "is_secret_key k = re_search SECRET_KEY k"

lemma size_in_list: "x \<in> set xs \<Longrightarrow> f x \<le> size_list f xs"
  by (induction xs) auto

function redact_value :: "nat \<Rightarrow> pyval \<Rightarrow> pyval"
and redact_mapping :: "nat \<Rightarrow> (string \<times> pyval) list \<Rightarrow> (string \<times> pyval) list" where
  "redact_value depth (PStr s) = PStr (redact s)"
| "redact_value depth (PDict kvs) =
     (if MAX_DEPTH \<le> depth then PStr TOO_DEEP else PDict (redact_mapping depth kvs))"
| "redact_value depth (PList vs) =
     (if MAX_DEPTH \<le> depth then PStr TOO_DEEP else PList (map (redact_value (depth + 1)) vs))"
| "redact_value depth PNone = PNone"
| "redact_value depth (PBool b) = PBool b"
| "redact_value depth (PInt i) = PInt i"
| "redact_value depth (PFloat f) = PFloat f"
| "redact_value depth (POpaque s) = POpaque s"
| "redact_mapping depth kvs =
     map (\<lambda>(k, v). (k, if is_secret_key k then PStr REDACTED else redact_value (depth + 1) v)) kvs"
  by pat_completeness auto
termination
proof (relation "measure (\<lambda>x. case x of Inl (d, v) \<Rightarrow> 2 * size v | Inr (d, kvs) \<Rightarrow> Suc (2 * size_list (size_prod (\<lambda>_. 0) size) kvs))", goal_cases)
  case (3 depth vs z)
  then show ?case using size_in_list [of z vs size] by simp
next
  case (4 depth kvs x k v)
  then show ?case using size_in_list [of x kvs "size_prod (\<lambda>_. 0) size"] by auto
qed auto

definition redact_args :: "(string \<times> pyval) list \<Rightarrow> (string \<times> pyval) list" where
  "redact_args args = redact_mapping 0 args"

declare redact_mapping.simps [simp del]

subsection \<open>Secrets under a telling key do not get through\<close>

text \<open>\<open>reword f\<close> replaces every value under a secret key, at every depth, by whatever \<open>f\<close>
  makes of it.\<close>

fun reword :: "(string \<Rightarrow> pyval \<Rightarrow> pyval) \<Rightarrow> pyval \<Rightarrow> pyval" where
  "reword f (PDict kvs) = PDict (map (\<lambda>(k, v). (k, if is_secret_key k then f k v else reword f v)) kvs)"
| "reword f (PList vs) = PList (map (reword f) vs)"
| "reword f v = v"

definition reword_args :: "(string \<Rightarrow> pyval \<Rightarrow> pyval) \<Rightarrow> (string \<times> pyval) list \<Rightarrow> (string \<times> pyval) list" where
  "reword_args f args = map (\<lambda>(k, v). (k, if is_secret_key k then f k v else reword f v)) args"

lemma redact_reword: "redact_value d (reword f v) = redact_value d v"
proof (induction v arbitrary: d)
  case (PDict kvs)
  have "redact_mapping d (map (\<lambda>(k, v). (k, if is_secret_key k then f k v else reword f v)) kvs) = redact_mapping d kvs"
    using PDict.IH by (auto simp: redact_mapping.simps intro!: map_cong)
  then show ?case by simp
qed auto

text \<open>Nothing stored under a telling key reaches the audit record: replacing every value under
  a key that looks secret, at every depth of the arguments, by any other value leaves the redacted
  arguments the same.\<close>

theorem redaction_hides_secret_keys: "redact_args (reword_args f args) = redact_args args"
  by (auto simp: redact_args_def redact_mapping.simps reword_args_def redact_reword intro!: map_cong)

subsection \<open>Shape\<close>

fun nesting :: "pyval \<Rightarrow> nat" where
  "nesting (PDict kvs) = Suc (foldr max (map (\<lambda>(k, v). nesting v) kvs) 0)"
| "nesting (PList vs) = Suc (foldr max (map nesting vs) 0)"
| "nesting v = 0"

lemma foldr_max_le: "(\<forall>x \<in> set xs. x \<le> (n::nat)) \<Longrightarrow> foldr max xs 0 \<le> n"
  by (induction xs) auto

lemma nesting_redact: "nesting (redact_value d v) \<le> MAX_DEPTH - d"
proof (induction v arbitrary: d)
  case (PList vs)
  show ?case
  proof (cases "MAX_DEPTH \<le> d")
    case False
    have "foldr max (map nesting (map (redact_value (d + 1)) vs)) 0 \<le> MAX_DEPTH - (d + 1)"
      using PList.IH by (intro foldr_max_le) auto
    with False show ?thesis by simp
  qed simp
next
  case (PDict kvs)
  show ?case
  proof (cases "MAX_DEPTH \<le> d")
    case False
    have "foldr max (map (\<lambda>(k, v). nesting v) (redact_mapping d kvs)) 0 \<le> MAX_DEPTH - (d + 1)"
      using PDict.IH by (intro foldr_max_le) (fastforce simp: redact_mapping.simps)
    with False show ?thesis by simp
  qed simp
qed simp_all

lemma keys_redact [simp]: "keys (redact_mapping d kvs) = keys kvs"
  by (simp add: redact_mapping.simps case_prod_unfold comp_def)

lemma redact_value_wf: "wf_val v \<Longrightarrow> wf_val (redact_value d v)"
proof (induction v arbitrary: d)
  case (PDict kvs)
  then have "\<forall>(k, v) \<in> set (redact_mapping d kvs). wf_val v"
    by (fastforce simp: redact_mapping.simps)
  with PDict.prems show ?case by simp
qed auto

lemma redact_args_wf: "wf_val (PDict args) \<Longrightarrow> wf_val (PDict (redact_args args))"
  using redact_value_wf [of "PDict args" 0] by (simp add: redact_args_def MAX_DEPTH_def)

text \<open>Redaction is bounded and total: whatever the nesting of the arguments, the redacted
  mapping has the same keys in the same order, is nested at most 32 deep, and every value under a
  secret key in it is the marker.\<close>

theorem redaction_bounded:
  "keys (redact_args args) = keys args \<and> nesting (PDict (redact_args args)) \<le> 32 \<and>
   (\<forall>(k, v) \<in> set (redact_args args). is_secret_key k \<longrightarrow> v = PStr REDACTED)"
  using nesting_redact [of 0 "PDict args"]
  by (auto simp: redact_args_def MAX_DEPTH_def) (auto simp: redact_mapping.simps)

lemma secret_key_search: "is_secret_key ''PassWord''"
  by (simp add: is_secret_key_def) code_simp

theorem redaction_bounded_witness:
  "redact_args [(''PassWord'', PInt 1)] = [(''PassWord'', PStr REDACTED)]"
proof -
  have "keys (redact_args [(''PassWord'', PInt 1)]) = [''PassWord'']"
    using redaction_bounded [of "[(''PassWord'', PInt 1)]"] by simp
  then obtain v where "redact_args [(''PassWord'', PInt 1)] = [(''PassWord'', v)]" by auto
  with redaction_bounded [of "[(''PassWord'', PInt 1)]"] secret_key_search show ?thesis by simp
qed

end
