(* ===== verification/Runner.thy ===== *)
theory Runner
  imports Concrete Contract AuditLog Redaction
begin

section \<open>The single audited execution path (execution/runner.py)\<close>

text \<open>
  \<open>run\<close> is \<^verbatim>\<open>run(request, execute, context=...)\<close>, stage by stage. The execution context is a
  record that holds every component the runner touches, and the world the executed tool acts on;
  \<open>execute\<close> maps the context to its outcome and the context it leaves, because a tool may itself
  act on the context (the emergency stop trips the kill switch). What the outside decides during one
  call (clock readings, the fresh token, the outcome of writes, the correlation ids, how Python
  prints a float) is the \<open>run_env\<close>. An exception that leaves \<^verbatim>\<open>run\<close> is an \<open>Inl\<close>.
  Arguments are \<open>None\<close> when iterating over them raises.
\<close>

subsection \<open>Kill switch and taint\<close>

record kill_switch =
  ks_sentinel :: bool          \<comment> \<open>a sentinel path is configured\<close>
  ks_tripped :: bool
  ks_file :: bool              \<comment> \<open>the sentinel file exists\<close>

text \<open>\<open>created\<close>: the write of the sentinel left the file behind.\<close>

definition trip :: "bool \<Rightarrow> kill_switch \<Rightarrow> kill_switch" where
  "trip created ks =
     (let ks1 = ks\<lparr>ks_tripped := True\<rparr>
      in if ks_sentinel ks then ks1\<lparr>ks_file := ks_file ks \<or> created\<rparr> else ks1)"

definition reset :: "kill_switch \<Rightarrow> kill_switch" where
  "reset ks = ks\<lparr>ks_tripped := False\<rparr>"

definition is_tripped :: "bool \<Rightarrow> kill_switch \<Rightarrow> bool" where
  "is_tripped readable ks =
     (if ks_tripped ks then True
      else if \<not> ks_sentinel ks then False
      else if readable then ks_file ks
      else True)"

record session_taint =
  untrusted_ingested :: bool

definition mark :: "session_taint \<Rightarrow> session_taint" where
  "mark t = t\<lparr>untrusted_ingested := True\<rparr>"

subsection \<open>Requests\<close>

record exec_request =
  er_tool :: string
  er_command :: "string option"
  er_args :: "(string \<times> pyval) list option"
  er_target :: "string option"
  er_base_tier :: tier
  er_dry_run :: bool
  er_approval :: "approval option"
  er_untrusted :: bool
  er_action_key :: "string option"

definition action_options :: dump_options where
  "action_options = \<lparr>ensure_ascii = True, item_sep = '','', key_sep = '':'', default_str = str_or_raise\<rparr>"

text \<open>The value whose text identifies the action; \<open>None\<close> is an exception of \<^verbatim>\<open>json.dumps\<close>.\<close>

definition action_value :: "exec_request \<Rightarrow> pyval option" where
  "action_value req =
     (case er_args req of
        None \<Rightarrow> None
      | Some args \<Rightarrow>
          Some (PDict [(''tool'', PStr (er_tool req)),
                       (''command'', opt_str (case er_action_key req of None \<Rightarrow> er_command req | Some k \<Rightarrow> Some k)),
                       (''target'', opt_str (er_target req)),
                       (''args'', PDict args)]))"

definition action_id :: "(string \<Rightarrow> string) \<Rightarrow> exec_request \<Rightarrow> string option" where
  "action_id H req =
     (case action_value req of
        None \<Rightarrow> None
      | Some v \<Rightarrow> map_option (\<lambda>t. take 16 (sha256_text H t)) (dumps action_options v))"

subsection \<open>Results and context\<close>

record exec_result =
  xr_ok :: bool
  xr_decision :: decision
  xr_output :: string
  xr_output_sha256 :: string
  xr_output_len :: nat
  xr_error :: "string option"
  xr_record :: audit_record

record 'w exec_context =
  cx_mode :: mode
  cx_audit :: audit_logger
  cx_kill_switch :: kill_switch
  cx_approvals :: approval_registry
  cx_contract :: "exec_request contract"
  cx_max_output_bytes :: nat
  cx_budget :: "budget_tracker option"
  cx_taint :: session_taint
  cx_console :: "string list"  \<comment> \<open>what reached the operator out of band\<close>
  cx_consent_ceiling :: "tier option"
  cx_world :: 'w

text \<open>An exception raised by the tool: its type name and its text, \<open>None\<close> when the text raises.\<close>

type_synonym exn = "string \<times> string option"

type_synonym 'w tool = "'w exec_context \<Rightarrow> (exn + string) \<times> 'w exec_context"

datatype run_exc = Audit_raised audit_exc | Action_id_raised | Budget_raised budget_error

record run_env =
  re_write :: write_env
  re_now :: rat
  re_token :: string
  re_elapsed :: rat
  re_readable :: bool          \<comment> \<open>the sentinel path can be read\<close>
  re_sink :: bool              \<comment> \<open>the approval sink accepts the message\<close>
  re_console :: bool           \<comment> \<open>standard error accepts it otherwise\<close>
  re_request_id :: "string option"
  re_client_id :: "string option"
  re_float_repr :: "pyfloat \<Rightarrow> string"

definition MULTI_TARGET :: "char set" where
  "MULTI_TARGET = {CHR '','', CHR '';'', CHR '' '', char_of (9::nat), CHR ''\<newline>''}"

definition is_multi_target :: "string option \<Rightarrow> bool" where
  "is_multi_target target =
     (case target of
        None \<Rightarrow> True
      | Some t \<Rightarrow> list_ex (\<lambda>ch. ch \<in> MULTI_TARGET) (py_strip t) \<or> py_strip t = [])"

definition bounded_error :: "exn \<Rightarrow> string" where
  "bounded_error exc =
     (let detail = (case snd exc of None \<Rightarrow> ''<unprintable>'' | Some s \<Rightarrow> redact s)
      in take 500 (fst exc @ '': '' @ detail))"

text \<open>\<^verbatim>\<open>bytes.decode("utf-8", errors="ignore")\<close> on the encodings of the model: a two-byte
  character cut in half is dropped.\<close>

fun utf8_decode_ignore :: "string \<Rightarrow> string" where
  "utf8_decode_ignore [] = []"
| "utf8_decode_ignore [b] = (if ord b < 128 then [b] else [])"
| "utf8_decode_ignore (b # c # r) =
     (if ord b < 128 then b # utf8_decode_ignore (c # r)
      else if char_between 194 195 b \<and> char_between 128 191 c
      then char_of ((ord b - 192) * 64 + (ord c - 128)) # utf8_decode_ignore r
      else utf8_decode_ignore (c # r))"

definition truncate :: "string \<Rightarrow> nat \<Rightarrow> string" where
  "truncate text limit_bytes =
     (let encoded = utf8_encode text
      in if length encoded \<le> limit_bytes then text
         else utf8_decode_ignore (take limit_bytes encoded) @
              newline @ ''[... truncated, '' @ nat_str (length encoded) @ '' bytes total]'')"

definition surface_approval ::
  "run_env \<Rightarrow> string \<Rightarrow> string \<Rightarrow> string option \<Rightarrow> tier \<Rightarrow> string \<Rightarrow> 'w exec_context \<Rightarrow> 'w exec_context" where
  "surface_approval env tool aid target tier token ctx =
     (let message =
        ''praxis approval minted: tool='' @ tool @ '' action_id='' @ aid @
        '' target='' @ (case target of None \<Rightarrow> ''None'' | Some t \<Rightarrow> t) @ '' tier='' @ label tier @
        '' token='' @ token @ '' ttl_s='' @ int_str \<lfloor>ttl_seconds (cx_approvals ctx)\<rfloor> @
        '' (single-use; pass as approval_token with dry_run=false to execute)''
      in if re_sink env \<or> re_console env then ctx\<lparr>cx_console := cx_console ctx @ [message]\<rparr> else ctx)"

definition budget_message :: "(pyfloat \<Rightarrow> string) \<Rightarrow> budget_error \<Rightarrow> string" where
  "budget_message frepr e =
     (case e of
        Not_finite name v \<Rightarrow> name @ '' must be finite, got '' @ frepr v
      | Negative name v \<Rightarrow> name @ '' must be non-negative, got '' @ frepr v
      | Negative_actions name i \<Rightarrow> name @ '' must be non-negative, got '' @ int_str i
      | Actions_exceeded n m \<Rightarrow> ''action budget exceeded: '' @ int_str n @ '' > '' @ int_str m
      | Usd_exceeded n m \<Rightarrow> ''usd budget exceeded: '' @ frepr n @ '' > '' @ frepr m
      | Wall_exceeded n m \<Rightarrow> ''wall budget exceeded: '' @ frepr n @ '' > '' @ frepr m)"

subsection \<open>The stages of run\<close>

definition redacted_args :: "exec_request \<Rightarrow> (string \<times> pyval) list" where
  "redacted_args req =
     (case er_args req of
        None \<Rightarrow> [(''_redaction'', PStr ''failed; args withheld'')]
      | Some args \<Rightarrow> redact_args args)"

text \<open>The local function \<^verbatim>\<open>audit\<close>.\<close>

definition audit ::
  "(string \<Rightarrow> string) \<Rightarrow> run_env \<Rightarrow> exec_request \<Rightarrow> string \<Rightarrow> string \<Rightarrow> string \<Rightarrow> nat \<Rightarrow> string option \<Rightarrow>
   'w exec_context \<Rightarrow> (run_exc + audit_record) \<times> 'w exec_context" where
  "audit H env req decision_label tier_label output_sha256 output_len err ctx =
     (let (res, lg) = record_entry H (re_write env)
            \<lparr>en_tool = er_tool req, en_tier = tier_label, en_decision = decision_label,
             en_args = redacted_args req, en_output_sha256 = output_sha256, en_output_len = output_len,
             en_target = er_target req, en_error = err, en_request_id = re_request_id env,
             en_client_id = re_client_id env, en_patterns_version = PATTERNS_VERSION\<rparr>
            (cx_audit ctx)
      in (case res of Inl x \<Rightarrow> Inl (Audit_raised x) | Inr r \<Rightarrow> Inr r, ctx\<lparr>cx_audit := lg\<rparr>))"

definition denied ::
  "(string \<Rightarrow> string) \<Rightarrow> run_env \<Rightarrow> exec_request \<Rightarrow> decision \<Rightarrow> string \<Rightarrow>
   'w exec_context \<Rightarrow> (run_exc + exec_result) \<times> 'w exec_context" where
  "denied H env req decision reason ctx =
     (case audit H env req ''denied'' (label (d_tier decision)) (EMPTY_SHA256 H) 0 (Some reason) ctx of
        (Inl x, ctx') \<Rightarrow> (Inl x, ctx')
      | (Inr r, ctx') \<Rightarrow>
          (Inr \<lparr>xr_ok = False, xr_decision = decision, xr_output = [], xr_output_sha256 = EMPTY_SHA256 H,
                xr_output_len = 0, xr_error = Some reason, xr_record = r\<rparr>, ctx'))"

definition refusal :: "string \<Rightarrow> decision" where
  "refusal reason =
     \<lparr>d_allowed = False, d_tier = T0, d_reason = reason, d_requires_approval = False, d_denied = True,
      d_patterns_version = PATTERNS_VERSION\<rparr>"

definition exceeds_consent :: "'w exec_context \<Rightarrow> decision \<Rightarrow> tier option" where
  "exceeds_consent ctx d =
     (case cx_consent_ceiling ctx of
        None \<Rightarrow> None
      | Some cap \<Rightarrow> if cap < d_tier d then Some cap else None)"

definition arm_taint :: "exec_request \<Rightarrow> 'w exec_context \<Rightarrow> 'w exec_context" where
  "arm_taint req ctx = (if er_untrusted req then ctx\<lparr>cx_taint := mark (cx_taint ctx)\<rparr> else ctx)"

definition gate_required :: "'w exec_context \<Rightarrow> decision \<Rightarrow> bool" where
  "gate_required ctx d \<longleftrightarrow>
     d_requires_approval d \<or> (untrusted_ingested (cx_taint ctx) \<and> T1 \<le> d_tier d)"

definition multi_target_t3 :: "exec_request \<Rightarrow> decision \<Rightarrow> bool" where
  "multi_target_t3 req d \<longleftrightarrow> T3 \<le> d_tier d \<and> is_multi_target (er_target req)"

datatype 'c gate = Pass 'c | Stop string 'c | Raise run_exc 'c

text \<open>Step 5: the approval gate of a real run.\<close>

definition approval_gate ::
  "(string \<Rightarrow> string) \<Rightarrow> run_env \<Rightarrow> exec_request \<Rightarrow> decision \<Rightarrow> 'w exec_context \<Rightarrow> 'w exec_context gate" where
  "approval_gate H env req d ctx =
     (if gate_required ctx d \<and> \<not> er_dry_run req then
        (if multi_target_t3 req d then Stop ''T3 is irreversible: supply exactly one target'' ctx
         else case er_approval req of
           None \<Rightarrow>
             Stop (if d_requires_approval d
                   then ''approval required at T2+: run with dry_run=True, then approve''
                   else ''untrusted content ingested this session; actuation requires '' @
                        ''an approval (SEC-4): run with dry_run=True, then approve'') ctx
         | Some a \<Rightarrow>
             (case action_id H req of
                None \<Rightarrow> Raise Action_id_raised ctx
              | Some aid \<Rightarrow>
                  (case consume (cx_approvals ctx) (re_now env) a aid (er_target req) (d_tier d)
                          (d_patterns_version d) of
                     (Inl e, reg) \<Rightarrow> Stop e (ctx\<lparr>cx_approvals := reg\<rparr>)
                   | (Inr _, reg) \<Rightarrow> Pass (ctx\<lparr>cx_approvals := reg\<rparr>))))
      else Pass ctx)"

text \<open>Step 6: the contract.\<close>

definition contract_gate :: "exec_request \<Rightarrow> 'w exec_context \<Rightarrow> 'w exec_context gate" where
  "contract_gate req ctx =
     (let hard = hard_failures (check_pre (cx_contract ctx) req)
      in if hard \<noteq> []
         then Stop (''precondition failed: '' @ py_join ''; '' (map (\<lambda>v. v_name v @ '': '' @ v_message v) hard)) ctx
         else Pass ctx)"

text \<open>Step 7: the budget.\<close>

definition budget_gate :: "run_env \<Rightarrow> exec_request \<Rightarrow> decision \<Rightarrow> 'w exec_context \<Rightarrow> 'w exec_context gate" where
  "budget_gate env req d ctx =
     (case cx_budget ctx of
        None \<Rightarrow> Pass ctx
      | Some b \<Rightarrow>
          if T1 \<le> d_tier d \<and> \<not> er_dry_run req then
            (case charge b 1 (Fin 0) (Fin 0) of
               Inl e \<Rightarrow> Stop (''budget exceeded: '' @ budget_message (re_float_repr env) e) ctx
             | Inr b' \<Rightarrow> Pass (ctx\<lparr>cx_budget := Some b'\<rparr>))
          else Pass ctx)"

text \<open>After the execution: the wall time is recorded.\<close>

definition spend_wall :: "run_env \<Rightarrow> 'w exec_context \<Rightarrow> run_exc \<times> 'w exec_context + 'w exec_context" where
  "spend_wall env ctx =
     (case cx_budget ctx of
        None \<Rightarrow> Inr ctx
      | Some b \<Rightarrow>
          (case record_spend b (Fin 0) (Fin (max 0 (re_elapsed env))) of
             Inl e \<Rightarrow> Inl (Budget_raised e, ctx)
           | Inr b' \<Rightarrow> Inr (ctx\<lparr>cx_budget := Some b'\<rparr>)))"

text \<open>Step 9: a successful gated dry run mints the approval of the matching real run.\<close>

definition mint_step ::
  "(string \<Rightarrow> string) \<Rightarrow> run_env \<Rightarrow> exec_request \<Rightarrow> decision \<Rightarrow> bool \<Rightarrow> string option \<Rightarrow>
   'w exec_context \<Rightarrow> run_exc \<times> 'w exec_context + 'w exec_context" where
  "mint_step H env req d gate_req err ctx =
     (if er_dry_run req \<and> gate_req \<and> err = None \<and> \<not> multi_target_t3 req d then
        (case action_id H req of
           None \<Rightarrow> Inl (Action_id_raised, ctx)
         | Some aid \<Rightarrow>
             Inr (surface_approval env (er_tool req) aid (er_target req) (d_tier d) (re_token env)
               (ctx\<lparr>cx_approvals := mint (cx_approvals ctx) (re_now env) (re_token env) aid (er_target req)
                      (d_tier d) (d_patterns_version d)\<rparr>)))
      else Inr ctx)"

text \<open>Step 10: hash, length, preview and the audit record.\<close>

definition finish ::
  "(string \<Rightarrow> string) \<Rightarrow> run_env \<Rightarrow> exec_request \<Rightarrow> decision \<Rightarrow> string \<Rightarrow> string option \<Rightarrow>
   'w exec_context \<Rightarrow> (run_exc + exec_result) \<times> 'w exec_context" where
  "finish H env req d output err ctx =
     (let encoded = utf8_encode output;
          output_sha256 = H encoded;
          output_len = length encoded;
          preview = truncate output (cx_max_output_bytes ctx)
      in case audit H env req (if err \<noteq> None then ''error'' else ''allowed'') (label (d_tier d))
                output_sha256 output_len err ctx of
           (Inl x, ctx') \<Rightarrow> (Inl x, ctx')
         | (Inr r, ctx') \<Rightarrow>
             (Inr \<lparr>xr_ok = (err = None), xr_decision = d, xr_output = preview, xr_output_sha256 = output_sha256,
                   xr_output_len = output_len, xr_error = err, xr_record = r\<rparr>, ctx'))"

text \<open>Steps 8 to 10: \<open>gate_req\<close> is the gate evaluated before the execution.\<close>

definition execute_step ::
  "(string \<Rightarrow> string) \<Rightarrow> run_env \<Rightarrow> exec_request \<Rightarrow> 'w tool \<Rightarrow> decision \<Rightarrow> bool \<Rightarrow>
   'w exec_context \<Rightarrow> (run_exc + exec_result) \<times> 'w exec_context" where
  "execute_step H env req execute d gate_req ctx =
     (let (res, ctx1) = execute ctx;
          err = (case res of Inl exc \<Rightarrow> Some (bounded_error exc) | Inr _ \<Rightarrow> None);
          output = (case res of Inl _ \<Rightarrow> [] | Inr t \<Rightarrow> t)
      in case spend_wall env ctx1 of
           Inl (x, ctx2) \<Rightarrow> (Inl x, ctx2)
         | Inr ctx2 \<Rightarrow>
             (case mint_step H env req d gate_req err ctx2 of
                Inl (x, ctx3) \<Rightarrow> (Inl x, ctx3)
              | Inr ctx3 \<Rightarrow> finish H env req d output err ctx3))"

definition run ::
  "(string \<Rightarrow> string) \<Rightarrow> run_env \<Rightarrow> exec_request \<Rightarrow> 'w tool \<Rightarrow>
   'w exec_context \<Rightarrow> (run_exc + exec_result) \<times> 'w exec_context" where
  "run H env req execute ctx =
     (if is_tripped (re_readable env) (cx_kill_switch ctx)
      then denied H env req (refusal ''kill switch engaged; execution disabled'')
             ''kill switch engaged; execution disabled'' ctx
      else if er_args req = None
      then denied H env req (refusal ''argument redaction failed; call refused (BL-077)'')
             ''argument redaction failed; call refused (BL-077)'' ctx
      else
        (let d = check (cx_mode ctx) (er_tool req) (er_command req) (er_base_tier req)
         in if \<not> d_allowed d then denied H env req d (d_reason d) ctx
            else case exceeds_consent ctx d of
              Some cap \<Rightarrow>
                denied H env req d
                  (''action tier '' @ label (d_tier d) @ '' exceeds this session's consented ceiling '' @ label cap) ctx
            | None \<Rightarrow>
                (let ctx1 = arm_taint req ctx
                 in case approval_gate H env req d ctx1 of
                      Raise x ctx2 \<Rightarrow> (Inl x, ctx2)
                    | Stop reason ctx2 \<Rightarrow> denied H env req d reason ctx2
                    | Pass ctx2 \<Rightarrow>
                        (case contract_gate req ctx2 of
                           Raise x ctx3 \<Rightarrow> (Inl x, ctx3)
                         | Stop reason ctx3 \<Rightarrow> denied H env req d reason ctx3
                         | Pass ctx3 \<Rightarrow>
                             (case budget_gate env req d ctx3 of
                                Raise x ctx4 \<Rightarrow> (Inl x, ctx4)
                              | Stop reason ctx4 \<Rightarrow> denied H env req d reason ctx4
                              | Pass ctx4 \<Rightarrow> execute_step H env req execute d (gate_required ctx1 d) ctx4)))))"

subsection \<open>Admission and execution\<close>

text \<open>The steps before the execution as one function: what they decide, and the context they
  leave.\<close>

datatype 'c admission = Refused decision string 'c | Raised run_exc 'c | Admitted decision bool 'c

abbreviation request_decision :: "'w exec_context \<Rightarrow> exec_request \<Rightarrow> decision" where
  "request_decision ctx req \<equiv> check (cx_mode ctx) (er_tool req) (er_command req) (er_base_tier req)"

definition gates ::
  "(string \<Rightarrow> string) \<Rightarrow> run_env \<Rightarrow> exec_request \<Rightarrow> decision \<Rightarrow> 'w exec_context \<Rightarrow> 'w exec_context gate" where
  "gates H env req d ctx =
     (case approval_gate H env req d ctx of
        Pass ctx2 \<Rightarrow> (case contract_gate req ctx2 of Pass ctx3 \<Rightarrow> budget_gate env req d ctx3 | g \<Rightarrow> g)
      | g \<Rightarrow> g)"

definition admit ::
  "(string \<Rightarrow> string) \<Rightarrow> run_env \<Rightarrow> exec_request \<Rightarrow> 'w exec_context \<Rightarrow> 'w exec_context admission" where
  "admit H env req ctx =
     (let d = request_decision ctx req; ctx1 = arm_taint req ctx in
      if is_tripped (re_readable env) (cx_kill_switch ctx)
      then Refused (refusal ''kill switch engaged; execution disabled'') ''kill switch engaged; execution disabled'' ctx
      else if er_args req = None
      then Refused (refusal ''argument redaction failed; call refused (BL-077)'')
             ''argument redaction failed; call refused (BL-077)'' ctx
      else if \<not> d_allowed d then Refused d (d_reason d) ctx
      else case exceeds_consent ctx d of
        Some cap \<Rightarrow>
          Refused d (''action tier '' @ label (d_tier d) @ '' exceeds this session's consented ceiling '' @ label cap) ctx
      | None \<Rightarrow>
          (case gates H env req d ctx1 of
             Raise x ctx2 \<Rightarrow> Raised x ctx2
           | Stop reason ctx2 \<Rightarrow> Refused d reason ctx2
           | Pass ctx2 \<Rightarrow> Admitted d (gate_required ctx1 d) ctx2))"

lemma run_admit:
  "run H env req execute ctx =
   (case admit H env req ctx of
      Refused d reason c \<Rightarrow> denied H env req d reason c
    | Raised x c \<Rightarrow> (Inl x, c)
    | Admitted d g c \<Rightarrow> execute_step H env req execute d g c)"
  by (simp add: run_def admit_def gates_def Let_def split: option.splits gate.splits)

text \<open>What the gates may change.\<close>

lemma approval_gate_Pass:
  assumes "approval_gate H env req d ctx = Pass ctx'"
  shows "\<exists>reg. ctx' = ctx\<lparr>cx_approvals := reg\<rparr>"
    and "gate_required ctx d \<Longrightarrow> \<not> er_dry_run req \<Longrightarrow> \<not> multi_target_t3 req d \<and>
      (\<exists>a aid p. er_approval req = Some a \<and> action_id H req = Some aid \<and> ap_action_id a = aid \<and>
        \<not> is_consumed (cx_approvals ctx) (ap_token a) \<and>
        map_of (pending (cx_approvals ctx)) (ap_token a) = Some p \<and>
        bound_to p aid (er_target req) (d_tier d) (d_patterns_version d) (re_now env))"
    and "\<not> (gate_required ctx d \<and> \<not> er_dry_run req) \<Longrightarrow> ctx' = ctx"
proof -
  show "\<exists>reg. ctx' = ctx\<lparr>cx_approvals := reg\<rparr>"
  proof (cases "gate_required ctx d \<and> \<not> er_dry_run req")
    case False
    with assms have "ctx' = ctx\<lparr>cx_approvals := cx_approvals ctx\<rparr>" by (auto simp: approval_gate_def)
    then show ?thesis ..
  next
    case True
    with assms show ?thesis
      by (auto simp: approval_gate_def split: if_splits option.splits prod.splits sum.splits)
  qed
  show "\<not> (gate_required ctx d \<and> \<not> er_dry_run req) \<Longrightarrow> ctx' = ctx"
    using assms by (auto simp: approval_gate_def)
  assume g: "gate_required ctx d" "\<not> er_dry_run req"
  then obtain a aid u reg where m: "\<not> multi_target_t3 req d" and a: "er_approval req = Some a" "action_id H req = Some aid"
    and c: "consume (cx_approvals ctx) (re_now env) a aid (er_target req) (d_tier d) (d_patterns_version d) = (Inr u, reg)"
    using assms by (auto simp: approval_gate_def split: if_splits option.splits prod.splits sum.splits)
  from c obtain p where "map_of (pending (cx_approvals ctx)) (ap_token a) = Some p"
      "bound_to p aid (er_target req) (d_tier d) (d_patterns_version d) (re_now env)" "ap_action_id a = aid"
      "ap_token a \<notin> set (keys (consumed (cx_approvals ctx)))"
    by (rule consume_Inr)
  with m a show "\<not> multi_target_t3 req d \<and>
      (\<exists>a aid p. er_approval req = Some a \<and> action_id H req = Some aid \<and> ap_action_id a = aid \<and>
        \<not> is_consumed (cx_approvals ctx) (ap_token a) \<and>
        map_of (pending (cx_approvals ctx)) (ap_token a) = Some p \<and>
        bound_to p aid (er_target req) (d_tier d) (d_patterns_version d) (re_now env))"
    by (auto simp: is_consumed_eq)
qed

lemma contract_gate_cases:
  "contract_gate req ctx = Pass ctx' \<Longrightarrow> ctx' = ctx \<and>
     (\<forall>p \<in> set (preconditions (cx_contract ctx)) \<union> set (invariants (cx_contract ctx)). \<not> blocks p req)"
  "contract_gate req ctx \<noteq> Raise x c"
  "contract_gate req ctx = Stop m c \<Longrightarrow> c = ctx"
  by (auto simp: contract_gate_def Let_def check_pre_hard_iff split: if_splits)

lemma budget_gate_cases:
  "budget_gate env req d ctx = Pass ctx' \<Longrightarrow> \<exists>b. ctx' = ctx\<lparr>cx_budget := b\<rparr>"
  "budget_gate env req d ctx \<noteq> Raise x c"
  "budget_gate env req d ctx = Stop m c \<Longrightarrow> c = ctx"
  "budget_gate env req d ctx = Pass ctx' \<Longrightarrow> cx_budget ctx = Some b \<Longrightarrow> T1 \<le> d_tier d \<Longrightarrow> \<not> er_dry_run req \<Longrightarrow>
     \<exists>b'. charge b 1 (Fin 0) (Fin 0) = Inr b' \<and> cx_budget ctx' = Some b'"
proof -
  assume "budget_gate env req d ctx = Pass ctx'"
  then have "ctx' = ctx\<lparr>cx_budget := cx_budget ctx'\<rparr>"
    by (auto simp: budget_gate_def split: option.splits if_splits sum.splits)
  then show "\<exists>b. ctx' = ctx\<lparr>cx_budget := b\<rparr>" ..
qed (auto simp: budget_gate_def split: option.splits if_splits sum.splits)

lemma arm_taint_frame [simp]:
  "cx_audit (arm_taint req ctx) = cx_audit ctx" "cx_world (arm_taint req ctx) = cx_world ctx"
  "cx_approvals (arm_taint req ctx) = cx_approvals ctx" "cx_budget (arm_taint req ctx) = cx_budget ctx"
  "cx_contract (arm_taint req ctx) = cx_contract ctx" "cx_kill_switch (arm_taint req ctx) = cx_kill_switch ctx"
  "cx_mode (arm_taint req ctx) = cx_mode ctx" "cx_console (arm_taint req ctx) = cx_console ctx"
  "cx_consent_ceiling (arm_taint req ctx) = cx_consent_ceiling ctx"
  "cx_max_output_bytes (arm_taint req ctx) = cx_max_output_bytes ctx"
  "untrusted_ingested (cx_taint (arm_taint req ctx)) = (untrusted_ingested (cx_taint ctx) \<or> er_untrusted req)"
  by (simp_all add: arm_taint_def mark_def)

lemma admit_Admitted:
  assumes "admit H env req ctx = Admitted d g c"
  shows "d = request_decision ctx req" and "\<not> is_tripped (re_readable env) (cx_kill_switch ctx)"
    and "er_args req \<noteq> None" and "d_allowed d" and "exceeds_consent ctx d = None"
    and "g = gate_required (arm_taint req ctx) d" and "gates H env req d (arm_taint req ctx) = Pass c"
  using assms by (auto simp: admit_def Let_def split: if_splits option.splits gate.splits)

lemma gates_Pass:
  assumes "gates H env req d ctx = Pass c"
  obtains ctx2 where "approval_gate H env req d ctx = Pass ctx2" and "contract_gate req ctx2 = Pass ctx2"
    and "budget_gate env req d ctx2 = Pass c"
  using assms by (auto simp: gates_def split: gate.splits dest: contract_gate_cases(1))

lemma run_depends_on_tool:
  assumes "run H env req ex1 ctx \<noteq> run H env req ex2 ctx"
  obtains d g c where "admit H env req ctx = Admitted d g c"
  using assms by (auto simp: run_admit split: admission.splits)

text \<open>An allowed decision.\<close>

lemma allowed_decision:
  assumes "d_allowed (request_decision ctx req)"
  shows "\<not> on_deny_list (er_tool req) (er_command req)"
    and "d_tier (request_decision ctx req) = classify (er_tool req) (er_command req) (er_base_tier req)"
    and "classify (er_tool req) (er_command req) (er_base_tier req) \<le> mode_ceiling (cx_mode ctx)"
    and "d_requires_approval (request_decision ctx req) \<longleftrightarrow> T2 \<le> classify (er_tool req) (er_command req) (er_base_tier req)"
proof -
  show n: "\<not> on_deny_list (er_tool req) (er_command req)"
    using assms check_denied by blast
  note c = check_not_denied [OF n, of "cx_mode ctx" "er_base_tier req"]
  from c show t: "d_tier (request_decision ctx req) = classify (er_tool req) (er_command req) (er_base_tier req)" by blast
  from c assms show "classify (er_tool req) (er_command req) (er_base_tier req) \<le> mode_ceiling (cx_mode ctx)" by blast
  show "d_requires_approval (request_decision ctx req) \<longleftrightarrow> T2 \<le> classify (er_tool req) (er_command req) (er_base_tier req)"
    using assms by (simp add: check_requires_approval t)
qed

lemma execution_gates:
  assumes "run H env req ex1 ctx \<noteq> run H env req ex2 ctx"
  defines "tier \<equiv> classify (er_tool req) (er_command req) (er_base_tier req)"
  shows "\<not> is_tripped (re_readable env) (cx_kill_switch ctx)"
    and "\<not> on_deny_list (er_tool req) (er_command req)" and "tier \<le> mode_ceiling (cx_mode ctx)"
    and "\<forall>cap. cx_consent_ceiling ctx = Some cap \<longrightarrow> tier \<le> cap"
    and "\<forall>p \<in> set (preconditions (cx_contract ctx)) \<union> set (invariants (cx_contract ctx)). \<not> blocks p req"
    and "\<not> er_dry_run req \<Longrightarrow> T2 \<le> tier \<or> T1 \<le> tier \<and> (untrusted_ingested (cx_taint ctx) \<or> er_untrusted req) \<Longrightarrow>
      (\<exists>a aid p. er_approval req = Some a \<and> action_id H req = Some aid \<and> ap_action_id a = aid \<and>
        \<not> is_consumed (cx_approvals ctx) (ap_token a) \<and>
        map_of (pending (cx_approvals ctx)) (ap_token a) = Some p \<and>
        bound_to p aid (er_target req) tier PATTERNS_VERSION (re_now env)) \<and>
      (tier = T3 \<longrightarrow> \<not> is_multi_target (er_target req))"
proof -
  obtain d g c where adm: "admit H env req ctx = Admitted d g c"
    using assms(1) by (rule run_depends_on_tool)
  note a = admit_Admitted [OF adm]
  note al = allowed_decision [of ctx req, folded a(1), OF a(4), folded tier_def]
  obtain ctx2 where g: "approval_gate H env req d (arm_taint req ctx) = Pass ctx2"
      "contract_gate req ctx2 = Pass ctx2" "budget_gate env req d ctx2 = Pass c"
    using a(7) by (rule gates_Pass)
  note ag = approval_gate_Pass [OF g(1)]
  show "\<not> is_tripped (re_readable env) (cx_kill_switch ctx)" by (rule a(2))
  show "\<not> on_deny_list (er_tool req) (er_command req)" by (rule al(1))
  show "tier \<le> mode_ceiling (cx_mode ctx)" by (rule al(3))
  show "\<forall>cap. cx_consent_ceiling ctx = Some cap \<longrightarrow> tier \<le> cap"
    using a(5) al(2) by (auto simp: exceeds_consent_def split: if_splits)
  have "cx_contract ctx2 = cx_contract ctx" using ag(1) by auto
  then show "\<forall>p \<in> set (preconditions (cx_contract ctx)) \<union> set (invariants (cx_contract ctx)). \<not> blocks p req"
    using contract_gate_cases(1) [OF g(2)] by simp
  assume "\<not> er_dry_run req" "T2 \<le> tier \<or> T1 \<le> tier \<and> (untrusted_ingested (cx_taint ctx) \<or> er_untrusted req)"
  then have "gate_required (arm_taint req ctx) d"
    using al(2,4) by (auto simp: gate_required_def)
  from ag(2) [OF this \<open>\<not> er_dry_run req\<close>] al(2) a(1)
  show "(\<exists>a aid p. er_approval req = Some a \<and> action_id H req = Some aid \<and> ap_action_id a = aid \<and>
        \<not> is_consumed (cx_approvals ctx) (ap_token a) \<and>
        map_of (pending (cx_approvals ctx)) (ap_token a) = Some p \<and>
        bound_to p aid (er_target req) tier PATTERNS_VERSION (re_now env)) \<and>
      (tier = T3 \<longrightarrow> \<not> is_multi_target (er_target req))"
    by (auto simp: multi_target_t3_def)
qed

text \<open>C1: The tool runs only behind every gate. If what the tool does makes any difference to a
  call (to its result or to any part of the state it leaves), then the kill switch is not engaged,
  the request is not on the deny list, its classified tier is within the server mode and within the
  session's consent, no precondition or invariant of the contract blocks it, and, when it is a real
  run at T2 or above, or at T1 or above in a session that has taken in untrusted content, the
  request carries an approval that is pending, unused, unexpired and bound to exactly this action,
  target, tier and pattern version, and a T3 request names exactly one target.\<close>

theorem execution_needs_every_gate:
  assumes "run H env req ex1 ctx \<noteq> run H env req ex2 ctx" and "tier = classify (er_tool req) (er_command req) (er_base_tier req)"
  shows "\<not> is_tripped (re_readable env) (cx_kill_switch ctx) \<and>
    \<not> on_deny_list (er_tool req) (er_command req) \<and> tier \<le> mode_ceiling (cx_mode ctx) \<and>
    (\<forall>cap. cx_consent_ceiling ctx = Some cap \<longrightarrow> tier \<le> cap) \<and>
    (\<forall>p \<in> set (preconditions (cx_contract ctx)) \<union> set (invariants (cx_contract ctx)). \<not> blocks p req) \<and>
    (\<not> er_dry_run req \<and> (T2 \<le> tier \<or> T1 \<le> tier \<and> (untrusted_ingested (cx_taint ctx) \<or> er_untrusted req)) \<longrightarrow>
      (\<exists>a aid p. er_approval req = Some a \<and> action_id H req = Some aid \<and> ap_action_id a = aid \<and>
        \<not> is_consumed (cx_approvals ctx) (ap_token a) \<and>
        map_of (pending (cx_approvals ctx)) (ap_token a) = Some p \<and>
        bound_to p aid (er_target req) tier PATTERNS_VERSION (re_now env)) \<and>
      (tier = T3 \<longrightarrow> \<not> is_multi_target (er_target req)))"
  unfolding assms(2) using execution_gates [OF assms(1)] by (intro conjI impI) blast+

subsection \<open>One audit record per call\<close>

definition wf_request :: "exec_request \<Rightarrow> bool" where
  "wf_request req = (case er_args req of None \<Rightarrow> True | Some args \<Rightarrow> wf_val (PDict args))"

lemma redacted_wf: "wf_request req \<Longrightarrow> wf_val (PDict (redacted_args req))"
  using redact_args_wf by (auto simp: wf_request_def redacted_args_def split: option.splits)

definition run_entry ::
  "run_env \<Rightarrow> exec_request \<Rightarrow> string \<Rightarrow> string \<Rightarrow> string \<Rightarrow> nat \<Rightarrow> string option \<Rightarrow> entry" where
  "run_entry env req decision_label tier_label output_sha256 output_len err =
     \<lparr>en_tool = er_tool req, en_tier = tier_label, en_decision = decision_label,
      en_args = redacted_args req, en_output_sha256 = output_sha256, en_output_len = output_len,
      en_target = er_target req, en_error = err, en_request_id = re_request_id env,
      en_client_id = re_client_id env, en_patterns_version = PATTERNS_VERSION\<rparr>"

text \<open>The record of a call says what the call did.\<close>

definition record_matches :: "exec_request \<Rightarrow> string \<Rightarrow> exec_result \<Rightarrow> bool" where
  "record_matches req decision_label res \<longleftrightarrow>
     (let p = map_of (ar_payload (xr_record res)) in
      p ''tool'' = Some (PStr (er_tool req)) \<and> p ''decision'' = Some (PStr decision_label) \<and>
      p ''target'' = Some (opt_str (er_target req)) \<and>
      p ''tier'' = Some (PStr (label (d_tier (xr_decision res)))) \<and>
      p ''output_sha256'' = Some (PStr (xr_output_sha256 res)) \<and> p ''error'' = Some (opt_str (xr_error res)))"

definition audited_once :: "exec_request \<Rightarrow> audit_logger \<Rightarrow> exec_result \<Rightarrow> audit_logger \<Rightarrow> bool" where
  "audited_once req lg res lg' \<longleftrightarrow>
     lg_seq lg' = lg_seq lg + 1 \<and> lg_prev_hash lg' = ar_entry_hash (xr_record res) \<and>
     (\<exists>l. record_matches req l res \<and> (xr_ok res \<longleftrightarrow> l = ''allowed''))"

lemma norm_opt_str [simp]: "json_norm d (opt_str x) = opt_str x"
  by (cases x) (simp_all add: opt_str_def)

lemma entry_fields:
  assumes "wf_entry e"
  shows "map_of (entry_payload ts e lg) ''tool'' = Some (PStr (en_tool e))"
    and "map_of (entry_payload ts e lg) ''decision'' = Some (PStr (en_decision e))"
    and "map_of (entry_payload ts e lg) ''target'' = Some (opt_str (en_target e))"
    and "map_of (entry_payload ts e lg) ''tier'' = Some (PStr (en_tier e))"
    and "map_of (entry_payload ts e lg) ''output_sha256'' = Some (PStr (en_output_sha256 e))"
    and "map_of (entry_payload ts e lg) ''error'' = Some (opt_str (en_error e))"
proof -
  obtain kvs where k: "payload_of (lg_seq lg) ts (lg_prev_hash lg) e = PDict kvs"
    by (simp add: payload_of_def)
  have d: "distinct (keys kvs)"
    using payload_wf [OF assms, of "lg_seq lg" ts "lg_prev_hash lg"] k by simp
  note m = norm_dict_members [OF entry_payload_eq [of lg ts e, unfolded k] d, THEN conjunct1]
  show "map_of (entry_payload ts e lg) ''tool'' = Some (PStr (en_tool e))"
    and "map_of (entry_payload ts e lg) ''decision'' = Some (PStr (en_decision e))"
    and "map_of (entry_payload ts e lg) ''target'' = Some (opt_str (en_target e))"
    and "map_of (entry_payload ts e lg) ''tier'' = Some (PStr (en_tier e))"
    and "map_of (entry_payload ts e lg) ''output_sha256'' = Some (PStr (en_output_sha256 e))"
    and "map_of (entry_payload ts e lg) ''error'' = Some (opt_str (en_error e))"
    using k m by (auto simp: payload_of_def)
qed

lemma audit_outcome:
  assumes "wf_request req"
  shows "(\<exists>ctx'. audit H env req dl tlb sha n err ctx = (Inl (Audit_raised Stderr_broken), ctx') \<and>
      record_can_raise (re_write env) (cx_audit ctx)) \<or>
    (\<exists>lg'. audit H env req dl tlb sha n err ctx =
        (Inr (entry_record H (we_ts (re_write env)) (run_entry env req dl tlb sha n err) (cx_audit ctx)), ctx\<lparr>cx_audit := lg'\<rparr>) \<and>
      \<not> record_can_raise (re_write env) (cx_audit ctx) \<and> lg_seq lg' = lg_seq (cx_audit ctx) + 1 \<and>
      lg_prev_hash lg' = ar_entry_hash (entry_record H (we_ts (re_write env)) (run_entry env req dl tlb sha n err) (cx_audit ctx)))"
proof -
  have "wf_entry (run_entry env req dl tlb sha n err)"
    using redacted_wf [OF assms] by (simp add: run_entry_def)
  from record_outcome [OF this, of H "re_write env" "cx_audit ctx"] show ?thesis
    by (auto simp: audit_def run_entry_def Let_def)
qed

lemma record_matches_entry:
  assumes "wf_request req" and "xr_record res = entry_record H ts (run_entry env req dl (label (d_tier (xr_decision res)))
      (xr_output_sha256 res) n (xr_error res)) lg"
  shows "record_matches req dl res"
proof -
  have w: "wf_entry (run_entry env req dl tlb sha n err)" for tlb sha n err
    using redacted_wf [OF assms(1)] by (simp add: run_entry_def)
  show ?thesis
    using assms(2) by (simp add: record_matches_def entry_record_def entry_fields [OF w] Let_def)
      (simp add: run_entry_def)
qed

lemma denied_outcome:
  assumes "wf_request req"
  shows "(\<exists>ctx'. denied H env req d reason ctx = (Inl (Audit_raised Stderr_broken), ctx') \<and>
      record_can_raise (re_write env) (cx_audit ctx)) \<or>
    (\<exists>res lg'. denied H env req d reason ctx = (Inr res, ctx\<lparr>cx_audit := lg'\<rparr>) \<and> \<not> xr_ok res \<and> xr_decision res = d \<and>
       \<not> record_can_raise (re_write env) (cx_audit ctx) \<and> audited_once req (cx_audit ctx) res lg' \<and>
       record_matches req ''denied'' res)"
proof (cases "record_can_raise (re_write env) (cx_audit ctx)")
  case True
  with audit_outcome [OF assms, of H env "''denied''" "label (d_tier d)" "EMPTY_SHA256 H" 0 "Some reason" ctx]
  show ?thesis by (auto simp: denied_def)
next
  case False
  with audit_outcome [OF assms, of H env "''denied''" "label (d_tier d)" "EMPTY_SHA256 H" 0 "Some reason" ctx]
  obtain lg' where a: "audit H env req ''denied'' (label (d_tier d)) (EMPTY_SHA256 H) 0 (Some reason) ctx =
      (Inr (entry_record H (we_ts (re_write env)) (run_entry env req ''denied'' (label (d_tier d)) (EMPTY_SHA256 H) 0 (Some reason)) (cx_audit ctx)),
       ctx\<lparr>cx_audit := lg'\<rparr>)"
    and s: "lg_seq lg' = lg_seq (cx_audit ctx) + 1"
    "lg_prev_hash lg' = ar_entry_hash (entry_record H (we_ts (re_write env)) (run_entry env req ''denied'' (label (d_tier d)) (EMPTY_SHA256 H) 0 (Some reason)) (cx_audit ctx))"
    by auto
  let ?res = "\<lparr>xr_ok = False, xr_decision = d, xr_output = [], xr_output_sha256 = EMPTY_SHA256 H, xr_output_len = 0,
    xr_error = Some reason, xr_record = entry_record H (we_ts (re_write env))
      (run_entry env req ''denied'' (label (d_tier d)) (EMPTY_SHA256 H) 0 (Some reason)) (cx_audit ctx)\<rparr>"
  have m: "record_matches req ''denied'' ?res"
    by (rule record_matches_entry [OF assms]) simp
  with a s False show ?thesis
    by (auto simp: denied_def audited_once_def)
qed

lemma finish_outcome:
  assumes "wf_request req"
  shows "(\<exists>ctx'. finish H env req d output err ctx = (Inl (Audit_raised Stderr_broken), ctx') \<and>
      record_can_raise (re_write env) (cx_audit ctx)) \<or>
    (\<exists>res lg'. finish H env req d output err ctx = (Inr res, ctx\<lparr>cx_audit := lg'\<rparr>) \<and> xr_ok res = (err = None) \<and> xr_decision res = d \<and>
       xr_output res = truncate output (cx_max_output_bytes ctx) \<and> xr_output_sha256 res = H (utf8_encode output) \<and>
       xr_output_len res = length (utf8_encode output) \<and>
       \<not> record_can_raise (re_write env) (cx_audit ctx) \<and> audited_once req (cx_audit ctx) res lg')"
proof -
  let ?dl = "if err \<noteq> None then ''error'' else ''allowed''" and ?sha = "H (utf8_encode output)"
    and ?n = "length (utf8_encode output)"
  let ?r = "entry_record H (we_ts (re_write env)) (run_entry env req ?dl (label (d_tier d)) ?sha ?n err) (cx_audit ctx)"
  let ?res = "\<lparr>xr_ok = (err = None), xr_decision = d, xr_output = truncate output (cx_max_output_bytes ctx),
    xr_output_sha256 = ?sha, xr_output_len = ?n, xr_error = err, xr_record = ?r\<rparr>"
  have m: "record_matches req ?dl ?res"
    by (rule record_matches_entry [OF assms]) simp
  from audit_outcome [OF assms, of H env ?dl "label (d_tier d)" ?sha ?n err ctx] show ?thesis
  proof
    assume "\<exists>lg'. audit H env req ?dl (label (d_tier d)) ?sha ?n err ctx = (Inr ?r, ctx\<lparr>cx_audit := lg'\<rparr>) \<and>
      \<not> record_can_raise (re_write env) (cx_audit ctx) \<and> lg_seq lg' = lg_seq (cx_audit ctx) + 1 \<and>
      lg_prev_hash lg' = ar_entry_hash ?r"
    then obtain lg' where a: "audit H env req ?dl (label (d_tier d)) ?sha ?n err ctx = (Inr ?r, ctx\<lparr>cx_audit := lg'\<rparr>)"
        "\<not> record_can_raise (re_write env) (cx_audit ctx)" "lg_seq lg' = lg_seq (cx_audit ctx) + 1"
        "lg_prev_hash lg' = ar_entry_hash ?r" by blast
    from a(1) have "finish H env req d output err ctx = (Inr ?res, ctx\<lparr>cx_audit := lg'\<rparr>)"
      by (simp add: finish_def Let_def)
    moreover have "audited_once req (cx_audit ctx) ?res lg'"
      using a(3,4) m by (cases err) (auto simp: audited_once_def)
    ultimately show ?thesis using a(2) by auto
  qed (auto simp: finish_def Let_def)
qed

text \<open>The steps around the execution leave the audit log alone, and the only exception they can
  raise is that of the action id.\<close>

lemma approval_gate_frame:
  "approval_gate H env req d ctx = Stop m c \<Longrightarrow> \<exists>reg. c = ctx\<lparr>cx_approvals := reg\<rparr>"
  "approval_gate H env req d ctx = Raise x c \<Longrightarrow> c = ctx \<and> x = Action_id_raised \<and> action_id H req = None"
proof -
  assume "approval_gate H env req d ctx = Stop m c"
  then have "c = ctx\<lparr>cx_approvals := cx_approvals c\<rparr>"
    by (auto simp: approval_gate_def split: if_splits option.splits prod.splits sum.splits)
  then show "\<exists>reg. c = ctx\<lparr>cx_approvals := reg\<rparr>" ..
next
  assume "approval_gate H env req d ctx = Raise x c"
  then show "c = ctx \<and> x = Action_id_raised \<and> action_id H req = None"
    by (auto simp: approval_gate_def split: if_splits option.splits prod.splits sum.splits)
qed

lemma gates_frame:
  "gates H env req d ctx = Pass c \<Longrightarrow> \<exists>reg b. c = ctx\<lparr>cx_approvals := reg, cx_budget := b\<rparr>"
  "gates H env req d ctx = Stop m c \<Longrightarrow> \<exists>reg. c = ctx\<lparr>cx_approvals := reg\<rparr>"
  "gates H env req d ctx = Raise x c \<Longrightarrow> c = ctx \<and> x = Action_id_raised \<and> action_id H req = None"
proof -
  assume "gates H env req d ctx = Pass c"
  then obtain ctx2 where "approval_gate H env req d ctx = Pass ctx2" "budget_gate env req d ctx2 = Pass c"
    by (rule gates_Pass)
  then show "\<exists>reg b. c = ctx\<lparr>cx_approvals := reg, cx_budget := b\<rparr>"
    using approval_gate_Pass(1) budget_gate_cases(1) by blast
next
  assume "gates H env req d ctx = Stop m c"
  then show "\<exists>reg. c = ctx\<lparr>cx_approvals := reg\<rparr>"
    using approval_gate_frame(1) approval_gate_Pass(1)
    by (fastforce simp: gates_def split: gate.splits dest: contract_gate_cases(1,3) budget_gate_cases(3) simp: contract_gate_cases(2))
next
  assume "gates H env req d ctx = Raise x c"
  then show "c = ctx \<and> x = Action_id_raised \<and> action_id H req = None"
    by (auto simp: gates_def split: gate.splits simp: contract_gate_cases(2) budget_gate_cases(2)
        dest: approval_gate_frame(2))
qed

lemma admit_frame:
  "admit H env req ctx = Refused d m c \<Longrightarrow> \<exists>reg t. c = ctx\<lparr>cx_taint := t, cx_approvals := reg\<rparr>"
  "admit H env req ctx = Raised x c \<Longrightarrow>
     (\<exists>t. c = ctx\<lparr>cx_taint := t\<rparr>) \<and> x = Action_id_raised \<and> action_id H req = None"
  "admit H env req ctx = Admitted d g c \<Longrightarrow> \<exists>reg b t. c = ctx\<lparr>cx_taint := t, cx_approvals := reg, cx_budget := b\<rparr>"
proof -
  have t: "\<exists>t. arm_taint req ctx = ctx\<lparr>cx_taint := t\<rparr>"
    by (auto simp: arm_taint_def intro: exI [of _ "cx_taint ctx"])
  have id: "\<exists>reg t. ctx = ctx\<lparr>cx_taint := t, cx_approvals := reg\<rparr>"
    by (rule exI [of _ "cx_approvals ctx"], rule exI [of _ "cx_taint ctx"]) simp
  {
    assume "admit H env req ctx = Refused d m c"
    then have "c = ctx \<or> (\<exists>d m. gates H env req d (arm_taint req ctx) = Stop m c)"
      by (auto simp: admit_def Let_def split: if_splits option.splits gate.splits)
    then show "\<exists>reg t. c = ctx\<lparr>cx_taint := t, cx_approvals := reg\<rparr>"
    proof
      assume "\<exists>d m. gates H env req d (arm_taint req ctx) = Stop m c"
      then obtain reg where "c = (arm_taint req ctx)\<lparr>cx_approvals := reg\<rparr>" using gates_frame(2) by blast
      with t obtain u where "c = ctx\<lparr>cx_taint := u, cx_approvals := reg\<rparr>" by auto
      then show ?thesis by blast
    qed (use id in blast)
  next
    assume "admit H env req ctx = Raised x c"
    then have "\<exists>d. gates H env req d (arm_taint req ctx) = Raise x c"
      by (auto simp: admit_def Let_def split: if_splits option.splits gate.splits)
    then show "(\<exists>t. c = ctx\<lparr>cx_taint := t\<rparr>) \<and> x = Action_id_raised \<and> action_id H req = None"
      using t gates_frame(3) by blast
  next
    assume "admit H env req ctx = Admitted d g c"
    from gates_frame(1) [OF admit_Admitted(7) [OF this]] obtain reg b
      where "c = (arm_taint req ctx)\<lparr>cx_approvals := reg, cx_budget := b\<rparr>" by blast
    with t obtain u where "c = ctx\<lparr>cx_taint := u, cx_approvals := reg, cx_budget := b\<rparr>" by auto
    then show "\<exists>reg b t. c = ctx\<lparr>cx_taint := t, cx_approvals := reg, cx_budget := b\<rparr>" by blast
  }
qed

lemma spend_wall_Inr: "\<exists>b. spend_wall env ctx = Inr (ctx\<lparr>cx_budget := b\<rparr>)"
proof (cases "cx_budget ctx")
  case None
  then have "spend_wall env ctx = Inr (ctx\<lparr>cx_budget := cx_budget ctx\<rparr>)" by (simp add: spend_wall_def)
  then show ?thesis ..
next
  case (Some b)
  then show ?thesis by (auto simp: spend_wall_def record_spend_total)
qed

lemma mint_step_frame:
  "mint_step H env req d g err ctx = Inr c \<Longrightarrow> \<exists>reg con. c = ctx\<lparr>cx_approvals := reg, cx_console := con\<rparr>"
  "mint_step H env req d g err ctx = Inl (x, c) \<Longrightarrow> c = ctx \<and> x = Action_id_raised \<and> action_id H req = None"
proof -
  assume "mint_step H env req d g err ctx = Inr c"
  then have "c = ctx\<lparr>cx_approvals := cx_approvals c, cx_console := cx_console c\<rparr>"
    by (auto simp: mint_step_def surface_approval_def Let_def split: if_splits option.splits)
  then show "\<exists>reg con. c = ctx\<lparr>cx_approvals := reg, cx_console := con\<rparr>" by blast
next
  assume "mint_step H env req d g err ctx = Inl (x, c)"
  then show "c = ctx \<and> x = Action_id_raised \<and> action_id H req = None"
    by (auto simp: mint_step_def split: if_splits option.splits)
qed

text \<open>The tool does not write to the audit log itself.\<close>

definition keeps_audit :: "'w tool \<Rightarrow> bool" where
  "keeps_audit execute \<longleftrightarrow> (\<forall>c. cx_audit (snd (execute c)) = cx_audit c)"

lemma execute_step_outcome:
  assumes "wf_request req" and "keeps_audit execute"
  shows "(\<exists>c. execute_step H env req execute d g ctx = (Inl Action_id_raised, c) \<and> action_id H req = None) \<or>
    (\<exists>c. execute_step H env req execute d g ctx = (Inl (Audit_raised Stderr_broken), c) \<and>
       record_can_raise (re_write env) (cx_audit ctx)) \<or>
    (\<exists>res c. execute_step H env req execute d g ctx = (Inr res, c) \<and> audited_once req (cx_audit ctx) res (cx_audit c))"
proof -
  obtain res ctx1 where e: "execute ctx = (res, ctx1)" by fastforce
  have a1: "cx_audit ctx1 = cx_audit ctx"
    using assms(2) e by (metis keeps_audit_def snd_conv)
  obtain b where w: "spend_wall env ctx1 = Inr (ctx1\<lparr>cx_budget := b\<rparr>)" using spend_wall_Inr by blast
  define err where "err = (case res of Inl exc \<Rightarrow> Some (bounded_error exc) | Inr _ \<Rightarrow> None)"
  define out where "out = (case res of Inl _ \<Rightarrow> [] | Inr t \<Rightarrow> t)"
  show ?thesis
  proof (cases "mint_step H env req d g err (ctx1\<lparr>cx_budget := b\<rparr>)")
    case (Inl xc)
    then obtain x c where m: "mint_step H env req d g err (ctx1\<lparr>cx_budget := b\<rparr>) = Inl (x, c)" by (cases xc) auto
    with e w mint_step_frame(2) [OF m] show ?thesis
      by (auto simp: execute_step_def err_def)
  next
    case (Inr c)
    have f: "execute_step H env req execute d g ctx = finish H env req d out err c"
      using e w Inr by (simp add: execute_step_def err_def out_def)
    have "cx_audit c = cx_audit ctx" using mint_step_frame(1) [OF Inr] a1 by auto
    with finish_outcome [OF assms(1), of H env d out err c] f show ?thesis by auto
  qed
qed

lemma run_outcome:
  assumes "wf_request req" and "keeps_audit execute"
  shows "case run H env req execute ctx of
      (Inr res, ctx') \<Rightarrow> audited_once req (cx_audit ctx) res (cx_audit ctx')
    | (Inl x, ctx') \<Rightarrow> x = Action_id_raised \<and> action_id H req = None \<or>
        x = Audit_raised Stderr_broken \<and> record_can_raise (re_write env) (cx_audit ctx)"
proof (cases "admit H env req ctx")
  case (Refused d m c)
  then have "cx_audit c = cx_audit ctx" using admit_frame(1) by fastforce
  with denied_outcome [OF assms(1), of H env d m c] Refused show ?thesis by (auto simp: run_admit)
next
  case (Raised x c)
  with admit_frame(2) [OF Raised] show ?thesis by (simp add: run_admit)
next
  case (Admitted d g c)
  then have "cx_audit c = cx_audit ctx" using admit_frame(3) by fastforce
  with execute_step_outcome [OF assms, of H env d g c] Admitted show ?thesis by (auto simp: run_admit)
qed

text \<open>C3: Every call writes exactly one audit record. For every request, every context and every
  tool (which may fail, but does not write to the audit log itself), either the call returns a
  result, the audit log has advanced by exactly one record, its head is the hash of the record the
  result carries, and that record names the tool, the target, the tier, the decision, the output
  digest and the error of the result; or it raises, and then only because the text of an argument
  needed for the action id raises, or because the audit file and standard error both refuse the
  write.\<close>

theorem run_audits_exactly_once:
  assumes "wf_request req" and "keeps_audit execute"
  shows "case run H env req execute ctx of
      (Inr res, ctx') \<Rightarrow> audited_once req (cx_audit ctx) res (cx_audit ctx')
    | (Inl x, ctx') \<Rightarrow> x = Action_id_raised \<and> action_id H req = None \<or>
        x = Audit_raised Stderr_broken \<and> record_can_raise (re_write env) (cx_audit ctx)"
  using run_outcome [OF assms] .

subsection \<open>A concrete session\<close>

definition demo_request :: "tier \<Rightarrow> exec_request" where
  "demo_request t =
     \<lparr>er_tool = ''x'', er_command = None, er_args = Some [], er_target = Some ''h'', er_base_tier = t,
      er_dry_run = False, er_approval = Some \<lparr>ap_action_id = ''ab'', ap_token = ''tok''\<rparr>, er_untrusted = False,
      er_action_key = None\<rparr>"

definition demo_pending :: approval_registry where
  "demo_pending = \<lparr>ttl_seconds = 600,
     pending = [(''tok'', \<lparr>pa_action_id = ''ab'', pa_target = Some ''h'', pa_tier = T2, pa_patterns_version = 4,
       pa_expires_at = 10\<rparr>)], consumed = []\<rparr>"

definition demo_context :: "unit exec_context" where
  "demo_context =
     \<lparr>cx_mode = OPEN, cx_audit = new_logger 0 GENESIS True False [] [] [],
      cx_kill_switch = \<lparr>ks_sentinel = False, ks_tripped = False, ks_file = False\<rparr>,
      cx_approvals = demo_pending, cx_contract = empty_contract, cx_max_output_bytes = 100, cx_budget = None,
      cx_taint = \<lparr>untrusted_ingested = False\<rparr>, cx_console = [], cx_consent_ceiling = None, cx_world = ()\<rparr>"

definition demo_run_env :: run_env where
  "demo_run_env =
     \<lparr>re_write = demo_env, re_now = 5, re_token = ''new'', re_elapsed = 0, re_readable = True, re_sink = True,
      re_console = True, re_request_id = None, re_client_id = None, re_float_repr = (\<lambda>_. [])\<rparr>"

definition demo_tool :: "string \<Rightarrow> unit tool" where
  "demo_tool out c = (Inr out, c)"

lemmas demo_runner_defs = demo_request_def demo_pending_def demo_context_def demo_run_env_def

lemma demo_action_id: "action_id (\<lambda>_. ''ab'') (demo_request t) = Some ''ab''"
proof -
  have "\<exists>u. dumps action_options (PDict [(''tool'', PStr ''x''), (''command'', PNone), (''target'', PStr ''h''), (''args'', PDict [])]) = Some u"
    by (rule dumps_defined) simp
  then show ?thesis
    by (auto simp: action_id_def action_value_def demo_request_def opt_str_def sha256_text_def)
qed

lemma demo_consume:
  "\<exists>reg. consume demo_pending 5 \<lparr>ap_action_id = ''ab'', ap_token = ''tok''\<rparr> ''ab'' (Some ''h'') T2 4 = (Inr (), reg)"
  by (simp add: demo_pending_def consume_def validate_locked_def match_pending_def is_consumed_def eq_token_def)

lemma demo_admitted:
  "\<exists>d g c. admit (\<lambda>_. ''ab'') demo_run_env (demo_request T2) demo_context = Admitted d g c \<and>
     d_tier d = T2 \<and> cx_max_output_bytes c = 100 \<and> cx_audit c = cx_audit demo_context \<and> cx_budget c = None"
proof -
  obtain reg where "consume demo_pending 5 \<lparr>ap_action_id = ''ab'', ap_token = ''tok''\<rparr> ''ab'' (Some ''h'') T2 4 = (Inr (), reg)"
    using demo_consume by blast
  then show ?thesis
    using demo_action_id [of T2]
    by (auto simp: admit_def demo_context_def demo_run_env_def demo_request_def Let_def check_x_open is_tripped_def
        exceeds_consent_def gates_def approval_gate_def gate_required_def arm_taint_def multi_target_t3_def
        contract_gate_def check_pre_def empty_contract_def hard_failures_def budget_gate_def tier_order PATTERNS_VERSION_def)
qed

lemma demo_request_wf: "wf_request (demo_request t)"
  by (simp add: wf_request_def demo_request_def)

lemma demo_cannot_raise: "\<not> record_can_raise (re_write demo_run_env) (cx_audit demo_context)"
  by (simp add: record_can_raise_def demo_run_env_def demo_env_def)

lemma demo_run_output:
  "\<exists>res c. run (\<lambda>_. ''ab'') demo_run_env (demo_request T2) (demo_tool out) demo_context = (Inr res, c) \<and>
     xr_output res = truncate out 100"
proof -
  obtain d g c where a: "admit (\<lambda>_. ''ab'') demo_run_env (demo_request T2) demo_context = Admitted d g c"
      "cx_max_output_bytes c = 100" "cx_audit c = cx_audit demo_context" "cx_budget c = None"
    using demo_admitted by blast
  have "execute_step (\<lambda>_. ''ab'') demo_run_env (demo_request T2) (demo_tool out) d g c =
      finish (\<lambda>_. ''ab'') demo_run_env (demo_request T2) d out None c"
    using a(4) by (simp add: execute_step_def demo_tool_def spend_wall_def mint_step_def) (simp add: demo_request_def)
  with finish_outcome [OF demo_request_wf [of T2], of "\<lambda>_. ''ab''" demo_run_env d out None c] a demo_cannot_raise
  show ?thesis by (auto simp: run_admit)
qed

lemma demo_tool_matters:
  "run (\<lambda>_. ''ab'') demo_run_env (demo_request T2) (demo_tool ''a'') demo_context \<noteq>
   run (\<lambda>_. ''ab'') demo_run_env (demo_request T2) (demo_tool ''b'') demo_context"
proof -
  have "truncate ''a'' 100 \<noteq> truncate ''b'' 100"
    by (simp add: truncate_def utf8_encode_def utf8_char_def ord_def)
  then show ?thesis
    using demo_run_output [of "''a''"] demo_run_output [of "''b''"] by force
qed

theorem execution_needs_every_gate_witness:
  "\<exists>a aid p. er_approval (demo_request T2) = Some a \<and> action_id (\<lambda>_. ''ab'') (demo_request T2) = Some aid \<and>
     map_of (pending demo_pending) (ap_token a) = Some p \<and> bound_to p aid (Some ''h'') T2 4 5"
proof -
  have "er_dry_run (demo_request T2) = False" "er_target (demo_request T2) = Some ''h''"
      "cx_approvals demo_context = demo_pending" "re_now demo_run_env = 5"
    by (simp_all add: demo_runner_defs)
  moreover have "T2 = classify (er_tool (demo_request T2)) (er_command (demo_request T2)) (er_base_tier (demo_request T2))"
    by (simp add: demo_request_def)
  ultimately show ?thesis
    using execution_needs_every_gate [OF demo_tool_matters, of T2] by (simp add: PATTERNS_VERSION_def) blast
qed

theorem run_audits_exactly_once_witness:
  "\<exists>res c. run (\<lambda>_. ''ab'') demo_run_env (demo_request T2) (demo_tool ''a'') demo_context = (Inr res, c) \<and>
     lg_seq (cx_audit c) = 1"
proof -
  have "keeps_audit (demo_tool ''a'')" by (simp add: keeps_audit_def demo_tool_def)
  with demo_run_output [of "''a''"] run_audits_exactly_once [OF demo_request_wf [of T2], of "demo_tool ''a''" "\<lambda>_. ''ab''" demo_run_env demo_context]
  show ?thesis by (auto simp: audited_once_def demo_context_def new_logger_def)
qed

subsection \<open>The kill switch is durable\<close>

datatype ks_op = Trip bool | Reset | Restart

text \<open>A restart forgets the in-memory trip and keeps what is on disk.\<close>

fun ks_run :: "ks_op list \<Rightarrow> kill_switch \<Rightarrow> kill_switch" where
  "ks_run [] ks = ks"
| "ks_run (Trip created # ops) ks = ks_run ops (trip created ks)"
| "ks_run (Reset # ops) ks = ks_run ops (reset ks)"
| "ks_run (Restart # ops) ks = ks_run ops (ks\<lparr>ks_tripped := False\<rparr>)"

lemma ks_run_file: "ks_sentinel ks \<Longrightarrow> ks_file ks \<Longrightarrow> ks_sentinel (ks_run ops ks) \<and> ks_file (ks_run ops ks)"
  by (induction ops ks rule: ks_run.induct) (auto simp: trip_def reset_def Let_def)

lemma ks_run_tripped: "ks_sentinel ks \<Longrightarrow> is_tripped readable (ks_run ops (trip True ks))"
  using ks_run_file [of "trip True ks" ops] by (auto simp: is_tripped_def trip_def Let_def)



subsection \<open>The approval token stays out of band\<close>

lemma token_fields:
  "re_now (env\<lparr>re_token := t\<rparr>) = re_now env" "re_write (env\<lparr>re_token := t\<rparr>) = re_write env"
  "re_elapsed (env\<lparr>re_token := t\<rparr>) = re_elapsed env" "re_readable (env\<lparr>re_token := t\<rparr>) = re_readable env"
  "re_request_id (env\<lparr>re_token := t\<rparr>) = re_request_id env" "re_client_id (env\<lparr>re_token := t\<rparr>) = re_client_id env"
  "re_float_repr (env\<lparr>re_token := t\<rparr>) = re_float_repr env"
  by simp_all

lemma admit_token [simp]: "admit H (env\<lparr>re_token := t\<rparr>) req ctx = admit H env req ctx"
  unfolding admit_def gates_def approval_gate_def budget_gate_def token_fields ..

lemma audit_token: "audit H (env\<lparr>re_token := t\<rparr>) req dl tlb sha n err ctx = audit H env req dl tlb sha n err ctx"
  unfolding audit_def token_fields ..

lemma denied_token [simp]: "denied H (env\<lparr>re_token := t\<rparr>) req d m ctx = denied H env req d m ctx"
  unfolding denied_def audit_token ..

lemma finish_token: "finish H (env\<lparr>re_token := t\<rparr>) req d out err ctx = finish H env req d out err ctx"
  unfolding finish_def audit_token ..

lemma spend_wall_token: "spend_wall (env\<lparr>re_token := t\<rparr>) ctx = spend_wall env ctx"
  unfolding spend_wall_def token_fields ..

text \<open>The last step only looks at the audit log and the preview bound of the context.\<close>

lemma finish_view:
  assumes "cx_audit c1 = cx_audit c2" and "cx_max_output_bytes c1 = cx_max_output_bytes c2"
  shows "fst (finish H env req d out err c1) = fst (finish H env req d out err c2) \<and>
    cx_audit (snd (finish H env req d out err c1)) = cx_audit (snd (finish H env req d out err c2)) \<and>
    cx_world (snd (finish H env req d out err c1)) = cx_world c1"
  using assms by (auto simp: finish_def audit_def Let_def split: prod.splits sum.splits)

lemma mint_step_token:
  "(\<exists>x. mint_step H (env\<lparr>re_token := t1\<rparr>) req d g err ctx = Inl x \<and> mint_step H (env\<lparr>re_token := t2\<rparr>) req d g err ctx = Inl x) \<or>
   (\<exists>r1 r2 n1 n2. mint_step H (env\<lparr>re_token := t1\<rparr>) req d g err ctx = Inr (ctx\<lparr>cx_approvals := r1, cx_console := n1\<rparr>) \<and>
      mint_step H (env\<lparr>re_token := t2\<rparr>) req d g err ctx = Inr (ctx\<lparr>cx_approvals := r2, cx_console := n2\<rparr>))"
proof (cases "mint_step H (env\<lparr>re_token := t1\<rparr>) req d g err ctx")
  case (Inl x)
  then have "mint_step H (env\<lparr>re_token := t2\<rparr>) req d g err ctx = Inl x"
    by (auto simp: mint_step_def split: if_splits option.splits)
  with Inl show ?thesis by blast
next
  case (Inr c1)
  then obtain c2 where "mint_step H (env\<lparr>re_token := t2\<rparr>) req d g err ctx = Inr c2"
    by (auto simp: mint_step_def split: if_splits option.splits)
  with Inr mint_step_frame(1) show ?thesis by metis
qed

text \<open>The minted approval token never reaches the caller or the audit log: two executions of
  the same call that differ only in the token the server draws return the same result (or raise the
  same exception) and leave the same audit log and the same world.\<close>

theorem approval_token_out_of_band:
  "fst (run H (env\<lparr>re_token := t1\<rparr>) req execute ctx) = fst (run H (env\<lparr>re_token := t2\<rparr>) req execute ctx) \<and>
   cx_audit (snd (run H (env\<lparr>re_token := t1\<rparr>) req execute ctx)) = cx_audit (snd (run H (env\<lparr>re_token := t2\<rparr>) req execute ctx)) \<and>
   cx_world (snd (run H (env\<lparr>re_token := t1\<rparr>) req execute ctx)) = cx_world (snd (run H (env\<lparr>re_token := t2\<rparr>) req execute ctx))"
proof (cases "admit H env req ctx")
  case (Admitted d g c)
  obtain res c1 where e: "execute c = (res, c1)" by fastforce
  obtain b where w: "spend_wall env c1 = Inr (c1\<lparr>cx_budget := b\<rparr>)" using spend_wall_Inr by blast
  define err where "err = (case res of Inl exc \<Rightarrow> Some (bounded_error exc) | Inr _ \<Rightarrow> None)"
  define out where "out = (case res of Inl _ \<Rightarrow> [] | Inr t \<Rightarrow> t)"
  have x: "execute_step H (env\<lparr>re_token := t\<rparr>) req execute d g c =
      (case mint_step H (env\<lparr>re_token := t\<rparr>) req d g err (c1\<lparr>cx_budget := b\<rparr>) of
         Inl (x, c3) \<Rightarrow> (Inl x, c3) | Inr c3 \<Rightarrow> finish H env req d out err c3)" for t
    unfolding execute_step_def spend_wall_token finish_token err_def out_def using e w by (simp add: Let_def)
  from mint_step_token [of H t1 env req d g err "c1\<lparr>cx_budget := b\<rparr>" t2] show ?thesis
  proof
    assume "\<exists>r1 r2 n1 n2. mint_step H (env\<lparr>re_token := t1\<rparr>) req d g err (c1\<lparr>cx_budget := b\<rparr>) =
          Inr (c1\<lparr>cx_budget := b, cx_approvals := r1, cx_console := n1\<rparr>) \<and>
        mint_step H (env\<lparr>re_token := t2\<rparr>) req d g err (c1\<lparr>cx_budget := b\<rparr>) =
          Inr (c1\<lparr>cx_budget := b, cx_approvals := r2, cx_console := n2\<rparr>)"
    then obtain r1 r2 n1 n2 where m:
        "mint_step H (env\<lparr>re_token := t1\<rparr>) req d g err (c1\<lparr>cx_budget := b\<rparr>) = Inr (c1\<lparr>cx_budget := b, cx_approvals := r1, cx_console := n1\<rparr>)"
        "mint_step H (env\<lparr>re_token := t2\<rparr>) req d g err (c1\<lparr>cx_budget := b\<rparr>) = Inr (c1\<lparr>cx_budget := b, cx_approvals := r2, cx_console := n2\<rparr>)"
      by blast
    let ?c1 = "c1\<lparr>cx_budget := b, cx_approvals := r1, cx_console := n1\<rparr>"
    let ?c2 = "c1\<lparr>cx_budget := b, cx_approvals := r2, cx_console := n2\<rparr>"
    have "cx_audit ?c1 = cx_audit ?c2" "cx_max_output_bytes ?c1 = cx_max_output_bytes ?c2" "cx_world ?c1 = cx_world ?c2"
      by simp_all
    with finish_view [of ?c1 ?c2 H env req d out err] finish_view [of ?c2 ?c1 H env req d out err]
    show ?thesis using Admitted m by (simp add: run_admit x)
  qed (use Admitted in \<open>auto simp: run_admit x split: prod.splits\<close>)
qed (simp_all add: run_admit)

subsection \<open>The preview\<close>

lemma utf8_encode_Cons: "utf8_encode (c # s) = utf8_char c @ utf8_encode s"
  by (simp add: utf8_encode_def)

lemma ord_char_of: "n < 256 \<Longrightarrow> ord (char_of n) = n"
  by (simp add: ord_def)

text \<open>Decoding a cut encoding gives back the characters that were not cut.\<close>

lemma decode_take: "\<exists>m. utf8_decode_ignore (take n (utf8_encode s)) = take m s \<and> length (utf8_encode (take m s)) \<le> n"
proof (induction s arbitrary: n)
  case Nil
  then show ?case by (auto simp: utf8_encode_def intro: exI [of _ 0])
next
  case (Cons c s)
  show ?case
  proof (cases "ord c < 128")
    case True
    show ?thesis
    proof (cases n)
      case 0
      then show ?thesis by (auto simp: utf8_encode_def intro: exI [of _ 0])
    next
      case (Suc k)
      obtain m where m: "utf8_decode_ignore (take k (utf8_encode s)) = take m s" "length (utf8_encode (take m s)) \<le> k"
        using Cons.IH by blast
      have "utf8_decode_ignore (c # take k (utf8_encode s)) = c # utf8_decode_ignore (take k (utf8_encode s))"
        using True by (cases "take k (utf8_encode s)") auto
      with m True Suc show ?thesis
        by (intro exI [of _ "Suc m"]) (simp add: utf8_encode_Cons utf8_char_def)
    qed
  next
    case False
    have "ord c < 256" by simp
    then have "ord c div 64 < 4" by (simp add: less_mult_imp_div_less)
    moreover have "2 \<le> ord c div 64" using False div_le_mono [of 128 "ord c" 64] by simp
    ultimately have "ord c div 64 = 2 \<or> ord c div 64 = 3" by linarith
    then have q: "ord c div 64 \<in> {2, 3}" by simp
    have b: "ord (char_of (192 + ord c div 64)) = 192 + ord c div 64" "ord (char_of (128 + ord c mod 64)) = 128 + ord c mod 64"
      using q by (auto intro!: ord_char_of)
    have e: "utf8_encode (c # s) = char_of (192 + ord c div 64) # char_of (128 + ord c mod 64) # utf8_encode s"
      using False by (simp add: utf8_encode_Cons utf8_char_def)
    consider "n = 0" | "n = 1" | k where "n = Suc (Suc k)" by (cases n; cases "n - 1") auto
    then show ?thesis
    proof cases
      case 1
      then show ?thesis by (auto simp: utf8_encode_def intro: exI [of _ 0])
    next
      case 2
      have "utf8_decode_ignore (take 1 (utf8_encode (c # s))) = []"
        using b(1) by (simp add: e)
      with 2 show ?thesis by (intro exI [of _ 0]) (simp add: utf8_encode_def)
    next
      case (3 k)
      obtain m where m: "utf8_decode_ignore (take k (utf8_encode s)) = take m s" "length (utf8_encode (take m s)) \<le> k"
        using Cons.IH by blast
      have "(192 + ord c div 64 - 192) * 64 + (128 + ord c mod 64 - 128) = ord c" by simp
      then have "utf8_decode_ignore (take n (utf8_encode (c # s))) = c # utf8_decode_ignore (take k (utf8_encode s))"
        using b q 3 by (auto simp: e char_between_def)
      with m 3 False show ?thesis
        by (intro exI [of _ "Suc m"]) (simp add: utf8_encode_Cons utf8_char_def)
    qed
  qed
qed

text \<open>The caller sees the output or a bounded prefix of it: an output whose encoding fits the
  bound is returned unchanged; otherwise the preview is a prefix of the output whose encoding fits
  the bound, never a broken character, followed by a note with the full length.\<close>

theorem preview_is_bounded_prefix:
  "(length (utf8_encode out) \<le> n \<and> truncate out n = out) \<or>
   (n < length (utf8_encode out) \<and>
    (\<exists>m. truncate out n =
         take m out @ newline @ ''[... truncated, '' @ nat_str (length (utf8_encode out)) @ '' bytes total]'' \<and>
       length (utf8_encode (take m out)) \<le> n))"
  using decode_take [of n out] by (auto simp: truncate_def Let_def)

end
