(* ===== verification/RunTraces.thy ===== *)
theory RunTraces
  imports Runner
begin

section \<open>Sessions: sequences of audited calls\<close>

text \<open>
  A session is a sequence of calls of \<open>run\<close> on one execution context. The locale \<open>stepwise\<close>
  states what a session-wide property needs: every single call keeps it. It is interpreted for the
  taint latch; the action ceiling is counted call by call.
  The tools may do anything to the context except clear the latch (no code of the repository does)
  or touch the budget (only the runner does).
\<close>

record 'w call =
  call_env :: run_env
  call_request :: exec_request
  call_tool :: "'w tool"

definition do_call :: "(string \<Rightarrow> string) \<Rightarrow> 'w call \<Rightarrow> 'w exec_context \<Rightarrow> 'w exec_context" where
  "do_call H c ctx = snd (run H (call_env c) (call_request c) (call_tool c) ctx)"

definition session :: "(string \<Rightarrow> string) \<Rightarrow> 'w call list \<Rightarrow> 'w exec_context \<Rightarrow> 'w exec_context" where
  "session H calls ctx = fold (do_call H) calls ctx"

locale stepwise =
  fixes step :: "'c \<Rightarrow> 's \<Rightarrow> 's" and ok :: "'c \<Rightarrow> bool" and inv :: "'s \<Rightarrow> bool"
  assumes step_inv: "ok c \<Longrightarrow> inv s \<Longrightarrow> inv (step c s)"
begin

lemma fold_inv: "\<forall>c \<in> set cs. ok c \<Longrightarrow> inv s \<Longrightarrow> inv (fold step cs s)"
  by (induction cs arbitrary: s) (auto intro: step_inv)

end

subsection \<open>What a call may do to the taint latch and to the budget\<close>

abbreviation tainted :: "'w exec_context \<Rightarrow> bool" where
  "tainted ctx \<equiv> untrusted_ingested (cx_taint ctx)"

definition keeps_taint :: "'w call \<Rightarrow> bool" where
  "keeps_taint c \<longleftrightarrow> (\<forall>ctx. tainted ctx \<longrightarrow> tainted (snd (call_tool c ctx)))"

lemma audit_ctx: "\<exists>lg. snd (audit H env req dl tlb sha n err ctx) = ctx\<lparr>cx_audit := lg\<rparr>"
  by (auto simp: audit_def Let_def split: prod.splits)

lemma denied_ctx: "\<exists>lg. snd (denied H env req d m ctx) = ctx\<lparr>cx_audit := lg\<rparr>"
  using audit_ctx [of H env req "''denied''" "label (d_tier d)" "EMPTY_SHA256 H" 0 "Some m" ctx]
  by (auto simp: denied_def split: prod.splits sum.splits)

lemma finish_ctx: "\<exists>lg. snd (finish H env req d out err ctx) = ctx\<lparr>cx_audit := lg\<rparr>"
  using audit_ctx [of H env req "if err \<noteq> None then ''error'' else ''allowed''" "label (d_tier d)" "H (utf8_encode out)"
      "length (utf8_encode out)" err ctx]
  by (auto simp: finish_def Let_def split: prod.splits sum.splits)

text \<open>What an executed call leaves: the context of the tool up to budget, approvals, console and
  audit log.\<close>

lemma execute_step_ctx:
  "\<exists>b reg con lg. snd (execute_step H env req execute d g ctx) =
     (snd (execute ctx))\<lparr>cx_budget := b, cx_approvals := reg, cx_console := con, cx_audit := lg\<rparr> \<and>
   (\<forall>b0. cx_budget (snd (execute ctx)) = Some b0 \<longrightarrow>
      (\<exists>b1. b = Some b1 \<and> record_spend b0 (Fin 0) (Fin (max 0 (re_elapsed env))) = Inr b1))"
proof -
  obtain res c1 where e: "execute ctx = (res, c1)" by fastforce
  obtain b where w: "spend_wall env c1 = Inr (c1\<lparr>cx_budget := b\<rparr>)" using spend_wall_Inr by blast
  have b: "\<exists>b1. b = Some b1 \<and> record_spend b0 (Fin 0) (Fin (max 0 (re_elapsed env))) = Inr b1"
    if "cx_budget c1 = Some b0" for b0
    using w that by (auto simp: spend_wall_def split: sum.splits dest!: arg_cong [where f = cx_budget])
  define err where "err = (case res of Inl exc \<Rightarrow> Some (bounded_error exc) | Inr _ \<Rightarrow> None)"
  define out where "out = (case res of Inl _ \<Rightarrow> [] | Inr t \<Rightarrow> t)"
  show ?thesis
  proof (cases "mint_step H env req d g err (c1\<lparr>cx_budget := b\<rparr>)")
    case (Inl xc)
    then obtain x c where m: "mint_step H env req d g err (c1\<lparr>cx_budget := b\<rparr>) = Inl (x, c)" by (cases xc) auto
    then have "snd (execute_step H env req execute d g ctx) = c1\<lparr>cx_budget := b\<rparr>"
      using e w mint_step_frame(2) [OF m] by (simp add: execute_step_def err_def)
    then have "snd (execute_step H env req execute d g ctx) =
        c1\<lparr>cx_budget := b, cx_approvals := cx_approvals c1, cx_console := cx_console c1, cx_audit := cx_audit c1\<rparr>"
      by simp
    then show ?thesis unfolding e snd_conv using b by blast
  next
    case (Inr c)
    then obtain reg con where c: "c = c1\<lparr>cx_budget := b, cx_approvals := reg, cx_console := con\<rparr>"
      using mint_step_frame(1) [OF Inr] by auto
    obtain lg where "snd (finish H env req d out err c) = c\<lparr>cx_audit := lg\<rparr>" using finish_ctx by blast
    then have "snd (execute_step H env req execute d g ctx) = c\<lparr>cx_audit := lg\<rparr>"
      using e w Inr by (simp add: execute_step_def err_def out_def)
    then show ?thesis unfolding e snd_conv c using b by blast
  qed
qed

lemma run_tainted:
  assumes "tainted ctx" and "keeps_taint c"
  shows "tainted (do_call H c ctx)"
proof -
  let ?env = "call_env c" and ?req = "call_request c"
  have arm: "admit H ?env ?req ctx = Refused d m c' \<Longrightarrow> tainted c'" "admit H ?env ?req ctx = Raised x c' \<Longrightarrow> tainted c'"
    "admit H ?env ?req ctx = Admitted d g c' \<Longrightarrow> tainted c'" for d m x g c'
  proof -
    show "admit H ?env ?req ctx = Refused d m c' \<Longrightarrow> tainted c'"
      using assms(1)
      by (fastforce simp: admit_def Let_def split: if_splits option.splits gate.splits dest!: gates_frame(2))
    show "admit H ?env ?req ctx = Raised x c' \<Longrightarrow> tainted c'"
      using assms(1)
      by (fastforce simp: admit_def Let_def split: if_splits option.splits gate.splits dest!: gates_frame(3))
    show "admit H ?env ?req ctx = Admitted d g c' \<Longrightarrow> tainted c'"
      using assms(1) by (fastforce dest!: admit_Admitted(7) gates_frame(1))
  qed
  show ?thesis
  proof (cases "admit H ?env ?req ctx")
    case (Refused d m c')
    with arm(1) denied_ctx [of H ?env ?req d m c'] show ?thesis by (auto simp: do_call_def run_admit)
  next
    case (Raised x c')
    with arm(2) show ?thesis by (simp add: do_call_def run_admit)
  next
    case (Admitted d g c')
    then have "tainted (snd (call_tool c c'))"
      using arm(3) assms(2) by (auto simp: keeps_taint_def)
    with execute_step_ctx [of H ?env ?req "call_tool c" d g c'] Admitted show ?thesis
      by (auto simp: do_call_def run_admit)
  qed
qed

interpretation taint: stepwise "do_call H" keeps_taint tainted
  by unfold_locales (rule run_tainted)



subsection \<open>The action ceiling\<close>

definition keeps_budget :: "'w call \<Rightarrow> bool" where
  "keeps_budget c \<longleftrightarrow> (\<forall>ctx. cx_budget (snd (call_tool c ctx)) = cx_budget ctx)"

text \<open>Whether a call is admitted as an action: a real run at T1 or above.\<close>

definition is_action :: "(string \<Rightarrow> string) \<Rightarrow> 'w call \<Rightarrow> 'w exec_context \<Rightarrow> bool" where
  "is_action H c ctx =
     (case admit H (call_env c) (call_request c) ctx of
        Admitted d g ctx' \<Rightarrow> T1 \<le> d_tier d \<and> \<not> er_dry_run (call_request c)
      | _ \<Rightarrow> False)"

fun actions_executed :: "(string \<Rightarrow> string) \<Rightarrow> 'w call list \<Rightarrow> 'w exec_context \<Rightarrow> nat" where
  "actions_executed H [] ctx = 0"
| "actions_executed H (c # cs) ctx = of_bool (is_action H c ctx) + actions_executed H cs (do_call H c ctx)"

lemma gates_budget:
  assumes "gates H env req d ctx = Pass c" and "cx_budget ctx = Some b"
  shows "if T1 \<le> d_tier d \<and> \<not> er_dry_run req then \<exists>b'. charge b 1 (Fin 0) (Fin 0) = Inr b' \<and> cx_budget c = Some b'
    else cx_budget c = Some b"
proof -
  obtain ctx2 where g: "approval_gate H env req d ctx = Pass ctx2" "budget_gate env req d ctx2 = Pass c"
    using assms(1) by (rule gates_Pass)
  have "cx_budget ctx2 = Some b"
    using approval_gate_Pass(1) [OF g(1)] assms(2) by auto
  then show ?thesis
    using budget_gate_cases(4) [OF g(2)] g(2) by (auto simp: budget_gate_def split: if_splits)
qed

lemma spend_facts:
  assumes "record_spend b0 (Fin 0) (Fin (max 0 e)) = Inr b1" and "budget_inv b0" and "within_actions b0"
  shows "budget_inv b1" and "within_actions b1" and "actions b1 = actions b0" and "max_actions b1 = max_actions b0"
  using record_spend_inv [OF assms(1,2)] record_spend_frame [OF assms(1)] assms(3)
  by (auto simp: within_actions_def split: option.splits)

text \<open>One call on a context with a budget: an admitted action is counted, nothing else is.\<close>

lemma call_budget:
  assumes "keeps_budget c" and "cx_budget ctx = Some b" and "budget_inv b" and "within_actions b"
  shows "\<exists>b'. cx_budget (do_call H c ctx) = Some b' \<and> budget_inv b' \<and> within_actions b' \<and>
    actions b' = actions b + of_bool (is_action H c ctx) \<and> max_actions b' = max_actions b"
proof (cases "admit H (call_env c) (call_request c) ctx")
  case (Refused d m c')
  then have "cx_budget c' = Some b" using admit_frame(1) [OF Refused] assms(2) by auto
  with Refused denied_ctx [of H "call_env c" "call_request c" d m c'] assms show ?thesis
    by (auto simp: do_call_def run_admit is_action_def)
next
  case (Raised x c')
  with admit_frame(2) [OF Raised] assms show ?thesis
    by (auto simp: do_call_def run_admit is_action_def)
next
  case (Admitted d g c')
  let ?req = "call_request c"
  have g: "gates H (call_env c) ?req d (arm_taint ?req ctx) = Pass c'"
    using admit_Admitted(7) [OF Admitted] .
  obtain b1 where b1: "cx_budget c' = Some b1" "budget_inv b1" "within_actions b1" "max_actions b1 = max_actions b"
      "actions b1 = actions b + of_bool (T1 \<le> d_tier d \<and> \<not> er_dry_run ?req)"
  proof (cases "T1 \<le> d_tier d \<and> \<not> er_dry_run ?req")
    case True
    then obtain b' where b': "charge b 1 (Fin 0) (Fin 0) = Inr b'" "cx_budget c' = Some b'"
      using gates_budget [OF g] assms(2) by auto
    have "actions b' = actions b + 1" by (subst charge_Inr(4) [OF b'(1)]) simp
    with charge_inv [OF b'(1) assms(3)] charge_within [OF b'(1)] charge_limits [OF b'(1)] b'(2) True
    show ?thesis by (intro that [of b']) auto
  next
    case False
    with gates_budget [OF g] assms that show ?thesis by auto
  qed
  have "cx_budget (snd (call_tool c c')) = Some b1"
    using assms(1) b1(1) by (simp add: keeps_budget_def)
  then obtain b2 where b2: "record_spend b1 (Fin 0) (Fin (max 0 (re_elapsed (call_env c)))) = Inr b2"
      "cx_budget (do_call H c ctx) = Some b2"
    using execute_step_ctx [of H "call_env c" ?req "call_tool c" d g c'] Admitted
    by (auto simp: do_call_def run_admit)
  have "is_action H c ctx \<longleftrightarrow> T1 \<le> d_tier d \<and> \<not> er_dry_run ?req"
    using Admitted by (simp add: is_action_def)
  with spend_facts [OF b2(1) b1(2,3)] b2(2) b1 show ?thesis by simp
qed

lemma session_budget:
  "\<forall>c \<in> set calls. keeps_budget c \<Longrightarrow> cx_budget ctx = Some b \<Longrightarrow> budget_inv b \<Longrightarrow> within_actions b \<Longrightarrow>
   \<exists>b'. cx_budget (session H calls ctx) = Some b' \<and> budget_inv b' \<and> within_actions b' \<and>
     actions b' = actions b + int (actions_executed H calls ctx) \<and> max_actions b' = max_actions b"
proof (induction calls arbitrary: ctx b)
  case Nil
  then show ?case by (simp add: session_def)
next
  case (Cons c calls)
  obtain b1 where b1: "cx_budget (do_call H c ctx) = Some b1" "budget_inv b1" "within_actions b1"
      "actions b1 = actions b + of_bool (is_action H c ctx)" "max_actions b1 = max_actions b"
    using call_budget [of c ctx b H] Cons.prems by auto
  have "\<forall>c \<in> set calls. keeps_budget c" using Cons.prems(1) by simp
  from Cons.IH [OF this b1(1-3)] b1(4,5) show ?case by (auto simp: session_def)
qed


definition demo_call :: "unit call" where
  "demo_call = \<lparr>call_env = demo_run_env, call_request = demo_request T2, call_tool = demo_tool ''a''\<rparr>"

definition demo_tracker :: budget_tracker where
  "demo_tracker = \<lparr>max_actions = Some 1, max_usd = None, max_wall_seconds = None, actions = 0, usd = Fin 0, wall_seconds = Fin 0\<rparr>"


subsection \<open>From the dry run to the real run\<close>

lemma denied_not_ok: "denied H env req d m ctx = (Inr res, c) \<Longrightarrow> \<not> xr_ok res"
  by (auto simp: denied_def split: prod.splits sum.splits)

lemma finish_ok:
  "finish H env req d out err ctx = (Inr res, c) \<Longrightarrow> (xr_ok res \<longleftrightarrow> err = None) \<and> cx_approvals c = cx_approvals ctx"
  using finish_ctx [of H env req d out err ctx] by (auto simp: finish_def Let_def split: prod.splits sum.splits)

text \<open>A successful gated dry run minted the approval.\<close>

lemma dry_run_mints:
  assumes "run H env req execute ctx = (Inr res, ctx')" and "xr_ok res" and "er_dry_run req"
    and "gate_required (arm_taint req ctx) (request_decision ctx req)" and "\<not> multi_target_t3 req (request_decision ctx req)"
  shows "\<exists>aid reg. action_id H req = Some aid \<and>
    cx_approvals ctx' = mint reg (re_now env) (re_token env) aid (er_target req) (d_tier (request_decision ctx req)) PATTERNS_VERSION"
proof -
  obtain d g c where adm: "admit H env req ctx = Admitted d g c"
    using assms(1,2) by (auto simp: run_admit split: admission.splits dest: denied_not_ok)
  note d = admit_Admitted(1,6) [OF adm]
  obtain r c1 where e: "execute c = (r, c1)" by fastforce
  obtain b where w: "spend_wall env c1 = Inr (c1\<lparr>cx_budget := b\<rparr>)" using spend_wall_Inr by blast
  define err where "err = (case r of Inl exc \<Rightarrow> Some (bounded_error exc) | Inr _ \<Rightarrow> None)"
  define out where "out = (case r of Inl _ \<Rightarrow> [] | Inr t \<Rightarrow> t)"
  have x: "(case mint_step H env req d g err (c1\<lparr>cx_budget := b\<rparr>) of
      Inl (x, c3) \<Rightarrow> (Inl x, c3) | Inr c3 \<Rightarrow> finish H env req d out err c3) = (Inr res, ctx')"
    using assms(1) adm e w unfolding run_admit execute_step_def err_def out_def by (simp add: Let_def)
  then obtain c3 where m: "mint_step H env req d g err (c1\<lparr>cx_budget := b\<rparr>) = Inr c3"
    and f: "finish H env req d out err c3 = (Inr res, ctx')"
    by (auto split: sum.splits prod.splits)
  have "err = None" "cx_approvals ctx' = cx_approvals c3"
    using finish_ok [OF f] assms(2) by simp_all
  with m assms(3-5) d show ?thesis
    by (auto simp: mint_step_def surface_approval_def Let_def split: option.splits if_splits)
qed

lemma action_value_real: "action_value (req\<lparr>er_dry_run := False, er_approval := a\<rparr>) = action_value req"
  by (simp add: action_value_def split: option.split)


lemma demo_dry_run:
  "\<exists>res c. run (\<lambda>_. ''ab'') demo_run_env ((demo_request T2)\<lparr>er_dry_run := True, er_approval := None\<rparr>) (demo_tool ''a'') demo_context = (Inr res, c) \<and>
     xr_ok res \<and> \<not> is_consumed (cx_approvals c) ''new'' \<and> ttl_seconds (cx_approvals c) = 600"
proof -
  let ?H = "\<lambda>_::string. ''ab''" and ?req = "(demo_request T2)\<lparr>er_dry_run := True, er_approval := None\<rparr>"
  let ?d = "check OPEN ''x'' None T2"
  have aid: "action_id ?H ?req = Some ''ab''"
    using demo_action_id [of T2] by (simp add: action_id_def action_value_def demo_request_def)
  have w: "wf_request ?req" by (simp add: wf_request_def demo_request_def)
  have adm: "admit ?H demo_run_env ?req demo_context = Admitted ?d True demo_context"
    by (simp add: admit_def demo_context_def demo_run_env_def demo_request_def Let_def check_x_open is_tripped_def
        exceeds_consent_def gates_def approval_gate_def gate_required_def arm_taint_def
        contract_gate_def check_pre_def empty_contract_def hard_failures_def budget_gate_def tier_order)
  let ?c = "surface_approval demo_run_env ''x'' ''ab'' (Some ''h'') T2 ''new''
    (demo_context\<lparr>cx_approvals := mint demo_pending 5 ''new'' ''ab'' (Some ''h'') T2 PATTERNS_VERSION\<rparr>)"
  have "execute_step ?H demo_run_env ?req (demo_tool ''a'') ?d True demo_context = finish ?H demo_run_env ?req ?d ''a'' None ?c"
    using aid by (simp add: execute_step_def demo_tool_def spend_wall_def mint_step_def demo_context_def demo_request_def
        demo_run_env_def check_x_open multi_target_t3_def tier_order)
  then have r: "run ?H demo_run_env ?req (demo_tool ''a'') demo_context = finish ?H demo_run_env ?req ?d ''a'' None ?c"
    using adm by (simp add: run_admit)
  have au: "cx_audit ?c = cx_audit demo_context" by (simp add: surface_approval_def Let_def)
  have ap: "cx_approvals ?c = mint demo_pending 5 ''new'' ''ab'' (Some ''h'') T2 PATTERNS_VERSION"
    by (simp add: surface_approval_def Let_def)
  have "\<not> is_consumed (cx_approvals ?c) ''new'' \<and> ttl_seconds (cx_approvals ?c) = 600"
    unfolding ap by (simp add: mint_def purge_def Let_def demo_pending_def is_consumed_eq)
  then show ?thesis
    using finish_outcome [OF w, of ?H demo_run_env ?d "''a''" None ?c] demo_cannot_raise r au by auto
qed


end
