(* ===== verification/Merkle.thy ===== *)
theory Merkle
  imports Prelude
begin

section \<open>RFC 6962 Merkle trees (audit/merkle.py)\<close>

text \<open>
  Byte strings are \<^typ>\<open>string\<close>s; SHA-256 is the parameter \<open>D\<close> from bytes to the digest bytes.
  The loop that finds the split point is \<open>split_point\<close>. The theorem of the section: the root of a
  tree determines its leaves, their number and their order, as long as the digest has no collision
  among the inputs hashed for the trees compared; this is what the domain separation is for.
\<close>

abbreviation byte0 :: char where
  "byte0 \<equiv> CHR 0x00"

abbreviation byte1 :: char where
  "byte1 \<equiv> CHR 0x01"

definition EMPTY_ROOT :: "(string \<Rightarrow> string) \<Rightarrow> string" where
  "EMPTY_ROOT D = D []"

definition leaf_hash :: "(string \<Rightarrow> string) \<Rightarrow> string \<Rightarrow> string" where
  "leaf_hash D d = D (byte0 # d)"

definition node_hash :: "(string \<Rightarrow> string) \<Rightarrow> string \<Rightarrow> string \<Rightarrow> string" where
  "node_hash D left right = D (byte1 # left @ right)"

text \<open>\<^verbatim>\<open>while k * 2 < n: k *= 2\<close>; k is positive.\<close>

function split_point :: "nat \<Rightarrow> nat \<Rightarrow> nat" where
  "split_point k n = (if 0 < k \<and> k * 2 < n then split_point (k * 2) n else k)"
  by pat_completeness auto
termination
  by (relation "measure (\<lambda>(k, n). n - k)") auto

declare split_point.simps [simp del]

lemma split_point_bounds: "0 < k \<Longrightarrow> k < n \<Longrightarrow> 0 < split_point k n \<and> split_point k n < n"
proof (induction k n rule: split_point.induct)
  case (1 k n)
  then show ?case by (cases "k * 2 < n") (simp_all add: split_point.simps [of k n])
qed

function merkle_root :: "(string \<Rightarrow> string) \<Rightarrow> string list \<Rightarrow> string" where
  "merkle_root D leaves =
     (let n = length leaves in
      if n = 0 then EMPTY_ROOT D
      else if n = 1 then leaf_hash D (hd leaves)
      else let k = split_point 1 n
           in node_hash D (merkle_root D (take k leaves)) (merkle_root D (drop k leaves)))"
  by pat_completeness auto
termination
proof (relation "measure (\<lambda>(D, leaves). length leaves)", goal_cases)
  case (2 D leaves n k)
  then have "1 < length leaves" by linarith
  with 2 show ?case using split_point_bounds [of 1 "length leaves"] by auto
next
  case (3 D leaves n k)
  then have "1 < length leaves" by linarith
  with 3 show ?case using split_point_bounds [of 1 "length leaves"] by auto
qed simp

declare merkle_root.simps [simp del]

definition hex_byte :: "char \<Rightarrow> string" where
  "hex_byte c = [digit_char (ord c div 16), digit_char (ord c mod 16)]"

definition bytes_hex :: "string \<Rightarrow> string" where
  "bytes_hex s = concat (map hex_byte s)"

definition merkle_root_hex :: "(string \<Rightarrow> string) \<Rightarrow> string list \<Rightarrow> string" where
  "merkle_root_hex D leaves = bytes_hex (merkle_root D leaves)"

subsection \<open>The split point is the one of the RFC\<close>

text \<open>RFC 6962 splits at the largest power of two below the number of leaves.\<close>

lemma split_point_pow2:
  "k = 2 ^ i \<Longrightarrow> k < n \<Longrightarrow> \<exists>j. split_point k n = 2 ^ j \<and> 2 ^ j < n \<and> n \<le> 2 * 2 ^ j"
proof (induction k n arbitrary: i rule: split_point.induct)
  case (1 k n)
  show ?case
  proof (cases "k * 2 < n")
    case True
    have k: "0 < k" using "1.prems" by simp
    then have "split_point k n = split_point (k * 2) n" using True by (simp add: split_point.simps [of k n])
    with "1.IH" [of "Suc i"] "1.prems" True k show ?thesis by simp
  next
    case False
    then have "split_point k n = k" by (simp add: split_point.simps [of k n])
    with "1.prems" False show ?thesis by (intro exI [of _ i]) simp
  qed
qed

text \<open>The tree shape is that of RFC 6962: a list of at least two leaves is split at the largest
  power of two below its length, the empty list and a single leaf are hashed directly, and both
  subtrees are not empty.\<close>

theorem merkle_shape_rfc6962:
  assumes "2 \<le> length leaves"
  shows "\<exists>j. 2 ^ j < length leaves \<and> length leaves \<le> 2 * 2 ^ j \<and>
    merkle_root D leaves = D (byte1 # merkle_root D (take (2 ^ j) leaves) @ merkle_root D (drop (2 ^ j) leaves)) \<and>
    take (2 ^ j) leaves \<noteq> [] \<and> drop (2 ^ j) leaves \<noteq> []"
proof -
  obtain j where "split_point 1 (length leaves) = 2 ^ j" "2 ^ j < length leaves" "length leaves \<le> 2 * 2 ^ j"
    using split_point_pow2 [of 1 0 "length leaves"] assms by auto
  moreover have "leaves \<noteq> []" using assms by auto
  ultimately show ?thesis
    using assms by (intro exI [of _ j]) (auto simp: merkle_root.simps [of D leaves] node_hash_def Let_def)
qed

theorem merkle_shape_rfc6962_witness:
  "\<exists>j. 2 ^ j < length [''a'', ''b'', ''c''] \<and> length [''a'', ''b'', ''c''] \<le> 2 * 2 ^ j \<and>
     merkle_root id [''a'', ''b'', ''c''] =
       byte1 # merkle_root id (take (2 ^ j) [''a'', ''b'', ''c'']) @ merkle_root id (drop (2 ^ j) [''a'', ''b'', ''c''])"
  using merkle_shape_rfc6962 [of "[''a'', ''b'', ''c'']" id] by auto

subsection \<open>The root determines the leaves\<close>

text \<open>What is hashed at the root of a tree, and everything hashed in it.\<close>

definition root_input :: "(string \<Rightarrow> string) \<Rightarrow> string list \<Rightarrow> string" where
  "root_input D leaves =
     (if leaves = [] then []
      else if length leaves = 1 then byte0 # hd leaves
      else let k = split_point 1 (length leaves)
           in byte1 # merkle_root D (take k leaves) @ merkle_root D (drop k leaves))"

function merkle_inputs :: "(string \<Rightarrow> string) \<Rightarrow> string list \<Rightarrow> string set" where
  "merkle_inputs D leaves =
     insert (root_input D leaves)
       (if length leaves \<le> 1 then {}
        else let k = split_point 1 (length leaves)
             in merkle_inputs D (take k leaves) \<union> merkle_inputs D (drop k leaves))"
  by pat_completeness auto
termination
proof (relation "measure (\<lambda>(D, leaves). length leaves)", goal_cases)
  case (2 D leaves k)
  then show ?case using split_point_bounds [of 1 "length leaves"] by auto
next
  case (3 D leaves k)
  then show ?case using split_point_bounds [of 1 "length leaves"] by auto
qed simp

declare merkle_inputs.simps [simp del]

lemma merkle_root_input: "merkle_root D leaves = D (root_input D leaves)"
  by (auto simp: merkle_root.simps [of D leaves] root_input_def EMPTY_ROOT_def leaf_hash_def node_hash_def Let_def)

lemma root_input_in: "root_input D leaves \<in> merkle_inputs D leaves"
  by (subst merkle_inputs.simps) simp

lemma sub_inputs:
  assumes "1 < length leaves"
  shows "merkle_inputs D (take (split_point 1 (length leaves)) leaves) \<subseteq> merkle_inputs D leaves"
    and "merkle_inputs D (drop (split_point 1 (length leaves)) leaves) \<subseteq> merkle_inputs D leaves"
  using assms by (auto simp: merkle_inputs.simps [of D leaves] Let_def)

lemma merkle_root_inj:
  assumes "\<And>x. length (D x) = 32"
  shows "merkle_root D l1 = merkle_root D l2 \<Longrightarrow> inj_on D (merkle_inputs D l1 \<union> merkle_inputs D l2) \<Longrightarrow> l1 = l2"
proof (induction "length l1" arbitrary: l1 l2 rule: less_induct)
  case less
  have eq: "root_input D l1 = root_input D l2"
    using less.prems root_input_in [of D l1] root_input_in [of D l2]
    by (auto simp: merkle_root_input dest: inj_onD)
  show ?case
  proof (cases "1 < length l1")
    case False
    then consider "l1 = []" | x where "l1 = [x]" by (cases l1) auto
    then show ?thesis
      by cases (use eq in \<open>auto simp: root_input_def Let_def length_Suc_conv split: if_splits\<close>)
  next
    case True
    let ?k1 = "split_point 1 (length l1)" and ?k2 = "split_point 1 (length l2)"
    have i1: "root_input D l1 = byte1 # merkle_root D (take ?k1 l1) @ merkle_root D (drop ?k1 l1)"
      using True by (auto simp: root_input_def Let_def)
    with eq have l2: "1 < length l2"
      by (cases l2 rule: remdups_adj.cases) (auto simp: root_input_def)
    have i2: "root_input D l2 = byte1 # merkle_root D (take ?k2 l2) @ merkle_root D (drop ?k2 l2)"
      using l2 by (auto simp: root_input_def Let_def)
    have len: "length (merkle_root D xs) = 32" for xs
      by (simp add: merkle_root_input assms)
    from eq i1 i2 len have roots: "merkle_root D (take ?k1 l1) = merkle_root D (take ?k2 l2)"
        "merkle_root D (drop ?k1 l1) = merkle_root D (drop ?k2 l2)"
      by auto
    have b1: "0 < ?k1" "?k1 < length l1"
      using split_point_bounds [of 1 "length l1"] True by auto
    note s = sub_inputs [OF True, of D] sub_inputs [OF l2, of D]
    have "take ?k1 l1 = take ?k2 l2"
    proof (rule less.hyps [OF _ roots(1)])
      show "inj_on D (merkle_inputs D (take ?k1 l1) \<union> merkle_inputs D (take ?k2 l2))"
        by (rule inj_on_subset [OF less.prems(2)]) (use s in blast)
    qed (use b1 in simp)
    moreover have "drop ?k1 l1 = drop ?k2 l2"
    proof (rule less.hyps [OF _ roots(2)])
      show "inj_on D (merkle_inputs D (drop ?k1 l1) \<union> merkle_inputs D (drop ?k2 l2))"
        by (rule inj_on_subset [OF less.prems(2)]) (use s in blast)
    qed (use b1 in simp)
    ultimately show ?thesis by (metis append_take_drop_id)
  qed
qed

lemma hex_byte_inj: "hex_byte c = hex_byte d \<Longrightarrow> c = d"
proof -
  have b: "ord x div 16 < 16" for x by (simp add: ord_def less_mult_imp_div_less)
  assume "hex_byte c = hex_byte d"
  then have "ord c div 16 = ord d div 16" "ord c mod 16 = ord d mod 16"
    using b digit_char_inj [of "ord c mod 16" "ord d mod 16"] digit_char_inj [of "ord c div 16" "ord d div 16"]
    by (auto simp: hex_byte_def)
  then have "ord c = ord d" by (metis div_mult_mod_eq)
  then show "c = d" by (simp add: ord_def)
qed

lemma bytes_hex_inj: "bytes_hex s = bytes_hex t \<Longrightarrow> s = t"
proof (induction s arbitrary: t)
  case Nil
  then show ?case by (cases t) (auto simp: bytes_hex_def hex_byte_def)
next
  case (Cons c s)
  then obtain d u where t: "t = d # u" by (cases t) (auto simp: bytes_hex_def hex_byte_def)
  with Cons.prems have "hex_byte c = hex_byte d" "bytes_hex s = bytes_hex u"
    by (auto simp: bytes_hex_def hex_byte_def)
  with Cons.IH t show ?case by (simp add: hex_byte_inj)
qed

text \<open>A Merkle root commits to the leaves: two lists of leaves with the same root are equal, leaf
  by leaf and in the same order, whatever their lengths, provided the digest is 32 bytes long and
  has no collision among the inputs hashed for the two trees. A leaf can never pass for an inner
  node.\<close>

theorem merkle_root_commits:
  assumes "\<forall>x. length (D x) = 32" and "inj_on D (merkle_inputs D l1 \<union> merkle_inputs D l2)"
    and "merkle_root_hex D l1 = merkle_root_hex D l2"
  shows "l1 = l2"
  using assms merkle_root_inj [of D l1 l2] bytes_hex_inj [of "merkle_root D l1" "merkle_root D l2"]
  by (simp add: merkle_root_hex_def)

definition pad32 :: "string \<Rightarrow> string" where
  "pad32 x = take 32 (x @ replicate 32 CHR ''z'')"

theorem merkle_root_commits_witness:
  "(\<forall>x. length (pad32 x) = 32) \<and> inj_on pad32 (merkle_inputs pad32 [''a''] \<union> merkle_inputs pad32 [''b'']) \<and>
   merkle_root_hex pad32 [''a''] \<noteq> merkle_root_hex pad32 [''b'']"
proof -
  have l: "\<forall>x. length (pad32 x) = 32" by (auto simp: pad32_def min_def)
  have i: "inj_on pad32 (merkle_inputs pad32 [''a''] \<union> merkle_inputs pad32 [''b''])"
    by (simp add: merkle_inputs.simps root_input_def pad32_def numeral_eq_Suc)
  show ?thesis using l i merkle_root_commits [OF l i] by auto
qed

end
