(* ===== verification/Evidence.thy ===== *)
theory Evidence
  imports Merkle AuditLog
begin

section \<open>Evidence checkpoints over the audit log (audit/evidence.py, audit/rfc3161.py, audit/session.py)\<close>

text \<open>
  Checkpoints of the Merkle root, their verification, the anchor file and the scheduler that
  produces them as the log grows. SHA-256 is the parameter \<open>D\<close> from bytes to the digest bytes; the
  hexadecimal digest the audit log uses is \<open>hexdigest D\<close>. A stamper is its two operations; what the
  evidence layer relies on is the locale \<open>honest_stamper\<close>, interpreted on \<^verbatim>\<open>LocalStamper\<close>. The
  RFC 3161 client is built on third-party packages and is only such a stamper here; Rfc3161 models it.

  A file is absent, not readable, or a text. An append either succeeds, fails to open, or fails
  after some characters. Where the source reports the class of an exception, the model has its
  name; reading and writing errors are all \<^verbatim>\<open>OSError\<close>.
\<close>

definition hexdigest :: "(string \<Rightarrow> string) \<Rightarrow> string \<Rightarrow> string" where
  "hexdigest D b = bytes_hex (D b)"

datatype file_state = Absent | Unreadable | Text string

datatype append_outcome = Append_ok | Open_fails | Write_fails nat

fun append_file :: "append_outcome \<Rightarrow> string \<Rightarrow> file_state \<Rightarrow> bool \<times> file_state" where
  "append_file Open_fails s f = (False, f)"
| "append_file r s Unreadable = (r = Append_ok, Unreadable)"
| "append_file Append_ok s f = (True, Text ((case f of Text t \<Rightarrow> t | _ \<Rightarrow> []) @ s))"
| "append_file (Write_fails n) s f = (False, Text ((case f of Text t \<Rightarrow> t | _ \<Rightarrow> []) @ take n s))"

subsection \<open>Stampers\<close>

record stamper =
  sp_stamp :: "string \<Rightarrow> string \<Rightarrow> pyval option"    \<comment> \<open>digest, time; \<open>None\<close>: it raised\<close>
  sp_verify :: "string \<Rightarrow> pyval \<Rightarrow> bool"

definition local_stamp :: "string \<Rightarrow> string \<Rightarrow> pyval option" where
  "local_stamp digest_hex now =
     Some (PDict [(''tsa'', PStr ''local''), (''digest'', PStr digest_hex), (''ts'', PStr now)])"

definition local_verify :: "string \<Rightarrow> pyval \<Rightarrow> bool" where
  "local_verify digest_hex token \<longleftrightarrow>
     (case token of
        PDict t \<Rightarrow> map_of t ''tsa'' = Some (PStr ''local'') \<and> map_of t ''digest'' = Some (PStr digest_hex) \<and>
                   (case map_of t ''ts'' of Some (PStr _) \<Rightarrow> True | _ \<Rightarrow> False)
      | _ \<Rightarrow> False)"

definition local_stamper :: stamper where
  "local_stamper = \<lparr>sp_stamp = local_stamp, sp_verify = local_verify\<rparr>"

text \<open>\<^verbatim>\<open>select_stamper\<close>; \<open>read_cert\<close> reads the certificate file, \<open>rfc3161\<close> builds the client.\<close>

datatype stamper_error = Cert_missing | Cert_unreadable

definition select_stamper ::
  "(string \<Rightarrow> string option) \<Rightarrow> (string \<Rightarrow> string \<Rightarrow> stamper) \<Rightarrow> string option \<Rightarrow> string option \<Rightarrow> stamper_error + stamper" where
  "select_stamper read_cert rfc3161 tsa_url tsa_cert_path =
     (case tsa_url of
        None \<Rightarrow> Inr local_stamper
      | Some url \<Rightarrow>
          if url = [] then Inr local_stamper
          else (case tsa_cert_path of
                  None \<Rightarrow> Inl Cert_missing
                | Some path \<Rightarrow>
                    if path = [] then Inl Cert_missing
                    else (case read_cert path of
                            None \<Rightarrow> Inl Cert_unreadable
                          | Some pem \<Rightarrow> Inr (rfc3161 url pem))))"

subsection \<open>Checkpoints\<close>

definition GENESIS_CHECKPOINT :: string where
  "GENESIS_CHECKPOINT = replicate 64 CHR ''0''"

record merkle_checkpoint =
  cp_seq :: int
  cp_tree_size :: nat
  cp_root_sha256 :: string
  cp_ts :: string
  cp_token :: pyval
  cp_prev :: string
  cp_checkpoint_hash :: string

definition cp_payload :: "int \<Rightarrow> nat \<Rightarrow> string \<Rightarrow> string \<Rightarrow> pyval \<Rightarrow> string \<Rightarrow> (string \<times> pyval) list" where
  "cp_payload seq tree_size root_hex ts token prev =
     [(''seq'', PInt seq), (''tree_size'', PInt (int tree_size)), (''root_sha256'', PStr root_hex), (''ts'', PStr ts),
      (''token'', token), (''prev'', PStr prev)]"

definition cp_to_dict :: "merkle_checkpoint \<Rightarrow> pyval" where
  "cp_to_dict cp =
     PDict (cp_payload (cp_seq cp) (cp_tree_size cp) (cp_root_sha256 cp) (cp_ts cp) (cp_token cp) (cp_prev cp) @
            [(''checkpoint_hash'', PStr (cp_checkpoint_hash cp))])"

definition nonblank_lines :: "string \<Rightarrow> string list" where
  "nonblank_lines text = filter (\<lambda>l. py_strip l \<noteq> []) (splitlines text)"

definition leaves :: "string \<Rightarrow> string list" where
  "leaves text = map utf8_encode (nonblank_lines text)"

definition evidence_options :: dump_options where
  "evidence_options = \<lparr>ensure_ascii = True, item_sep = '','', key_sep = '':'', default_str = no_default\<rparr>"

text \<open>\<open>None\<close> is the \<^verbatim>\<open>TypeError\<close> of \<^verbatim>\<open>json.dumps\<close>.\<close>

definition checkpoint_hash :: "(string \<Rightarrow> string) \<Rightarrow> (string \<times> pyval) list \<Rightarrow> string option" where
  "checkpoint_hash D payload = map_option (sha256_text (hexdigest D)) (dumps evidence_options (PDict payload))"

text \<open>Exceptions, by the name the reports use.\<close>

type_synonym exc_name = string

definition int_error_name :: "int_error \<Rightarrow> exc_name" where
  "int_error_name e =
     (case e of Int_value_error \<Rightarrow> ''ValueError'' | Int_type_error \<Rightarrow> ''TypeError'' | Int_overflow_error \<Rightarrow> ''OverflowError'')"

fun load_all :: "string list \<Rightarrow> exc_name + pyval list" where
  "load_all [] = Inr []"
| "load_all (l # ls) =
     (case loads l of
        Inl _ \<Rightarrow> Inl ''JSONDecodeError''
      | Inr v \<Rightarrow> (case load_all ls of Inl x \<Rightarrow> Inl x | Inr vs \<Rightarrow> Inr (v # vs)))"

text \<open>\<^verbatim>\<open>_last_checkpoint\<close>: the previous hash and the next sequence number. A last line \<^verbatim>\<open>null\<close>
  counts as no checkpoint.\<close>

definition last_checkpoint :: "file_state \<Rightarrow> exc_name + string \<times> int" where
  "last_checkpoint evidence =
     (case evidence of
        Absent \<Rightarrow> Inr (GENESIS_CHECKPOINT, 0)
      | Unreadable \<Rightarrow> Inl ''OSError''
      | Text text \<Rightarrow>
          (case load_all (nonblank_lines text) of
             Inl x \<Rightarrow> Inl x
           | Inr vs \<Rightarrow>
               if vs = [] \<or> last vs = PNone then Inr (GENESIS_CHECKPOINT, 0)
               else (case last vs of
                       PDict d \<Rightarrow>
                         (case map_of d ''checkpoint_hash'' of
                            None \<Rightarrow> Inl ''KeyError''
                          | Some h \<Rightarrow>
                              (case map_of d ''seq'' of
                                 None \<Rightarrow> Inl ''KeyError''
                               | Some s \<Rightarrow>
                                   (case int_of_str (py_str s) of
                                      Inl e \<Rightarrow> Inl (int_error_name e)
                                    | Inr n \<Rightarrow> Inr (py_str h, n + 1))))
                     | _ \<Rightarrow> Inl ''TypeError'')))"

record checkpoint_env =
  ce_ts :: string
  ce_stamp_ts :: string
  ce_write :: append_outcome

definition make_checkpoint ::
  "(string \<Rightarrow> string) \<Rightarrow> stamper \<Rightarrow> checkpoint_env \<Rightarrow> file_state \<Rightarrow> file_state \<Rightarrow> (exc_name + merkle_checkpoint) \<times> file_state" where
  "make_checkpoint D S env audit evidence =
     (case audit of
        Text text \<Rightarrow>
          (let root_hex = merkle_root_hex D (leaves text) in
           case last_checkpoint evidence of
             Inl x \<Rightarrow> (Inl x, evidence)
           | Inr (prev, seq) \<Rightarrow>
               (case sp_stamp S root_hex (ce_stamp_ts env) of
                  None \<Rightarrow> (Inl ''StampError'', evidence)
                | Some token \<Rightarrow>
                    (case checkpoint_hash D (cp_payload seq (length (leaves text)) root_hex (ce_ts env) token prev) of
                       None \<Rightarrow> (Inl ''TypeError'', evidence)
                     | Some h \<Rightarrow>
                         (let cp = \<lparr>cp_seq = seq, cp_tree_size = length (leaves text), cp_root_sha256 = root_hex,
                                    cp_ts = ce_ts env, cp_token = token, cp_prev = prev, cp_checkpoint_hash = h\<rparr>
                          in case dumps evidence_options (cp_to_dict cp) of
                               None \<Rightarrow> (Inl ''TypeError'', evidence)
                             | Some line \<Rightarrow>
                                 (case append_file (ce_write env) (line @ newline) evidence of
                                    (ok, evidence') \<Rightarrow> (if ok then Inr cp else Inl ''OSError'', evidence'))))))
      | _ \<Rightarrow> (Inl ''OSError'', evidence))"

subsection \<open>Verification\<close>

record evidence_result =
  er_ok :: bool
  er_checkpoints :: nat
  er_reason :: "string option"

definition evidence_failure :: "nat \<Rightarrow> string \<Rightarrow> evidence_result" where
  "evidence_failure count reason = \<lparr>er_ok = False, er_checkpoints = count, er_reason = Some reason\<rparr>"

record evidence_state =
  es_prev :: string
  es_count :: nat
  es_last_tree_size :: int
  es_heads :: "(int \<times> string) list"

definition evidence_start :: evidence_state where
  "evidence_start = \<lparr>es_prev = GENESIS_CHECKPOINT, es_count = 0, es_last_tree_size = 0, es_heads = []\<rparr>"

definition unreadable :: "exc_name \<Rightarrow> string" where
  "unreadable x = ''evidence unreadable (fail-closed): '' @ x"

text \<open>The payload comprehension: \<open>None\<close> is the \<^verbatim>\<open>KeyError\<close>.\<close>

definition payload_keys :: "string list" where
  "payload_keys = [''seq'', ''tree_size'', ''root_sha256'', ''ts'', ''token'', ''prev'']"

definition payload_of_line :: "(string \<times> pyval) list \<Rightarrow> (string \<times> pyval) list option" where
  "payload_of_line cp =
     (if list_all (\<lambda>k. map_of cp k \<noteq> None) payload_keys
      then Some (map (\<lambda>k. (k, the (map_of cp k))) payload_keys) else None)"

text \<open>The body of the loop of \<^verbatim>\<open>verify_evidence\<close>; the expected sequence number is always the
  count.\<close>

definition evidence_line ::
  "(string \<Rightarrow> string) \<Rightarrow> stamper \<Rightarrow> string list \<Rightarrow> string \<Rightarrow> evidence_state \<Rightarrow> string + evidence_state" where
  "evidence_line D S lvs line st =
     (case loads line of
        Inl _ \<Rightarrow> Inl (unreadable ''JSONDecodeError'')
      | Inr (PDict cp) \<Rightarrow>
          if map_of cp ''prev'' \<noteq> Some (PStr (es_prev st)) then Inl ''checkpoint chain broken''
          else if (case map_of cp ''seq'' of None \<Rightarrow> True | Some v \<Rightarrow> \<not> py_eq v (PInt (int (es_count st))))
          then Inl ''checkpoint seq discontinuity''
          else (case payload_of_line cp of
                  None \<Rightarrow> Inl (unreadable ''KeyError'')
                | Some payload \<Rightarrow>
                    (case checkpoint_hash D payload of
                       None \<Rightarrow> Inl (unreadable ''TypeError'')
                     | Some h \<Rightarrow>
                         if map_of cp ''checkpoint_hash'' \<noteq> Some (PStr h) then Inl ''checkpoint hash mismatch''
                         else (case py_int (the (map_of cp ''tree_size'')) of
                                 Inl e \<Rightarrow> Inl (unreadable (int_error_name e))
                               | Inr tree_size \<Rightarrow>
                                   if tree_size < es_last_tree_size st \<or> int (length lvs) < tree_size
                                   then Inl ''checkpoint tree_size out of range''
                                   else if map_of cp ''root_sha256'' \<noteq> Some (PStr (merkle_root_hex D (take (nat tree_size) lvs)))
                                   then Inl ''merkle root mismatch (tamper detected)''
                                   else if \<not> sp_verify S (py_str (the (map_of cp ''root_sha256''))) (the (map_of cp ''token''))
                                   then Inl ''timestamp token invalid (fail-closed)''
                                   else Inr \<lparr>es_prev = h, es_count = es_count st + 1, es_last_tree_size = tree_size,
                                             es_heads = AList.update (int (es_count st)) h (es_heads st)\<rparr>)))
      | Inr _ \<Rightarrow> Inl (unreadable ''AttributeError''))"

fun evidence_loop ::
  "(string \<Rightarrow> string) \<Rightarrow> stamper \<Rightarrow> string list \<Rightarrow> string list \<Rightarrow> evidence_state \<Rightarrow> evidence_result + evidence_state" where
  "evidence_loop D S lvs [] st = Inr st"
| "evidence_loop D S lvs (l # ls) st =
     (case evidence_line D S lvs l st of
        Inl reason \<Rightarrow> Inl (evidence_failure (es_count st) reason)
      | Inr st' \<Rightarrow> evidence_loop D S lvs ls st')"

definition anchor_unreadable :: "exc_name \<Rightarrow> string option" where
  "anchor_unreadable x = Some (''anchor unreadable (fail-closed): '' @ x)"

definition anchor_failure :: "file_state \<Rightarrow> (int \<times> string) list \<Rightarrow> string option" where
  "anchor_failure anchor heads =
     (case anchor of
        Absent \<Rightarrow> if heads \<noteq> [] then Some ''anchor file missing while checkpoints exist (fail-closed)'' else None
      | Unreadable \<Rightarrow> anchor_unreadable ''OSError''
      | Text text \<Rightarrow>
          if nonblank_lines text = []
          then (if heads \<noteq> [] then Some ''anchor file empty while checkpoints exist (fail-closed)'' else None)
          else (case loads (last (nonblank_lines text)) of
                  Inl _ \<Rightarrow> anchor_unreadable ''JSONDecodeError''
                | Inr (PDict d) \<Rightarrow>
                    (case map_of d ''seq'' of
                       None \<Rightarrow> anchor_unreadable ''KeyError''
                     | Some v \<Rightarrow>
                         (case py_int v of
                            Inl e \<Rightarrow> anchor_unreadable (int_error_name e)
                          | Inr seq \<Rightarrow>
                              (case map_of d ''checkpoint_hash'' of
                                 None \<Rightarrow> anchor_unreadable ''KeyError''
                               | Some h \<Rightarrow>
                                   (case map_of heads seq of
                                      None \<Rightarrow> Some ''anchored checkpoint absent from evidence (truncated below high-water mark)''
                                    | Some present \<Rightarrow>
                                        if present \<noteq> py_str h
                                        then Some ''anchored checkpoint hash mismatch (evidence rewritten)'' else None))))
                | Inr _ \<Rightarrow> anchor_unreadable ''TypeError''))"

definition with_anchor :: "file_state option \<Rightarrow> (int \<times> string) list \<Rightarrow> nat \<Rightarrow> evidence_result" where
  "with_anchor anchor heads count =
     (case anchor of
        None \<Rightarrow> \<lparr>er_ok = True, er_checkpoints = count, er_reason = None\<rparr>
      | Some a \<Rightarrow>
          (case anchor_failure a heads of
             None \<Rightarrow> \<lparr>er_ok = True, er_checkpoints = count, er_reason = None\<rparr>
           | Some failure \<Rightarrow> evidence_failure count failure))"

text \<open>\<^verbatim>\<open>verify_evidence\<close>; the only exception is the \<^verbatim>\<open>AttributeError\<close> of \<^verbatim>\<open>verify_chain\<close>, which is
  called outside the containment.\<close>

definition verify_evidence ::
  "(string \<Rightarrow> string) \<Rightarrow> stamper \<Rightarrow> file_state \<Rightarrow> file_state \<Rightarrow> file_state option \<Rightarrow> verify_stop + evidence_result" where
  "verify_evidence D S audit evidence anchor =
     (case verify_chain (hexdigest D) (case audit of Text t \<Rightarrow> Some t | _ \<Rightarrow> None) of
        Inl x \<Rightarrow> Inl x
      | Inr chain \<Rightarrow>
          if \<not> vr_ok chain
          then Inr (evidence_failure 0 (''audit hash chain broken: '' @ (case vr_reason chain of Some r \<Rightarrow> r | None \<Rightarrow> ''None'')))
          else let lvs = (case audit of Text t \<Rightarrow> leaves t | _ \<Rightarrow> []) in
            (case evidence of
               Absent \<Rightarrow> Inr (with_anchor anchor [] 0)
             | Unreadable \<Rightarrow> Inr (evidence_failure 0 (unreadable ''OSError''))
             | Text text \<Rightarrow>
                 (case evidence_loop D S lvs (nonblank_lines text) evidence_start of
                    Inl r \<Rightarrow> Inr r
                  | Inr st \<Rightarrow>
                      if 0 < es_count st \<and> es_last_tree_size st \<noteq> int (length lvs)
                      then Inr (evidence_failure (es_count st) ''checkpoints do not cover the full audit log (uncovered tail)'')
                      else Inr (with_anchor anchor (es_heads st) (es_count st)))))"

subsection \<open>The anchor and the scheduler\<close>

definition anchor_dict :: "merkle_checkpoint \<Rightarrow> pyval" where
  "anchor_dict cp =
     PDict [(''seq'', PInt (cp_seq cp)), (''tree_size'', PInt (int (cp_tree_size cp))),
            (''root_sha256'', PStr (cp_root_sha256 cp)), (''checkpoint_hash'', PStr (cp_checkpoint_hash cp))]"

definition write_anchor :: "append_outcome \<Rightarrow> merkle_checkpoint \<Rightarrow> file_state \<Rightarrow> bool \<times> file_state" where
  "write_anchor r cp anchor =
     (case dumps evidence_options (anchor_dict cp) of
        None \<Rightarrow> (False, anchor)
      | Some line \<Rightarrow> append_file r (line @ newline) anchor)"

record scheduler =
  sc_every :: int
  sc_pending :: int
  sc_audit :: file_state
  sc_evidence :: file_state
  sc_anchor :: "file_state option"
  sc_notes :: "string list"

record scheduler_env =
  se_checkpoint :: checkpoint_env
  se_anchor :: append_outcome

definition checkpoint_locked :: "(string \<Rightarrow> string) \<Rightarrow> stamper \<Rightarrow> scheduler_env \<Rightarrow> scheduler \<Rightarrow> scheduler" where
  "checkpoint_locked D S env sc =
     (let sc = sc\<lparr>sc_pending := 0\<rparr> in
      if sc_audit sc = Absent then sc
      else case make_checkpoint D S (se_checkpoint env) (sc_audit sc) (sc_evidence sc) of
        (Inl x, evidence') \<Rightarrow>
          sc\<lparr>sc_evidence := evidence', sc_notes := sc_notes sc @ [''checkpoint failed'']\<rparr>
      | (Inr cp, evidence') \<Rightarrow>
          (let sc = sc\<lparr>sc_evidence := evidence'\<rparr> in
           case sc_anchor sc of
             None \<Rightarrow> sc
           | Some a \<Rightarrow>
               (case write_anchor (se_anchor env) cp a of
                  (ok, a') \<Rightarrow>
                    (let sc = sc\<lparr>sc_anchor := Some a'\<rparr>
                     in if ok then sc else sc\<lparr>sc_notes := sc_notes sc @ [''anchor write failed'']\<rparr>))))"

definition on_record :: "(string \<Rightarrow> string) \<Rightarrow> stamper \<Rightarrow> scheduler_env \<Rightarrow> scheduler \<Rightarrow> scheduler" where
  "on_record D S env sc =
     (if sc_every sc \<le> 0 then sc
      else let sc = sc\<lparr>sc_pending := sc_pending sc + 1\<rparr>
           in if sc_every sc \<le> sc_pending sc then checkpoint_locked D S env sc else sc)"

definition finalize :: "(string \<Rightarrow> string) \<Rightarrow> stamper \<Rightarrow> scheduler_env \<Rightarrow> scheduler \<Rightarrow> scheduler" where
  "finalize D S env sc = (if 0 < sc_pending sc then checkpoint_locked D S env sc else sc)"

subsection \<open>The session header\<close>

record session_header =
  sh_praxis_version :: string
  sh_binary_sha256 :: string
  sh_patterns_version :: int
  sh_started_at :: string

text \<open>\<^verbatim>\<open>server_binary_hash\<close> over the package files, as (relative path, content) in sorted order.\<close>

definition server_binary_hash :: "(string \<Rightarrow> string) \<Rightarrow> (string \<times> string) list \<Rightarrow> string" where
  "server_binary_hash H files = H (concat (map (\<lambda>(path, content). utf8_encode path @ byte0 # content @ [byte0]) files))"

definition session_args :: "session_header \<Rightarrow> (string \<times> pyval) list" where
  "session_args h =
     [(''praxis_version'', PStr (sh_praxis_version h)), (''binary_sha256'', PStr (sh_binary_sha256 h)),
      (''started_at'', PStr (sh_started_at h))]"

text \<open>\<^verbatim>\<open>bind_session\<close>: the colliding retention keys, or the record.\<close>

definition bind_session ::
  "(string \<Rightarrow> string) \<Rightarrow> write_env \<Rightarrow> session_header \<Rightarrow> (string \<times> int) list option \<Rightarrow> audit_logger \<Rightarrow>
   (string list + (audit_exc + audit_record)) \<times> audit_logger" where
  "bind_session H env h retention lg =
     (let args = session_args h;
          extra = (case retention of None \<Rightarrow> [] | Some r \<Rightarrow> r);
          collisions = sort (remdups (filter (\<lambda>k. k \<in> set (keys args)) (keys extra)))
      in if collisions \<noteq> [] then (Inl collisions, lg)
         else apfst Inr (record_entry H env
                \<lparr>en_tool = ''praxis'', en_tier = ''T0'', en_decision = ''session'',
                 en_args = fold (\<lambda>(k, n) d. AList.update k (PInt n) d) extra args,
                 en_output_sha256 = EMPTY_SHA256 H, en_output_len = 0, en_target = None, en_error = None,
                 en_request_id = None, en_client_id = None, en_patterns_version = sh_patterns_version h\<rparr> lg))"

end
