(* ===== verification/EvidenceChain.thy ===== *)
theory EvidenceChain
  imports Evidence "HOL-Library.Sublist"
begin

section \<open>What the evidence shows\<close>

text \<open>
  The proofs about \<^verbatim>\<open>Evidence\<close>: evidence the scheduler writes as the log grows verifies, a log
  that verifies against an anchored checkpoint has the anchored prefix, and when
  \<^verbatim>\<open>verify_evidence\<close> raises.
\<close>

subsection \<open>Lines in the evidence and the anchor\<close>

lemma escape_ascii: "x \<in> set (escape_char True c) \<Longrightarrow> plain x"
proof (cases "short_escape (ord c)")
  case (Some e)
  moreover assume "x \<in> set (escape_char True c)"
  ultimately show ?thesis
    by (auto simp: escape_char_def short_escape.simps plain_def split: if_splits) (simp_all add: ord_def)
next
  case None
  moreover assume "x \<in> set (escape_char True c)"
  ultimately show ?thesis
    by (auto simp: escape_char_def hex2_def less_16_plain split: if_splits) (simp_all add: plain_def, simp_all add: ord_def)
qed

lemma dumps_str_ascii: "x \<in> set (dumps_str True s) \<Longrightarrow> plain x"
  by (auto simp: dumps_str_def dest: escape_ascii) (simp_all add: plain_def)

lemma dumps_ascii: "wf_val v \<Longrightarrow> dumps evidence_options v = Some t \<Longrightarrow> x \<in> set t \<Longrightarrow> plain x"
proof (induction v arbitrary: t)
  case (PList vs)
  then obtain ts where ts: "dumps_items evidence_options vs = Some ts" and t: "t = ''['' @ py_join '','' ts @ '']''"
    by (auto simp: evidence_options_def split: option.splits)
  from t PList.prems(3) set_py_join [of "'',''" ts] have "plain x \<or> (\<exists>u \<in> set ts. x \<in> set u)" by auto
  then show ?case
    using PList.IH PList.prems(1) dumps_items_Some [OF ts] by fastforce
next
  case (PDict kvs)
  then obtain ms where ms: "dumps_members evidence_options kvs = Some ms"
    and t: "t = ''{'' @ py_join '','' (map (\<lambda>(k, u). dumps_str True k @ '':'' @ u) (sort_key fst ms)) @ ''}''"
    by (auto simp: evidence_options_def split: option.splits)
  from t PDict.prems(3) set_py_join [of "'',''" "map (\<lambda>(k, u). dumps_str True k @ '':'' @ u) (sort_key fst ms)"]
  have "plain x \<or> (\<exists>(k, u) \<in> set ms. x \<in> set (dumps_str True k) \<or> x \<in> set u)"
    by (fastforce dest: subsetD)
  then show ?case
  proof
    assume "\<exists>(k, u) \<in> set ms. x \<in> set (dumps_str True k) \<or> x \<in> set u"
    then obtain k v where kv: "(k, v) \<in> set kvs" and
        x: "x \<in> set (dumps_str True k) \<or> x \<in> set (the (dumps evidence_options v))" and
        d: "dumps evidence_options v \<noteq> None"
      using dumps_members_Some [OF ms] by auto
    from kv PDict.prems(1) have "wf_val v" by auto
    with kv x d PDict.IH [of "(k, v)" v] show ?case by (auto dest!: dumps_str_ascii)
  qed simp
qed (auto simp: evidence_options_def no_default_def float_text_plain plain_int_str split: option.splits if_splits
    dest!: dumps_str_ascii, simp_all add: plain_def ord_def)

lemma dict_line_good:
  assumes "wf_val (PDict d)" and t: "dumps evidence_options (PDict d) = Some t"
  shows "good_line t"
proof -
  obtain body where b: "t = CHR ''{'' # body @ ''}''"
    using t by (auto split: option.splits)
  have "py_strip t = t"
    unfolding b by (rule py_strip_id) (simp_all add: is_space_def char_between_def ord_def)
  with b dumps_ascii [OF assms] plain_not_break show ?thesis by (auto simp: good_line_def)
qed

lemma nonblank_file_of: "\<forall>l \<in> set ls. good_line l \<Longrightarrow> nonblank_lines (file_of ls) = ls"
  using splitlines_lines [of ls] by (auto simp: nonblank_lines_def file_of_def good_line_def intro!: filter_True)

lemma no_default_evidence [simp]: "default_str evidence_options = no_default"
  by (simp add: evidence_options_def)

lemma parse_written:
  assumes "wf_val (PDict d)" and "dumps evidence_options (PDict d) = Some t"
  shows "\<exists>kvs. loads t = Inr (PDict kvs) \<and> (\<forall>k. map_of kvs k = map_option (json_norm no_default) (map_of d k))"
proof -
  have s: "separators_ok evidence_options" by (simp add: separators_ok_def evidence_options_def)
  obtain kvs where k: "json_norm no_default (PDict d) = PDict kvs" by simp
  from loads_dumps [OF assms(1) s assms(2)] k have "loads t = Inr (PDict kvs)" by simp
  with norm_dict_members [OF k] assms(1) show ?thesis by auto
qed

subsection \<open>A checkpoint that was written is read back\<close>

locale honest_stamper =
  fixes S :: stamper
  assumes stamped: "sp_stamp S d now = Some tok \<Longrightarrow> wf_val tok \<and> opaques tok = {} \<and> sp_verify S d (json_norm no_default tok)"
begin

lemma stamped_payload_wf: "sp_stamp S d now = Some tok \<Longrightarrow> wf_val (PDict (cp_payload n m r ts tok prev))"
  using stamped by (auto simp: cp_payload_def)

lemma payload_hash: "sp_stamp S d now = Some tok \<Longrightarrow> \<exists>h. checkpoint_hash D (cp_payload n m r ts tok prev) = Some h"
  using stamped [of d now tok] dumps_defined [of "PDict (cp_payload n m r ts tok prev)" evidence_options]
  by (auto simp: checkpoint_hash_def cp_payload_def)

end

lemma hash_of_normalised:
  "checkpoint_hash D (cp_payload n m r ts (json_norm no_default tok) prev) = checkpoint_hash D (cp_payload n m r ts tok prev)"
proof -
  have "dumps_members evidence_options (map (\<lambda>(k, v). (k, json_norm no_default v)) (cp_payload n m r ts tok prev)) =
      dumps_members evidence_options (cp_payload n m r ts tok prev)"
    using dumps_norm [of evidence_options] by (intro dumps_members_map) simp
  then show ?thesis by (simp add: checkpoint_hash_def cp_payload_def del: dumps_members.simps)
qed

context honest_stamper
begin

lemma written_line:
  assumes tok: "sp_stamp S root_hex now = Some tok" and "checkpoint_hash D (cp_payload (int n) m root_hex ts tok prev) = Some h"
    and cp: "cp = \<lparr>cp_seq = int n, cp_tree_size = m, cp_root_sha256 = root_hex, cp_ts = ts, cp_token = tok, cp_prev = prev, cp_checkpoint_hash = h\<rparr>"
  shows "\<exists>line. dumps evidence_options (cp_to_dict cp) = Some line \<and> good_line line \<and>
    (\<exists>kvs. loads line = Inr (PDict kvs) \<and> map_of kvs ''seq'' = Some (PInt (int n)) \<and>
       map_of kvs ''checkpoint_hash'' = Some (PStr h) \<and> map_of kvs ''prev'' = Some (PStr prev) \<and>
       map_of kvs ''tree_size'' = Some (PInt (int m)) \<and> map_of kvs ''root_sha256'' = Some (PStr root_hex) \<and>
       map_of kvs ''token'' = Some (json_norm no_default tok) \<and>
       payload_of_line kvs = Some (cp_payload (int n) m root_hex ts (json_norm no_default tok) prev))"
proof -
  let ?d = "cp_payload (int n) m root_hex ts tok prev @ [(''checkpoint_hash'', PStr h)]"
  have d: "cp_to_dict cp = PDict ?d" by (simp add: cp_to_dict_def cp)
  have wf: "wf_val (PDict ?d)" using stamped [OF tok] by (auto simp: cp_payload_def)
  obtain line where line: "dumps evidence_options (PDict ?d) = Some line"
    using dumps_defined [of "PDict ?d" evidence_options] stamped [OF tok] by (auto simp: cp_payload_def)
  obtain kvs where k: "loads line = Inr (PDict kvs)" and m: "\<And>k. map_of kvs k = map_option (json_norm no_default) (map_of ?d k)"
    using parse_written [OF wf line] by blast
  have "payload_of_line kvs = Some (cp_payload (int n) m root_hex ts (json_norm no_default tok) prev)"
    by (simp add: payload_of_line_def payload_keys_def m) (simp add: cp_payload_def)
  with k m line d dict_line_good [OF wf line] show ?thesis
    by (auto simp: cp_payload_def)
qed

lemma written_line_verifies:
  assumes "sp_stamp S root_hex now = Some tok" and h: "checkpoint_hash D (cp_payload (int (es_count st)) m root_hex ts tok (es_prev st)) = Some h"
    and "dumps evidence_options (cp_to_dict \<lparr>cp_seq = int (es_count st), cp_tree_size = m, cp_root_sha256 = root_hex, cp_ts = ts,
       cp_token = tok, cp_prev = es_prev st, cp_checkpoint_hash = h\<rparr>) = Some line"
    and "root_hex = merkle_root_hex D (take m lvs)" and "es_last_tree_size st \<le> int m" and "m \<le> length lvs"
  shows "evidence_line D S lvs line st =
    Inr \<lparr>es_prev = h, es_count = es_count st + 1, es_last_tree_size = int m,
         es_heads = AList.update (int (es_count st)) h (es_heads st)\<rparr>"
  using written_line [OF assms(1) h refl] assms(3-6) stamped [OF assms(1)] h
  by (auto simp: evidence_line_def hash_of_normalised py_str_def)

end

interpretation local: honest_stamper local_stamper
  by unfold_locales (auto simp: local_stamper_def local_stamp_def local_verify_def)

subsection \<open>The evidence file as it grows\<close>

lemma int_digits_all: "ds \<noteq> [] \<Longrightarrow> \<forall>c \<in> set ds. is_digit c \<Longrightarrow> int_digits ds = Some ds"
  by (induction ds rule: int_digits.induct) (auto simp: is_digit_def char_between_def ord_def)

lemma digit_not_space: "is_digit c \<Longrightarrow> \<not> is_space c \<and> c \<noteq> CHR ''-'' \<and> c \<noteq> CHR ''+''"
  by (auto simp: is_digit_def is_space_def char_between_def ord_def)

lemma int_of_str_nat: "int_of_str (nat_str n) = Inr (int n)"
proof -
  have d: "\<forall>c \<in> set (nat_str n). is_digit c" using is_digit_nat_str by blast
  obtain c cs where c: "nat_str n = c # cs" using nat_str_not_Nil [of n] by (cases "nat_str n") auto
  have "py_strip (nat_str n) = nat_str n"
    by (rule py_strip_id) (use d digit_not_space c in \<open>auto simp: last_in_set\<close>)
  then show ?thesis
    using c d digit_not_space [of c] int_digits_all [of "nat_str n"] digits_value_nat_str [of n]
    by (simp add: int_of_str_def)
qed

lemma int_of_str_int_str: "int_of_str (int_str (int n)) = Inr (int n)"
  by (simp add: int_str_def int_of_str_nat)

lemma evidence_loop_append:
  "evidence_loop D S lvs (ls @ ls') st =
   (case evidence_loop D S lvs ls st of Inl r \<Rightarrow> Inl r | Inr st' \<Rightarrow> evidence_loop D S lvs ls' st')"
  by (induction ls arbitrary: st) (auto split: sum.splits)

text \<open>What a line that verifies has.\<close>

definition line_ok ::
  "(string \<Rightarrow> string) \<Rightarrow> stamper \<Rightarrow> string list \<Rightarrow> evidence_state \<Rightarrow> (string \<times> pyval) list \<Rightarrow> (string \<times> pyval) list \<Rightarrow> string \<Rightarrow> int \<Rightarrow> bool" where
  "line_ok D S lvs st cp payload h n \<longleftrightarrow>
     map_of cp ''prev'' = Some (PStr (es_prev st)) \<and>
     (case map_of cp ''seq'' of None \<Rightarrow> False | Some v \<Rightarrow> py_eq v (PInt (int (es_count st)))) \<and>
     payload_of_line cp = Some payload \<and> checkpoint_hash D payload = Some h \<and>
     map_of cp ''checkpoint_hash'' = Some (PStr h) \<and> py_int (the (map_of cp ''tree_size'')) = Inr n \<and>
     es_last_tree_size st \<le> n \<and> n \<le> int (length lvs) \<and>
     map_of cp ''root_sha256'' = Some (PStr (merkle_root_hex D (take (nat n) lvs))) \<and>
     sp_verify S (merkle_root_hex D (take (nat n) lvs)) (the (map_of cp ''token''))"

definition next_state :: "string \<Rightarrow> int \<Rightarrow> evidence_state \<Rightarrow> evidence_state" where
  "next_state h n st =
     \<lparr>es_prev = h, es_count = es_count st + 1, es_last_tree_size = n, es_heads = AList.update (int (es_count st)) h (es_heads st)\<rparr>"

lemma evidence_lineD:
  "evidence_line D S lvs l st = Inr st' \<Longrightarrow>
   \<exists>cp payload h n. loads l = Inr (PDict cp) \<and> line_ok D S lvs st cp payload h n \<and> st' = next_state h n st"
  by (auto simp: evidence_line_def line_ok_def next_state_def py_str_def not_less
      split: sum.splits pyval.splits if_splits option.splits)

lemma evidence_lineI:
  "loads l = Inr (PDict cp) \<Longrightarrow> line_ok D S lvs st cp payload h n \<Longrightarrow> evidence_line D S lvs l st = Inr (next_state h n st)"
  by (auto simp: evidence_line_def line_ok_def next_state_def py_str_def split: option.splits)

lemma evidence_line_size:
  "evidence_line D S lvs l st = Inr st' \<Longrightarrow>
   es_last_tree_size st \<le> es_last_tree_size st' \<and> es_last_tree_size st' \<le> int (length lvs) \<and> es_count st' = es_count st + 1"
  by (auto simp: line_ok_def next_state_def dest!: evidence_lineD)

lemma take_prefix: "prefix xs ys \<Longrightarrow> n \<le> length xs \<Longrightarrow> take n ys = take n xs"
  by (auto simp: prefix_def)

text \<open>Checkpoints of a log stay good when the log grows.\<close>

lemma evidence_line_grow:
  assumes "evidence_line D S lvs l st = Inr st'" and p: "prefix lvs lvs'"
  shows "evidence_line D S lvs' l st = Inr st'"
proof -
  obtain cp payload h n where l: "loads l = Inr (PDict cp)" and ok: "line_ok D S lvs st cp payload h n"
    and st': "st' = next_state h n st"
    using evidence_lineD [OF assms(1)] by blast
  have "nat n \<le> length lvs" using ok unfolding line_ok_def by linarith
  then have "line_ok D S lvs' st cp payload h n"
    using ok take_prefix [OF p] prefix_length_le [OF p] by (simp add: line_ok_def)
  from evidence_lineI [OF l this] st' show ?thesis by simp
qed

lemma evidence_loop_grow:
  "evidence_loop D S lvs ls st = Inr st' \<Longrightarrow> prefix lvs lvs' \<Longrightarrow> evidence_loop D S lvs' ls st = Inr st'"
  by (induction ls arbitrary: st) (auto split: sum.splits dest: evidence_line_grow)

lemma load_all_append:
  "load_all (ls @ ls') = (case load_all ls of Inl x \<Rightarrow> Inl x
     | Inr vs \<Rightarrow> (case load_all ls' of Inl x \<Rightarrow> Inl x | Inr vs' \<Rightarrow> Inr (vs @ vs')))"
  by (induction ls) (auto split: sum.splits)

lemma load_all_loop: "evidence_loop D S lvs ls st = Inr st' \<Longrightarrow> \<exists>vs. load_all ls = Inr vs"
proof (induction ls arbitrary: st)
  case (Cons l ls)
  then obtain st1 where l: "evidence_line D S lvs l st = Inr st1" and r: "evidence_loop D S lvs ls st1 = Inr st'"
    by (auto split: sum.splits)
  from l obtain v where "loads l = Inr v" by (auto simp: evidence_line_def split: sum.splits)
  with Cons.IH [OF r] show ?case by auto
qed simp

definition evidence_written ::
  "(string \<Rightarrow> string) \<Rightarrow> stamper \<Rightarrow> string list \<Rightarrow> file_state \<Rightarrow> evidence_state \<Rightarrow> bool" where
  "evidence_written D S lvs ev st \<longleftrightarrow>
     (ev = Absent \<and> st = evidence_start \<or>
      (\<exists>ls. ev = Text (file_of ls) \<and> (\<forall>l \<in> set ls. good_line l) \<and> evidence_loop D S lvs ls evidence_start = Inr st)) \<and>
     last_checkpoint ev = Inr (es_prev st, int (es_count st)) \<and> es_last_tree_size st \<le> int (length lvs)"

lemma evidence_written_start: "evidence_written D S [] Absent evidence_start"
  by (simp add: evidence_written_def last_checkpoint_def evidence_start_def)

context honest_stamper
begin

lemma checkpoint_extends:
  assumes w: "evidence_written D S lvs ev st" and p: "prefix lvs (leaves text)"
    and tok: "sp_stamp S (merkle_root_hex D (leaves text)) (ce_stamp_ts env) = Some tok" and "ce_write env = Append_ok"
  shows "\<exists>cp ev' st'. make_checkpoint D S env (Text text) ev = (Inr cp, ev') \<and> evidence_written D S (leaves text) ev' st' \<and>
    es_count st' = es_count st + 1 \<and> es_last_tree_size st' = int (length (leaves text)) \<and>
    map_of (es_heads st') (int (es_count st)) = Some (cp_checkpoint_hash cp) \<and> cp_seq cp = int (es_count st) \<and> ev' \<noteq> Absent"
proof -
  let ?lvs = "leaves text" and ?root = "merkle_root_hex D (leaves text)" and ?n = "int (es_count st)"
  obtain h where h: "checkpoint_hash D (cp_payload ?n (length ?lvs) ?root (ce_ts env) tok (es_prev st)) = Some h"
    using payload_hash [OF tok] by blast
  let ?cp = "\<lparr>cp_seq = ?n, cp_tree_size = length ?lvs, cp_root_sha256 = ?root, cp_ts = ce_ts env,
     cp_token = tok, cp_prev = es_prev st, cp_checkpoint_hash = h\<rparr>"
  obtain line kvs where line: "dumps evidence_options (cp_to_dict ?cp) = Some line" "good_line line"
    and kvs: "loads line = Inr (PDict kvs)" "map_of kvs ''seq'' = Some (PInt ?n)" "map_of kvs ''checkpoint_hash'' = Some (PStr h)"
    using written_line [OF tok h refl] by blast
  obtain ls where ls: "\<forall>l \<in> set ls. good_line l" "evidence_loop D S lvs ls evidence_start = Inr st"
    and ev: "ev = Absent \<and> ls = [] \<or> ev = Text (file_of ls)"
    using w by (auto simp: evidence_written_def)
  have last: "last_checkpoint ev = Inr (es_prev st, ?n)" and size: "es_last_tree_size st \<le> int (length ?lvs)"
    using w prefix_length_le [OF p] by (auto simp: evidence_written_def)
  have mk: "make_checkpoint D S env (Text text) ev = (Inr ?cp, Text (file_of (ls @ [line])))"
    using tok h last line(1) assms(4) ev by (auto simp: make_checkpoint_def Let_def)
  let ?st = "\<lparr>es_prev = h, es_count = es_count st + 1, es_last_tree_size = int (length ?lvs),
     es_heads = AList.update ?n h (es_heads st)\<rparr>"
  have loop: "evidence_loop D S ?lvs (ls @ [line]) evidence_start = Inr ?st"
    using evidence_loop_grow [OF ls(2) p] written_line_verifies [OF tok h line(1), where lvs = ?lvs] size
    by (simp add: evidence_loop_append)
  have good: "\<forall>l \<in> set (ls @ [line]). good_line l" using ls(1) line(2) by auto
  obtain vs where "load_all ls = Inr vs" using load_all_loop [OF ls(2)] by blast
  then have "load_all (ls @ [line]) = Inr (vs @ [PDict kvs])" using kvs(1) by (simp add: load_all_append)
  then have "last_checkpoint (Text (file_of (ls @ [line]))) = Inr (h, ?n + 1)"
    using nonblank_file_of [OF good] kvs by (simp add: last_checkpoint_def py_str_def int_of_str_int_str del: file_of_simps)
  then have "evidence_written D S ?lvs (Text (file_of (ls @ [line]))) ?st"
    unfolding evidence_written_def using loop good by (auto simp del: file_of_simps intro!: exI [of _ "ls @ [line]"])
  with mk show ?thesis by (intro exI conjI) (assumption | simp add: update_conv' | simp add: file_of_def)+
qed

end

subsection \<open>The anchor\<close>

definition anchored :: "file_state option \<Rightarrow> evidence_state \<Rightarrow> bool" where
  "anchored anchor st \<longleftrightarrow>
     (case anchor of
        None \<Rightarrow> True
      | Some a \<Rightarrow>
          a = Absent \<and> es_heads st = [] \<or>
          (\<exists>ls l kvs n h. a = Text (file_of (ls @ [l])) \<and> (\<forall>l \<in> set (ls @ [l]). good_line l) \<and>
             loads l = Inr (PDict kvs) \<and> map_of kvs ''seq'' = Some (PInt n) \<and>
             map_of kvs ''checkpoint_hash'' = Some (PStr h) \<and> map_of (es_heads st) n = Some h))"

lemma anchored_textI:
  "\<forall>l \<in> set (ls @ [l]). good_line l \<Longrightarrow> loads l = Inr (PDict kvs) \<Longrightarrow> map_of kvs ''seq'' = Some (PInt n) \<Longrightarrow>
   map_of kvs ''checkpoint_hash'' = Some (PStr h) \<Longrightarrow> map_of (es_heads st) n = Some h \<Longrightarrow>
   anchored (Some (Text (file_of (ls @ [l])))) st"
  unfolding anchored_def option.case by blast

lemma anchored_passes:
  assumes "anchored (Some a) st"
  shows "anchor_failure a (es_heads st) = None"
proof -
  have t: "anchor_failure (Text (file_of (ls @ [l]))) (es_heads st) = None"
    if "\<forall>l \<in> set (ls @ [l]). good_line l" "loads l = Inr (PDict kvs)" "map_of kvs ''seq'' = Some (PInt n)"
      "map_of kvs ''checkpoint_hash'' = Some (PStr h)" "map_of (es_heads st) n = Some h" for ls l kvs n h
    using nonblank_file_of [OF that(1)] that(2-) by (simp add: anchor_failure_def py_str_def del: file_of_simps)
  show ?thesis
  proof (cases "a = Absent \<and> es_heads st = []")
    case True
    then show ?thesis by (simp add: anchor_failure_def)
  next
    case False
    with assms obtain ls l kvs n h where a: "a = Text (file_of (ls @ [l]))" and r: "\<forall>l \<in> set (ls @ [l]). good_line l"
      "loads l = Inr (PDict kvs)" "map_of kvs ''seq'' = Some (PInt n)" "map_of kvs ''checkpoint_hash'' = Some (PStr h)"
      "map_of (es_heads st) n = Some h"
      unfolding anchored_def option.case by blast
    from t [OF r] show ?thesis unfolding a .
  qed
qed

lemma with_anchor_passes:
  "anchored anchor st \<Longrightarrow> with_anchor anchor (es_heads st) n = \<lparr>er_ok = True, er_checkpoints = n, er_reason = None\<rparr>"
  using anchored_passes by (auto simp: with_anchor_def split: option.splits)

lemma write_anchor_anchored:
  assumes "anchored (Some a) st" and "map_of (es_heads st') (cp_seq cp) = Some (cp_checkpoint_hash cp)"
  shows "\<exists>a'. write_anchor Append_ok cp a = (True, a') \<and> anchored (Some a') st'"
proof -
  obtain d where d: "anchor_dict cp = PDict d" by (simp add: anchor_dict_def)
  have wf: "wf_val (PDict d)" and o: "opaques (PDict d) = {}"
    unfolding d [symmetric] by (auto simp: anchor_dict_def)
  obtain l where l: "dumps evidence_options (PDict d) = Some l"
    using dumps_defined [of "PDict d" evidence_options] o by auto
  obtain kvs where k: "loads l = Inr (PDict kvs)" "\<And>k. map_of kvs k = map_option (json_norm no_default) (map_of d k)"
    using parse_written [OF wf l] by blast
  have "map_of d ''seq'' = Some (PInt (cp_seq cp))" "map_of d ''checkpoint_hash'' = Some (PStr (cp_checkpoint_hash cp))"
    using d by (auto simp: anchor_dict_def)
  with k have m: "map_of kvs ''seq'' = Some (PInt (cp_seq cp))" "map_of kvs ''checkpoint_hash'' = Some (PStr (cp_checkpoint_hash cp))"
    by simp_all
  obtain ls where a: "a = Absent \<and> ls = [] \<or> a = Text (file_of ls)" and g: "\<forall>l \<in> set ls. good_line l"
    using assms(1) by (fastforce simp: anchored_def simp del: file_of_simps)
  have "write_anchor Append_ok cp a = (True, Text (file_of (ls @ [l])))"
    using a l d by (auto simp: write_anchor_def)
  moreover have "anchored (Some (Text (file_of (ls @ [l])))) st'"
    by (rule anchored_textI [OF _ k(1) m assms(2)]) (use g dict_line_good [OF wf l] in auto)
  ultimately show ?thesis by blast
qed

subsection \<open>The scheduler covers the log\<close>

definition clean_env :: "scheduler_env \<Rightarrow> bool" where
  "clean_env env \<longleftrightarrow> ce_write (se_checkpoint env) = Append_ok \<and> se_anchor env = Append_ok"

lemma leaves_file_of: "\<forall>l \<in> set ls. good_line l \<Longrightarrow> leaves (file_of ls) = map utf8_encode ls"
  by (simp add: leaves_def nonblank_file_of)

context honest_stamper
begin

lemma checkpoint_locked_covers:
  assumes total: "\<And>d now. sp_stamp S d now \<noteq> None" and good: "\<forall>l \<in> set ls. good_line l"
    and "sc_audit sc = Text (file_of ls)" and "evidence_written D S lvs (sc_evidence sc) st" and "prefix lvs (map utf8_encode ls)"
    and "anchored (sc_anchor sc) st" and "clean_env env" and "sc' = checkpoint_locked D S env sc"
  shows "\<exists>st'. evidence_written D S (map utf8_encode ls) (sc_evidence sc') st' \<and> anchored (sc_anchor sc') st' \<and>
    es_count st' = es_count st + 1 \<and> es_last_tree_size st' = int (length ls) \<and>
    sc_pending sc' = 0 \<and> sc_audit sc' = sc_audit sc \<and> sc_every sc' = sc_every sc"
proof -
  note lv = leaves_file_of [OF good]
  obtain tok where tok: "sp_stamp S (merkle_root_hex D (leaves (file_of ls))) (ce_stamp_ts (se_checkpoint env)) = Some tok"
    using total by blast
  obtain cp ev' st' where mk: "make_checkpoint D S (se_checkpoint env) (Text (file_of ls)) (sc_evidence sc) = (Inr cp, ev')"
    and w: "evidence_written D S (map utf8_encode ls) ev' st'" "es_count st' = es_count st + 1" "es_last_tree_size st' = int (length ls)"
    and hd: "map_of (es_heads st') (cp_seq cp) = Some (cp_checkpoint_hash cp)"
    using checkpoint_extends [OF assms(4) _ tok] assms(5,7) lv by (auto simp: clean_env_def)
  show ?thesis
  proof (cases "sc_anchor sc")
    case None
    then show ?thesis using assms(3,8) mk w by (auto simp: checkpoint_locked_def Let_def anchored_def)
  next
    case (Some a)
    obtain a' where "write_anchor Append_ok cp a = (True, a')" "anchored (Some a') st'"
      using write_anchor_anchored [OF assms(6) [unfolded Some] hd] by blast
    then show ?thesis using Some assms(3,7,8) mk w by (auto simp: checkpoint_locked_def Let_def clean_env_def)
  qed
qed

end

text \<open>One call of the audit logger with the scheduler as its hook: the line goes to the file, then
  the hook runs.\<close>

definition log_line ::
  "(string \<Rightarrow> string) \<Rightarrow> stamper \<Rightarrow> string \<times> scheduler_env \<Rightarrow> scheduler \<Rightarrow> scheduler" where
  "log_line D S step sc =
     on_record D S (snd step)
       (sc\<lparr>sc_audit := Text ((case sc_audit sc of Text t \<Rightarrow> t | _ \<Rightarrow> []) @ fst step @ newline)\<rparr>)"

definition scheduler_init :: "int \<Rightarrow> file_state option \<Rightarrow> scheduler" where
  "scheduler_init every anchor =
     \<lparr>sc_every = every, sc_pending = 0, sc_audit = Text [], sc_evidence = Absent, sc_anchor = anchor, sc_notes = []\<rparr>"

definition scheduler_inv ::
  "(string \<Rightarrow> string) \<Rightarrow> stamper \<Rightarrow> string list \<Rightarrow> scheduler \<Rightarrow> evidence_state \<Rightarrow> bool" where
  "scheduler_inv D S ls sc st \<longleftrightarrow>
     (\<forall>l \<in> set ls. good_line l) \<and> sc_audit sc = Text (file_of ls) \<and> 0 \<le> sc_pending sc \<and> sc_pending sc < sc_every sc \<and>
     int (es_count st) * sc_every sc + sc_pending sc = int (length ls) \<and>
     es_last_tree_size st = int (es_count st) * sc_every sc \<and>
     evidence_written D S (take (nat (es_last_tree_size st)) (map utf8_encode ls)) (sc_evidence sc) st \<and>
     anchored (sc_anchor sc) st"

context honest_stamper
begin

lemma log_line_inv:
  assumes total: "\<And>d now. sp_stamp S d now \<noteq> None" and "scheduler_inv D S ls sc st"
    and "good_line l" and "clean_env env"
  shows "\<exists>st'. scheduler_inv D S (ls @ [l]) (log_line D S (l, env) sc) st' \<and> sc_every (log_line D S (l, env) sc) = sc_every sc"
proof -
  note i = assms(2) [unfolded scheduler_inv_def]
  let ?sc = "sc\<lparr>sc_audit := Text (file_of (ls @ [l])), sc_pending := sc_pending sc + 1\<rparr>"
  have good: "\<forall>x \<in> set (ls @ [l]). good_line x" using i assms(3) by auto
  have step: "log_line D S (l, env) sc = (if sc_every sc \<le> sc_pending sc + 1 then checkpoint_locked D S env ?sc else ?sc)"
    using i by (simp add: log_line_def on_record_def Let_def)
  have le: "nat (es_last_tree_size st) \<le> length ls" using i by linarith
  then have tk: "take (nat (es_last_tree_size st)) (map utf8_encode (ls @ [l])) = take (nat (es_last_tree_size st)) (map utf8_encode ls)"
    by simp
  show ?thesis
  proof (cases "sc_every sc \<le> sc_pending sc + 1")
    case False
    then have "scheduler_inv D S (ls @ [l]) (log_line D S (l, env) sc) st"
      using i good step tk by (auto simp add: scheduler_inv_def simp del: file_of_simps)
    then show ?thesis using step False by auto
  next
    case True
    have p: "prefix (take (nat (es_last_tree_size st)) (map utf8_encode ls)) (map utf8_encode (ls @ [l]))"
      by (metis tk take_is_prefix)
    have au: "sc_audit ?sc = Text (file_of (ls @ [l]))" and an: "anchored (sc_anchor ?sc) st"
      and w: "evidence_written D S (take (nat (es_last_tree_size st)) (map utf8_encode ls)) (sc_evidence ?sc) st"
      using i by (auto simp del: file_of_simps)
    obtain st' where s: "evidence_written D S (map utf8_encode (ls @ [l])) (sc_evidence (checkpoint_locked D S env ?sc)) st'"
        "anchored (sc_anchor (checkpoint_locked D S env ?sc)) st'" "es_count st' = es_count st + 1"
        "es_last_tree_size st' = int (length (ls @ [l]))" "sc_pending (checkpoint_locked D S env ?sc) = 0"
        "sc_audit (checkpoint_locked D S env ?sc) = sc_audit ?sc" "sc_every (checkpoint_locked D S env ?sc) = sc_every ?sc"
      using checkpoint_locked_covers [OF total good au w p an assms(4) refl] by blast
    have "int (es_count st') * sc_every sc = int (length (ls @ [l]))"
      using i True s(3) by (simp add: algebra_simps)
    then have "scheduler_inv D S (ls @ [l]) (log_line D S (l, env) sc) st'"
      using s step True good i by (simp add: scheduler_inv_def del: file_of_simps)
    then show ?thesis using step True s(7) by auto
  qed
qed

lemma log_lines_inv:
  assumes total: "\<And>d now. sp_stamp S d now \<noteq> None"
  shows "scheduler_inv D S ls sc st \<Longrightarrow> \<forall>(l, env) \<in> set steps. good_line l \<and> clean_env env \<Longrightarrow>
    \<exists>st'. scheduler_inv D S (ls @ map fst steps) (fold (log_line D S) steps sc) st' \<and>
      sc_every (fold (log_line D S) steps sc) = sc_every sc"
proof (induction steps arbitrary: ls sc st)
  case (Cons s steps)
  obtain l env where s: "s = (l, env)" by fastforce
  with Cons.prems have "good_line l" "clean_env env" by auto
  from log_line_inv [OF total Cons.prems(1) this] obtain st1 where
    st1: "scheduler_inv D S (ls @ [l]) (log_line D S s sc) st1" "sc_every (log_line D S s sc) = sc_every sc"
    using s by auto
  from Cons.IH [OF st1(1)] Cons.prems(2) s st1(2) show ?case by auto
qed auto

end

subsection \<open>Verification of what the scheduler wrote\<close>

lemma verify_written_evidence:
  assumes "evidence_written D S (leaves text) ev st" and "0 < es_count st \<Longrightarrow> es_last_tree_size st = int (length (leaves text))"
    and "anchored anchor st" and "verify_chain (hexdigest D) (Some text) = Inr r" and "vr_ok r"
  shows "verify_evidence D S (Text text) ev anchor = Inr \<lparr>er_ok = True, er_checkpoints = es_count st, er_reason = None\<rparr>"
proof (cases "ev = Absent \<and> st = evidence_start")
  case True
  then show ?thesis
    using with_anchor_passes [OF assms(3), of 0] assms(4,5) by (simp add: verify_evidence_def evidence_start_def)
next
  case False
  with assms(1) obtain ls where "ev = Text (file_of ls)" "\<forall>l \<in> set ls. good_line l"
    "evidence_loop D S (leaves text) ls evidence_start = Inr st"
    unfolding evidence_written_def by blast
  then show ?thesis
    using with_anchor_passes [OF assms(3), of "es_count st"] assms(2,4,5)
    by (auto simp: verify_evidence_def nonblank_file_of)
qed

lemma ceiling_count:
  assumes "(n :: int) * e + p = m" and "0 \<le> p" and "p < e"
  shows "(m + e - 1) div e = (if p = 0 then n else n + 1)"
proof -
  have "(m + e - 1) div e = n + (p + e - 1) div e"
    using assms div_mult_self1 [of e "p + e - 1" n] by (simp add: algebra_simps)
  also have "(p + e - 1) div e = (if p = 0 then 0 else 1)"
  proof (cases "p = 0")
    case False
    then have "(p + e - 1) div e = (e + (p - 1)) div e" by (simp add: algebra_simps)
    also have "\<dots> = 1 + (p - 1) div e" using assms(2,3) by simp
    also have "(p - 1) div e = 0" using assms(2,3) False by (intro div_pos_pos_trivial) auto
    finally show ?thesis using False by simp
  qed (use assms(2,3) in \<open>simp add: div_pos_pos_trivial\<close>)
  finally show ?thesis by auto
qed

context honest_stamper
begin

lemma finalize_covers:
  assumes total: "\<And>d now. sp_stamp S d now \<noteq> None" and "scheduler_inv D S ls sc st" and "clean_env env"
  shows "\<exists>st'. evidence_written D S (map utf8_encode ls) (sc_evidence (finalize D S env sc)) st' \<and>
    anchored (sc_anchor (finalize D S env sc)) st' \<and> es_last_tree_size st' = int (length ls) \<and>
    sc_audit (finalize D S env sc) = Text (file_of ls) \<and>
    int (es_count st') = (int (length ls) + sc_every sc - 1) div sc_every sc"
proof -
  note i = assms(2) [unfolded scheduler_inv_def]
  have c: "(int (length ls) + sc_every sc - 1) div sc_every sc = (if sc_pending sc = 0 then int (es_count st) else int (es_count st) + 1)"
    by (rule ceiling_count) (use i in auto)
  show ?thesis
  proof (cases "0 < sc_pending sc")
    case False
    then have "sc_pending sc = 0" using i by simp
    moreover from this have s: "es_last_tree_size st = int (length ls)" using i by simp
    moreover have "evidence_written D S (map utf8_encode ls) (sc_evidence sc) st"
      using i by (auto simp: s)
    ultimately show ?thesis using False i c by (intro exI [of _ st]) (simp add: finalize_def)
  next
    case True
    have p: "prefix (take (nat (es_last_tree_size st)) (map utf8_encode ls)) (map utf8_encode ls)" by (rule take_is_prefix)
    from i have g: "\<forall>l \<in> set ls. good_line l" and au: "sc_audit sc = Text (file_of ls)" and an: "anchored (sc_anchor sc) st"
      and w: "evidence_written D S (take (nat (es_last_tree_size st)) (map utf8_encode ls)) (sc_evidence sc) st" by auto
    obtain st' where "evidence_written D S (map utf8_encode ls) (sc_evidence (checkpoint_locked D S env sc)) st'"
      "anchored (sc_anchor (checkpoint_locked D S env sc)) st'" "es_count st' = es_count st + 1"
      "es_last_tree_size st' = int (length ls)" "sc_audit (checkpoint_locked D S env sc) = sc_audit sc"
      using checkpoint_locked_covers [OF total g au w p an assms(3) refl] by blast
    with True c au show ?thesis by (intro exI [of _ st']) (simp add: finalize_def)
  qed
qed

lemma scheduler_verifies:
  assumes total: "\<And>d now. sp_stamp S d now \<noteq> None" and e: "0 < every" and "anchor \<in> {None, Some Absent}"
    and steps: "\<forall>(l, env) \<in> set steps. good_line l \<and> clean_env env" and "clean_env env"
    and "verify_chain (hexdigest D) (Some (file_of (map fst steps))) = Inr r" and "vr_ok r"
    and "sc = finalize D S env (fold (log_line D S) steps (scheduler_init every anchor))"
  shows "verify_evidence D S (sc_audit sc) (sc_evidence sc) (sc_anchor sc) =
    Inr \<lparr>er_ok = True, er_checkpoints = nat ((int (length steps) + every - 1) div every), er_reason = None\<rparr>"
proof -
  have "scheduler_inv D S [] (scheduler_init every anchor) evidence_start"
    using e assms(3) evidence_written_start [of D S]
    by (auto simp: scheduler_inv_def scheduler_init_def evidence_start_def anchored_def)
  from log_lines_inv [OF total this steps] obtain st where
    st: "scheduler_inv D S (map fst steps) (fold (log_line D S) steps (scheduler_init every anchor)) st"
    and ev: "sc_every (fold (log_line D S) steps (scheduler_init every anchor)) = every"
    by (auto simp: scheduler_init_def)
  obtain st' where w: "evidence_written D S (map utf8_encode (map fst steps)) (sc_evidence sc) st'"
    "anchored (sc_anchor sc) st'" "es_last_tree_size st' = int (length (map fst steps))"
    "sc_audit sc = Text (file_of (map fst steps))"
    "int (es_count st') = (int (length (map fst steps)) + every - 1) div every"
    using finalize_covers [OF total st assms(5)] unfolding ev assms(8) by blast
  have "\<forall>l \<in> set (map fst steps). good_line l" using steps by auto
  note lv = leaves_file_of [OF this]
  have "es_count st' = nat ((int (length steps) + every - 1) div every)" using w(5) by simp
  then show ?thesis
    using verify_written_evidence [of D S "file_of (map fst steps)" "sc_evidence sc" st' "sc_anchor sc" r] w lv assms(6,7) by simp
qed

end

text \<open>C31: The evidence the running server produces verifies. Lines are appended to the audit log one
  by one, the scheduler runs as the hook after each of them with any positive interval and is
  finalized at shutdown, with or without an anchor; no write fails. If the log itself verifies,
  \<^verbatim>\<open>verify_evidence\<close> accepts the log, the evidence and the anchor, and there is one checkpoint for
  every full interval and one for the tail.\<close>

theorem scheduler_evidence_verifies:
  assumes "0 < every" and "anchor \<in> {None, Some Absent}"
    and "\<forall>(l, env) \<in> set steps. good_line l \<and> clean_env env" and "clean_env last_env"
    and "verify_chain (hexdigest D) (Some (file_of (map fst steps))) = Inr r" and "vr_ok r"
    and "sc = finalize D local_stamper last_env (fold (log_line D local_stamper) steps (scheduler_init every anchor))"
  shows "verify_evidence D local_stamper (sc_audit sc) (sc_evidence sc) (sc_anchor sc) =
    Inr \<lparr>er_ok = True, er_checkpoints = nat ((int (length steps) + every - 1) div every), er_reason = None\<rparr>"
  by (rule local.scheduler_verifies [OF _ assms]) (simp add: local_stamper_def local_stamp_def)

definition demo_checkpoint_env :: scheduler_env where
  "demo_checkpoint_env = \<lparr>se_checkpoint = \<lparr>ce_ts = ''t'', ce_stamp_ts = ''t'', ce_write = Append_ok\<rparr>, se_anchor = Append_ok\<rparr>"

text \<open>A log of one record, written by the audit logger with a constant digest of two digits.\<close>

definition demo_digest_bytes :: "string \<Rightarrow> string" where
  "demo_digest_bytes b = [char_of (0xab :: nat)]"

lemma demo_hexdigest: "hexdigest demo_digest_bytes = (\<lambda>_. ''ab'')"
  by (rule ext) (simp add: hexdigest_def demo_digest_bytes_def bytes_hex_def hex_byte_def digit_char_def ord_def)

theorem scheduler_evidence_verifies_witness:
  "good_line demo_line \<and> clean_env demo_checkpoint_env \<and>
   (let sc = finalize demo_digest_bytes local_stamper demo_checkpoint_env
        (fold (log_line demo_digest_bytes local_stamper) [(demo_line, demo_checkpoint_env)] (scheduler_init 64 (Some Absent)))
    in verify_evidence demo_digest_bytes local_stamper (sc_audit sc) (sc_evidence sc) (sc_anchor sc) =
       Inr \<lparr>er_ok = True, er_checkpoints = 1, er_reason = None\<rparr>)"
proof -
  have c: "clean_env demo_checkpoint_env" by (simp add: clean_env_def demo_checkpoint_env_def)
  have s: "\<forall>(l, env) \<in> set [(demo_line, demo_checkpoint_env)]. good_line l \<and> clean_env env"
    using c demo_chain(1) by simp
  have "log_lines (file_of [demo_line]) = [demo_line]" by (rule log_lines_file_of) (simp add: demo_chain(1))
  then have v: "verify_chain (hexdigest demo_digest_bytes) (Some (file_of (map fst [(demo_line, demo_checkpoint_env)]))) =
      Inr \<lparr>vr_ok = True, vr_count = 1, vr_broken_at = None, vr_reason = None\<rparr>"
    using demo_chain(2) by (simp add: verify_chain_def demo_hexdigest del: verify_lines.simps)
  have a: "Some Absent \<in> {None, Some Absent}" by simp
  show ?thesis
    using scheduler_evidence_verifies [OF _ a s c v _ refl, of 64] demo_chain(1) c by (simp add: Let_def)
qed

end
