(* ===== verification/Anchoring.thy ===== *)
theory Anchoring
  imports EvidenceChain
begin

section \<open>What an anchored checkpoint protects\<close>

text \<open>
  Two logs that verify against the same anchor agree on everything the anchored checkpoint covers,
  unless the digest has a collision; and when verification raises instead of answering.
\<close>

subsection \<open>The checkpoint behind a head\<close>

lemma evidence_loop_heads:
  "evidence_loop D S lvs ls evidence_start = Inr st \<Longrightarrow> es_count st = length ls \<and>
   (\<forall>q h. map_of (es_heads st) q = Some h \<longrightarrow>
     (\<exists>k cp payload st' n. k < length ls \<and> q = int k \<and> loads (ls ! k) = Inr (PDict cp) \<and> line_ok D S lvs st' cp payload h n \<and>
        0 \<le> n)) \<and> 0 \<le> es_last_tree_size st"
proof (induction ls arbitrary: st rule: rev_induct)
  case Nil
  then show ?case by (auto simp: evidence_start_def)
next
  case (snoc l ls)
  then obtain st1 where s1: "evidence_loop D S lvs ls evidence_start = Inr st1" and l: "evidence_line D S lvs l st1 = Inr st"
    by (auto simp: evidence_loop_append split: sum.splits)
  obtain cp payload h n where c: "loads l = Inr (PDict cp)" "line_ok D S lvs st1 cp payload h n" "st = next_state h n st1"
    using evidence_lineD [OF l] by blast
  note ih = snoc.IH [OF s1]
  have n: "0 \<le> n" using ih c(2) by (auto simp: line_ok_def)
  have "\<exists>k cp payload st' n. k < length (ls @ [l]) \<and> q = int k \<and> loads ((ls @ [l]) ! k) = Inr (PDict cp) \<and>
      line_ok D S lvs st' cp payload g n \<and> 0 \<le> n" if "map_of (es_heads st) q = Some g" for q g
  proof (cases "q = int (es_count st1)")
    case True
    then have "g = h" "q = int (length ls)" using that c(3) ih by (simp_all add: next_state_def update_conv')
    with c(1,2) n show ?thesis
      by (intro exI [of _ "length ls"] exI [of _ cp] exI [of _ payload] exI [of _ st1] exI [of _ n]) simp
  next
    case False
    then have "map_of (es_heads st1) q = Some g" using that c(3) by (simp add: next_state_def update_conv')
    with ih obtain k cp' payload' st' m where "k < length ls" "q = int k" "loads (ls ! k) = Inr (PDict cp')"
      "line_ok D S lvs st' cp' payload' g m" "0 \<le> m" by blast
    then show ?thesis
      by (intro exI [of _ k] exI [of _ cp'] exI [of _ payload'] exI [of _ st'] exI [of _ m]) (simp add: nth_append)
  qed
  with ih c(3) n show ?case by (simp add: next_state_def)
qed

text \<open>The head the anchor names.\<close>

definition anchor_head :: "string \<Rightarrow> (int \<times> string) option" where
  "anchor_head text =
     (case loads (last (nonblank_lines text)) of
        Inr (PDict d) \<Rightarrow>
          (case (map_of d ''seq'', map_of d ''checkpoint_hash'') of
             (Some v, Some h) \<Rightarrow> (case py_int v of Inr n \<Rightarrow> Some (n, py_str h) | Inl _ \<Rightarrow> None)
           | _ \<Rightarrow> None)
      | _ \<Rightarrow> None)"

lemma anchor_passes_head:
  "nonblank_lines a \<noteq> [] \<Longrightarrow> anchor_failure (Text a) heads = None \<Longrightarrow>
   \<exists>q h. anchor_head a = Some (q, h) \<and> map_of heads q = Some h"
  by (auto simp: anchor_failure_def anchor_head_def anchor_unreadable_def
      split: sum.splits pyval.splits option.splits if_splits)

lemma verify_evidence_okD:
  assumes "verify_evidence D S (Text t) (Text e) (Some (Text a)) = Inr r" and "er_ok r"
  shows "\<exists>st. evidence_loop D S (leaves t) (nonblank_lines e) evidence_start = Inr st \<and> anchor_failure (Text a) (es_heads st) = None"
proof -
  have "\<not> er_ok (evidence_failure n x)" for n x by (simp add: evidence_failure_def)
  moreover have "evidence_loop D S lvs ls st = Inl r' \<Longrightarrow> \<not> er_ok r'" for lvs ls st r'
    by (induction ls arbitrary: st) (auto simp: evidence_failure_def split: sum.splits)
  ultimately show ?thesis
    using assms by (auto simp: verify_evidence_def Let_def with_anchor_def split: sum.splits if_splits option.splits)
qed

subsection \<open>Equal hashes, equal checkpoints\<close>

lemma utf8_plain: "\<forall>c \<in> set s. plain c \<Longrightarrow> utf8_encode s = s"
  by (induction s) (auto simp: utf8_encode_def utf8_char_def plain_def)

lemma payload_members:
  assumes "payload_of_line cp = Some payload"
  shows "k \<in> set payload_keys \<Longrightarrow> map_of payload k = map_of cp k" and "distinct (keys payload)"
    and "(k, v) \<in> set payload \<Longrightarrow> map_of cp k = Some v"
proof -
  have p: "payload = map (\<lambda>k. (k, the (map_of cp k))) payload_keys" and a: "\<forall>k \<in> set payload_keys. map_of cp k \<noteq> None"
    using assms by (auto simp: payload_of_line_def list_all_iff split: if_splits)
  show "k \<in> set payload_keys \<Longrightarrow> map_of payload k = map_of cp k"
    using a by (auto simp: p map_of_map_restrict restrict_map_def)
  show "distinct (keys payload)" by (simp add: p comp_def payload_keys_def)
  show "(k, v) \<in> set payload \<Longrightarrow> map_of cp k = Some v" using a by (auto simp: p)
qed

lemma payload_of_line_wf:
  assumes "loads l = Inr (PDict cp)" and "payload_of_line cp = Some payload"
  shows "wf_val (PDict payload)"
proof -
  have "wf_val (PDict cp)" by (rule loads_wf [OF assms(1)])
  then have "wf_val v" if "(k, v) \<in> set payload" for k v
    using payload_members(3) [OF assms(2) that] by (auto dest: map_of_SomeD)
  with payload_members(2) [OF assms(2)] show ?thesis by auto
qed

lemma scalar_norm: "py_int v = Inr n \<Longrightarrow> json_norm d v = v"
  by (cases v) auto

text \<open>The text hashed for a line of the evidence.\<close>

definition line_inputs :: "string \<Rightarrow> string set" where
  "line_inputs l =
     (case loads l of
        Inr (PDict cp) \<Rightarrow>
          (case Option.bind (payload_of_line cp) (\<lambda>p. dumps evidence_options (PDict p)) of
             Some t \<Rightarrow> {utf8_encode t} | None \<Rightarrow> {})
      | _ \<Rightarrow> {})"

definition evidence_inputs :: "(string \<Rightarrow> string) \<Rightarrow> string \<Rightarrow> string \<Rightarrow> string set" where
  "evidence_inputs D t e =
     (\<Union>l \<in> set (nonblank_lines e). line_inputs l) \<union> (\<Union>n \<le> length (leaves t). merkle_inputs D (take n (leaves t)))"

lemma same_checkpoint:
  assumes l1: "loads l1 = Inr (PDict cp1)" "line_ok D S lvs1 st1 cp1 p1 h n1"
    and l2: "loads l2 = Inr (PDict cp2)" "line_ok D S lvs2 st2 cp2 p2 h n2"
    and inj: "inj_on D (line_inputs l1 \<union> line_inputs l2)"
  shows "n1 = n2 \<and> merkle_root_hex D (take (nat n1) lvs1) = merkle_root_hex D (take (nat n2) lvs2)"
proof -
  note o1 = l1(2) [unfolded line_ok_def] and o2 = l2(2) [unfolded line_ok_def]
  have w1: "wf_val (PDict p1)" and w2: "wf_val (PDict p2)"
    using payload_of_line_wf [OF l1(1)] payload_of_line_wf [OF l2(1)] o1 o2 by blast+
  obtain t1 t2 where t: "dumps evidence_options (PDict p1) = Some t1" "dumps evidence_options (PDict p2) = Some t2"
    and h: "hexdigest D (utf8_encode t1) = h" "hexdigest D (utf8_encode t2) = h"
    using o1 o2 by (auto simp: checkpoint_hash_def sha256_text_def simp del: dumps.simps)
  have i: "utf8_encode t1 \<in> line_inputs l1" "utf8_encode t2 \<in> line_inputs l2"
    using l1(1) l2(1) o1 o2 t by (auto simp: line_inputs_def simp del: dumps.simps)
  have "D (utf8_encode t1) = D (utf8_encode t2)" using h by (auto simp: hexdigest_def dest: bytes_hex_inj)
  then have "utf8_encode t1 = utf8_encode t2" using inj i by (auto dest: inj_onD)
  then have eq: "t1 = t2"
    using utf8_plain [of t1] utf8_plain [of t2] dumps_ascii [OF w1 t(1)] dumps_ascii [OF w2 t(2)] by metis
  have s: "separators_ok evidence_options" by (simp add: separators_ok_def evidence_options_def)
  have "json_norm no_default (PDict p1) = json_norm no_default (PDict p2)"
    using loads_dumps [OF w1 s t(1)] loads_dumps [OF w2 s t(2)] eq by (simp del: json_norm.simps)
  then have m: "map_option (json_norm no_default) (map_of p1 k) = map_option (json_norm no_default) (map_of p2 k)" for k
    using norm_dict_members [of no_default p1 _ k] norm_dict_members [of no_default p2 _ k] w1 w2
    by (metis json_norm.simps(2) wf_val.simps(3))
  have c: "map_option (json_norm no_default) (map_of cp1 k) = map_option (json_norm no_default) (map_of cp2 k)"
    if "k \<in> set payload_keys" for k
    using m [of k] payload_members(1) [OF _ that] o1 o2 by metis
  have pl: "list_all (\<lambda>k. map_of cp1 k \<noteq> None) payload_keys" "list_all (\<lambda>k. map_of cp2 k \<noteq> None) payload_keys"
    using o1 o2 by (auto simp: payload_of_line_def split: if_splits)
  then obtain v1 v2 where v: "map_of cp1 ''tree_size'' = Some v1" "map_of cp2 ''tree_size'' = Some v2"
    by (auto simp: payload_keys_def)
  then have "v1 = v2"
    using c [of "''tree_size''"] o1 o2 scalar_norm [of v1 n1] scalar_norm [of v2 n2] by (simp add: payload_keys_def)
  with v o1 o2 have "n1 = n2" by simp
  moreover have "merkle_root_hex D (take (nat n1) lvs1) = merkle_root_hex D (take (nat n2) lvs2)"
    using c [of "''root_sha256''"] o1 o2 by (simp add: payload_keys_def)
  ultimately show ?thesis by simp
qed

text \<open>C14: An anchored checkpoint fixes the history it covers. Let two audit logs, each with its own
  evidence file, verify against the same anchor file, whose last line is its head. Then both
  evidence files have the anchored checkpoint, at the same position and over the same number of
  lines, and the two logs agree on all those lines, byte by byte: whoever can rewrite the log and
  the evidence but not the anchor can neither change, reorder nor truncate what was anchored.
  This holds for any stamper, as long as the digest has no collision among the inputs
  hashed.\<close>

theorem anchor_protects_history:
  assumes "\<forall>x. length (D x) = 32" and "inj_on D (evidence_inputs D t1 e1 \<union> evidence_inputs D t2 e2)"
    and "verify_evidence D S (Text t1) (Text e1) (Some (Text a)) = Inr r1" and "er_ok r1"
    and "verify_evidence D S (Text t2) (Text e2) (Some (Text a)) = Inr r2" and "er_ok r2"
    and "nonblank_lines a \<noteq> []"
  shows "\<exists>k cp n. k < length (nonblank_lines e1) \<and> k < length (nonblank_lines e2) \<and>
    loads (nonblank_lines e1 ! k) = Inr (PDict cp) \<and> map_option fst (anchor_head a) = Some (int k) \<and>
    py_int (the (map_of cp ''tree_size'')) = Inr (int n) \<and> n \<le> length (leaves t1) \<and> n \<le> length (leaves t2) \<and>
    take n (leaves t1) = take n (leaves t2)"
proof -
  obtain st1 where s1: "evidence_loop D S (leaves t1) (nonblank_lines e1) evidence_start = Inr st1" "anchor_failure (Text a) (es_heads st1) = None"
    using verify_evidence_okD [OF assms(3,4)] by blast
  obtain st2 where s2: "evidence_loop D S (leaves t2) (nonblank_lines e2) evidence_start = Inr st2" "anchor_failure (Text a) (es_heads st2) = None"
    using verify_evidence_okD [OF assms(5,6)] by blast
  obtain q h where q: "anchor_head a = Some (q, h)" "map_of (es_heads st1) q = Some h" "map_of (es_heads st2) q = Some h"
    using anchor_passes_head [OF assms(7) s1(2)] anchor_passes_head [OF assms(7) s2(2)] by auto
  obtain k cp1 p1 z1 n1 where k: "k < length (nonblank_lines e1)" "q = int k"
    and l1: "loads (nonblank_lines e1 ! k) = Inr (PDict cp1)" "line_ok D S (leaves t1) z1 cp1 p1 h n1" "0 \<le> n1"
    using evidence_loop_heads [OF s1(1)] q(2) by blast
  obtain k2 cp2 p2 z2 n2 where k2: "k2 < length (nonblank_lines e2)" "q = int k2"
    and l2: "loads (nonblank_lines e2 ! k2) = Inr (PDict cp2)" "line_ok D S (leaves t2) z2 cp2 p2 h n2" "0 \<le> n2"
    using evidence_loop_heads [OF s2(1)] q(3) by blast
  have "line_inputs (nonblank_lines e1 ! k) \<union> line_inputs (nonblank_lines e2 ! k2) \<subseteq> evidence_inputs D t1 e1 \<union> evidence_inputs D t2 e2"
    using k(1) k2(1) unfolding evidence_inputs_def by (auto dest: nth_mem)
  from same_checkpoint [OF l1(1,2) l2(1,2) inj_on_subset [OF assms(2) this]]
  have n: "n1 = n2" and root: "merkle_root_hex D (take (nat n1) (leaves t1)) = merkle_root_hex D (take (nat n1) (leaves t2))"
    by auto
  have b: "nat n1 \<le> length (leaves t1)" "nat n1 \<le> length (leaves t2)" "py_int (the (map_of cp1 ''tree_size'')) = Inr n1"
    using l1(2,3) l2(2) n by (auto simp: line_ok_def)
  then have "merkle_inputs D (take (nat n1) (leaves t1)) \<union> merkle_inputs D (take (nat n1) (leaves t2)) \<subseteq>
      evidence_inputs D t1 e1 \<union> evidence_inputs D t2 e2"
    unfolding evidence_inputs_def by blast
  from inj_on_subset [OF assms(2) this] root
  have "take (nat n1) (leaves t1) = take (nat n1) (leaves t2)"
    using merkle_root_inj [of D] assms(1) by (auto simp: merkle_root_hex_def dest: bytes_hex_inj)
  with k k2(1,2) l1(1,3) b q(1) show ?thesis
    by (intro exI [of _ k] exI [of _ cp1] exI [of _ "nat n1"]) auto
qed

definition demo_digest32 :: "string \<Rightarrow> string" where
  "demo_digest32 x = replicate 32 (if x = [] then CHR ''z'' else CHR ''y'')"

lemma line_inputs_single: "x \<in> line_inputs l \<Longrightarrow> y \<in> line_inputs l \<Longrightarrow> x = y \<and> x \<noteq> []"
  by (auto simp: line_inputs_def utf8_encode_def utf8_char_def bind_eq_Some_conv split: sum.splits pyval.splits option.splits if_splits)

lemma demo_evidence:
  "\<exists>l a. verify_evidence demo_digest32 local_stamper (Text []) (Text (file_of [l])) (Some (Text a)) =
      Inr \<lparr>er_ok = True, er_checkpoints = 1, er_reason = None\<rparr> \<and> nonblank_lines a \<noteq> [] \<and> good_line l"
proof -
  have lv: "leaves [] = []" by (simp add: leaves_def nonblank_lines_def splitlines_def)
  obtain tok where tok: "sp_stamp local_stamper (merkle_root_hex demo_digest32 (leaves [])) (ce_stamp_ts (se_checkpoint demo_checkpoint_env)) = Some tok"
    by (simp add: local_stamper_def local_stamp_def)
  have w: "ce_write (se_checkpoint demo_checkpoint_env) = Append_ok" by (simp add: demo_checkpoint_env_def)
  have p: "prefix [] (leaves [])" by simp
  obtain cp :: merkle_checkpoint and ev st where ev: "evidence_written demo_digest32 local_stamper (leaves []) ev st" "ev \<noteq> Absent"
    and e: "es_count st = es_count evidence_start + 1" "es_last_tree_size st = int (length (leaves []))"
      "map_of (es_heads st) (int (es_count evidence_start)) = Some (cp_checkpoint_hash cp)" "cp_seq cp = int (es_count evidence_start)"
    using local.checkpoint_extends [OF evidence_written_start p tok w] by blast
  have st: "es_count st = 1" "es_last_tree_size st = 0" "map_of (es_heads st) (cp_seq cp) = Some (cp_checkpoint_hash cp)"
    using e lv by (simp_all add: evidence_start_def)
  obtain ls where ls: "ev = Text (file_of ls)" "\<forall>l \<in> set ls. good_line l"
    "evidence_loop demo_digest32 local_stamper (leaves []) ls evidence_start = Inr st"
    using ev unfolding evidence_written_def by blast
  have "length ls = 1" using evidence_loop_heads [OF ls(3)] st(1) by simp
  then obtain l where l: "ls = [l]" by (auto simp: length_Suc_conv)
  have "anchored (Some Absent) evidence_start" by (simp add: anchored_def evidence_start_def)
  from write_anchor_anchored [OF this st(3)] obtain a' where a': "anchored (Some a') st" by blast
  have "es_heads st \<noteq> []" using st(3) by auto
  with a' obtain as x where a: "a' = Text (file_of (as @ [x]))" "\<forall>l \<in> set (as @ [x]). good_line l"
    unfolding anchored_def option.case by blast
  have "verify_chain (hexdigest demo_digest32) (Some []) = Inr \<lparr>vr_ok = True, vr_count = 0, vr_broken_at = None, vr_reason = None\<rparr>"
    by (simp add: verify_chain_def log_lines_def splitlines_def nonempty_stripped_def)
  from verify_written_evidence [OF ev(1) _ a' this] st lv
  have "verify_evidence demo_digest32 local_stamper (Text []) (Text (file_of [l])) (Some a') =
      Inr \<lparr>er_ok = True, er_checkpoints = 1, er_reason = None\<rparr>"
    using ls(1) l by simp
  moreover have "nonblank_lines (file_of (as @ [x])) \<noteq> []" using nonblank_file_of [OF a(2)] by simp
  ultimately show ?thesis using a(1) ls(2) l by auto
qed

theorem anchor_protects_history_witness:
  "\<exists>l a k. (\<forall>x. length (demo_digest32 x) = 32) \<and>
    inj_on demo_digest32 (evidence_inputs demo_digest32 [] (file_of [l]) \<union> evidence_inputs demo_digest32 [] (file_of [l])) \<and>
    verify_evidence demo_digest32 local_stamper (Text []) (Text (file_of [l])) (Some (Text a)) =
      Inr \<lparr>er_ok = True, er_checkpoints = 1, er_reason = None\<rparr> \<and>
    nonblank_lines a \<noteq> [] \<and> k < length (nonblank_lines (file_of [l])) \<and> map_option fst (anchor_head a) = Some (int k)"
proof -
  obtain l a where v: "verify_evidence demo_digest32 local_stamper (Text []) (Text (file_of [l])) (Some (Text a)) =
      Inr \<lparr>er_ok = True, er_checkpoints = 1, er_reason = None\<rparr>" and a: "nonblank_lines a \<noteq> []" and g: "good_line l"
    using demo_evidence by blast
  have len: "\<forall>x. length (demo_digest32 x) = 32" by (simp add: demo_digest32_def)
  have "nonblank_lines (file_of [l]) = [l]" by (rule nonblank_file_of) (simp add: g)
  then have "evidence_inputs demo_digest32 [] (file_of [l]) = line_inputs l \<union> {[]}"
    by (simp add: evidence_inputs_def leaves_def nonblank_lines_def [of "[]"] splitlines_def merkle_inputs.simps root_input_def)
  then have inj: "inj_on demo_digest32 (evidence_inputs demo_digest32 [] (file_of [l]) \<union> evidence_inputs demo_digest32 [] (file_of [l]))"
    using line_inputs_single [of _ l] by (auto simp: inj_on_def demo_digest32_def)
  have ok: "er_ok \<lparr>er_ok = True, er_checkpoints = 1, er_reason = None\<rparr>" by simp
  show ?thesis using anchor_protects_history [OF len inj v ok v ok a] len inj v a by blast
qed

subsection \<open>When verification raises\<close>

lemma verify_lines_raise:
  "verify_lines H ls st = Inl AttributeError \<longleftrightarrow>
   (\<exists>pre l post st' v. ls = pre @ l # post \<and> verify_lines H pre st = Inr st' \<and> loads l = Inr v \<and> (\<forall>d. v \<noteq> PDict d))"
proof (induction ls arbitrary: st)
  case (Cons l ls)
  have line: "verify_line H l st = Inl AttributeError \<longleftrightarrow> (\<exists>v. loads l = Inr v \<and> (\<forall>d. v \<noteq> PDict d))"
    by (auto simp: verify_line_def verify_break_def Let_def split: sum.splits pyval.splits prod.splits)
  show ?case
  proof (cases "verify_line H l st")
    case (Inl x)
    show ?thesis
    proof
      assume "verify_lines H (l # ls) st = Inl AttributeError"
      with Inl line have "\<exists>v. loads l = Inr v \<and> (\<forall>d. v \<noteq> PDict d)" by simp
      then show "\<exists>pre l' post st' v. l # ls = pre @ l' # post \<and> verify_lines H pre st = Inr st' \<and> loads l' = Inr v \<and> (\<forall>d. v \<noteq> PDict d)"
        by (intro exI [of _ "[]"] exI [of _ l] exI [of _ ls] exI [of _ st]) auto
    next
      assume "\<exists>pre l' post st' v. l # ls = pre @ l' # post \<and> verify_lines H pre st = Inr st' \<and> loads l' = Inr v \<and> (\<forall>d. v \<noteq> PDict d)"
      then obtain pre l' post st' v where p: "l # ls = pre @ l' # post" "verify_lines H pre st = Inr st'" "loads l' = Inr v" "\<forall>d. v \<noteq> PDict d"
        by blast
      then have "pre = []" using Inl by (cases pre) auto
      with p line show "verify_lines H (l # ls) st = Inl AttributeError" by auto
    qed
  next
    case (Inr st1)
    have nl: "\<not> (\<exists>v. loads l = Inr v \<and> (\<forall>d. v \<noteq> PDict d))" using line Inr by auto
    have "verify_lines H (l # ls) st = Inl AttributeError \<longleftrightarrow> verify_lines H ls st1 = Inl AttributeError" using Inr by simp
    also have "\<dots> \<longleftrightarrow> (\<exists>pre l' post st' v. ls = pre @ l' # post \<and> verify_lines H pre st1 = Inr st' \<and> loads l' = Inr v \<and> (\<forall>d. v \<noteq> PDict d))"
      by (rule Cons.IH)
    also have "\<dots> \<longleftrightarrow> (\<exists>pre l' post st' v. l # ls = pre @ l' # post \<and> verify_lines H pre st = Inr st' \<and> loads l' = Inr v \<and> (\<forall>d. v \<noteq> PDict d))"
      (is "?A \<longleftrightarrow> ?B")
    proof
      assume ?A
      then obtain pre l' post st' v where "ls = pre @ l' # post" "verify_lines H pre st1 = Inr st'" "loads l' = Inr v" "\<forall>d. v \<noteq> PDict d" by blast
      with Inr show ?B by (intro exI [of _ "l # pre"] exI [of _ l'] exI [of _ post] exI [of _ st'] exI [of _ v]) simp
    next
      assume ?B
      then obtain pre l' post st' v where p: "l # ls = pre @ l' # post" "verify_lines H pre st = Inr st'" "loads l' = Inr v" "\<forall>d. v \<noteq> PDict d"
        by blast
      with nl obtain pre' where "pre = l # pre'" by (cases pre) auto
      with p Inr show ?A by (intro exI [of _ pre'] exI [of _ l'] exI [of _ post] exI [of _ st'] exI [of _ v]) simp
    qed
    finally show ?thesis .
  qed
qed simp

text \<open>When verification of the evidence raises. It is documented to answer in every case; it
  raises, from the verification of the log, exactly when the first line of the log that is not
  well chained is JSON but not an object, whatever the evidence and the anchor hold. Everything
  else, unreadable files included, is an answer.\<close>

theorem verify_evidence_raises_iff:
  "(\<exists>x. verify_evidence D S audit evidence anchor = Inl x) \<longleftrightarrow>
   (\<exists>t pre l post st v. audit = Text t \<and> log_lines t = pre @ l # post \<and>
      verify_lines (hexdigest D) pre (GENESIS, 0) = Inr st \<and> loads l = Inr v \<and> (\<forall>d. v \<noteq> PDict d))"
proof -
  have "(\<exists>x. verify_evidence D S audit evidence anchor = Inl x) \<longleftrightarrow>
      (\<exists>t. audit = Text t \<and> verify_lines (hexdigest D) (log_lines t) (GENESIS, 0) = Inl AttributeError)"
    by (auto simp: verify_evidence_def verify_chain_def Let_def split: file_state.splits sum.splits verify_stop.splits)
  then show ?thesis using verify_lines_raise [of "hexdigest D" _ "(GENESIS, 0)"] by auto
qed

end
