(* ===== verification/Facts.thy ===== *)
theory Facts
  imports AuditLog
begin

section \<open>Bitemporal facts (model/facts.py)\<close>

text \<open>
  The data model the stores, the drift engine and the collectors share: facts and edges with their
  four timestamps, and the content hash that is the compare-and-set token.
\<close>

subsection \<open>Facts and edges\<close>

definition OBSERVED :: string where "OBSERVED = ''observed''"
definition DESIRED :: string where "DESIRED = ''desired''"
definition DRIFT :: string where "DRIFT = ''drift''"
definition KNOWN_GOOD :: string where "KNOWN_GOOD = ''known_good''"

datatype host_type = UBUNTU | TALOS | WINDOWS | CLOUD

fun host_value :: "host_type \<Rightarrow> string" where
  "host_value UBUNTU = ''ubuntu''"
| "host_value TALOS = ''talos''"
| "host_value WINDOWS = ''windows''"
| "host_value CLOUD = ''cloud''"

datatype capability = VECTOR | GRAPH | BATCH | COMPARE_AND_SET

record fact =
  f_subject :: string
  f_predicate :: string
  f_fact_type :: string
  f_value :: "(string \<times> pyval) list"
  f_t_valid :: string
  f_actor :: string
  f_reason :: "string option"
  f_t_invalid :: "string option"
  f_t_recorded :: "string option"
  f_t_superseded :: "string option"
  f_fact_id :: "string option"

definition is_active :: "fact \<Rightarrow> bool" where
  "is_active f \<longleftrightarrow> f_t_invalid f = None \<and> f_t_superseded f = None"

definition fact_key :: "fact \<Rightarrow> string \<times> string \<times> string" where
  "fact_key f = (f_subject f, f_predicate f, f_fact_type f)"

definition content_options :: dump_options where
  "content_options =
     \<lparr>ensure_ascii = False, item_sep = '','', key_sep = '':'', default_str = str_or_raise\<rparr>"

definition content_value :: "fact \<Rightarrow> pyval" where
  "content_value f =
     PDict [(''subject'', PStr (f_subject f)), (''predicate'', PStr (f_predicate f)),
            (''fact_type'', PStr (f_fact_type f)), (''value'', PDict (f_value f)),
            (''t_valid'', PStr (f_t_valid f)), (''actor'', PStr (f_actor f)), (''reason'', opt_str (f_reason f))]"

text \<open>\<^verbatim>\<open>Fact.content_hash\<close>; \<open>None\<close> when the \<^verbatim>\<open>__str__\<close> of a value raises.\<close>

definition content_hash :: "(string \<Rightarrow> string) \<Rightarrow> fact \<Rightarrow> string option" where
  "content_hash H f = map_option (sha256_text H) (dumps content_options (content_value f))"

definition with_recorded :: "fact \<Rightarrow> string \<Rightarrow> string \<Rightarrow> fact" where
  "with_recorded f fact_id t_recorded = f\<lparr>f_fact_id := Some fact_id, f_t_recorded := Some t_recorded\<rparr>"

record edge =
  e_subject :: string
  e_relation :: string
  e_target :: string
  e_value :: "(string \<times> pyval) list"
  e_t_valid :: string
  e_actor :: string
  e_reason :: "string option"
  e_t_invalid :: "string option"
  e_t_recorded :: "string option"
  e_t_superseded :: "string option"
  e_edge_id :: "string option"

definition edge_is_active :: "edge \<Rightarrow> bool" where
  "edge_is_active e \<longleftrightarrow> e_t_invalid e = None \<and> e_t_superseded e = None"

definition edge_key :: "edge \<Rightarrow> string \<times> string \<times> string" where
  "edge_key e = (e_subject e, e_relation e, e_target e)"

end
