(* ===== verification/Tables.thy ===== *)
theory Tables
  imports Facts "HOL-Library.Option_ord"
begin

section \<open>The append-only tables of the stores (store/sqlite.py, store/postgres.py)\<close>

text \<open>
  The storage layer both backends rest on: a table with unique indexes and the append-only
  triggers. The two tables have the same columns up to names (subject, predicate and type of a
  fact; subject, relation and target of an edge), so a row is one record; the two provenance
  columns only the facts have extend it. A statement either succeeds or leaves the table as it
  was. The 64-bit width of the column \<^verbatim>\<open>seq\<close> is not modelled.

  The triggers are an interface: the locale \<open>append_only\<close> states what a trigger must refuse, its
  theorems hold for every statement of every connection, and it is interpreted on the trigger of
  each backend.
\<close>

subsection \<open>Rows and statements\<close>

datatype store_exc =
    Empty_provenance      \<comment> \<open>\<^verbatim>\<open>ValueError\<close>: no actor or no reason\<close>
  | Not_serialisable      \<comment> \<open>\<^verbatim>\<open>TypeError\<close> of \<^verbatim>\<open>json.dumps\<close>\<close>
  | Integrity_error       \<comment> \<open>a unique index or a trigger refused the statement\<close>
  | Version_conflict
  | Invariant_violated    \<comment> \<open>\<^verbatim>\<open>RuntimeError\<close>: the row just inserted is not active\<close>
  | Row_unreadable        \<comment> \<open>\<^verbatim>\<open>JSONDecodeError\<close> on the value of a row\<close>
  | Float_overflow        \<comment> \<open>\<^verbatim>\<open>OverflowError\<close> of \<^verbatim>\<open>float\<close> on a component of a stored vector\<close>
  | Bad_query             \<comment> \<open>\<^verbatim>\<open>ValueError\<close>: a query vector that is not finite\<close>

record row =
  col_id :: string
  col_subject :: string
  col_second :: string       \<comment> \<open>predicate, or relation\<close>
  col_third :: string        \<comment> \<open>fact type, or target\<close>
  col_value :: string
  col_t_valid :: string
  col_t_invalid :: "string option"
  col_t_recorded :: string
  col_t_superseded :: "string option"
  col_actor :: string
  col_reason :: "string option"
  col_seq :: "int option"

record fact_row = row +
  col_superseded_actor :: "string option"
  col_superseded_reason :: "string option"

definition row_key :: "'a row_scheme \<Rightarrow> string \<times> string \<times> string" where
  "row_key r = (col_subject r, col_second r, col_third r)"

definition active_row :: "'a row_scheme \<Rightarrow> bool" where
  "active_row r \<longleftrightarrow> col_t_invalid r = None \<and> col_t_superseded r = None"

text \<open>The primary key, the partial unique index on the key of the active rows and the unique index
  on \<^verbatim>\<open>seq\<close> (NULLs are distinct).\<close>

definition unique_ok :: "'a row_scheme list \<Rightarrow> bool" where
  "unique_ok rows \<longleftrightarrow>
     distinct (map col_id rows) \<and> distinct (map row_key (filter active_row rows)) \<and>
     distinct (filter (\<lambda>s. s \<noteq> None) (map col_seq rows))"

definition insert_row :: "'a row_scheme \<Rightarrow> 'a row_scheme list \<Rightarrow> store_exc + 'a row_scheme list" where
  "insert_row r rows = (if unique_ok (rows @ [r]) then Inr (rows @ [r]) else Inl Integrity_error)"

text \<open>An UPDATE with its WHERE and SET, under a trigger that refuses some changes of a row; the
  result has the number of rows matched.\<close>

definition update_rows ::
  "('a row_scheme \<Rightarrow> 'a row_scheme \<Rightarrow> bool) \<Rightarrow> ('a row_scheme \<Rightarrow> bool) \<Rightarrow> ('a row_scheme \<Rightarrow> 'a row_scheme) \<Rightarrow>
   'a row_scheme list \<Rightarrow> store_exc + 'a row_scheme list \<times> nat" where
  "update_rows refuses w s rows =
     (let rows' = map (\<lambda>r. if w r then s r else r) rows
      in if list_ex (\<lambda>r. w r \<and> refuses r (s r)) rows \<or> \<not> unique_ok rows' then Inl Integrity_error
         else Inr (rows', length (filter w rows)))"

definition delete_rows :: "('a row_scheme \<Rightarrow> bool) \<Rightarrow> 'a row_scheme list \<Rightarrow> store_exc + 'a row_scheme list" where
  "delete_rows w rows = (if list_ex w rows then Inl Integrity_error else Inr rows)"

text \<open>\<^verbatim>\<open>COALESCE(MAX(seq), -1) + 1\<close>.\<close>

definition next_seq :: "'a row_scheme list \<Rightarrow> int" where
  "next_seq rows = (case List.map_filter col_seq rows of [] \<Rightarrow> 0 | s # ss \<Rightarrow> fold max ss s + 1)"

text \<open>The UPDATE that stamps the row of a given id, if there is one.\<close>

definition mark_superseded ::
  "('a row_scheme \<Rightarrow> 'a row_scheme \<Rightarrow> bool) \<Rightarrow> string \<Rightarrow> string option \<Rightarrow> 'a row_scheme list \<Rightarrow>
   store_exc + 'a row_scheme list" where
  "mark_superseded refuses now existing_id rows =
     (case existing_id of
        None \<Rightarrow> Inr rows
      | Some i \<Rightarrow> map_sum id fst
          (update_rows refuses (\<lambda>r. col_id r = i) (\<lambda>r. r\<lparr>col_t_superseded := Some now\<rparr>) rows))"

subsection \<open>The triggers\<close>

text \<open>The WHEN clause of \<^verbatim>\<open>facts_append_only_update\<close> and \<^verbatim>\<open>edges_append_only_update\<close> of SQLite.\<close>

definition sqlite_refuses :: "'a row_scheme \<Rightarrow> 'a row_scheme \<Rightarrow> bool" where
  "sqlite_refuses old new \<longleftrightarrow>
     col_id old \<noteq> col_id new \<or> col_subject old \<noteq> col_subject new \<or> col_second old \<noteq> col_second new \<or>
     col_third old \<noteq> col_third new \<or> col_value old \<noteq> col_value new \<or> col_t_valid old \<noteq> col_t_valid new \<or>
     col_t_recorded old \<noteq> col_t_recorded new \<or> col_actor old \<noteq> col_actor new \<or>
     col_reason old \<noteq> col_reason new \<or> col_seq old \<noteq> col_seq new \<or>
     col_t_superseded old \<noteq> None \<or> col_t_superseded new = None"

text \<open>The conditions of \<^verbatim>\<open>praxis_facts_append_only\<close> and \<^verbatim>\<open>praxis_edges_append_only\<close> of Postgres.\<close>

definition postgres_refuses :: "'a row_scheme \<Rightarrow> 'a row_scheme \<Rightarrow> bool" where
  "postgres_refuses old new \<longleftrightarrow>
     col_t_superseded old \<noteq> None \<or> col_t_superseded new = None \<or>
     col_id old \<noteq> col_id new \<or> col_subject old \<noteq> col_subject new \<or> col_second old \<noteq> col_second new \<or>
     col_third old \<noteq> col_third new \<or> col_value old \<noteq> col_value new \<or> col_t_valid old \<noteq> col_t_valid new \<or>
     col_t_recorded old \<noteq> col_t_recorded new \<or> col_actor old \<noteq> col_actor new \<or>
     col_reason old \<noteq> col_reason new \<or> col_seq old \<noteq> col_seq new"

text \<open>A statement of some connection, on a table with the triggers: TRUNCATE exists in Postgres
  only, where its statement trigger raises; SQLite has no such statement.\<close>

datatype 'r statement =
    Insert 'r
  | Update "'r \<Rightarrow> bool" "'r \<Rightarrow> 'r"
  | Delete "'r \<Rightarrow> bool"
  | Truncate

fun exec_statement ::
  "('a row_scheme \<Rightarrow> 'a row_scheme \<Rightarrow> bool) \<Rightarrow> 'a row_scheme statement \<Rightarrow> 'a row_scheme list \<Rightarrow>
   store_exc + 'a row_scheme list" where
  "exec_statement refuses (Insert r) rows = insert_row r rows"
| "exec_statement refuses (Update w s) rows = map_sum id fst (update_rows refuses w s rows)"
| "exec_statement refuses (Delete w) rows = delete_rows w rows"
| "exec_statement refuses Truncate rows = Inl Integrity_error"

text \<open>Statements one after the other, each in its own transaction.\<close>

fun exec_all ::
  "('a row_scheme \<Rightarrow> 'a row_scheme \<Rightarrow> bool) \<Rightarrow> 'a row_scheme statement list \<Rightarrow> 'a row_scheme list \<Rightarrow>
   'a row_scheme list" where
  "exec_all refuses [] rows = rows"
| "exec_all refuses (s # ss) rows =
     exec_all refuses ss (case exec_statement refuses s rows of Inl x \<Rightarrow> rows | Inr rows' \<Rightarrow> rows')"

subsection \<open>What the triggers give\<close>

text \<open>The columns that identify what was recorded, by whom and when.\<close>

definition recorded_columns :: "'a row_scheme \<Rightarrow> row" where
  "recorded_columns r = (row.truncate r)\<lparr>col_t_invalid := None, col_t_superseded := None\<rparr>"

definition retained :: "'a row_scheme \<Rightarrow> 'a row_scheme \<Rightarrow> bool" where
  "retained old new \<longleftrightarrow>
     recorded_columns old = recorded_columns new \<and> (col_t_superseded old \<noteq> None \<longrightarrow> old = new)"

definition grows :: "'a row_scheme list \<Rightarrow> 'a row_scheme list \<Rightarrow> bool" where
  "grows rows rows' \<longleftrightarrow> length rows \<le> length rows' \<and> list_all2 retained rows (take (length rows) rows')"

lemma retained_refl [simp]: "retained r r"
  by (simp add: retained_def)

lemma retained_trans: "retained a b \<Longrightarrow> retained b c \<Longrightarrow> retained a c"
  by (auto simp: retained_def)

lemma grows_refl [simp]: "grows rows rows"
  by (simp add: grows_def list_all2_refl)

lemma grows_append: "grows rows (rows @ extra)"
  by (simp add: grows_def list_all2_refl)

lemma grows_trans: "grows a b \<Longrightarrow> grows b c \<Longrightarrow> grows a c"
proof -
  assume ab: "grows a b" and bc: "grows b c"
  have "list_all2 retained (take (length a) b) (take (length a) (take (length b) c))"
    using bc by (intro list_all2_takeI) (simp add: grows_def)
  with ab bc show ?thesis
    by (auto simp: grows_def min_def intro: list_all2_trans [OF retained_trans])
qed

lemma grows_map: "\<forall>r \<in> set rows. retained r (f r) \<Longrightarrow> grows rows (map f rows)"
  by (auto simp: grows_def list_all2_conv_all_nth)

locale append_only =
  fixes refuses :: "'a row_scheme \<Rightarrow> 'a row_scheme \<Rightarrow> bool"
  assumes refuses_change: "\<not> refuses old new \<Longrightarrow> recorded_columns old = recorded_columns new"
    and refuses_again: "col_t_superseded old \<noteq> None \<Longrightarrow> refuses old new"
    and refuses_unstamped: "col_t_superseded new = None \<Longrightarrow> refuses old new"
begin

lemma accepted_retained: "\<not> refuses old new \<Longrightarrow> retained old new"
  using refuses_change refuses_again by (auto simp: retained_def)

lemma update_grows: "update_rows refuses w s rows = Inr (rows', n) \<Longrightarrow> grows rows rows'"
  by (auto simp: update_rows_def Let_def list_ex_iff accepted_retained split: if_splits intro!: grows_map)

lemma statement_grows: "exec_statement refuses s rows = Inr rows' \<Longrightarrow> grows rows rows'"
  by (cases s) (auto simp: insert_row_def delete_rows_def map_sum_def update_grows grows_append
      split: if_splits sum.splits prod.splits)

lemma statement_unique: "unique_ok rows \<Longrightarrow> exec_statement refuses s rows = Inr rows' \<Longrightarrow> unique_ok rows'"
  by (cases s) (auto simp: insert_row_def delete_rows_def update_rows_def Let_def split: if_splits sum.splits)

lemma all_grow: "grows rows (exec_all refuses ss rows)"
proof (induction ss arbitrary: rows)
  case (Cons s ss)
  then show ?case
    by (auto split: sum.splits intro: grows_trans [OF statement_grows])
qed simp

lemma all_unique: "unique_ok rows \<Longrightarrow> unique_ok (exec_all refuses ss rows)"
  by (induction ss arbitrary: rows) (auto split: sum.splits intro: statement_unique)

end

interpretation sqlite_table: append_only sqlite_refuses
  by unfold_locales (auto simp: sqlite_refuses_def recorded_columns_def row.defs)

interpretation postgres_table: append_only postgres_refuses
  by unfold_locales (auto simp: postgres_refuses_def recorded_columns_def row.defs)

lemma triggers_agree: "postgres_refuses = sqlite_refuses"
  by (intro ext) (auto simp: postgres_refuses_def sqlite_refuses_def)

text \<open>SQLite's \<^verbatim>\<open>INSERT OR REPLACE\<close> removes the rows a unique index would refuse, and fires
  the delete triggers only with \<^verbatim>\<open>PRAGMA recursive_triggers\<close>, which the store does not set: this
  statement is outside the theorem below, and takes rows away.\<close>

definition replace_row :: "'a row_scheme \<Rightarrow> 'a row_scheme list \<Rightarrow> 'a row_scheme list" where
  "replace_row r rows = filter (\<lambda>q. unique_ok [q, r]) rows @ [r]"

text \<open>C13: The tables are append-only at the storage layer, whatever statements any connection
  executes (plain inserts, updates with any condition and any assignment, deletes, truncation): every
  row stays, at its place, with its identity, key, value, validity start, recording time, actor,
  reason and sequence number unchanged, a row that is superseded is frozen in every column, and
  ids, sequence numbers and the keys of the active rows stay unique. Both backends give the
  same.\<close>

theorem tables_append_only:
  assumes "unique_ok rows"
  shows "grows rows (exec_all sqlite_refuses ss rows) \<and> unique_ok (exec_all sqlite_refuses ss rows) \<and>
    exec_all postgres_refuses ss rows = exec_all sqlite_refuses ss rows"
  using sqlite_table.all_grow sqlite_table.all_unique [OF assms] by (simp add: triggers_agree)

definition demo_row :: row where
  "demo_row = \<lparr>col_id = ''i1'', col_subject = ''host1'', col_second = ''os'', col_third = ''observed'',
     col_value = ''{}'', col_t_valid = ''t0'', col_t_invalid = None, col_t_recorded = ''t1'',
     col_t_superseded = None, col_actor = ''ops'', col_reason = None, col_seq = Some 0\<rparr>"

lemma replace_escapes: "\<not> grows [demo_row] (replace_row (demo_row\<lparr>col_value := ''x''\<rparr>) [demo_row])"
  by (simp add: replace_row_def unique_ok_def demo_row_def grows_def retained_def recorded_columns_def row.defs)

theorem tables_append_only_witness:
  "unique_ok [demo_row] \<and>
   grows [demo_row] (exec_all sqlite_refuses
     [Delete (\<lambda>r. True), Update (\<lambda>r. True) (\<lambda>r. r\<lparr>col_value := ''x'', col_t_superseded := Some ''t2''\<rparr>), Truncate] [demo_row]) \<and>
   exec_all sqlite_refuses
     [Delete (\<lambda>r. True), Update (\<lambda>r. True) (\<lambda>r. r\<lparr>col_value := ''x'', col_t_superseded := Some ''t2''\<rparr>), Truncate] [demo_row] =
   [demo_row]"
proof -
  have u: "unique_ok [demo_row]" by (simp add: unique_ok_def demo_row_def)
  show ?thesis
    using u tables_append_only [OF u, of "[Delete (\<lambda>r. True),
        Update (\<lambda>r. True) (\<lambda>r. r\<lparr>col_value := ''x'', col_t_superseded := Some ''t2''\<rparr>), Truncate]"]
    by (simp add: delete_rows_def update_rows_def sqlite_refuses_def demo_row_def)
qed

subsection \<open>Superseding the active row of a key\<close>

lemma row_key_stamp [simp]: "row_key (r\<lparr>col_t_superseded := x\<rparr>) = row_key r"
  by (simp add: row_key_def)

lemma active_row_stamp [simp]: "\<not> active_row (r\<lparr>col_t_superseded := Some x\<rparr>)"
  by (simp add: active_row_def)

definition supersede_key :: "string \<times> string \<times> string \<Rightarrow> string \<Rightarrow> 'a row_scheme list \<Rightarrow> 'a row_scheme list" where
  "supersede_key k now rows =
     map (\<lambda>r. if active_row r \<and> row_key r = k then r\<lparr>col_t_superseded := Some now\<rparr> else r) rows"

lemma supersede_key_columns [simp]:
  "map col_id (supersede_key k now rows) = map col_id rows"
  "map col_seq (supersede_key k now rows) = map col_seq rows"
  "length (supersede_key k now rows) = length rows"
  by (auto simp: supersede_key_def)

lemma active_supersede_key:
  "filter active_row (supersede_key k now rows) = filter (\<lambda>r. active_row r \<and> row_key r \<noteq> k) rows"
  unfolding supersede_key_def by (induction rows) simp_all

lemma filter_active_supersede_key:
  "filter (\<lambda>r. active_row r \<and> row_key r = k') (supersede_key k now rows) =
   (if k' = k then [] else filter (\<lambda>r. active_row r \<and> row_key r = k') rows)"
proof -
  have s: "filter (\<lambda>r. active_row r \<and> row_key r = k') xs = filter (\<lambda>r. row_key r = k') (filter active_row xs)"
    for xs :: "'a row_scheme list" by (simp add: conj_commute)
  show ?thesis
    unfolding s [of "supersede_key k now rows"] active_supersede_key by (auto simp: filter_empty_conv intro: filter_cong)
qed

lemma distinct_map_subseq_filter: "distinct (map f (filter P xs)) \<Longrightarrow> distinct (map f (filter (\<lambda>x. P x \<and> Q x) xs))"
  by (induction xs) (auto split: if_splits)

lemma unique_supersede_key: "unique_ok rows \<Longrightarrow> unique_ok (supersede_key k now rows)"
  by (simp add: unique_ok_def active_supersede_key distinct_map_subseq_filter)

lemma next_seq_supersede_key [simp]: "next_seq (supersede_key k now rows) = next_seq rows"
proof -
  have "List.map_filter col_seq (supersede_key k now rows) = List.map_filter col_seq rows"
    unfolding supersede_key_def by (induction rows) (auto simp: List.map_filter_simps split: option.splits)
  then show ?thesis by (simp add: next_seq_def)
qed

lemma fold_max_ge: "s \<in> set (x # xs) \<Longrightarrow> s \<le> fold max xs (x :: int)"
proof (induction xs arbitrary: x s)
  case (Cons y ys)
  consider "s \<in> set ys" | "s \<le> max y x" using Cons.prems by auto
  then show ?case
  proof cases
    case 1
    then show ?thesis using Cons.IH [of s "max y x"] by simp
  next
    case 2
    moreover have "max y x \<le> fold max ys (max y x)" using Cons.IH [of "max y x" "max y x"] by simp
    ultimately show ?thesis by (simp only: fold_simps)
  qed
qed simp

lemma map_filter_member: "r \<in> set rows \<Longrightarrow> f r = Some s \<Longrightarrow> s \<in> set (List.map_filter f rows)"
  by (induction rows) (auto simp: List.map_filter_simps split: option.splits)

lemma next_seq_greater: "r \<in> set rows \<Longrightarrow> col_seq r = Some s \<Longrightarrow> s < next_seq rows"
  using map_filter_member [of r rows col_seq s] fold_max_ge [of s]
  by (fastforce simp: next_seq_def split: list.splits)

lemma unique_append:
  assumes "unique_ok rows" and "col_id r \<notin> set (map col_id rows)" and "col_seq r = Some (next_seq rows)"
    and "filter (\<lambda>q. active_row q \<and> row_key q = row_key r) rows = []"
  shows "unique_ok (rows @ [r])"
proof -
  have "Some (next_seq rows) \<notin> col_seq ` set rows" using next_seq_greater [of _ rows "next_seq rows"] by fastforce
  moreover have "row_key r \<notin> set (map row_key (filter active_row rows))"
    using assms(4) by (auto simp: filter_empty_conv)
  ultimately show ?thesis
    using assms(1-3) by (auto simp: unique_ok_def)
qed

lemma insert_row_ok:
  assumes "unique_ok rows" and "col_id r \<notin> set (map col_id rows)" and "col_seq r = Some (next_seq rows)"
    and "filter (\<lambda>q. active_row q \<and> row_key q = row_key r) rows = []"
  shows "insert_row r rows = Inr (rows @ [r])"
  using unique_append [OF assms] by (simp add: insert_row_def)

lemma unique_active:
  "unique_ok rows \<Longrightarrow> filter (\<lambda>r. active_row r \<and> row_key r = k) rows = r # rs \<Longrightarrow> rs = []"
proof -
  assume u: "unique_ok rows" and f: "filter (\<lambda>r. active_row r \<and> row_key r = k) rows = r # rs"
  have "distinct (map row_key (filter (\<lambda>r. active_row r \<and> row_key r = k) rows))"
    using u by (simp add: unique_ok_def distinct_map_subseq_filter)
  moreover have "\<forall>q \<in> set (r # rs). row_key q = k"
    unfolding f [symmetric] by simp
  ultimately show "rs = []" unfolding f by (cases rs) auto
qed

lemma unique_id: "unique_ok rows \<Longrightarrow> q \<in> set rows \<Longrightarrow> r \<in> set rows \<Longrightarrow> col_id q = col_id r \<Longrightarrow> q = r"
  unfolding unique_ok_def by (metis distinct_map inj_onD)

lemma active_by_id:
  assumes "unique_ok rows" and f: "filter (\<lambda>r. active_row r \<and> row_key r = k) rows = r # rs" and x: "x \<in> set rows"
  shows "col_id x = col_id r \<longleftrightarrow> active_row x \<and> row_key x = k"
proof -
  have r: "r \<in> set rows" "active_row r" "row_key r = k"
    using f by (auto simp: filter_eq_Cons_iff)
  have "x = r" if "active_row x" "row_key x = k"
  proof -
    have "x \<in> set (r # rs)" unfolding f [symmetric] using that x by simp
    with unique_active [OF assms(1) f] show ?thesis by simp
  qed
  then show ?thesis using unique_id [OF assms(1) x r(1)] r by metis
qed

lemma mark_superseded_eq:
  assumes "unique_ok rows" and f: "filter (\<lambda>r. active_row r \<and> row_key r = k) rows = q"
  shows "mark_superseded sqlite_refuses now (case q of [] \<Rightarrow> None | r # _ \<Rightarrow> Some (col_id r)) rows =
    Inr (supersede_key k now rows)"
proof (cases q)
  case Nil
  then have "\<forall>r \<in> set rows. \<not> (active_row r \<and> row_key r = k)"
    using f by (simp add: filter_empty_conv)
  then have "supersede_key k now rows = rows"
    unfolding supersede_key_def by (intro map_idI) auto
  with Nil show ?thesis by (simp add: mark_superseded_def)
next
  case (Cons r rs)
  note id = active_by_id [OF assms(1) f [unfolded Cons]]
  have eq: "map (\<lambda>x. if col_id x = col_id r then x\<lparr>col_t_superseded := Some now\<rparr> else x) rows = supersede_key k now rows"
    unfolding supersede_key_def by (intro map_cong refl) (simp only: id)
  have "\<not> list_ex (\<lambda>x. col_id x = col_id r \<and> sqlite_refuses x (x\<lparr>col_t_superseded := Some now\<rparr>)) rows"
    using id by (auto simp: list_ex_iff sqlite_refuses_def active_row_def)
  then show ?thesis
    using unique_supersede_key [OF assms(1), of k now] Cons eq
    by (simp add: mark_superseded_def update_rows_def Let_def)
qed

lemma grows_supersede_key: "grows rows (supersede_key k now rows)"
  unfolding supersede_key_def
  by (intro grows_map) (auto simp: retained_def recorded_columns_def row.defs active_row_def)

end
