(* ===== verification/SqliteStore.thy ===== *)
theory SqliteStore
  imports Tables
begin

section \<open>The SQLite store (store/sqlite.py)\<close>

text \<open>
  The operations of \<^verbatim>\<open>SqliteStore\<close> on the tables of \<^verbatim>\<open>Tables\<close>. The instance lock makes every
  operation one step; the clock and the fresh identifier are arguments. A failed transaction leaves
  the tables as they were; a failure after the commit does not.
\<close>

record sqlite_store =
  st_facts :: "fact_row list"
  st_edges :: "row list"
  st_embeddings :: "(string \<times> string) list"

definition store_init :: sqlite_store where
  "store_init = \<lparr>st_facts = [], st_edges = [], st_embeddings = []\<rparr>"

text \<open>\<^verbatim>\<open>json.dumps(value, sort_keys=True)\<close>.\<close>

definition value_options :: dump_options where
  "value_options = \<lparr>ensure_ascii = True, item_sep = '', '', key_sep = '': '', default_str = no_default\<rparr>"

definition loads_obj :: "string \<Rightarrow> store_exc + (string \<times> pyval) list" where
  "loads_obj raw =
     (case loads raw of Inl _ \<Rightarrow> Inl Row_unreadable | Inr (PDict d) \<Rightarrow> Inr d | Inr _ \<Rightarrow> Inr [])"

definition row_to_fact :: "fact_row \<Rightarrow> store_exc + fact" where
  "row_to_fact r =
     (case loads_obj (col_value r) of
        Inl x \<Rightarrow> Inl x
      | Inr d \<Rightarrow> Inr \<lparr>f_subject = col_subject r, f_predicate = col_second r, f_fact_type = col_third r, f_value = d,
                  f_t_valid = col_t_valid r, f_actor = col_actor r, f_reason = col_reason r,
                  f_t_invalid = col_t_invalid r, f_t_recorded = Some (col_t_recorded r),
                  f_t_superseded = col_t_superseded r, f_fact_id = Some (col_id r)\<rparr>)"

definition row_to_edge :: "row \<Rightarrow> store_exc + edge" where
  "row_to_edge r =
     (case loads_obj (col_value r) of
        Inl x \<Rightarrow> Inl x
      | Inr d \<Rightarrow> Inr \<lparr>e_subject = col_subject r, e_relation = col_second r, e_target = col_third r, e_value = d,
                  e_t_valid = col_t_valid r, e_actor = col_actor r, e_reason = col_reason r,
                  e_t_invalid = col_t_invalid r, e_t_recorded = Some (col_t_recorded r),
                  e_t_superseded = col_t_superseded r, e_edge_id = Some (col_id r)\<rparr>)"

text \<open>The list comprehension over the rows of a result: the first row that cannot be read raises.\<close>

fun collect_rows :: "('r \<Rightarrow> store_exc + 'f) \<Rightarrow> 'r list \<Rightarrow> store_exc + 'f list" where
  "collect_rows f [] = Inr []"
| "collect_rows f (r # rs) =
     (case f r of Inl x \<Rightarrow> Inl x
      | Inr v \<Rightarrow> (case collect_rows f rs of Inl x \<Rightarrow> Inl x | Inr vs \<Rightarrow> Inr (v # vs)))"

definition fetch_one :: "('r \<Rightarrow> store_exc + 'f) \<Rightarrow> 'r list \<Rightarrow> store_exc + 'f option" where
  "fetch_one f rs = (case rs of [] \<Rightarrow> Inr None | r # _ \<Rightarrow> map_sum id Some (f r))"

subsection \<open>Facts\<close>

definition get_active :: "string \<Rightarrow> string \<Rightarrow> string \<Rightarrow> sqlite_store \<Rightarrow> store_exc + fact option" where
  "get_active subject predicate fact_type st =
     fetch_one row_to_fact
       (filter (\<lambda>r. col_subject r = subject \<and> col_second r = predicate \<and> col_third r = fact_type \<and> active_row r)
         (st_facts st))"

definition new_fact_row :: "fact \<Rightarrow> string \<Rightarrow> string \<Rightarrow> string \<Rightarrow> int \<Rightarrow> fact_row" where
  "new_fact_row f fact_id v now seq =
     \<lparr>col_id = fact_id, col_subject = f_subject f, col_second = f_predicate f, col_third = f_fact_type f,
      col_value = v, col_t_valid = f_t_valid f, col_t_invalid = f_t_invalid f, col_t_recorded = now,
      col_t_superseded = None, col_actor = f_actor f, col_reason = f_reason f, col_seq = Some seq,
      col_superseded_actor = None, col_superseded_reason = None\<rparr>"

definition write_superseding ::
  "fact option \<Rightarrow> fact \<Rightarrow> string \<Rightarrow> string \<Rightarrow> fact_row list \<Rightarrow> store_exc + fact_row list" where
  "write_superseding existing f fact_id now rows =
     (case mark_superseded sqlite_refuses now (Option.bind existing f_fact_id) rows of
        Inl x \<Rightarrow> Inl x
      | Inr rows1 \<Rightarrow>
          (case dumps value_options (PDict (f_value f)) of
             None \<Rightarrow> Inl Not_serialisable
           | Some v \<Rightarrow> insert_row (new_fact_row f fact_id v now (next_seq rows1)) rows1))"

text \<open>What both writers do after the commit: read the fact back.\<close>

definition read_back :: "fact \<Rightarrow> sqlite_store \<Rightarrow> (store_exc + fact) \<times> sqlite_store" where
  "read_back f st =
     (case get_active (f_subject f) (f_predicate f) (f_fact_type f) st of
        Inl x \<Rightarrow> (Inl x, st)
      | Inr None \<Rightarrow> (Inl Invariant_violated, st)
      | Inr (Some stored) \<Rightarrow> (Inr stored, st))"

definition put_fact :: "string \<Rightarrow> string \<Rightarrow> fact \<Rightarrow> sqlite_store \<Rightarrow> (store_exc + fact) \<times> sqlite_store" where
  "put_fact now fact_id f st =
     (if f_actor f = [] then (Inl Empty_provenance, st)
      else case get_active (f_subject f) (f_predicate f) (f_fact_type f) st of
        Inl x \<Rightarrow> (Inl x, st)
      | Inr existing \<Rightarrow>
          (case write_superseding existing f fact_id now (st_facts st) of
             Inl x \<Rightarrow> (Inl x, st)
           | Inr rows \<Rightarrow> read_back f (st\<lparr>st_facts := rows\<rparr>)))"

definition version_of :: "(string \<Rightarrow> string) \<Rightarrow> fact option \<Rightarrow> store_exc + string option" where
  "version_of H existing =
     (case existing of
        None \<Rightarrow> Inr None
      | Some e \<Rightarrow> (case content_hash H e of None \<Rightarrow> Inl Not_serialisable | Some h \<Rightarrow> Inr (Some h)))"

definition put_fact_if ::
  "(string \<Rightarrow> string) \<Rightarrow> string \<Rightarrow> string \<Rightarrow> fact \<Rightarrow> string option \<Rightarrow> sqlite_store \<Rightarrow> (store_exc + fact) \<times> sqlite_store" where
  "put_fact_if H now fact_id f expected_version st =
     (if f_actor f = [] then (Inl Empty_provenance, st)
      else case get_active (f_subject f) (f_predicate f) (f_fact_type f) st of
        Inl x \<Rightarrow> (Inl x, st)
      | Inr existing \<Rightarrow>
          (case version_of H existing of
             Inl x \<Rightarrow> (Inl x, st)
           | Inr current \<Rightarrow>
               if current \<noteq> expected_version then (Inl Version_conflict, st)
               else case write_superseding existing f fact_id now (st_facts st) of
                 Inl x \<Rightarrow> (Inl x, st)
               | Inr rows \<Rightarrow> read_back f (st\<lparr>st_facts := rows\<rparr>)))"

definition supersede ::
  "string \<Rightarrow> string \<Rightarrow> string \<Rightarrow> string \<Rightarrow> string \<Rightarrow> string \<Rightarrow> sqlite_store \<Rightarrow> (store_exc + fact option) \<times> sqlite_store" where
  "supersede now subject predicate fact_type actor reason st =
     (if actor = [] \<or> reason = [] then (Inl Empty_provenance, st)
      else case get_active subject predicate fact_type st of
        Inl x \<Rightarrow> (Inl x, st)
      | Inr existing \<Rightarrow>
          (case Option.bind existing f_fact_id of
             None \<Rightarrow> (Inr None, st)
           | Some i \<Rightarrow>
               (case update_rows sqlite_refuses (\<lambda>r. col_id r = i \<and> col_t_superseded r = None)
                       (\<lambda>r. r\<lparr>col_t_invalid := Some now, col_t_superseded := Some now,
                              col_superseded_actor := Some actor, col_superseded_reason := Some reason\<rparr>)
                       (st_facts st) of
                  Inl x \<Rightarrow> (Inl x, st)
                | Inr (rows, n) \<Rightarrow>
                    if n \<noteq> 1 then (Inr None, st\<lparr>st_facts := rows\<rparr>)
                    else (fetch_one row_to_fact (filter (\<lambda>r. col_id r = i) rows), st\<lparr>st_facts := rows\<rparr>))))"

text \<open>\<^verbatim>\<open>ORDER BY seq\<close>: SQLite puts NULL first.\<close>

definition order_by_seq :: "'a row_scheme list \<Rightarrow> 'a row_scheme list" where
  "order_by_seq rows = sort_key col_seq rows"

definition matches :: "string option \<Rightarrow> string \<Rightarrow> bool" where
  "matches p s \<longleftrightarrow> (case p of None \<Rightarrow> True | Some v \<Rightarrow> s = v)"

definition list_active :: "string option \<Rightarrow> string option \<Rightarrow> sqlite_store \<Rightarrow> store_exc + fact list" where
  "list_active subject fact_type st =
     collect_rows row_to_fact
       (order_by_seq (filter (\<lambda>r. active_row r \<and> matches subject (col_subject r) \<and> matches fact_type (col_third r))
         (st_facts st)))"

definition history ::
  "string \<Rightarrow> string option \<Rightarrow> string option \<Rightarrow> sqlite_store \<Rightarrow> store_exc + fact list" where
  "history subject predicate fact_type st =
     collect_rows row_to_fact
       (order_by_seq (filter (\<lambda>r. col_subject r = subject \<and> matches predicate (col_second r) \<and> matches fact_type (col_third r))
         (st_facts st)))"

subsection \<open>Edges\<close>

definition active_edge :: "string \<Rightarrow> string \<Rightarrow> string \<Rightarrow> sqlite_store \<Rightarrow> store_exc + edge option" where
  "active_edge subject relation target st =
     fetch_one row_to_edge
       (filter (\<lambda>r. col_subject r = subject \<and> col_second r = relation \<and> col_third r = target \<and> active_row r)
         (st_edges st))"

definition new_edge_row :: "edge \<Rightarrow> string \<Rightarrow> string \<Rightarrow> string \<Rightarrow> string \<Rightarrow> int \<Rightarrow> row" where
  "new_edge_row e edge_id v t_valid now seq =
     \<lparr>col_id = edge_id, col_subject = e_subject e, col_second = e_relation e, col_third = e_target e,
      col_value = v, col_t_valid = t_valid, col_t_invalid = e_t_invalid e, col_t_recorded = now,
      col_t_superseded = None, col_actor = e_actor e, col_reason = e_reason e, col_seq = Some seq\<rparr>"

definition put_edge :: "string \<Rightarrow> string \<Rightarrow> edge \<Rightarrow> sqlite_store \<Rightarrow> (store_exc + edge) \<times> sqlite_store" where
  "put_edge now edge_id e st =
     (if e_actor e = [] then (Inl Empty_provenance, st)
      else let t_valid = (if e_t_valid e = [] then now else e_t_valid e) in
        case active_edge (e_subject e) (e_relation e) (e_target e) st of
          Inl x \<Rightarrow> (Inl x, st)
        | Inr existing \<Rightarrow>
            (case mark_superseded sqlite_refuses now (Option.bind existing e_edge_id) (st_edges st) of
               Inl x \<Rightarrow> (Inl x, st)
             | Inr rows1 \<Rightarrow>
                 (case dumps value_options (PDict (e_value e)) of
                    None \<Rightarrow> (Inl Not_serialisable, st)
                  | Some v \<Rightarrow>
                      (case insert_row (new_edge_row e edge_id v t_valid now (next_seq rows1)) rows1 of
                         Inl x \<Rightarrow> (Inl x, st)
                       | Inr rows \<Rightarrow>
                           (let st' = st\<lparr>st_edges := rows\<rparr>
                            in case active_edge (e_subject e) (e_relation e) (e_target e) st' of
                                 Inl x \<Rightarrow> (Inl x, st')
                               | Inr None \<Rightarrow> (Inl Invariant_violated, st')
                               | Inr (Some stored) \<Rightarrow> (Inr stored, st'))))))"

definition edges_from :: "string \<Rightarrow> string option \<Rightarrow> sqlite_store \<Rightarrow> store_exc + edge list" where
  "edges_from subject relation st =
     collect_rows row_to_edge
       (order_by_seq (filter (\<lambda>r. col_subject r = subject \<and> active_row r \<and> matches relation (col_second r)) (st_edges st)))"

definition capabilities :: "capability list" where
  "capabilities = [VECTOR, COMPARE_AND_SET]"

subsection \<open>Values through the column\<close>

text \<open>A value json can print: its dicts have distinct keys, its floats are floats, and nothing in it
  is unknown to json.\<close>

definition storable :: "(string \<times> pyval) list \<Rightarrow> bool" where
  "storable d \<longleftrightarrow> wf_val (PDict d) \<and> opaques (PDict d) = {}"

definition stored_value :: "(string \<times> pyval) list \<Rightarrow> (string \<times> pyval) list" where
  "stored_value d = sort_key fst (map (\<lambda>(k, v). (k, json_norm no_default v)) d)"

definition readable :: "'a row_scheme \<Rightarrow> bool" where
  "readable r \<longleftrightarrow> (case loads_obj (col_value r) of Inl _ \<Rightarrow> False | Inr d \<Rightarrow> opaques (PDict d) = {})"

lemma dumps_no_default: "default_str opt = no_default \<Longrightarrow> dumps opt v = Some t \<Longrightarrow> opaques v = {}"
proof (induction v arbitrary: t)
  case (PList vs)
  then obtain ts where "dumps_items opt vs = Some ts" by (auto split: option.splits)
  then have "\<forall>v \<in> set vs. dumps opt v \<noteq> None" using dumps_items_Some by blast
  with PList.IH PList.prems(1) show ?case by auto
next
  case (PDict kvs)
  then obtain ms where "dumps_members opt kvs = Some ms" by (auto split: option.splits)
  then have "dumps_members opt kvs \<noteq> None" by simp
  then have "\<forall>(k, v) \<in> set kvs. dumps opt v \<noteq> None" by (auto simp: dumps_members_None)
  with PDict.IH PDict.prems(1) show ?case by fastforce
qed (auto simp: no_default_def)

lemma no_default_options [simp]: "default_str value_options = no_default"
  by (simp add: value_options_def)

lemma storable_dumps: "storable d \<Longrightarrow> \<exists>v. dumps value_options (PDict d) = Some v"
  by (rule dumps_defined) (simp add: storable_def)

lemma dumps_storable: "wf_val (PDict d) \<Longrightarrow> dumps value_options (PDict d) = Some v \<Longrightarrow> storable d"
  using dumps_no_default [OF no_default_options] unfolding storable_def by blast

lemma loads_value:
  assumes "wf_val (PDict d)" and "dumps value_options (PDict d) = Some v"
  shows "loads_obj v = Inr (stored_value d)"
proof -
  have "separators_ok value_options"
    by (simp add: separators_ok_def value_options_def json_space_def ord_def)
  from loads_dumps [OF assms(1) this assms(2)] show ?thesis
    by (simp add: loads_obj_def stored_value_def)
qed

lemma norm_no_opaque: "opaques v = {} \<Longrightarrow> json_norm d v = json_norm d' v"
proof (induction v)
  case (PDict kvs)
  then have "map (\<lambda>(k, v). (k, json_norm d v)) kvs = map (\<lambda>(k, v). (k, json_norm d' v)) kvs" by fastforce
  then show ?case by (simp only: json_norm.simps)
qed auto

lemma dumps_stored_value:
  assumes "storable d"
  shows "dumps opt (PDict (stored_value d)) = dumps opt (PDict d)"
proof -
  have "PDict (stored_value d) = json_norm no_default (PDict d)" by (simp add: stored_value_def)
  also have "\<dots> = json_norm (default_str opt) (PDict d)"
    by (rule norm_no_opaque) (use assms in \<open>simp add: storable_def\<close>)
  finally show ?thesis by (simp add: dumps_norm del: json_norm.simps)
qed

text \<open>The compare-and-set token of a fact does not change on the way through the store.\<close>

lemma content_hash_value:
  assumes "storable (f_value f)"
  shows "content_hash H (f\<lparr>f_value := stored_value (f_value f), f_t_invalid := a, f_t_recorded := b,
    f_t_superseded := c, f_fact_id := i\<rparr>) = content_hash H f"
  using dumps_stored_value [OF assms, of content_options]
  by (simp add: content_hash_def content_value_def cong: option.case_cong)

subsection \<open>Reading the active fact\<close>

lemma key_filter:
  "(\<lambda>r. col_subject r = s \<and> col_second r = p \<and> col_third r = t \<and> active_row r) =
   (\<lambda>r. active_row r \<and> row_key r = (s, p, t))"
  by (auto simp: row_key_def)

definition active_rows :: "string \<times> string \<times> string \<Rightarrow> 'a row_scheme list \<Rightarrow> 'a row_scheme list" where
  "active_rows k rows = filter (\<lambda>r. active_row r \<and> row_key r = k) rows"

definition fact_of :: "fact_row \<Rightarrow> fact" where
  "fact_of r = (case row_to_fact r of Inr f \<Rightarrow> f)"

text \<open>What the store promises is there: the active fact of a key, if any.\<close>

definition active_view :: "sqlite_store \<Rightarrow> string \<times> string \<times> string \<Rightarrow> fact option" where
  "active_view st k = (case active_rows k (st_facts st) of [] \<Rightarrow> None | r # _ \<Rightarrow> Some (fact_of r))"

definition table_inv :: "'a row_scheme list \<Rightarrow> bool" where
  "table_inv rows \<longleftrightarrow> unique_ok rows \<and> (\<forall>r \<in> set rows. readable r) \<and>
     map col_seq rows = map (Some \<circ> int) [0..<length rows]"

definition store_inv :: "sqlite_store \<Rightarrow> bool" where
  "store_inv st \<longleftrightarrow> table_inv (st_facts st) \<and> table_inv (st_edges st)"

lemma row_to_fact_readable: "readable r \<Longrightarrow> row_to_fact r = Inr (fact_of r)"
  by (auto simp: readable_def row_to_fact_def fact_of_def split: sum.splits)

lemma set_active_rows: "r \<in> set (active_rows k rows) \<longleftrightarrow> r \<in> set rows \<and> active_row r \<and> row_key r = k"
  by (auto simp: active_rows_def)

lemma get_active_view:
  assumes "store_inv st"
  shows "get_active s p t st = Inr (active_view st (s, p, t))"
proof (cases "active_rows (s, p, t) (st_facts st)")
  case (Cons r rs)
  then have "r \<in> set (st_facts st)" using set_active_rows [of r "(s, p, t)" "st_facts st"] by simp
  with assms Cons show ?thesis
    by (simp add: get_active_def fetch_one_def key_filter active_view_def active_rows_def store_inv_def table_inv_def
        row_to_fact_readable)
qed (simp add: get_active_def fetch_one_def key_filter active_view_def active_rows_def)

lemma fact_of_id [simp]: "readable r \<Longrightarrow> f_fact_id (fact_of r) = Some (col_id r)"
  by (auto simp: fact_of_def readable_def row_to_fact_def split: sum.splits)

lemma view_id:
  assumes "store_inv st"
  shows "Option.bind (active_view st k) f_fact_id =
    (case active_rows k (st_facts st) of [] \<Rightarrow> None | r # _ \<Rightarrow> Some (col_id r))"
proof (cases "active_rows k (st_facts st)")
  case (Cons r rs)
  then have "r \<in> set (st_facts st)" using set_active_rows [of r k "st_facts st"] by simp
  with assms Cons show ?thesis by (simp add: active_view_def store_inv_def table_inv_def)
qed (simp add: active_view_def)

subsection \<open>Writing a fact\<close>

text \<open>The reference definition of a write: the active row of the key is stamped, the new row goes to
  the end.\<close>

definition record_fact :: "string \<Rightarrow> string \<Rightarrow> fact \<Rightarrow> string \<Rightarrow> fact_row list \<Rightarrow> fact_row list" where
  "record_fact now fact_id f v rows =
     supersede_key (fact_key f) now rows @ [new_fact_row f fact_id v now (int (length rows))]"

definition stored_fact :: "string \<Rightarrow> string \<Rightarrow> fact \<Rightarrow> fact" where
  "stored_fact now fact_id f =
     f\<lparr>f_value := stored_value (f_value f), f_t_invalid := f_t_invalid f, f_t_recorded := Some now,
       f_t_superseded := None, f_fact_id := Some fact_id\<rparr>"

lemma new_fact_row_key [simp]: "row_key (new_fact_row f i v now n) = fact_key f"
  by (simp add: new_fact_row_def row_key_def fact_key_def)

lemma next_seq_inv: "table_inv rows \<Longrightarrow> next_seq rows = int (length rows)"
proof -
  have f: "List.map_filter col_seq rows = map int [0..<n]" if "map col_seq rows = map (Some \<circ> int) [0..<n]"
    for n and rows :: "'a row_scheme list"
    using that
  proof (induction n arbitrary: rows)
    case (Suc n)
    then obtain rs r where "rows = rs @ [r]" by (cases rows rule: rev_cases) auto
    with Suc show ?case by (auto simp: List.map_filter_def)
  qed (simp add: List.map_filter_simps)
  assume "table_inv rows"
  then have m: "List.map_filter col_seq rows = map int [0..<length rows]" by (simp add: f table_inv_def)
  have "fold max (map int ns) m = (if ns = [] then m else int (last ns))"
    if "sorted ns" "\<forall>x \<in> set ns. m \<le> int x" for ns m
    using that by (induction ns arbitrary: m) (auto simp: max_def)
  note fm = this
  show "next_seq rows = int (length rows)"
  proof (cases "length rows")
    case 0
    with m show ?thesis by (simp add: next_seq_def)
  next
    case (Suc n)
    then have "[0..<length rows] = 0 # [Suc 0..<Suc n]" by (simp add: upt_conv_Cons)
    with m have "next_seq rows = fold max (map int [Suc 0..<Suc n]) 0 + 1" by (simp add: next_seq_def)
    also have "\<dots> = int (Suc n)" by (subst fm [OF sorted_upt]) auto
    finally show ?thesis using Suc by simp
  qed
qed

lemma stored_value_opaques: "storable d \<Longrightarrow> opaques (PDict (stored_value d)) = {}"
  unfolding storable_def stored_value_def
  using norm_no_opaque [of "PDict d" no_default safe_str] opaques_norm_safe [of "PDict d"] by simp

lemma loads_readable: "storable d \<Longrightarrow> dumps value_options (PDict d) = Some (col_value r) \<Longrightarrow> readable r"
  using loads_value [of d "col_value r"] stored_value_opaques [of d] by (simp add: readable_def storable_def)

lemma table_inv_append:
  assumes "table_inv rows" and "col_id r \<notin> set (map col_id rows)" and "col_seq r = Some (int (length rows))"
    and "active_rows (row_key r) rows = []" and "readable r"
  shows "table_inv (rows @ [r])"
  using assms unique_append [of rows r] next_seq_inv [OF assms(1)]
  by (auto simp: table_inv_def active_rows_def)

lemma table_inv_supersede: "table_inv rows \<Longrightarrow> table_inv (supersede_key k now rows)"
  by (auto simp: table_inv_def unique_supersede_key) (auto simp: supersede_key_def readable_def)

lemma active_rows_supersede: "active_rows k' (supersede_key k now rows) = (if k' = k then [] else active_rows k' rows)"
  by (simp add: active_rows_def filter_active_supersede_key)

text \<open>The two statements of a write on a table that satisfies the invariant.\<close>

lemma supersede_then_insert:
  assumes "table_inv rows" and "i = (case active_rows (row_key r) rows of [] \<Rightarrow> None | q # _ \<Rightarrow> Some (col_id q))"
    and "col_id r \<notin> set (map col_id rows)" and "col_seq r = Some (int (length rows))"
  shows "mark_superseded sqlite_refuses now i rows = Inr (supersede_key (row_key r) now rows)"
    and "next_seq (supersede_key (row_key r) now rows) = int (length rows)"
    and "insert_row r (supersede_key (row_key r) now rows) = Inr (supersede_key (row_key r) now rows @ [r])"
    and "readable r \<Longrightarrow> table_inv (supersede_key (row_key r) now rows @ [r])"
proof -
  let ?rows = "supersede_key (row_key r) now rows"
  have u: "unique_ok rows" using assms(1) by (simp add: table_inv_def)
  show "mark_superseded sqlite_refuses now i rows = Inr ?rows"
    unfolding assms(2) by (rule mark_superseded_eq [OF u]) (simp add: active_rows_def)
  show n: "next_seq ?rows = int (length rows)" using next_seq_inv [OF assms(1)] by simp
  show "insert_row r ?rows = Inr (?rows @ [r])"
    by (rule insert_row_ok) (use assms(3,4) n unique_supersede_key [OF u] in \<open>simp_all add: filter_active_supersede_key\<close>)
  show "readable r \<Longrightarrow> table_inv (?rows @ [r])"
    by (rule table_inv_append)
      (use assms(3,4) table_inv_supersede [OF assms(1)] in \<open>simp_all add: active_rows_supersede\<close>)
qed

lemma new_fact_row_cols [simp]:
  "col_id (new_fact_row f i v now n) = i" "col_seq (new_fact_row f i v now n) = Some n"
  "col_value (new_fact_row f i v now n) = v"
  "active_row (new_fact_row f i v now n) \<longleftrightarrow> f_t_invalid f = None"
  by (simp_all add: new_fact_row_def active_row_def)

lemma fact_of_new_row:
  "wf_val (PDict (f_value f)) \<Longrightarrow> dumps value_options (PDict (f_value f)) = Some v \<Longrightarrow>
   fact_of (new_fact_row f i v now n) = stored_fact now i f"
  by (simp add: fact_of_def row_to_fact_def loads_value new_fact_row_def stored_fact_def)

lemma write_superseding_eq:
  assumes "store_inv st" and "i \<notin> set (map col_id (st_facts st))" and "dumps value_options (PDict (f_value f)) = Some v"
  shows "write_superseding (active_view st (fact_key f)) f i now (st_facts st) = Inr (record_fact now i f v (st_facts st))"
proof -
  let ?r = "new_fact_row f i v now (int (length (st_facts st)))"
  have "table_inv (st_facts st)" using assms(1) by (simp add: store_inv_def)
  note s = supersede_then_insert [OF this, of _ ?r now, simplified, OF view_id [OF assms(1)] assms(2) [simplified]]
  show ?thesis using s(1-3) assms(3) by (simp add: write_superseding_def record_fact_def)
qed

lemma record_fact_inv:
  assumes "store_inv st" and "i \<notin> set (map col_id (st_facts st))"
    and "wf_val (PDict (f_value f))" and "dumps value_options (PDict (f_value f)) = Some v"
  shows "store_inv (st\<lparr>st_facts := record_fact now i f v (st_facts st)\<rparr>)"
proof -
  let ?r = "new_fact_row f i v now (int (length (st_facts st)))"
  have "readable ?r"
    by (rule loads_readable [OF dumps_storable [OF assms(3,4)]]) (use assms(4) in simp)
  moreover have "table_inv (st_facts st)" using assms(1) by (simp add: store_inv_def)
  ultimately show ?thesis
    using supersede_then_insert(4) [of "st_facts st" _ ?r now] assms(1,2) by (simp add: store_inv_def record_fact_def)
qed

lemma view_record_fact:
  assumes "wf_val (PDict (f_value f))" and "dumps value_options (PDict (f_value f)) = Some v"
  shows "active_view (st\<lparr>st_facts := record_fact now i f v (st_facts st)\<rparr>) =
    (active_view st)(fact_key f := (if f_t_invalid f = None then Some (stored_fact now i f) else None))"
proof (rule ext)
  fix k
  have "active_rows k (record_fact now i f v (st_facts st)) =
     (if k = fact_key f then (if f_t_invalid f = None then [new_fact_row f i v now (int (length (st_facts st)))] else [])
      else active_rows k (st_facts st))"
    using active_rows_supersede [of k "fact_key f" now "st_facts st"]
    by (auto simp: record_fact_def active_rows_def)
  then show "active_view (st\<lparr>st_facts := record_fact now i f v (st_facts st)\<rparr>) k =
    ((active_view st)(fact_key f := (if f_t_invalid f = None then Some (stored_fact now i f) else None))) k"
    using fact_of_new_row [OF assms] by (simp add: active_view_def)
qed

lemma read_back_view:
  "store_inv st \<Longrightarrow> read_back f st =
   ((case active_view st (fact_key f) of None \<Rightarrow> Inl Invariant_violated | Some g \<Rightarrow> Inr g), st)"
  by (simp add: read_back_def get_active_view fact_key_def split: option.splits)

lemma put_fact_eq:
  assumes "store_inv st" and "i \<notin> set (map col_id (st_facts st))" and "f_actor f \<noteq> []"
    and "wf_val (PDict (f_value f))" and "dumps value_options (PDict (f_value f)) = Some v"
  shows "put_fact now i f st =
    ((if f_t_invalid f = None then Inr (stored_fact now i f) else Inl Invariant_violated),
     st\<lparr>st_facts := record_fact now i f v (st_facts st)\<rparr>)"
  using assms(3) write_superseding_eq [OF assms(1,2,5), of now] view_record_fact [OF assms(4,5), where st = st and now = now and i = i]
    read_back_view [OF record_fact_inv [OF assms(1,2,4,5)], where f = f]
  by (simp add: put_fact_def get_active_view [OF assms(1)] fact_key_def [symmetric] del: fun_upd_apply)
     (simp add: fact_key_def)

lemma put_fact_refused:
  assumes "store_inv st" and "i \<in> set (map col_id (st_facts st)) \<or> dumps value_options (PDict (f_value f)) = None"
  shows "\<exists>x. put_fact now i f st = (Inl x, st) \<and> x \<in> {Empty_provenance, Not_serialisable, Integrity_error}"
proof -
  have "unique_ok (st_facts st)" using assms(1) by (simp add: store_inv_def table_inv_def)
  note m = mark_superseded_eq [OF this refl, of now "fact_key f", folded active_rows_def, folded view_id [OF assms(1)]]
  have "insert_row (new_fact_row f i v now n) (supersede_key (fact_key f) now (st_facts st)) = Inl Integrity_error"
    if "i \<in> set (map col_id (st_facts st))" for v n
    using that supersede_key_columns(1) [of "fact_key f" now "st_facts st"] by (simp add: insert_row_def unique_ok_def del: set_map)
  then show ?thesis
    using assms(2) m
    by (auto simp: put_fact_def get_active_view [OF assms(1)] fact_key_def [symmetric] write_superseding_def split: option.splits
        simp del: set_map)
qed

subsection \<open>Compare and set\<close>

definition active_version :: "(string \<Rightarrow> string) \<Rightarrow> sqlite_store \<Rightarrow> string \<times> string \<times> string \<Rightarrow> string option" where
  "active_version H st k = Option.bind (active_view st k) (content_hash H)"

lemma content_hash_defined: "opaques (PDict (f_value f)) = {} \<Longrightarrow> content_hash H f \<noteq> None"
  using dumps_defined [of "content_value f" content_options]
  by (auto simp: content_hash_def content_value_def opt_str_def split: option.splits)

lemma active_view_opaques: "store_inv st \<Longrightarrow> active_view st k = Some f \<Longrightarrow> opaques (PDict (f_value f)) = {}"
proof -
  assume i: "store_inv st" and v: "active_view st k = Some f"
  then obtain r rs where r: "active_rows k (st_facts st) = r # rs" and f: "f = fact_of r"
    by (auto simp: active_view_def split: list.splits)
  then have "r \<in> set (st_facts st)" using set_active_rows [of r k "st_facts st"] by simp
  with i have "readable r" by (simp add: store_inv_def table_inv_def)
  then show ?thesis unfolding f
    by (auto simp: readable_def fact_of_def row_to_fact_def split: sum.splits)
qed

lemma version_of_active: "store_inv st \<Longrightarrow> version_of H (active_view st k) = Inr (active_version H st k)"
  using active_view_opaques [of st k] content_hash_defined [of _ H]
  by (fastforce simp: version_of_def active_version_def split: option.splits)

lemma put_fact_if_eq:
  "store_inv st \<Longrightarrow> put_fact_if H now i f expected st =
   (if f_actor f = [] then (Inl Empty_provenance, st)
    else if active_version H st (fact_key f) \<noteq> expected then (Inl Version_conflict, st)
    else put_fact now i f st)"
  by (simp add: put_fact_if_def put_fact_def get_active_view fact_key_def [symmetric] version_of_active)

subsection \<open>Superseding without a replacement\<close>

definition retire_row :: "string \<Rightarrow> string \<Rightarrow> string \<Rightarrow> fact_row \<Rightarrow> fact_row" where
  "retire_row now actor reason r =
     r\<lparr>col_t_invalid := Some now, col_t_superseded := Some now,
       col_superseded_actor := Some actor, col_superseded_reason := Some reason\<rparr>"

definition retire_key ::
  "string \<times> string \<times> string \<Rightarrow> string \<Rightarrow> string \<Rightarrow> string \<Rightarrow> fact_row list \<Rightarrow> fact_row list" where
  "retire_key k now actor reason rows =
     map (\<lambda>r. if active_row r \<and> row_key r = k then retire_row now actor reason r else r) rows"

lemma retire_row_cols [simp]:
  "col_id (retire_row now a b r) = col_id r" "col_seq (retire_row now a b r) = col_seq r"
  "row_key (retire_row now a b r) = row_key r" "\<not> active_row (retire_row now a b r)"
  "col_value (retire_row now a b r) = col_value r" "readable (retire_row now a b r) = readable r"
  by (simp_all add: retire_row_def row_key_def active_row_def readable_def)

lemma active_retire_key:
  "filter active_row (retire_key k now a b rows) = filter (\<lambda>r. active_row r \<and> row_key r \<noteq> k) rows"
  unfolding retire_key_def by (induction rows) simp_all

lemma active_rows_retire: "active_rows k' (retire_key k now a b rows) = (if k' = k then [] else active_rows k' rows)"
proof -
  have s: "active_rows k' xs = filter (\<lambda>r. row_key r = k') (filter active_row xs)" for xs :: "fact_row list"
    by (simp add: active_rows_def conj_commute)
  show ?thesis
    unfolding s [of "retire_key k now a b rows"] active_retire_key
    by (auto simp: filter_empty_conv active_rows_def intro: filter_cong)
qed

lemma table_inv_retire: "table_inv rows \<Longrightarrow> table_inv (retire_key k now a b rows)"
proof -
  have "map col_id (retire_key k now a b rows) = map col_id rows" "map col_seq (retire_key k now a b rows) = map col_seq rows"
    by (auto simp: retire_key_def)
  then have "unique_ok rows \<Longrightarrow> unique_ok (retire_key k now a b rows)"
    by (simp add: unique_ok_def active_retire_key distinct_map_subseq_filter)
  moreover have "\<forall>r \<in> set rows. readable r \<Longrightarrow> \<forall>r \<in> set (retire_key k now a b rows). readable r"
    by (auto simp: retire_key_def)
  moreover have "length (retire_key k now a b rows) = length rows" by (simp add: retire_key_def)
  ultimately show "table_inv rows \<Longrightarrow> table_inv (retire_key k now a b rows)"
    using \<open>map col_seq (retire_key k now a b rows) = map col_seq rows\<close> by (simp add: table_inv_def)
qed

lemma fact_of_retire:
  "readable r \<Longrightarrow> row_to_fact (retire_row now a b r) = Inr ((fact_of r)\<lparr>f_t_invalid := Some now, f_t_superseded := Some now\<rparr>)"
  by (auto simp: readable_def row_to_fact_def fact_of_def retire_row_def split: sum.splits)

lemma retire_statement:
  assumes "table_inv rows" and c: "active_rows k rows = r # rs"
  shows "update_rows sqlite_refuses (\<lambda>x. col_id x = col_id r \<and> col_t_superseded x = None) (retire_row now a b) rows =
    Inr (retire_key k now a b rows, 1)"
    and "filter (\<lambda>x. col_id x = col_id r) (retire_key k now a b rows) = [retire_row now a b r]"
proof -
  have u: "unique_ok rows" using assms(1) by (simp add: table_inv_def)
  note f = c [unfolded active_rows_def]
  note rs = unique_active [OF u f] and id = active_by_id [OF u f]
  have w: "col_id x = col_id r \<and> col_t_superseded x = None \<longleftrightarrow> active_row x \<and> row_key x = k" if "x \<in> set rows" for x
    using id [OF that] by (auto simp: active_row_def)
  have eq: "map (\<lambda>x. if col_id x = col_id r \<and> col_t_superseded x = None then retire_row now a b x else x) rows =
      retire_key k now a b rows"
    unfolding retire_key_def by (intro map_cong refl) (simp only: w)
  have len: "filter (\<lambda>x. col_id x = col_id r \<and> col_t_superseded x = None) rows = [r]"
    using f rs by (simp add: w cong: filter_cong)
  have "\<not> list_ex (\<lambda>x. (col_id x = col_id r \<and> col_t_superseded x = None) \<and> sqlite_refuses x (retire_row now a b x)) rows"
    by (auto simp: list_ex_iff sqlite_refuses_def retire_row_def)
  then show "update_rows sqlite_refuses (\<lambda>x. col_id x = col_id r \<and> col_t_superseded x = None) (retire_row now a b) rows =
      Inr (retire_key k now a b rows, 1)"
    using eq len table_inv_retire [OF assms(1), of k now a b] by (simp add: update_rows_def Let_def table_inv_def)
  have "filter (\<lambda>x. col_id x = col_id r) (retire_key k now a b rows) =
      map (\<lambda>x. if active_row x \<and> row_key x = k then retire_row now a b x else x) (filter (\<lambda>x. col_id x = col_id r) rows)"
    unfolding retire_key_def filter_map comp_def by (intro arg_cong [where f = "map _"] filter_cong refl) simp
  also have "filter (\<lambda>x. col_id x = col_id r) rows = [r]"
    using f rs by (simp add: id cong: filter_cong)
  finally have "filter (\<lambda>x. col_id x = col_id r) (retire_key k now a b rows) =
      map (\<lambda>x. if active_row x \<and> row_key x = k then retire_row now a b x else x) [r]" .
  moreover have "active_row r \<and> row_key r = k" using f by (auto simp: filter_eq_Cons_iff)
  ultimately show "filter (\<lambda>x. col_id x = col_id r) (retire_key k now a b rows) = [retire_row now a b r]" by simp
qed

lemma supersede_eq:
  assumes i: "store_inv st" and "actor \<noteq> []" and "reason \<noteq> []"
  shows "supersede now s p t actor reason st =
    (Inr (map_option (\<lambda>f. f\<lparr>f_t_invalid := Some now, f_t_superseded := Some now\<rparr>) (active_view st (s, p, t))),
     st\<lparr>st_facts := retire_key (s, p, t) now actor reason (st_facts st)\<rparr>)"
proof (cases "active_rows (s, p, t) (st_facts st)")
  case Nil
  then have "\<forall>r \<in> set (st_facts st). \<not> (active_row r \<and> row_key r = (s, p, t))"
    by (simp add: active_rows_def filter_empty_conv)
  then have "retire_key (s, p, t) now actor reason (st_facts st) = st_facts st"
    unfolding retire_key_def by (intro map_idI) auto
  with Nil assms show ?thesis
    by (simp add: supersede_def get_active_view active_view_def)
next
  case (Cons r rs)
  have ti: "table_inv (st_facts st)" using i by (simp add: store_inv_def)
  have "r \<in> set (st_facts st)" using Cons set_active_rows [of r "(s, p, t)" "st_facts st"] by simp
  with ti have r: "readable r" by (simp add: table_inv_def)
  have v: "active_view st (s, p, t) = Some (fact_of r)" using Cons by (simp add: active_view_def)
  show ?thesis
    using assms v r retire_statement [OF ti Cons, of now actor reason] fact_of_retire [OF r, of now actor reason]
    by (simp add: supersede_def get_active_view fetch_one_def retire_row_def [abs_def])
qed

lemma view_retire:
  "active_view (st\<lparr>st_facts := retire_key k now a b (st_facts st)\<rparr>) = (active_view st)(k := None)"
  by (rule ext) (simp add: active_view_def active_rows_retire)

lemma retire_inv: "store_inv st \<Longrightarrow> store_inv (st\<lparr>st_facts := retire_key k now a b (st_facts st)\<rparr>)"
  by (simp add: store_inv_def table_inv_retire)

subsection \<open>Edges\<close>

definition edge_of :: "row \<Rightarrow> edge" where
  "edge_of r = (case row_to_edge r of Inr e \<Rightarrow> e)"

definition edge_view :: "sqlite_store \<Rightarrow> string \<times> string \<times> string \<Rightarrow> edge option" where
  "edge_view st k = (case active_rows k (st_edges st) of [] \<Rightarrow> None | r # _ \<Rightarrow> Some (edge_of r))"

definition stored_edge :: "string \<Rightarrow> string \<Rightarrow> edge \<Rightarrow> edge" where
  "stored_edge now edge_id e =
     e\<lparr>e_value := stored_value (e_value e), e_t_valid := (if e_t_valid e = [] then now else e_t_valid e),
       e_t_invalid := e_t_invalid e, e_t_recorded := Some now, e_t_superseded := None, e_edge_id := Some edge_id\<rparr>"

definition record_edge :: "string \<Rightarrow> string \<Rightarrow> edge \<Rightarrow> string \<Rightarrow> row list \<Rightarrow> row list" where
  "record_edge now edge_id e v rows =
     supersede_key (edge_key e) now rows @
       [new_edge_row e edge_id v (if e_t_valid e = [] then now else e_t_valid e) now (int (length rows))]"

lemma new_edge_row_cols [simp]:
  "col_id (new_edge_row e i v tv now n) = i" "col_seq (new_edge_row e i v tv now n) = Some n"
  "col_value (new_edge_row e i v tv now n) = v" "row_key (new_edge_row e i v tv now n) = edge_key e"
  "active_row (new_edge_row e i v tv now n) \<longleftrightarrow> e_t_invalid e = None"
  by (simp_all add: new_edge_row_def active_row_def row_key_def edge_key_def)

lemma edge_of_id [simp]: "readable r \<Longrightarrow> e_edge_id (edge_of r) = Some (col_id r)"
  by (auto simp: edge_of_def readable_def row_to_edge_def split: sum.splits)

lemma active_edge_view:
  assumes "store_inv st"
  shows "active_edge s p t st = Inr (edge_view st (s, p, t))"
    and "Option.bind (edge_view st k) e_edge_id = (case active_rows k (st_edges st) of [] \<Rightarrow> None | r # _ \<Rightarrow> Some (col_id r))"
proof -
  have r: "readable r" if "active_rows k (st_edges st) = r # rs" for k r rs
    using that assms set_active_rows [of r k "st_edges st"] by (simp add: store_inv_def table_inv_def)
  have e: "row_to_edge r = Inr (edge_of r)" if "readable r" for r
    using that by (auto simp: readable_def row_to_edge_def edge_of_def split: sum.splits)
  show "active_edge s p t st = Inr (edge_view st (s, p, t))"
    using e r by (auto simp: active_edge_def fetch_one_def key_filter edge_view_def active_rows_def split: list.splits)
  show "Option.bind (edge_view st k) e_edge_id = (case active_rows k (st_edges st) of [] \<Rightarrow> None | r # _ \<Rightarrow> Some (col_id r))"
    using r by (auto simp: edge_view_def split: list.splits)
qed

lemma record_edge_inv:
  assumes "store_inv st" and "i \<notin> set (map col_id (st_edges st))"
    and "wf_val (PDict (e_value e))" and "dumps value_options (PDict (e_value e)) = Some v"
  shows "store_inv (st\<lparr>st_edges := record_edge now i e v (st_edges st)\<rparr>)"
proof -
  let ?r = "new_edge_row e i v (if e_t_valid e = [] then now else e_t_valid e) now (int (length (st_edges st)))"
  have "readable ?r"
    by (rule loads_readable [OF dumps_storable [OF assms(3,4)]]) (use assms(4) in simp)
  moreover have "table_inv (st_edges st)" using assms(1) by (simp add: store_inv_def)
  ultimately show ?thesis
    using supersede_then_insert(4) [of "st_edges st" _ ?r now] assms(1,2) by (simp add: store_inv_def record_edge_def)
qed

lemma view_record_edge:
  assumes "wf_val (PDict (e_value e))" and "dumps value_options (PDict (e_value e)) = Some v"
  shows "edge_view (st\<lparr>st_edges := record_edge now i e v (st_edges st)\<rparr>) =
    (edge_view st)(edge_key e := (if e_t_invalid e = None then Some (stored_edge now i e) else None))"
proof (rule ext)
  fix k
  let ?r = "new_edge_row e i v (if e_t_valid e = [] then now else e_t_valid e) now (int (length (st_edges st)))"
  have "active_rows k (record_edge now i e v (st_edges st)) =
     (if k = edge_key e then (if e_t_invalid e = None then [?r] else []) else active_rows k (st_edges st))"
    using active_rows_supersede [of k "edge_key e" now "st_edges st"]
    by (auto simp: record_edge_def active_rows_def)
  moreover have "edge_of ?r = stored_edge now i e"
    using assms by (simp add: edge_of_def row_to_edge_def loads_value new_edge_row_def stored_edge_def)
  ultimately show "edge_view (st\<lparr>st_edges := record_edge now i e v (st_edges st)\<rparr>) k =
    ((edge_view st)(edge_key e := (if e_t_invalid e = None then Some (stored_edge now i e) else None))) k"
    by (simp add: edge_view_def)
qed

lemma put_edge_eq:
  assumes "store_inv st" and "i \<notin> set (map col_id (st_edges st))" and "e_actor e \<noteq> []"
    and "wf_val (PDict (e_value e))" and "dumps value_options (PDict (e_value e)) = Some v"
  shows "put_edge now i e st =
    ((if e_t_invalid e = None then Inr (stored_edge now i e) else Inl Invariant_violated),
     st\<lparr>st_edges := record_edge now i e v (st_edges st)\<rparr>)"
proof -
  let ?r = "new_edge_row e i v (if e_t_valid e = [] then now else e_t_valid e) now (int (length (st_edges st)))"
  have "table_inv (st_edges st)" using assms(1) by (simp add: store_inv_def)
  note s = supersede_then_insert [OF this, of _ ?r now, simplified, OF active_edge_view(2) [OF assms(1)] assms(2) [simplified]]
  note a = active_edge_view(1) [OF assms(1)] active_edge_view(1) [OF record_edge_inv [OF assms(1,2,4,5), of now]]
  have k: "(e_subject e, e_relation e, e_target e) = edge_key e"
    by (simp add: edge_key_def)
  have ins: "insert_row ?r (supersede_key (edge_key e) now (st_edges st)) = Inr (record_edge now i e v (st_edges st))"
    using s(3) by (simp only: record_edge_def)
  show ?thesis
    using s(1,2) ins assms(3,5) a view_record_edge [OF assms(4,5), where st = st and now = now and i = i]
    by (simp add: put_edge_def Let_def k del: if_split)
qed

lemma put_edge_refused:
  assumes "store_inv st" and "i \<in> set (map col_id (st_edges st)) \<or> dumps value_options (PDict (e_value e)) = None"
  shows "snd (put_edge now i e st) = st"
proof -
  have "unique_ok (st_edges st)" using assms(1) by (simp add: store_inv_def table_inv_def)
  note m = mark_superseded_eq [OF this refl, of now "edge_key e", folded active_rows_def, folded active_edge_view(2) [OF assms(1)]]
  have "insert_row (new_edge_row e i v tv now n) (supersede_key (edge_key e) now (st_edges st)) = Inl Integrity_error"
    if "i \<in> set (map col_id (st_edges st))" for v n tv
    using that supersede_key_columns(1) [of "edge_key e" now "st_edges st"] by (simp add: insert_row_def unique_ok_def del: set_map)
  then show ?thesis
    using assms(2) m
    by (auto simp: put_edge_def active_edge_view(1) [OF assms(1)] edge_key_def [symmetric] Let_def split: option.splits
        simp del: set_map)
qed

end
