(* ===== verification/StoreSpec.thy ===== *)
theory StoreSpec
  imports SqliteStore
begin

section \<open>What a fact store promises\<close>

text \<open>
  The contract of \<^verbatim>\<open>StoreProtocol\<close> and \<^verbatim>\<open>VersionedStore\<close> (store/base.py) as an abstract machine: the
  state is the active fact of every key and the identifiers in use, an operation answers with a
  fact, nothing or an error. The locale \<open>fact_store\<close> states that a backend refines this machine;
  what follows from the contract is proved there once. It is interpreted on the SQLite backend
  here and on the Postgres backend in its theory.
\<close>

datatype store_op =
    Put string string fact
  | Put_if string string fact "string option"
  | Supersede string string string string string string

record abstract_store =
  a_view :: "string \<times> string \<times> string \<Rightarrow> fact option"
  a_ids :: "string set"

definition spec_record :: "string \<Rightarrow> string \<Rightarrow> fact \<Rightarrow> abstract_store \<Rightarrow> abstract_store" where
  "spec_record now i f a =
     \<lparr>a_view = (a_view a)(fact_key f := (if f_t_invalid f = None then Some (stored_fact now i f) else None)),
      a_ids = insert i (a_ids a)\<rparr>"

definition spec_version :: "(string \<Rightarrow> string) \<Rightarrow> abstract_store \<Rightarrow> string \<times> string \<times> string \<Rightarrow> string option" where
  "spec_version H a k = Option.bind (a_view a k) (content_hash H)"

fun spec_put :: "string \<Rightarrow> string \<Rightarrow> fact \<Rightarrow> abstract_store \<Rightarrow> (store_exc + fact option) \<times> abstract_store" where
  "spec_put now i f a =
     (if f_actor f = [] then (Inl Empty_provenance, a)
      else if dumps value_options (PDict (f_value f)) = None then (Inl Not_serialisable, a)
      else if i \<in> a_ids a then (Inl Integrity_error, a)
      else (if f_t_invalid f = None then Inr (Some (stored_fact now i f)) else Inl Invariant_violated, spec_record now i f a))"

declare spec_put.simps [simp del]

fun spec_step :: "(string \<Rightarrow> string) \<Rightarrow> store_op \<Rightarrow> abstract_store \<Rightarrow> (store_exc + fact option) \<times> abstract_store" where
  "spec_step H (Put now i f) a = spec_put now i f a"
| "spec_step H (Put_if now i f expected) a =
     (if f_actor f = [] then (Inl Empty_provenance, a)
      else if spec_version H a (fact_key f) \<noteq> expected then (Inl Version_conflict, a)
      else spec_put now i f a)"
| "spec_step H (Supersede now s p t actor reason) a =
     (if actor = [] \<or> reason = [] then (Inl Empty_provenance, a)
      else (Inr (map_option (\<lambda>f. f\<lparr>f_t_invalid := Some now, f_t_superseded := Some now\<rparr>) (a_view a (s, p, t))),
            a\<lparr>a_view := (a_view a)((s, p, t) := None)\<rparr>))"

text \<open>A fact built by a caller has a well-formed value; a fresh identifier is not in use.\<close>

fun wf_op :: "store_op \<Rightarrow> bool" where
  "wf_op (Put now i f) = wf_val (PDict (f_value f))"
| "wf_op (Put_if now i f expected) = wf_val (PDict (f_value f))"
| "wf_op (Supersede now s p t actor reason) = True"

fun op_ids :: "store_op \<Rightarrow> string set" where
  "op_ids (Put now i f) = {i}"
| "op_ids (Put_if now i f expected) = {i}"
| "op_ids (Supersede now s p t actor reason) = {}"

text \<open>Calls one after the other, with their answers.\<close>

fun run_ops :: "('op \<Rightarrow> 's \<Rightarrow> 'r \<times> 's) \<Rightarrow> 'op list \<Rightarrow> 's \<Rightarrow> 'r list \<times> 's" where
  "run_ops step [] st = ([], st)"
| "run_ops step (op # ops) st =
     (let (res, st1) = step op st; (rest, st2) = run_ops step ops st1 in (res # rest, st2))"

fun fresh_ids :: "store_op list \<Rightarrow> string set \<Rightarrow> bool" where
  "fresh_ids [] used = True"
| "fresh_ids (op # ops) used \<longleftrightarrow> op_ids op \<inter> used = {} \<and> fresh_ids ops (used \<union> op_ids op)"

lemma spec_step_ids: "a_ids (snd (spec_step H op a)) \<subseteq> a_ids a \<union> op_ids op"
  by (cases op) (auto simp: spec_put.simps spec_record_def)

lemma fresh_ids_mono: "fresh_ids ops used \<Longrightarrow> used' \<subseteq> used \<Longrightarrow> fresh_ids ops used'"
proof (induction ops arbitrary: used used')
  case (Cons op ops)
  then have "fresh_ids ops (used \<union> op_ids op)" "used' \<union> op_ids op \<subseteq> used \<union> op_ids op" by auto
  from Cons.IH [OF this] Cons.prems show ?case by auto
qed simp

locale fact_store =
  fixes step :: "(string \<Rightarrow> string) \<Rightarrow> store_op \<Rightarrow> 's \<Rightarrow> (store_exc + fact option) \<times> 's"
    and get :: "string \<Rightarrow> string \<Rightarrow> string \<Rightarrow> 's \<Rightarrow> store_exc + fact option"
    and abs :: "'s \<Rightarrow> abstract_store"
    and inv :: "'s \<Rightarrow> bool"
  assumes get_view: "inv st \<Longrightarrow> get s p t st = Inr (a_view (abs st) (s, p, t))"
    and step_inv: "inv st \<Longrightarrow> wf_op op \<Longrightarrow> inv (snd (step H op st))"
    and step_abs: "inv st \<Longrightarrow> wf_op op \<Longrightarrow> abs (snd (step H op st)) = snd (spec_step H op (abs st))"
    and step_response:
      "inv st \<Longrightarrow> wf_op op \<Longrightarrow> op_ids op \<inter> a_ids (abs st) = {} \<Longrightarrow> fst (step H op st) = fst (spec_step H op (abs st))"
begin

lemma run_inv: "inv st \<Longrightarrow> list_all wf_op ops \<Longrightarrow> inv (snd (run_ops (step H) ops st))"
  by (induction ops arbitrary: st) (auto simp: case_prod_unfold Let_def step_inv)

lemma run_abs:
  "inv st \<Longrightarrow> list_all wf_op ops \<Longrightarrow> abs (snd (run_ops (step H) ops st)) = snd (run_ops (spec_step H) ops (abs st))"
  by (induction ops arbitrary: st) (auto simp: case_prod_unfold Let_def step_inv step_abs)

lemma run_responses:
  "inv st \<Longrightarrow> list_all wf_op ops \<Longrightarrow> fresh_ids ops (a_ids (abs st)) \<Longrightarrow>
   fst (run_ops (step H) ops st) = fst (run_ops (spec_step H) ops (abs st))"
proof (induction ops arbitrary: st)
  case (Cons op ops)
  then have "fresh_ids ops (a_ids (abs st) \<union> op_ids op)" by simp
  then have "fresh_ids ops (a_ids (abs (snd (step H op st))))"
    by (rule fresh_ids_mono) (use Cons.prems spec_step_ids [of H op "abs st"] in \<open>simp add: step_abs\<close>)
  with Cons show ?case
    by (auto simp: case_prod_unfold Let_def step_inv step_abs step_response)
qed simp

text \<open>A compare-and-set that is answered with a fact was decided on the version it named; any
  other write of the key in between, of another content, makes it a conflict.\<close>

lemma cas_decides:
  assumes "inv st" and "wf_val (PDict (f_value f))" and "i \<notin> a_ids (abs st)"
    and "fst (step H (Put_if now i f expected) st) = Inr r"
  shows "spec_version H (abs st) (fact_key f) = expected"
  using step_response [OF assms(1), of "Put_if now i f expected" H] assms(2-4)
  by (auto split: if_splits)

lemma cas_conflict:
  assumes "inv st" and "wf_val (PDict (f_value f))" and "i \<notin> a_ids (abs st)" and "f_actor f \<noteq> []"
    and "spec_version H (abs st) (fact_key f) \<noteq> expected"
  shows "fst (step H (Put_if now i f expected) st) = Inl Version_conflict \<and>
    abs (snd (step H (Put_if now i f expected) st)) = abs st"
  using step_response [OF assms(1), of "Put_if now i f expected" H] step_abs [OF assms(1), of "Put_if now i f expected" H] assms(2-5)
  by auto

end

subsection \<open>The SQLite backend refines the contract\<close>

definition sqlite_step ::
  "(string \<Rightarrow> string) \<Rightarrow> store_op \<Rightarrow> sqlite_store \<Rightarrow> (store_exc + fact option) \<times> sqlite_store" where
  "sqlite_step H op st =
     (case op of
        Put now i f \<Rightarrow> apfst (map_sum id Some) (put_fact now i f st)
      | Put_if now i f expected \<Rightarrow> apfst (map_sum id Some) (put_fact_if H now i f expected st)
      | Supersede now s p t actor reason \<Rightarrow> supersede now s p t actor reason st)"

definition sqlite_abs :: "sqlite_store \<Rightarrow> abstract_store" where
  "sqlite_abs st = \<lparr>a_view = active_view st, a_ids = set (map col_id (st_facts st))\<rparr>"

lemma record_fact_ids: "set (map col_id (record_fact now i f v rows)) = insert i (set (map col_id rows))"
proof -
  have "map col_id (record_fact now i f v rows) = map col_id rows @ [i]" by (simp add: record_fact_def)
  then show ?thesis by (simp only:) simp
qed

lemma retire_key_ids: "map col_id (retire_key k now a b rows) = map col_id rows"
  by (auto simp: retire_key_def)

lemma put_fact_spec:
  assumes "store_inv st" and "wf_val (PDict (f_value f))"
  shows "store_inv (snd (put_fact now i f st))"
    and "sqlite_abs (snd (put_fact now i f st)) = snd (spec_put now i f (sqlite_abs st))"
    and "map_sum id Some (fst (put_fact now i f st)) = fst (spec_put now i f (sqlite_abs st))"
proof -
  let ?v = "dumps value_options (PDict (f_value f))"
  consider (actor) "f_actor f = []" | (dumps) "f_actor f \<noteq> []" "?v = None"
    | (taken) v where "f_actor f \<noteq> []" "?v = Some v" "i \<in> set (map col_id (st_facts st))"
    | (ok) v where "f_actor f \<noteq> []" "?v = Some v" "i \<notin> set (map col_id (st_facts st))"
    by (metis option.exhaust)
  then have "store_inv (snd (put_fact now i f st)) \<and>
      sqlite_abs (snd (put_fact now i f st)) = snd (spec_put now i f (sqlite_abs st)) \<and>
      map_sum id Some (fst (put_fact now i f st)) = fst (spec_put now i f (sqlite_abs st))"
  proof cases
    case actor
    with assms show ?thesis by (simp add: put_fact_def spec_put.simps)
  next
    case dumps
    then have "put_fact now i f st = (Inl Not_serialisable, st)"
      using mark_superseded_eq [OF _ refl, of "st_facts st" now "fact_key f", folded active_rows_def, folded view_id [OF assms(1)]] assms(1)
      by (simp add: put_fact_def get_active_view fact_key_def [symmetric] write_superseding_def store_inv_def table_inv_def)
    with dumps assms show ?thesis by (simp add: spec_put.simps)
  next
    case (taken v)
    have "put_fact now i f st = (Inl Integrity_error, st)"
    proof -
      have "unique_ok (st_facts st)" using assms(1) by (simp add: store_inv_def table_inv_def)
      note m = mark_superseded_eq [OF this refl, of now "fact_key f", folded active_rows_def, folded view_id [OF assms(1)]]
      have "insert_row (new_fact_row f i v now n) (supersede_key (fact_key f) now (st_facts st)) = Inl Integrity_error" for n
        using taken(3) supersede_key_columns(1) [of "fact_key f" now "st_facts st"] by (simp add: insert_row_def unique_ok_def del: set_map)
      with m taken(1,2) show ?thesis
        by (simp add: put_fact_def get_active_view [OF assms(1)] fact_key_def [symmetric] write_superseding_def)
    qed
    with taken assms show ?thesis by (simp add: spec_put.simps sqlite_abs_def)
  next
    case (ok v)
    have "sqlite_abs (st\<lparr>st_facts := record_fact now i f v (st_facts st)\<rparr>) = spec_record now i f (sqlite_abs st)"
      using view_record_fact [OF assms(2) ok(2), where st = st and now = now and i = i]
        record_fact_ids [of now i f v "st_facts st"]
      by (simp add: sqlite_abs_def spec_record_def del: set_map)
    with put_fact_eq [OF assms(1) ok(3,1) assms(2) ok(2), of now]
      record_fact_inv [OF assms(1) ok(3) assms(2) ok(2), of now] ok
    show ?thesis by (simp add: spec_put.simps sqlite_abs_def del: set_map)
  qed
  then show "store_inv (snd (put_fact now i f st))"
    and "sqlite_abs (snd (put_fact now i f st)) = snd (spec_put now i f (sqlite_abs st))"
    and "map_sum id Some (fst (put_fact now i f st)) = fst (spec_put now i f (sqlite_abs st))"
    by auto
qed

lemma sqlite_step_spec:
  assumes "store_inv st" and "wf_op op"
  shows "store_inv (snd (sqlite_step H op st))"
    and "sqlite_abs (snd (sqlite_step H op st)) = snd (spec_step H op (sqlite_abs st))"
    and "fst (sqlite_step H op st) = fst (spec_step H op (sqlite_abs st))"
proof -
  have v: "spec_version H (sqlite_abs st) k = active_version H st k" for k
    by (simp add: spec_version_def active_version_def sqlite_abs_def)
  have "store_inv (snd (sqlite_step H op st)) \<and>
    sqlite_abs (snd (sqlite_step H op st)) = snd (spec_step H op (sqlite_abs st)) \<and>
    fst (sqlite_step H op st) = fst (spec_step H op (sqlite_abs st))"
  proof (cases op)
    case (Put now i f)
    with assms put_fact_spec [of st f now i] show ?thesis by (simp add: sqlite_step_def)
  next
    case (Put_if now i f expected)
    with assms put_fact_spec [of st f now i] v show ?thesis
      by (simp add: sqlite_step_def put_fact_if_eq)
  next
    case (Supersede now s p t actor reason)
    show ?thesis
    proof (cases "actor = [] \<or> reason = []")
      case True
      with Supersede assms show ?thesis by (auto simp: sqlite_step_def supersede_def)
    next
      case False
      with Supersede supersede_eq [OF assms(1), of actor reason now s p t] retire_inv [OF assms(1)]
        view_retire [where st = st and k = "(s, p, t)"]
      show ?thesis
        by (simp add: sqlite_step_def sqlite_abs_def retire_key_ids del: set_map fun_upd_apply)
    qed
  qed
  then show "store_inv (snd (sqlite_step H op st))"
    and "sqlite_abs (snd (sqlite_step H op st)) = snd (spec_step H op (sqlite_abs st))"
    and "fst (sqlite_step H op st) = fst (spec_step H op (sqlite_abs st))"
    by auto
qed

interpretation lite: fact_store sqlite_step get_active sqlite_abs store_inv
  by unfold_locales (simp_all add: sqlite_step_spec get_active_view, simp add: sqlite_abs_def)

subsection \<open>Reachable stores\<close>

lemma store_init_inv: "store_inv store_init"
  by (simp add: store_inv_def table_inv_def store_init_def unique_ok_def)

lemma reachable_inv: "list_all wf_op ops \<Longrightarrow> store_inv (snd (run_ops (sqlite_step H) ops store_init))"
  by (rule lite.run_inv [OF store_init_inv])

text \<open>Reading the history of a table that satisfies the invariant: every row, in the order of the
  table.\<close>

lemma order_by_seq_id: "sorted (map col_seq rows) \<Longrightarrow> order_by_seq (filter P rows) = filter P rows"
  unfolding order_by_seq_def by (rule sort_key_id_if_sorted) (metis sorted_filter filter_sort sort_key_id_if_sorted)

lemma table_inv_sorted: "table_inv rows \<Longrightarrow> sorted (map col_seq rows)"
  by (simp add: table_inv_def sorted_iff_nth_mono)

lemma collect_readable: "\<forall>r \<in> set rows. readable r \<Longrightarrow> collect_rows row_to_fact rows = Inr (map fact_of rows)"
  by (induction rows) (auto simp: row_to_fact_readable)

lemma history_eq:
  "store_inv st \<Longrightarrow> history s p t st =
   Inr (map fact_of (filter (\<lambda>r. col_subject r = s \<and> matches p (col_second r) \<and> matches t (col_third r)) (st_facts st)))"
  unfolding history_def store_inv_def
  by (simp add: order_by_seq_id [OF table_inv_sorted]) (rule collect_readable, simp add: table_inv_def)

lemma list_active_eq:
  "store_inv st \<Longrightarrow> list_active s t st =
   Inr (map fact_of (filter (\<lambda>r. active_row r \<and> matches s (col_subject r) \<and> matches t (col_third r)) (st_facts st)))"
  unfolding list_active_def store_inv_def
  by (simp add: order_by_seq_id [OF table_inv_sorted]) (rule collect_readable, simp add: table_inv_def)

lemma key_selection:
  "(\<lambda>r. col_subject r = s \<and> matches (Some p) (col_second r) \<and> matches (Some t) (col_third r)) =
   (\<lambda>r. row_key r = (s, p, t))"
  by (auto simp: matches_def row_key_def)

lemma fact_of_stamp:
  "readable r \<Longrightarrow> fact_of (if active_row r then r\<lparr>col_t_superseded := Some now\<rparr> else r) =
   (if is_active (fact_of r) then (fact_of r)\<lparr>f_t_superseded := Some now\<rparr> else fact_of r)"
  by (auto simp: fact_of_def row_to_fact_def readable_def is_active_def active_row_def split: sum.splits)

lemma filter_key_supersede:
  "filter (\<lambda>r. row_key r = k') (supersede_key k now rows) =
   (if k' = k then map (\<lambda>r. if active_row r then r\<lparr>col_t_superseded := Some now\<rparr> else r) (filter (\<lambda>r. row_key r = k) rows)
    else filter (\<lambda>r. row_key r = k') rows)"
  unfolding supersede_key_def by (induction rows) auto

lemma history_record:
  assumes "store_inv st" and "i \<notin> set (map col_id (st_facts st))"
    and "wf_val (PDict (f_value f))" and "dumps value_options (PDict (f_value f)) = Some v"
  shows "history s (Some p) (Some t) (st\<lparr>st_facts := record_fact now i f v (st_facts st)\<rparr>) =
    Inr (let old = map fact_of (filter (\<lambda>r. row_key r = (s, p, t)) (st_facts st))
         in if (s, p, t) = fact_key f
            then map (\<lambda>g. if is_active g then g\<lparr>f_t_superseded := Some now\<rparr> else g) old @ [stored_fact now i f] else old)"
proof -
  have "\<forall>r \<in> set (st_facts st). readable r" using assms(1) by (simp add: store_inv_def table_inv_def)
  then have s: "map (fact_of \<circ> (\<lambda>r. if active_row r then r\<lparr>col_t_superseded := Some now\<rparr> else r)) (filter P (st_facts st)) =
      map ((\<lambda>g. if is_active g then g\<lparr>f_t_superseded := Some now\<rparr> else g) \<circ> fact_of) (filter P (st_facts st))" for P
    by (intro map_cong refl) (simp add: fact_of_stamp)
  show ?thesis
    unfolding history_eq [OF record_fact_inv [OF assms]] key_selection
    using s fact_of_new_row [OF assms(3,4)] by (auto simp: record_fact_def filter_key_supersede Let_def)
qed

subsection \<open>Properties\<close>

abbreviation sqlite_after :: "(string \<Rightarrow> string) \<Rightarrow> store_op list \<Rightarrow> sqlite_store" where
  "sqlite_after H ops \<equiv> snd (run_ops (sqlite_step H) ops store_init)"

text \<open>C5: The SQLite store refines the abstract store: after every sequence of writes,
  compare-and-set writes and supersessions, accepted or refused, the active fact of every key is
  the one the abstract machine has (the last accepted write of the key that is not superseded, as
  stored), \<^verbatim>\<open>get_active\<close> reads exactly that, and no key has two active rows.\<close>

theorem sqlite_refines_spec:
  assumes "list_all wf_op ops"
  shows "get_active s p t (sqlite_after H ops) =
      Inr (a_view (snd (run_ops (spec_step H) ops \<lparr>a_view = (\<lambda>k. None), a_ids = {}\<rparr>)) (s, p, t)) \<and>
    length (filter (\<lambda>r. active_row r \<and> row_key r = k) (st_facts (sqlite_after H ops))) \<le> 1"
proof
  note i = reachable_inv [OF assms, of H]
  have "sqlite_abs store_init = \<lparr>a_view = (\<lambda>k. None), a_ids = {}\<rparr>"
    by (auto simp: sqlite_abs_def store_init_def active_view_def active_rows_def)
  with lite.run_abs [OF store_init_inv assms, of H] lite.get_view [OF i, of s p t]
  show "get_active s p t (sqlite_after H ops) =
      Inr (a_view (snd (run_ops (spec_step H) ops \<lparr>a_view = (\<lambda>k. None), a_ids = {}\<rparr>)) (s, p, t))"
    by simp
  have "unique_ok (st_facts (sqlite_after H ops))" using i by (simp add: store_inv_def table_inv_def)
  from unique_active [OF this, of k]
  show "length (filter (\<lambda>r. active_row r \<and> row_key r = k) (st_facts (sqlite_after H ops))) \<le> 1"
    by (cases "filter (\<lambda>r. active_row r \<and> row_key r = k) (st_facts (sqlite_after H ops))") auto
qed

definition demo_fact :: fact where
  "demo_fact = \<lparr>f_subject = ''host1'', f_predicate = ''os'', f_fact_type = OBSERVED, f_value = [(''up'', PBool True)],
     f_t_valid = ''t0'', f_actor = ''ops'', f_reason = None, f_t_invalid = None, f_t_recorded = None,
     f_t_superseded = None, f_fact_id = None\<rparr>"

lemma demo_fact_value: "wf_val (PDict (f_value demo_fact))" "\<exists>v. dumps value_options (PDict (f_value demo_fact)) = Some v"
  by (simp_all add: demo_fact_def)

theorem sqlite_refines_spec_witness:
  "list_all wf_op [Put ''t1'' ''i1'' demo_fact, Put ''t2'' ''i2'' demo_fact] \<and>
   get_active ''host1'' ''os'' ''observed'' (sqlite_after (\<lambda>_. ''ab'') [Put ''t1'' ''i1'' demo_fact, Put ''t2'' ''i2'' demo_fact]) =
     Inr (Some (stored_fact ''t2'' ''i2'' demo_fact))"
proof -
  have w: "list_all wf_op [Put ''t1'' ''i1'' demo_fact, Put ''t2'' ''i2'' demo_fact]"
    using demo_fact_value by (simp del: wf_val.simps)
  have "f_actor demo_fact \<noteq> []" "f_t_invalid demo_fact = None" "fact_key demo_fact = (''host1'', ''os'', ''observed'')"
    by (simp_all add: demo_fact_def fact_key_def OBSERVED_def)
  with w demo_fact_value show ?thesis
    using sqlite_refines_spec [OF w, of "''host1''" "''os''" "''observed''" "\<lambda>_. ''ab''"]
    by (auto simp: spec_put.simps spec_record_def simp del: dumps.simps wf_val.simps)
qed

text \<open>A write that is accepted is what a read returns, and it destroys nothing. From every
  reachable store, a write with an actor, a fresh identifier, a value json can print and no end
  of validity returns the fact as stored: with key, validity, actor and reason as given, with the
  content hash of what was written, active. The history of its key is the old one, the fact that
  was active now marked as superseded, with the new fact at the end; the history of every other
  key is unchanged.\<close>

theorem put_then_history:
  assumes "list_all wf_op ops" and "wf_op (Put now i f)" and "f_actor f \<noteq> []" and "f_t_invalid f = None"
    and "dumps value_options (PDict (f_value f)) \<noteq> None"
    and "i \<notin> set (map col_id (st_facts (sqlite_after H ops)))"
    and "history (f_subject f) (Some (f_predicate f)) (Some (f_fact_type f)) (sqlite_after H ops) = Inr old"
  shows "\<exists>stored st'. put_fact now i f (sqlite_after H ops) = (Inr stored, st') \<and>
      is_active stored \<and> fact_key stored = fact_key f \<and> content_hash H stored = content_hash H f \<and>
      get_active (f_subject f) (f_predicate f) (f_fact_type f) st' = Inr (Some stored) \<and>
      history (f_subject f) (Some (f_predicate f)) (Some (f_fact_type f)) st' =
        Inr (map (\<lambda>g. if is_active g then g\<lparr>f_t_superseded := Some now\<rparr> else g) old @ [stored]) \<and>
      ((s, p, t) = fact_key f \<or>
       history s (Some p) (Some t) st' = history s (Some p) (Some t) (sqlite_after H ops))"
proof -
  let ?st = "sqlite_after H ops"
  obtain v where v: "dumps value_options (PDict (f_value f)) = Some v" using assms(5) by blast
  have wf: "wf_val (PDict (f_value f))" using assms(2) by simp
  note inv = reachable_inv [OF assms(1), of H]
  let ?st' = "?st\<lparr>st_facts := record_fact now i f v (st_facts ?st)\<rparr>"
  have put: "put_fact now i f ?st = (Inr (stored_fact now i f), ?st')"
    using put_fact_eq [OF inv assms(6,3) wf v, of now] assms(4) by simp
  note inv' = record_fact_inv [OF inv assms(6) wf v, of now]
  have old: "old = map fact_of (filter (\<lambda>r. row_key r = fact_key f) (st_facts ?st))"
    using assms(7) history_eq [OF inv, of "f_subject f" "Some (f_predicate f)" "Some (f_fact_type f)"]
    by (simp add: key_selection fact_key_def)
  have own: "history (f_subject f) (Some (f_predicate f)) (Some (f_fact_type f)) ?st' =
        Inr (map (\<lambda>g. if is_active g then g\<lparr>f_t_superseded := Some now\<rparr> else g) old @ [stored_fact now i f])"
    using history_record [OF inv assms(6) wf v, of "f_subject f" "f_predicate f" "f_fact_type f" now] old
    by (simp add: fact_key_def)
  have other: "history s (Some p) (Some t) ?st' = history s (Some p) (Some t) ?st" if "(s, p, t) \<noteq> fact_key f"
    using history_record [OF inv assms(6) wf v, of s p t now] that history_eq [OF inv, of s "Some p" "Some t"]
    by (simp add: key_selection)
  have "get_active (f_subject f) (f_predicate f) (f_fact_type f) ?st' = Inr (Some (stored_fact now i f))"
    using get_active_view [OF inv'] view_record_fact [OF wf v, where st = ?st and now = now and i = i] assms(4)
    by (simp add: fact_key_def)
  moreover have "content_hash H (stored_fact now i f) = content_hash H f"
    unfolding stored_fact_def by (rule content_hash_value [OF dumps_storable [OF wf v]])
  moreover have "is_active (stored_fact now i f)" "fact_key (stored_fact now i f) = fact_key f"
    using assms(4) by (simp_all add: is_active_def fact_key_def stored_fact_def)
  ultimately show ?thesis using put own other by blast
qed

theorem put_then_history_witness:
  "list_all wf_op [] \<and> wf_op (Put ''t1'' ''i1'' demo_fact) \<and>
   history ''host1'' (Some ''os'') (Some ''observed'') (sqlite_after (\<lambda>_. ''ab'') []) = Inr [] \<and>
   (\<exists>stored st'. put_fact ''t1'' ''i1'' demo_fact (sqlite_after (\<lambda>_. ''ab'') []) = (Inr stored, st') \<and>
      history ''host1'' (Some ''os'') (Some ''observed'') st' = Inr [stored])"
proof -
  have d: "f_actor demo_fact \<noteq> []" "f_t_invalid demo_fact = None" "f_subject demo_fact = ''host1''"
    "f_predicate demo_fact = ''os''" "f_fact_type demo_fact = ''observed''"
    by (simp_all add: demo_fact_def OBSERVED_def)
  have w: "list_all wf_op ([] :: store_op list)" and p: "wf_op (Put ''t1'' ''i1'' demo_fact)"
    using demo_fact_value(1) by (simp_all del: wf_val.simps)
  have n: "dumps value_options (PDict (f_value demo_fact)) \<noteq> None" using demo_fact_value(2) by (metis option.distinct(1))
  have f: "''i1'' \<notin> set (map col_id (st_facts (sqlite_after (\<lambda>_. ''ab'') [])))" by (simp add: store_init_def)
  have h: "history (f_subject demo_fact) (Some (f_predicate demo_fact)) (Some (f_fact_type demo_fact)) (sqlite_after (\<lambda>_. ''ab'') []) = Inr []"
    by (simp add: history_def store_init_def order_by_seq_def)
  show ?thesis
    using put_then_history [OF w p d(1,2) n f h, of "[]" "[]" "[]"] h w p d by fastforce
qed

text \<open>How a write can fail. From every reachable store \<^verbatim>\<open>put_fact\<close> raises exactly when the actor is
  empty, the value is not JSON, the identifier is taken or the fact already has an end of
  validity. In the first three cases the store is as it was. The last one is raised after the
  commit: the row is in the table, the fact that was active is superseded, no fact of the key is
  active, and the caller is told of a violated invariant.\<close>

theorem put_fact_raises_iff:
  assumes "list_all wf_op ops" and "wf_op (Put now i f)" and "st = sqlite_after H ops"
    and "refused = (f_actor f = [] \<or> dumps value_options (PDict (f_value f)) = None \<or> i \<in> set (map col_id (st_facts st)))"
  shows "if refused then (\<exists>x. put_fact now i f st = (Inl x, st))
    else if f_t_invalid f = None then fst (put_fact now i f st) = Inr (stored_fact now i f)
    else fst (put_fact now i f st) = Inl Invariant_violated \<and>
      length (st_facts (snd (put_fact now i f st))) = length (st_facts st) + 1 \<and>
      get_active (f_subject f) (f_predicate f) (f_fact_type f) (snd (put_fact now i f st)) = Inr None"
proof (cases refused)
  case True
  have "\<exists>x. put_fact now i f st = (Inl x, st)"
  proof (cases "f_actor f = []")
    case True
    then show ?thesis by (simp add: put_fact_def)
  next
    case False
    with True put_fact_refused [of st i f now] reachable_inv [OF assms(1), of H] assms(3,4) show ?thesis by auto
  qed
  with True show ?thesis by simp
next
  case False
  then obtain v where v: "dumps value_options (PDict (f_value f)) = Some v" and a: "f_actor f \<noteq> []"
    and i: "i \<notin> set (map col_id (st_facts st))" using assms(4) by (metis option.exhaust)
  have inv: "store_inv st" using reachable_inv [OF assms(1), of H] assms(3) by simp
  have wf: "wf_val (PDict (f_value f))" using assms(2) by simp
  have "get_active (f_subject f) (f_predicate f) (f_fact_type f) (st\<lparr>st_facts := record_fact now i f v (st_facts st)\<rparr>) =
      Inr (if f_t_invalid f = None then Some (stored_fact now i f) else None)"
    using get_active_view [OF record_fact_inv [OF inv i wf v]] view_record_fact [OF wf v, where st = st and now = now and i = i]
    by (simp add: fact_key_def)
  with False put_fact_eq [OF inv i a wf v, of now] show ?thesis by (simp add: record_fact_def)
qed

theorem put_fact_raises_iff_witness:
  "list_all wf_op [Put ''t1'' ''i1'' demo_fact] \<and> wf_op (Put ''t2'' ''i2'' (demo_fact\<lparr>f_t_invalid := Some ''t2''\<rparr>)) \<and>
   fst (put_fact ''t2'' ''i2'' (demo_fact\<lparr>f_t_invalid := Some ''t2''\<rparr>) (sqlite_after (\<lambda>_. ''ab'') [Put ''t1'' ''i1'' demo_fact])) =
     Inl Invariant_violated \<and>
   get_active ''host1'' ''os'' ''observed''
     (snd (put_fact ''t2'' ''i2'' (demo_fact\<lparr>f_t_invalid := Some ''t2''\<rparr>) (sqlite_after (\<lambda>_. ''ab'') [Put ''t1'' ''i1'' demo_fact]))) =
     Inr None"
proof -
  let ?f = "demo_fact\<lparr>f_t_invalid := Some ''t2''\<rparr>" and ?st = "sqlite_after (\<lambda>_. ''ab'') [Put ''t1'' ''i1'' demo_fact]"
  have w: "list_all wf_op [Put ''t1'' ''i1'' demo_fact]" and p: "wf_op (Put ''t2'' ''i2'' ?f)"
    by (simp_all add: demo_fact_def)
  obtain v where v: "dumps value_options (PDict (f_value demo_fact)) = Some v" using demo_fact_value(2) by blast
  have "put_fact ''t1'' ''i1'' demo_fact store_init =
      (Inr (stored_fact ''t1'' ''i1'' demo_fact), store_init\<lparr>st_facts := record_fact ''t1'' ''i1'' demo_fact v []\<rparr>)"
    using put_fact_eq [OF store_init_inv _ _ demo_fact_value(1) v, of "''i1''" "''t1''"] by (simp add: store_init_def demo_fact_def)
  then have "map col_id (st_facts ?st) = [''i1'']"
    by (simp add: sqlite_step_def record_fact_def supersede_key_def)
  then have i: "''i2'' \<notin> set (map col_id (st_facts ?st))" by (simp del: set_map run_ops.simps)
  have f: "f_actor ?f \<noteq> []" "f_t_invalid ?f \<noteq> None" "f_subject ?f = ''host1''" "f_predicate ?f = ''os''"
    "f_fact_type ?f = ''observed''" "dumps value_options (PDict (f_value ?f)) \<noteq> None"
    using v by (simp_all add: demo_fact_def OBSERVED_def)
  show ?thesis
    using put_fact_raises_iff [OF w p refl refl, of "\<lambda>_. ''ab''"] w p i f by (simp only: f simp_thms if_False)
qed

text \<open>C30: Compare-and-set never loses an update. A caller reads the active fact of a key, any
  operations run in between, then the caller writes with the version it read: the write goes
  through, like a plain write, exactly when the active fact still has the content that was read;
  otherwise the answer is a conflict and the store is untouched.\<close>

theorem cas_no_lost_update:
  assumes "list_all wf_op before" and "list_all wf_op between" and "f_actor f \<noteq> []"
    and "get_active (f_subject f) (f_predicate f) (f_fact_type f) (sqlite_after H before) = Inr seen"
    and "st = snd (run_ops (sqlite_step H) between (sqlite_after H before))"
    and "get_active (f_subject f) (f_predicate f) (f_fact_type f) st = Inr current"
  shows "put_fact_if H now i f (Option.bind seen (content_hash H)) st =
    (if Option.bind current (content_hash H) = Option.bind seen (content_hash H) then put_fact now i f st
     else (Inl Version_conflict, st))"
proof -
  have inv: "store_inv st"
    unfolding assms(5) by (rule lite.run_inv [OF reachable_inv [OF assms(1)] assms(2)])
  have "active_view st (fact_key f) = current"
    using get_active_view [OF inv] assms(6) by (simp add: fact_key_def)
  then have "active_version H st (fact_key f) = Option.bind current (content_hash H)"
    by (simp add: active_version_def)
  then show ?thesis using assms(3) by (simp add: put_fact_if_eq [OF inv])
qed

theorem cas_no_lost_update_witness:
  "list_all wf_op [] \<and> list_all wf_op [Put ''t1'' ''i1'' demo_fact] \<and>
   put_fact_if (\<lambda>_. ''ab'') ''t2'' ''i2'' demo_fact None
     (snd (run_ops (sqlite_step (\<lambda>_. ''ab'')) [Put ''t1'' ''i1'' demo_fact] (sqlite_after (\<lambda>_. ''ab'') []))) =
   (Inl Version_conflict, snd (run_ops (sqlite_step (\<lambda>_. ''ab'')) [Put ''t1'' ''i1'' demo_fact] (sqlite_after (\<lambda>_. ''ab'') [])))"
proof -
  let ?H = "\<lambda>_::string. ''ab''"
  let ?st = "snd (run_ops (sqlite_step ?H) [Put ''t1'' ''i1'' demo_fact] (sqlite_after ?H []))"
  have w: "list_all wf_op ([] :: store_op list)" "list_all wf_op [Put ''t1'' ''i1'' demo_fact]"
    by (simp_all add: demo_fact_def)
  have a: "f_actor demo_fact \<noteq> []" and ti: "f_t_invalid demo_fact = None" by (simp_all add: demo_fact_def)
  have n: "get_active (f_subject demo_fact) (f_predicate demo_fact) (f_fact_type demo_fact) (sqlite_after ?H []) = Inr None"
    by (simp add: get_active_def store_init_def fetch_one_def)
  obtain v where v: "dumps value_options (PDict (f_value demo_fact)) = Some v" using demo_fact_value(2) by blast
  have "snd (spec_step ?H (Put ''t1'' ''i1'' demo_fact) (sqlite_abs store_init)) = spec_record ''t1'' ''i1'' demo_fact (sqlite_abs store_init)"
    using v a by (simp add: spec_put.simps sqlite_abs_def store_init_def del: dumps.simps)
  with lite.run_abs [OF store_init_inv w(2), of ?H]
  have "active_view ?st (fact_key demo_fact) = Some (stored_fact ''t1'' ''i1'' demo_fact)"
    using ti by (simp add: sqlite_abs_def spec_record_def case_prod_unfold Let_def)
  then have c: "get_active (f_subject demo_fact) (f_predicate demo_fact) (f_fact_type demo_fact) ?st =
      Inr (Some (stored_fact ''t1'' ''i1'' demo_fact))"
    using get_active_view [OF lite.run_inv [OF store_init_inv w(2), of ?H]] by (simp add: fact_key_def)
  have "content_hash ?H (stored_fact ''t1'' ''i1'' demo_fact) = Some ''ab''"
    by (simp add: content_hash_def content_value_def opt_str_def stored_fact_def stored_value_def demo_fact_def sha256_text_def)
  then show ?thesis
    using cas_no_lost_update [OF w a n refl c] w by simp
qed

end
