(* ===== verification/PostgresStore.thy ===== *)
theory PostgresStore
  imports StoreSpec
begin

section \<open>The Postgres store (store/postgres.py)\<close>

text \<open>
  The operations of \<^verbatim>\<open>PostgresStore\<close>. They differ from those of SQLite in the trigger functions, in the
  place of NULL in \<^verbatim>\<open>ORDER BY\<close>, and in \<^verbatim>\<open>put_fact_if\<close>, which locks the active row and turns the unique
  violation of a create that lost a race into a conflict. The row another session commits between
  the locking SELECT and the write is the argument \<open>peer\<close>.
\<close>

record postgres_store =
  pg_facts :: "fact_row list"
  pg_edges :: "row list"

definition pg_loads_obj :: "string \<Rightarrow> store_exc + (string \<times> pyval) list" where
  "pg_loads_obj raw =
     (case loads raw of Inl _ \<Rightarrow> Inl Row_unreadable | Inr (PDict d) \<Rightarrow> Inr d | Inr _ \<Rightarrow> Inr [])"

definition pg_row_to_fact :: "fact_row \<Rightarrow> store_exc + fact" where
  "pg_row_to_fact r =
     (case pg_loads_obj (col_value r) of
        Inl x \<Rightarrow> Inl x
      | Inr d \<Rightarrow> Inr \<lparr>f_subject = col_subject r, f_predicate = col_second r, f_fact_type = col_third r, f_value = d,
                  f_t_valid = col_t_valid r, f_actor = col_actor r, f_reason = col_reason r,
                  f_t_invalid = col_t_invalid r, f_t_recorded = Some (col_t_recorded r),
                  f_t_superseded = col_t_superseded r, f_fact_id = Some (col_id r)\<rparr>)"

definition pg_row_to_edge :: "row \<Rightarrow> store_exc + edge" where
  "pg_row_to_edge r =
     (case pg_loads_obj (col_value r) of
        Inl x \<Rightarrow> Inl x
      | Inr d \<Rightarrow> Inr \<lparr>e_subject = col_subject r, e_relation = col_second r, e_target = col_third r, e_value = d,
                  e_t_valid = col_t_valid r, e_actor = col_actor r, e_reason = col_reason r,
                  e_t_invalid = col_t_invalid r, e_t_recorded = Some (col_t_recorded r),
                  e_t_superseded = col_t_superseded r, e_edge_id = Some (col_id r)\<rparr>)"

definition pg_get_active :: "string \<Rightarrow> string \<Rightarrow> string \<Rightarrow> postgres_store \<Rightarrow> store_exc + fact option" where
  "pg_get_active subject predicate fact_type st =
     fetch_one pg_row_to_fact
       (filter (\<lambda>r. col_subject r = subject \<and> col_second r = predicate \<and> col_third r = fact_type \<and> active_row r)
         (pg_facts st))"

definition pg_write_superseding ::
  "fact option \<Rightarrow> fact \<Rightarrow> string \<Rightarrow> string \<Rightarrow> fact_row list \<Rightarrow> store_exc + fact_row list" where
  "pg_write_superseding existing f fact_id now rows =
     (case mark_superseded postgres_refuses now (Option.bind existing f_fact_id) rows of
        Inl x \<Rightarrow> Inl x
      | Inr rows1 \<Rightarrow>
          (case dumps value_options (PDict (f_value f)) of
             None \<Rightarrow> Inl Not_serialisable
           | Some v \<Rightarrow> insert_row (new_fact_row f fact_id v now (next_seq rows1)) rows1))"

definition pg_read_back :: "fact \<Rightarrow> postgres_store \<Rightarrow> (store_exc + fact) \<times> postgres_store" where
  "pg_read_back f st =
     (case pg_get_active (f_subject f) (f_predicate f) (f_fact_type f) st of
        Inl x \<Rightarrow> (Inl x, st)
      | Inr None \<Rightarrow> (Inl Invariant_violated, st)
      | Inr (Some stored) \<Rightarrow> (Inr stored, st))"

definition pg_put_fact :: "string \<Rightarrow> string \<Rightarrow> fact \<Rightarrow> postgres_store \<Rightarrow> (store_exc + fact) \<times> postgres_store" where
  "pg_put_fact now fact_id f st =
     (if f_actor f = [] then (Inl Empty_provenance, st)
      else case pg_get_active (f_subject f) (f_predicate f) (f_fact_type f) st of
        Inl x \<Rightarrow> (Inl x, st)
      | Inr existing \<Rightarrow>
          (case pg_write_superseding existing f fact_id now (pg_facts st) of
             Inl x \<Rightarrow> (Inl x, st)
           | Inr rows \<Rightarrow> pg_read_back f (st\<lparr>pg_facts := rows\<rparr>)))"

text \<open>What another session commits in between: the table refuses a row that clashes.\<close>

definition peer_commit :: "fact_row option \<Rightarrow> postgres_store \<Rightarrow> postgres_store" where
  "peer_commit peer st =
     (case peer of
        None \<Rightarrow> st
      | Some r \<Rightarrow> (case insert_row r (pg_facts st) of Inl _ \<Rightarrow> st | Inr rows \<Rightarrow> st\<lparr>pg_facts := rows\<rparr>))"

definition pg_put_fact_if ::
  "(string \<Rightarrow> string) \<Rightarrow> fact_row option \<Rightarrow> string \<Rightarrow> string \<Rightarrow> fact \<Rightarrow> string option \<Rightarrow> postgres_store \<Rightarrow>
   (store_exc + fact) \<times> postgres_store" where
  "pg_put_fact_if H peer now fact_id f expected_version st =
     (if f_actor f = [] then (Inl Empty_provenance, st)
      else case pg_get_active (f_subject f) (f_predicate f) (f_fact_type f) st of
        Inl x \<Rightarrow> (Inl x, st)
      | Inr existing \<Rightarrow>
          (case version_of H existing of
             Inl x \<Rightarrow> (Inl x, st)
           | Inr current \<Rightarrow>
               if current \<noteq> expected_version then (Inl Version_conflict, st)
               else let st1 = peer_commit peer st in
                 case pg_write_superseding existing f fact_id now (pg_facts st1) of
                   Inl x \<Rightarrow> (Inl (if x = Integrity_error \<and> existing = None then Version_conflict else x), st1)
                 | Inr rows \<Rightarrow> pg_read_back f (st1\<lparr>pg_facts := rows\<rparr>)))"

definition pg_supersede ::
  "string \<Rightarrow> string \<Rightarrow> string \<Rightarrow> string \<Rightarrow> string \<Rightarrow> string \<Rightarrow> postgres_store \<Rightarrow>
   (store_exc + fact option) \<times> postgres_store" where
  "pg_supersede now subject predicate fact_type actor reason st =
     (if actor = [] \<or> reason = [] then (Inl Empty_provenance, st)
      else case pg_get_active subject predicate fact_type st of
        Inl x \<Rightarrow> (Inl x, st)
      | Inr existing \<Rightarrow>
          (case Option.bind existing f_fact_id of
             None \<Rightarrow> (Inr None, st)
           | Some i \<Rightarrow>
               (case update_rows postgres_refuses (\<lambda>r. col_id r = i \<and> col_t_superseded r = None)
                       (\<lambda>r. r\<lparr>col_t_invalid := Some now, col_t_superseded := Some now,
                              col_superseded_actor := Some actor, col_superseded_reason := Some reason\<rparr>)
                       (pg_facts st) of
                  Inl x \<Rightarrow> (Inl x, st)
                | Inr (rows, n) \<Rightarrow>
                    if n \<noteq> 1 then (Inr None, st\<lparr>pg_facts := rows\<rparr>)
                    else (fetch_one pg_row_to_fact (filter (\<lambda>r. col_id r = i) rows), st\<lparr>pg_facts := rows\<rparr>))))"

text \<open>\<^verbatim>\<open>ORDER BY seq\<close>: Postgres puts NULL last.\<close>

definition pg_order_by_seq :: "'a row_scheme list \<Rightarrow> 'a row_scheme list" where
  "pg_order_by_seq rows =
     sort_key col_seq (filter (\<lambda>r. col_seq r \<noteq> None) rows) @ filter (\<lambda>r. col_seq r = None) rows"

definition pg_list_active :: "string option \<Rightarrow> string option \<Rightarrow> postgres_store \<Rightarrow> store_exc + fact list" where
  "pg_list_active subject fact_type st =
     collect_rows pg_row_to_fact
       (pg_order_by_seq (filter (\<lambda>r. active_row r \<and> matches subject (col_subject r) \<and> matches fact_type (col_third r))
         (pg_facts st)))"

definition pg_history ::
  "string \<Rightarrow> string option \<Rightarrow> string option \<Rightarrow> postgres_store \<Rightarrow> store_exc + fact list" where
  "pg_history subject predicate fact_type st =
     collect_rows pg_row_to_fact
       (pg_order_by_seq (filter (\<lambda>r. col_subject r = subject \<and> matches predicate (col_second r) \<and> matches fact_type (col_third r))
         (pg_facts st)))"

definition pg_active_edge :: "string \<Rightarrow> string \<Rightarrow> string \<Rightarrow> postgres_store \<Rightarrow> store_exc + edge option" where
  "pg_active_edge subject relation target st =
     fetch_one pg_row_to_edge
       (filter (\<lambda>r. col_subject r = subject \<and> col_second r = relation \<and> col_third r = target \<and> active_row r)
         (pg_edges st))"

definition pg_put_edge :: "string \<Rightarrow> string \<Rightarrow> edge \<Rightarrow> postgres_store \<Rightarrow> (store_exc + edge) \<times> postgres_store" where
  "pg_put_edge now edge_id e st =
     (if e_actor e = [] then (Inl Empty_provenance, st)
      else let t_valid = (if e_t_valid e = [] then now else e_t_valid e) in
        case pg_active_edge (e_subject e) (e_relation e) (e_target e) st of
          Inl x \<Rightarrow> (Inl x, st)
        | Inr existing \<Rightarrow>
            (case mark_superseded postgres_refuses now (Option.bind existing e_edge_id) (pg_edges st) of
               Inl x \<Rightarrow> (Inl x, st)
             | Inr rows1 \<Rightarrow>
                 (case dumps value_options (PDict (e_value e)) of
                    None \<Rightarrow> (Inl Not_serialisable, st)
                  | Some v \<Rightarrow>
                      (case insert_row (new_edge_row e edge_id v t_valid now (next_seq rows1)) rows1 of
                         Inl x \<Rightarrow> (Inl x, st)
                       | Inr rows \<Rightarrow>
                           (let st' = st\<lparr>pg_edges := rows\<rparr>
                            in case pg_active_edge (e_subject e) (e_relation e) (e_target e) st' of
                                 Inl x \<Rightarrow> (Inl x, st')
                               | Inr None \<Rightarrow> (Inl Invariant_violated, st')
                               | Inr (Some stored) \<Rightarrow> (Inr stored, st'))))))"

definition pg_edges_from :: "string \<Rightarrow> string option \<Rightarrow> postgres_store \<Rightarrow> store_exc + edge list" where
  "pg_edges_from subject relation st =
     collect_rows pg_row_to_edge
       (pg_order_by_seq (filter (\<lambda>r. col_subject r = subject \<and> active_row r \<and> matches relation (col_second r)) (pg_edges st)))"

definition pg_capabilities :: "capability list" where
  "pg_capabilities = [GRAPH, COMPARE_AND_SET]"

text \<open>\<^verbatim>\<open>open_store\<close> of the package: which backend a DSN names, and with which path or DSN.\<close>

datatype opened = Open_sqlite string | Open_postgres string

definition open_store :: "string option \<Rightarrow> opened" where
  "open_store dsn =
     (case dsn of
        None \<Rightarrow> Open_sqlite '':memory:''
      | Some d \<Rightarrow>
          if d = '':memory:'' then Open_sqlite '':memory:''
          else if startswith d ''postgresql://'' \<or> startswith d ''postgres://'' then Open_postgres d
          else if startswith d ''sqlite:///'' then Open_sqlite (drop (length ''sqlite:///'') d)
          else Open_sqlite d)"

subsection \<open>The same tables in both backends\<close>

definition pg_of :: "sqlite_store \<Rightarrow> postgres_store" where
  "pg_of st = \<lparr>pg_facts = st_facts st, pg_edges = st_edges st\<rparr>"

definition lite_of :: "postgres_store \<Rightarrow> sqlite_store" where
  "lite_of st = \<lparr>st_facts = pg_facts st, st_edges = pg_edges st, st_embeddings = []\<rparr>"

lemma pg_of_simps [simp]:
  "pg_facts (pg_of st) = st_facts st" "pg_edges (pg_of st) = st_edges st"
  "pg_of (st\<lparr>st_facts := rows\<rparr>) = (pg_of st)\<lparr>pg_facts := rows\<rparr>"
  "pg_of (st\<lparr>st_edges := erows\<rparr>) = (pg_of st)\<lparr>pg_edges := erows\<rparr>"
  "pg_of (lite_of pst) = pst"
  by (simp_all add: pg_of_def lite_of_def)

lemma pg_rows [simp]: "pg_row_to_fact = row_to_fact" "pg_row_to_edge = row_to_edge"
proof -
  have "pg_loads_obj = loads_obj" by (intro ext) (simp add: pg_loads_obj_def loads_obj_def)
  then show "pg_row_to_fact = row_to_fact" "pg_row_to_edge = row_to_edge"
    by (auto simp: pg_row_to_fact_def row_to_fact_def pg_row_to_edge_def row_to_edge_def)
qed

lemma pg_get_active_of [simp]: "pg_get_active s p t (pg_of st) = get_active s p t st"
  by (simp add: pg_get_active_def get_active_def)

lemma pg_active_edge_of [simp]: "pg_active_edge s p t (pg_of st) = active_edge s p t st"
  by (simp add: pg_active_edge_def active_edge_def)

lemma pg_write_of [simp]: "pg_write_superseding = write_superseding"
  by (intro ext) (simp add: pg_write_superseding_def write_superseding_def triggers_agree)

lemma pg_read_back_of: "pg_read_back f (pg_of st) = apsnd pg_of (read_back f st)"
  by (simp add: pg_read_back_def read_back_def split: sum.splits option.splits)

lemma pg_put_fact_of: "pg_put_fact now i f (pg_of st) = apsnd pg_of (put_fact now i f st)"
  by (simp add: pg_put_fact_def put_fact_def pg_read_back_of [symmetric] split: sum.splits)

lemma pg_supersede_of: "pg_supersede now s p t a b (pg_of st) = apsnd pg_of (supersede now s p t a b st)"
  by (auto simp: pg_supersede_def supersede_def triggers_agree split: sum.splits option.splits)

lemma pg_put_edge_of: "pg_put_edge now i e (pg_of st) = apsnd pg_of (put_edge now i e st)"
proof -
  have r: "pg_active_edge a b c ((pg_of st)\<lparr>pg_edges := rows\<rparr>) = active_edge a b c (st\<lparr>st_edges := rows\<rparr>)" for a b c rows
    by (simp add: pg_active_edge_def active_edge_def)
  show ?thesis
    by (auto simp: pg_put_edge_def put_edge_def triggers_agree r Let_def split: sum.splits option.splits)
qed

lemma pg_put_fact_if_of:
  "pg_put_fact_if H None now i f expected (pg_of st) =
   (if fst (put_fact_if H now i f expected st) = Inl Integrity_error \<and>
       get_active (f_subject f) (f_predicate f) (f_fact_type f) st = Inr None
    then (Inl Version_conflict, pg_of st)
    else apsnd pg_of (put_fact_if H now i f expected st))"
proof -
  have "fst (read_back f st') \<noteq> Inl Integrity_error" for st'
    by (auto simp: read_back_def get_active_def fetch_one_def row_to_fact_def loads_obj_def map_sum_def
        split: sum.splits option.splits list.splits pyval.splits)
  then show ?thesis
    by (auto simp: pg_put_fact_if_def put_fact_if_def peer_commit_def pg_read_back_of [symmetric] version_of_def
        split: sum.splits option.splits if_splits)
qed

lemma order_by_seq_agree: "\<forall>r \<in> set rows. col_seq r \<noteq> None \<Longrightarrow> pg_order_by_seq rows = order_by_seq rows"
  by (auto simp: pg_order_by_seq_def order_by_seq_def)

subsection \<open>The Postgres backend refines the contract\<close>

definition postgres_step ::
  "(string \<Rightarrow> string) \<Rightarrow> store_op \<Rightarrow> postgres_store \<Rightarrow> (store_exc + fact option) \<times> postgres_store" where
  "postgres_step H op st =
     (case op of
        Put now i f \<Rightarrow> apfst (map_sum id Some) (pg_put_fact now i f st)
      | Put_if now i f expected \<Rightarrow> apfst (map_sum id Some) (pg_put_fact_if H None now i f expected st)
      | Supersede now s p t actor reason \<Rightarrow> pg_supersede now s p t actor reason st)"

definition postgres_init :: postgres_store where
  "postgres_init = \<lparr>pg_facts = [], pg_edges = []\<rparr>"

definition postgres_abs :: "postgres_store \<Rightarrow> abstract_store" where
  "postgres_abs st = sqlite_abs (lite_of st)"

definition postgres_inv :: "postgres_store \<Rightarrow> bool" where
  "postgres_inv st \<longleftrightarrow> store_inv (lite_of st)"

lemma postgres_of [simp]: "postgres_abs (pg_of st) = sqlite_abs st" "postgres_inv (pg_of st) = store_inv st"
  by (simp_all add: postgres_abs_def postgres_inv_def lite_of_def pg_of_def sqlite_abs_def active_view_def [abs_def] store_inv_def)

text \<open>The two backends take the same step, unless a compare-and-set is given an identifier in
  use.\<close>

lemma step_agree:
  assumes "store_inv st" and "wf_op op" and "op_ids op \<inter> a_ids (sqlite_abs st) = {}"
  shows "postgres_step H op (pg_of st) = apsnd pg_of (sqlite_step H op st)"
proof (cases op)
  case (Put_if now i f expected)
  have "fst (sqlite_step H op st) \<noteq> Inl Integrity_error"
    using sqlite_step_spec(3) [OF assms(1,2), of H] assms(3) Put_if by (simp add: spec_put.simps)
  then have "fst (put_fact_if H now i f expected st) \<noteq> Inl Integrity_error"
    using Put_if by (auto simp: sqlite_step_def)
  then have "pg_put_fact_if H None now i f expected (pg_of st) = apsnd pg_of (put_fact_if H now i f expected st)"
    by (simp add: pg_put_fact_if_of)
  then show ?thesis using Put_if by (simp add: postgres_step_def sqlite_step_def apfst_def apsnd_def map_prod_def case_prod_unfold)
qed (simp_all add: postgres_step_def sqlite_step_def pg_put_fact_of pg_supersede_of apfst_def apsnd_def map_prod_def case_prod_unfold)

lemma step_state: "snd (postgres_step H op (pg_of st)) = pg_of (snd (sqlite_step H op st))" if "store_inv st" "wf_op op"
proof (cases op)
  case (Put_if now i f expected)
  have "fst (put_fact now i f st) = Inl Integrity_error \<longrightarrow> snd (put_fact now i f st) = st"
    using that Put_if put_fact_refused [OF that(1), of i f now] put_fact_eq [OF that(1)]
    by (cases "i \<in> set (map col_id (st_facts st))"; cases "dumps value_options (PDict (f_value f))"; cases "f_actor f = []")
       (auto simp: put_fact_def simp del: dumps.simps set_map)
  then show ?thesis
    using that Put_if by (auto simp: postgres_step_def sqlite_step_def pg_put_fact_if_of put_fact_if_eq)
qed (simp_all add: postgres_step_def sqlite_step_def pg_put_fact_of pg_supersede_of)

interpretation pg: fact_store postgres_step pg_get_active postgres_abs postgres_inv
proof
  fix st :: postgres_store and s p t assume i: "postgres_inv st"
  then have "store_inv (lite_of st)" by (simp add: postgres_inv_def)
  from get_active_view [OF this] show "pg_get_active s p t st = Inr (a_view (postgres_abs st) (s, p, t))"
    using pg_get_active_of [of s p t "lite_of st"] by (simp add: postgres_abs_def sqlite_abs_def)
next
  fix st :: postgres_store and op H assume i: "postgres_inv st" and w: "wf_op op"
  then have i': "store_inv (lite_of st)" by (simp add: postgres_inv_def)
  from step_state [OF i' w, of H] sqlite_step_spec [OF i' w, of H]
  show "postgres_inv (snd (postgres_step H op st))"
    and "postgres_abs (snd (postgres_step H op st)) = snd (spec_step H op (postgres_abs st))"
    by (simp_all add: postgres_abs_def [of st])
  assume "op_ids op \<inter> a_ids (postgres_abs st) = {}"
  with step_agree [OF i' w, of H] sqlite_step_spec [OF i' w, of H]
  show "fst (postgres_step H op st) = fst (spec_step H op (postgres_abs st))"
    by (simp add: postgres_abs_def)
qed

text \<open>C16: The two backends are interchangeable: on every sequence of writes, compare-and-set
  writes and supersessions with fresh identifiers they give the same answers, and afterwards the
  same active fact for every key, the same list of active facts and the same history, in the
  same order.\<close>

theorem backends_agree:
  assumes "list_all wf_op ops" and "fresh_ids ops {}"
    and "run_ops (sqlite_step H) ops store_init = (answers, st)"
    and "run_ops (postgres_step H) ops postgres_init = (answers', st')"
  shows "answers' = answers \<and> pg_get_active s p t st' = get_active s p t st \<and>
    pg_history s q u st' = history s q u st \<and> pg_list_active q u st' = list_active q u st"
proof -
  have run: "store_inv st \<Longrightarrow> list_all wf_op ops \<Longrightarrow> fresh_ids ops (a_ids (sqlite_abs st)) \<Longrightarrow>
      run_ops (postgres_step H) ops (pg_of st) = apsnd pg_of (run_ops (sqlite_step H) ops st)" for ops st
  proof (induction ops arbitrary: st)
    case (Cons op ops)
    then have "fresh_ids ops (a_ids (sqlite_abs st) \<union> op_ids op)" by simp
    then have "fresh_ids ops (a_ids (sqlite_abs (snd (sqlite_step H op st))))"
      by (rule fresh_ids_mono) (use Cons.prems spec_step_ids [of H op "sqlite_abs st"] in \<open>simp add: sqlite_step_spec\<close>)
    with Cons show ?case
      by (simp add: step_agree sqlite_step_spec case_prod_unfold Let_def)
  qed simp
  have "postgres_init = pg_of store_init" by (simp add: postgres_init_def pg_of_def store_init_def)
  moreover have "fresh_ids ops (a_ids (sqlite_abs store_init))"
    using assms(2) by (simp add: sqlite_abs_def store_init_def)
  ultimately have eq: "answers' = answers" "st' = pg_of st"
    using run [OF store_init_inv assms(1)] assms(3,4) by simp_all
  have inv: "store_inv st" using reachable_inv [OF assms(1), of H] assms(3) by simp
  then have seqs: "map col_seq (st_facts st) = map (Some \<circ> int) [0..<length (st_facts st)]"
    by (simp only: store_inv_def table_inv_def)
  have "col_seq r \<noteq> None" if "r \<in> set (st_facts st)" for r
  proof -
    have "col_seq r \<in> set (map col_seq (st_facts st))" using that by simp
    then have "col_seq r \<in> set (map (Some \<circ> int) [0..<length (st_facts st)])" by (simp only: seqs)
    then show ?thesis by auto
  qed
  then have "pg_order_by_seq (filter P (st_facts st)) = order_by_seq (filter P (st_facts st))" for P
    by (intro order_by_seq_agree) auto
  with eq show ?thesis
    by (simp add: pg_history_def history_def pg_list_active_def list_active_def)
qed

theorem backends_agree_witness:
  "list_all wf_op [Put ''t1'' ''i1'' demo_fact] \<and> fresh_ids [Put ''t1'' ''i1'' demo_fact] {} \<and>
   fst (run_ops (postgres_step (\<lambda>_. ''ab'')) [Put ''t1'' ''i1'' demo_fact] postgres_init) =
   fst (run_ops (sqlite_step (\<lambda>_. ''ab'')) [Put ''t1'' ''i1'' demo_fact] store_init)"
proof -
  have w: "list_all wf_op [Put ''t1'' ''i1'' demo_fact]" and f: "fresh_ids [Put ''t1'' ''i1'' demo_fact] {}"
    by (simp_all add: demo_fact_def)
  obtain a st a' st' where r: "run_ops (sqlite_step (\<lambda>_. ''ab'')) [Put ''t1'' ''i1'' demo_fact] store_init = (a, st)"
    "run_ops (postgres_step (\<lambda>_. ''ab'')) [Put ''t1'' ''i1'' demo_fact] postgres_init = (a', st')"
    by fastforce
  show ?thesis using w f r backends_agree [OF w f r] by simp
qed

text \<open>A create that loses the race is a conflict. A caller asks for a compare-and-set on a key it
  saw absent; between the locking read, which has no row to lock, and the insert another session
  commits an active fact of the same key. Then the caller is told of a version conflict, exactly
  one active row has the key, that of the other session, and nothing of the caller's is in the
  table.\<close>

theorem postgres_create_race:
  assumes "list_all wf_op ops" and "st = snd (run_ops (postgres_step H) ops postgres_init)"
    and "pg_get_active (f_subject f) (f_predicate f) (f_fact_type f) st = Inr None" and "f_actor f \<noteq> []"
    and "dumps value_options (PDict (f_value f)) \<noteq> None" and "f_t_invalid f = None"
    and "active_row r" and "row_key r = fact_key f" and "insert_row r (pg_facts st) = Inr rows"
  shows "pg_put_fact_if H (Some r) now i f None st = (Inl Version_conflict, st\<lparr>pg_facts := rows\<rparr>) \<and>
    filter (\<lambda>q. active_row q \<and> row_key q = fact_key f) rows = [r]"
proof -
  obtain v where v: "dumps value_options (PDict (f_value f)) = Some v" using assms(5) by blast
  have rows: "rows = pg_facts st @ [r]" "unique_ok rows"
    using assms(9) by (auto simp: insert_row_def split: if_splits)
  have none: "filter (\<lambda>q. active_row q \<and> row_key q = fact_key f) (pg_facts st) = []"
    using assms(3)
    by (auto simp: pg_get_active_def fetch_one_def key_filter fact_key_def map_sum_def split: list.splits sum.splits)
  have only: "filter (\<lambda>q. active_row q \<and> row_key q = fact_key f) rows = [r]"
    using none assms(7,8) rows(1) by simp
  have "insert_row (new_fact_row f i v now n) rows = Inl Integrity_error" for n
  proof -
    have "r \<in> set (filter active_row rows)" using rows(1) assms(7) by simp
    then have "fact_key f \<in> set (map row_key (filter active_row rows))" using assms(8) by force
    then show ?thesis using assms(6) by (auto simp: insert_row_def unique_ok_def)
  qed
  then have "write_superseding None f i now rows = Inl Integrity_error"
    using v by (simp add: write_superseding_def mark_superseded_def)
  then have "pg_put_fact_if H (Some r) now i f None st = (Inl Version_conflict, st\<lparr>pg_facts := rows\<rparr>)"
    using assms(3,4,9) by (simp add: pg_put_fact_if_def version_of_def peer_commit_def)
  with only show ?thesis by simp
qed

theorem postgres_create_race_witness:
  "list_all wf_op [] \<and>
   pg_put_fact_if (\<lambda>_. ''ab'') (Some (new_fact_row demo_fact ''i0'' ''{}'' ''t0'' 0)) ''t1'' ''i1'' demo_fact None postgres_init =
   (Inl Version_conflict, postgres_init\<lparr>pg_facts := [new_fact_row demo_fact ''i0'' ''{}'' ''t0'' 0]\<rparr>)"
proof -
  let ?r = "new_fact_row demo_fact ''i0'' ''{}'' ''t0'' 0"
  have w: "list_all wf_op ([] :: store_op list)" by simp
  have s: "postgres_init = snd (run_ops (postgres_step (\<lambda>_. ''ab'')) [] postgres_init)" by simp
  have g: "pg_get_active (f_subject demo_fact) (f_predicate demo_fact) (f_fact_type demo_fact) postgres_init = Inr None"
    by (simp add: pg_get_active_def postgres_init_def fetch_one_def)
  have d: "f_actor demo_fact \<noteq> []" "dumps value_options (PDict (f_value demo_fact)) \<noteq> None" "f_t_invalid demo_fact = None"
    by (simp_all add: demo_fact_def)
  have r: "active_row ?r" "row_key ?r = fact_key demo_fact" using d by simp_all
  have i: "insert_row ?r (pg_facts postgres_init) = Inr [?r]"
    by (simp add: insert_row_def unique_ok_def postgres_init_def)
  show ?thesis using w postgres_create_race [OF w s g d r i] by simp
qed

end
