(* ===== verification/Vectors.thy ===== *)
theory Vectors
  imports SqliteStore
begin

section \<open>Nearest neighbours in the SQLite store (store/sqlite.py)\<close>

text \<open>
  The embeddings table and the cosine ranking. Floating-point arithmetic is the machine's: the
  conversion, the sum, the product, the quotient and the square root are the fields of
  \<open>float_ops\<close>, and nothing is assumed about their rounding. A score is never infinite or NaN
  because \<^verbatim>\<open>_cosine\<close> replaces such a quotient by zero, so the ranking is a sort of numbers.
\<close>

datatype conversion = Float_value pyfloat | Conversion_error | Conversion_overflow

record float_ops =
  fl_float :: "pyval \<Rightarrow> conversion"        \<comment> \<open>\<^verbatim>\<open>float(item)\<close>\<close>
  fl_add :: "pyfloat \<Rightarrow> pyfloat \<Rightarrow> pyfloat"
  fl_mul :: "pyfloat \<Rightarrow> pyfloat \<Rightarrow> pyfloat"
  fl_div :: "pyfloat \<Rightarrow> pyfloat \<Rightarrow> pyfloat"
  fl_sqrt :: "pyfloat \<Rightarrow> pyfloat"

definition upsert_embedding :: "string \<Rightarrow> pyval list \<Rightarrow> sqlite_store \<Rightarrow> (store_exc + unit) \<times> sqlite_store" where
  "upsert_embedding fact_id vector st =
     (case dumps value_options (PList vector) of
        None \<Rightarrow> (Inl Not_serialisable, st)
      | Some v \<Rightarrow> (Inr (), st\<lparr>st_embeddings := AList.update fact_id v (st_embeddings st)\<rparr>))"

definition all_finite :: "pyfloat list \<Rightarrow> bool" where
  "all_finite vector = list_all isfinite vector"

text \<open>\<^verbatim>\<open>_finite_vector\<close>: \<open>None\<close> for a vector to skip; an overflowing conversion is not caught.\<close>

fun finite_items :: "float_ops \<Rightarrow> pyval list \<Rightarrow> store_exc + pyfloat list option" where
  "finite_items ops [] = Inr (Some [])"
| "finite_items ops (item # items) =
     (case fl_float ops item of
        Conversion_overflow \<Rightarrow> Inl Float_overflow
      | Conversion_error \<Rightarrow> Inr None
      | Float_value x \<Rightarrow>
          if \<not> isfinite x then Inr None
          else (case finite_items ops items of
                  Inl e \<Rightarrow> Inl e | Inr None \<Rightarrow> Inr None | Inr (Some xs) \<Rightarrow> Inr (Some (x # xs))))"

definition finite_vector :: "float_ops \<Rightarrow> pyval \<Rightarrow> store_exc + pyfloat list option" where
  "finite_vector ops raw = (case raw of PList items \<Rightarrow> finite_items ops items | _ \<Rightarrow> Inr None)"

definition float_sum :: "float_ops \<Rightarrow> pyfloat list \<Rightarrow> pyfloat" where
  "float_sum ops xs = foldl (fl_add ops) (Fin 0) xs"

definition cosine :: "float_ops \<Rightarrow> pyfloat list \<Rightarrow> pyfloat list \<Rightarrow> pyfloat" where
  "cosine ops a b =
     (if a = [] \<or> b = [] \<or> length a \<noteq> length b then Fin 0
      else let dot = float_sum ops (map (\<lambda>(x, y). fl_mul ops x y) (zip a b));
               norm_a = fl_sqrt ops (float_sum ops (map (\<lambda>x. fl_mul ops x x) a));
               norm_b = fl_sqrt ops (float_sum ops (map (\<lambda>y. fl_mul ops y y) b))
           in if norm_a = Fin 0 \<or> norm_b = Fin 0 then Fin 0
              else let result = fl_div ops dot (fl_mul ops norm_a norm_b)
                   in if isfinite result then result else Fin 0)"

text \<open>The loop of \<^verbatim>\<open>similar\<close> over the rows.\<close>

fun score_rows :: "float_ops \<Rightarrow> pyfloat list \<Rightarrow> (string \<times> string) list \<Rightarrow> store_exc + (string \<times> pyfloat) list" where
  "score_rows ops query [] = Inr []"
| "score_rows ops query ((fact_id, text) # rows) =
     (case loads text of
        Inl _ \<Rightarrow> Inl Row_unreadable
      | Inr raw \<Rightarrow>
          (case finite_vector ops raw of
             Inl e \<Rightarrow> Inl e
           | Inr stored \<Rightarrow>
               (case score_rows ops query rows of
                  Inl e \<Rightarrow> Inl e
                | Inr scored \<Rightarrow>
                    Inr (case stored of None \<Rightarrow> scored | Some v \<Rightarrow> (fact_id, cosine ops query v) # scored))))"

fun fin_value :: "pyfloat \<Rightarrow> rat" where
  "fin_value (Fin x) = x"
| "fin_value _ = 0"

text \<open>A slice \<^verbatim>\<open>xs[:k]\<close>: a negative bound counts from the end.\<close>

definition py_prefix :: "int \<Rightarrow> 'a list \<Rightarrow> 'a list" where
  "py_prefix k xs = take (nat (if k < 0 then int (length xs) + k else k)) xs"

text \<open>\<^verbatim>\<open>sort(reverse=True)\<close> is stable: equal scores keep their order.\<close>

definition similar :: "float_ops \<Rightarrow> pyfloat list \<Rightarrow> int \<Rightarrow> sqlite_store \<Rightarrow> store_exc + (string \<times> pyfloat) list" where
  "similar ops query k st =
     (if \<not> all_finite query then Inl Bad_query
      else case score_rows ops query (st_embeddings st) of
        Inl e \<Rightarrow> Inl e
      | Inr scored \<Rightarrow> Inr (py_prefix k (sort_key (\<lambda>p. - fin_value (snd p)) scored)))"

subsection \<open>The ranking\<close>

lemma cosine_finite: "isfinite (cosine ops a b)"
  by (simp add: cosine_def Let_def)

text \<open>The vectors that rank: those every component of which is a finite number.\<close>

definition ranked_vector :: "float_ops \<Rightarrow> string \<Rightarrow> pyfloat list option" where
  "ranked_vector ops t =
     (case loads t of Inl _ \<Rightarrow> None | Inr raw \<Rightarrow> (case finite_vector ops raw of Inl _ \<Rightarrow> None | Inr v \<Rightarrow> v))"

definition score_row :: "float_ops \<Rightarrow> pyfloat list \<Rightarrow> string \<times> string \<Rightarrow> (string \<times> pyfloat) option" where
  "score_row ops query row = map_option (\<lambda>v. (fst row, cosine ops query v)) (ranked_vector ops (snd row))"

lemma score_rows_members:
  "score_rows ops query rows = Inr scored \<Longrightarrow> scored = List.map_filter (score_row ops query) rows"
  by (induction rows arbitrary: scored)
     (auto simp: ranked_vector_def score_row_def List.map_filter_simps split: sum.splits option.splits prod.splits)

lemma ranked_finite: "ranked_vector ops t = Some v \<Longrightarrow> list_all isfinite v"
proof -
  have "finite_items ops items = Inr (Some v) \<Longrightarrow> list_all isfinite v" for items
    by (induction items arbitrary: v) (auto split: conversion.splits if_splits sum.splits option.splits)
  then show "ranked_vector ops t = Some v \<Longrightarrow> list_all isfinite v"
    by (auto simp: ranked_vector_def finite_vector_def split: sum.splits pyval.splits)
qed

lemma set_score: "y \<in> set (List.map_filter f xs) \<longleftrightarrow> (\<exists>x \<in> set xs. f x = Some y)"
  by (induction xs) (auto simp: List.map_filter_simps split: option.splits)

lemma distinct_ids_score:
  "distinct (map fst rows) \<Longrightarrow> distinct (map fst (List.map_filter (score_row ops query) rows))"
proof (induction rows)
  case (Cons r rows)
  have "fst ` set (List.map_filter (score_row ops query) rows) \<subseteq> fst ` set rows"
    by (auto simp: set_score score_row_def intro: rev_image_eqI)
  then have "fst r \<notin> fst ` set (List.map_filter (score_row ops query) rows)"
    using Cons.prems by auto
  moreover have "score_row ops query r = Some y \<Longrightarrow> fst y = fst r" for y by (auto simp: score_row_def)
  ultimately show ?case using Cons by (auto simp: List.map_filter_simps split: option.splits)
qed (simp add: List.map_filter_simps)

lemma sorted_take_drop:
  assumes "sorted (map f xs)" and "x \<in> set (take n xs)" and "y \<in> set (drop n xs)"
  shows "f x \<le> f y"
proof -
  have "sorted (map f (take n xs) @ map f (drop n xs))"
    using assms(1) by (simp flip: map_append)
  with assms(2,3) show ?thesis by (simp add: sorted_append)
qed

text \<open>The nearest-neighbour query returns the best matches and only those. On a table of
  embeddings with distinct ids, the answer has at most k entries (for k not negative), each the
  id of a stored vector all of whose components are finite with its cosine score, no id twice,
  scores finite and in descending order; and an entry with a finite vector that is left out
  scores no higher than any entry returned. Corrupted or non-finite vectors never rank.\<close>

theorem similar_top_k:
  assumes "distinct (map fst (st_embeddings st))" and "0 \<le> k" and "similar ops query k st = Inr res"
  shows "length res \<le> nat k \<and> distinct (map fst res) \<and>
    sorted (rev (map (fin_value \<circ> snd) res)) \<and>
    (\<forall>(i, s) \<in> set res. isfinite s \<and> (\<exists>t v. (i, t) \<in> set (st_embeddings st) \<and> ranked_vector ops t = Some v \<and>
       list_all isfinite v \<and> s = cosine ops query v)) \<and>
    (\<forall>(i, t) \<in> set (st_embeddings st). \<forall>v. ranked_vector ops t = Some v \<longrightarrow> i \<in> fst ` set res \<or>
       (\<forall>(j, s) \<in> set res. fin_value (cosine ops query v) \<le> fin_value s))"
proof -
  obtain scored where sc: "score_rows ops query (st_embeddings st) = Inr scored"
    and res: "res = take (nat k) (sort_key (\<lambda>p. - fin_value (snd p)) scored)"
    using assms(2,3) by (auto simp: similar_def py_prefix_def split: if_splits sum.splits)
  let ?sorted = "sort_key (\<lambda>p. - fin_value (snd p)) scored"
  note mem = score_rows_members [OF sc]
  have in_scored: "(i, s) \<in> set scored \<longleftrightarrow>
      (\<exists>t v. (i, t) \<in> set (st_embeddings st) \<and> ranked_vector ops t = Some v \<and> s = cosine ops query v)" for i s
    unfolding mem set_score by (force simp: score_row_def)
  have ids: "distinct (map fst scored)"
    unfolding mem by (rule distinct_ids_score [OF assms(1)])
  then have dist: "distinct (map fst ?sorted)"
    by (simp add: distinct_map)
  have srt: "sorted (map (\<lambda>p. - fin_value (snd p)) ?sorted)" by simp
  have "sorted (map (\<lambda>p. - fin_value (snd p)) res)"
    unfolding res take_map [symmetric] by (rule sorted_wrt_take [OF srt])
  then have "sorted (rev (map (fin_value \<circ> snd) res))"
    by (simp add: sorted_wrt_rev sorted_wrt_map)
  moreover have "distinct (map fst res)" unfolding res take_map [symmetric] using dist by (rule distinct_take)
  moreover have "isfinite s \<and> (\<exists>t v. (i, t) \<in> set (st_embeddings st) \<and> ranked_vector ops t = Some v \<and>
       list_all isfinite v \<and> s = cosine ops query v)" if "(i, s) \<in> set res" for i s
  proof -
    have "(i, s) \<in> set scored" using that res by (auto dest: in_set_takeD)
    then show ?thesis using in_scored cosine_finite ranked_finite by metis
  qed
  moreover have "i \<in> fst ` set res \<or> (\<forall>(j, s) \<in> set res. fin_value (cosine ops query v) \<le> fin_value s)"
    if "(i, t) \<in> set (st_embeddings st)" "ranked_vector ops t = Some v" for i t v
  proof -
    have "(i, cosine ops query v) \<in> set ?sorted" using that in_scored by auto
    then have "(i, cosine ops query v) \<in> set res \<or> (i, cosine ops query v) \<in> set (drop (nat k) ?sorted)"
      unfolding res by (metis Un_iff append_take_drop_id set_append)
    then show ?thesis
    proof
      assume "(i, cosine ops query v) \<in> set (drop (nat k) ?sorted)"
      from sorted_take_drop [OF srt _ this] show ?thesis unfolding res by force
    qed force
  qed
  moreover have "length res \<le> nat k" using res by simp
  ultimately show ?thesis by blast
qed

definition demo_ops :: float_ops where
  "demo_ops = \<lparr>fl_float = (\<lambda>v. case v of PInt i \<Rightarrow> Float_value (Fin (of_int i)) | _ \<Rightarrow> Conversion_error),
     fl_add = (\<lambda>x y. Fin (fin_value x + fin_value y)), fl_mul = (\<lambda>x y. Fin (fin_value x * fin_value y)),
     fl_div = (\<lambda>x y. Fin (fin_value x / fin_value y)), fl_sqrt = id\<rparr>"

definition demo_vectors :: sqlite_store where
  "demo_vectors = store_init\<lparr>st_embeddings := [(''a'', ''[1]''), (''b'', ''[null]'')]\<rparr>"

theorem similar_top_k_witness:
  "distinct (map fst (st_embeddings demo_vectors)) \<and> similar demo_ops [Fin 1] 1 demo_vectors = Inr [(''a'', Fin 1)] \<and>
   sorted (rev (map (fin_value \<circ> snd) [(''a'', Fin 1)]))"
proof -
  have d: "distinct (map fst (st_embeddings demo_vectors))" by (simp add: demo_vectors_def)
  have l: "loads ''[1]'' = Inr (PList [PInt 1])" "loads ''[null]'' = Inr (PList [PNone])" by code_simp+
  have s: "similar demo_ops [Fin 1] 1 demo_vectors = Inr [(''a'', Fin 1)]"
    by (simp add: similar_def demo_vectors_def all_finite_def finite_vector_def demo_ops_def cosine_def float_sum_def
        py_prefix_def l)
  show ?thesis using d s similar_top_k [OF d _ s] by simp
qed

end
