(* ===== verification/Credentials.thy ===== *)
theory Credentials
  imports Runner
begin

section \<open>Credentials (actuation/credentials.py)\<close>

text \<open>
  The broker of scoped grants. A handle is an argument of \<^verbatim>\<open>grant\<close> (the fresh UUID); the kill
  switch the broker may share is the one of the execution context.
\<close>

record cred_scope =
  sc_role :: string
  sc_hosts :: "string list"
  sc_max_tier :: tier

datatype credential_error =
    No_hosts
  | T3_not_single
  | Unknown_credential
  | Not_scoped string
  | Capped tier tier

type_synonym credential_broker = "(string, cred_scope) pydict"

definition grant ::
  "string \<Rightarrow> string \<Rightarrow> string list \<Rightarrow> tier \<Rightarrow> credential_broker \<Rightarrow> credential_error + credential_broker" where
  "grant handle role hosts max_tier grants =
     (if hosts = [] then Inl No_hosts
      else if T3 \<le> max_tier \<and> length (remdups hosts) \<noteq> 1 then Inl T3_not_single
      else Inr (AList.update handle \<lparr>sc_role = role, sc_hosts = hosts, sc_max_tier = max_tier\<rparr> grants))"

definition revoke :: "string \<Rightarrow> credential_broker \<Rightarrow> credential_broker" where
  "revoke handle grants = AList.delete handle grants"

text \<open>\<open>created\<close> is the outcome of writing the sentinel file; \<open>None\<close>: no switch is wired in.\<close>

definition kill_all :: "bool \<Rightarrow> credential_broker \<Rightarrow> kill_switch option \<Rightarrow> credential_broker \<times> kill_switch option" where
  "kill_all created grants ks = ([], map_option (trip created) ks)"

definition authorize :: "string \<Rightarrow> string \<Rightarrow> tier \<Rightarrow> credential_broker \<Rightarrow> credential_error + cred_scope" where
  "authorize handle host tier grants =
     (case map_of grants handle of
        None \<Rightarrow> Inl Unknown_credential
      | Some sc \<Rightarrow>
          if host \<notin> set (sc_hosts sc) then Inl (Not_scoped host)
          else if sc_max_tier sc < tier then Inl (Capped (sc_max_tier sc) tier)
          else Inr sc)"

definition has_grants :: "credential_broker \<Rightarrow> bool" where
  "has_grants grants \<longleftrightarrow> grants \<noteq> []"

definition authorized :: "string \<Rightarrow> tier \<Rightarrow> credential_broker \<Rightarrow> bool" where
  "authorized host tier grants \<longleftrightarrow>
     list_ex (\<lambda>(_, sc). host \<in> set (sc_hosts sc) \<and> tier \<le> sc_max_tier sc) grants"

subsection \<open>Every grant is bounded\<close>

definition bounded_scope :: "cred_scope \<Rightarrow> bool" where
  "bounded_scope sc \<longleftrightarrow> sc_hosts sc \<noteq> [] \<and> (T3 \<le> sc_max_tier sc \<longrightarrow> (\<exists>h. set (sc_hosts sc) = {h}))"

definition broker_inv :: "credential_broker \<Rightarrow> bool" where
  "broker_inv grants \<longleftrightarrow> distinct (keys grants) \<and> (\<forall>g \<in> set grants. bounded_scope (snd g))"

datatype broker_op = Grant string string "string list" tier | Revoke string | Kill_all

fun broker_run :: "broker_op list \<Rightarrow> credential_broker \<Rightarrow> credential_broker" where
  "broker_run [] b = b"
| "broker_run (Grant handle role hosts t # ops) b =
     broker_run ops (case grant handle role hosts t b of Inl _ \<Rightarrow> b | Inr b' \<Rightarrow> b')"
| "broker_run (Revoke handle # ops) b = broker_run ops (revoke handle b)"
| "broker_run (Kill_all # ops) b = broker_run ops (fst (kill_all True b None))"

lemma remdups_single: "length (remdups xs) = Suc 0 \<longleftrightarrow> (\<exists>h. set xs = {h})"
  by (simp add: length_remdups_card_conv card_1_singleton_iff)

lemma update_snd: "\<forall>g \<in> set b. P (snd g) \<Longrightarrow> P v \<Longrightarrow> g \<in> set (AList.update k v b) \<Longrightarrow> P (snd g)"
  by (induction b) (auto split: if_splits)

lemma grant_inv:
  assumes "broker_inv b" and "grant handle role hosts t b = Inr b'"
  shows "broker_inv b'"
proof -
  have b': "b' = AList.update handle \<lparr>sc_role = role, sc_hosts = hosts, sc_max_tier = t\<rparr> b"
    and s: "bounded_scope \<lparr>sc_role = role, sc_hosts = hosts, sc_max_tier = t\<rparr>"
    using assms(2) by (auto simp: grant_def bounded_scope_def remdups_single split: if_splits)
  have "\<forall>g \<in> set b. bounded_scope (snd g)" using assms(1) by (simp add: broker_inv_def)
  from update_snd [OF this s] assms(1) show ?thesis
    unfolding b' broker_inv_def by (auto intro: distinct_update)
qed

lemma revoke_inv: "broker_inv b \<Longrightarrow> broker_inv (revoke handle b)"
  unfolding broker_inv_def revoke_def
  by (intro conjI distinct_delete) (auto simp: AList.delete_eq)

lemma broker_inv_Nil [simp]: "broker_inv []"
  by (simp add: broker_inv_def)

lemma broker_run_inv: "broker_inv b \<Longrightarrow> broker_inv (broker_run ops b)"
proof (induction ops b rule: broker_run.induct)
  case (2 handle role hosts t ops b)
  then show ?case by (cases "grant handle role hosts t b") (simp_all add: grant_inv)
qed (simp_all add: revoke_inv kill_all_def)

lemma broker_reachable: "broker_inv (broker_run ops [])"
  by (rule broker_run_inv) simp

lemma authorize_Inr:
  "authorize handle host t b = Inr sc \<longleftrightarrow> map_of b handle = Some sc \<and> host \<in> set (sc_hosts sc) \<and> t \<le> sc_max_tier sc"
  by (cases "map_of b handle") (auto simp: authorize_def not_less)

lemma authorized_iff:
  assumes "broker_inv b"
  shows "authorized host t b \<longleftrightarrow> (\<exists>handle sc. authorize handle host t b = Inr sc)"
proof -
  have "authorized host t b \<longleftrightarrow> (\<exists>handle sc. (handle, sc) \<in> set b \<and> host \<in> set (sc_hosts sc) \<and> t \<le> sc_max_tier sc)"
    by (force simp: authorized_def list_ex_iff)
  also have "\<dots> \<longleftrightarrow> (\<exists>handle sc. map_of b handle = Some sc \<and> host \<in> set (sc_hosts sc) \<and> t \<le> sc_max_tier sc)"
    using assms by (simp add: broker_inv_def map_of_eq_Some_iff)
  also have "\<dots> \<longleftrightarrow> (\<exists>handle sc. authorize handle host t b = Inr sc)"
    by (simp only: authorize_Inr)
  finally show ?thesis .
qed

text \<open>Authority is scoped. After any sequence of grants (accepted or refused), revocations and kill
  switches, an action is authorised exactly when some handle authorises it; the grant behind it names
  the host, reaches the tier, and at T3 names that host alone; and a revoked handle authorises
  nothing.\<close>

theorem grants_are_scoped:
  assumes "b = broker_run ops []"
  shows "(authorized host t b \<longleftrightarrow> (\<exists>handle sc. authorize handle host t b = Inr sc)) \<and>
    (\<forall>handle sc. authorize handle host t b = Inr sc \<longrightarrow>
       host \<in> set (sc_hosts sc) \<and> t \<le> sc_max_tier sc \<and> (t = T3 \<longrightarrow> set (sc_hosts sc) = {host})) \<and>
    authorize handle host t (revoke handle b) = Inl Unknown_credential"
proof (intro conjI allI impI)
  have inv: "broker_inv b" unfolding assms by (rule broker_reachable)
  show "authorized host t b \<longleftrightarrow> (\<exists>handle sc. authorize handle host t b = Inr sc)" by (rule authorized_iff [OF inv])
  show "authorize handle host t (revoke handle b) = Inl Unknown_credential"
    by (simp add: authorize_def revoke_def delete_conv)
  fix handle sc
  assume "authorize handle host t b = Inr sc"
  then have m: "map_of b handle = Some sc" "host \<in> set (sc_hosts sc)" "t \<le> sc_max_tier sc"
    by (simp_all add: authorize_Inr)
  then show "host \<in> set (sc_hosts sc)" "t \<le> sc_max_tier sc" by simp_all
  have "bounded_scope sc" using inv bspec [of "set b" "\<lambda>g. bounded_scope (snd g)" "(handle, sc)"] map_of_SomeD [OF m(1)] by (simp add: broker_inv_def)
  then show "set (sc_hosts sc) = {host}" if "t = T3"
    using m(2,3) unfolding that bounded_scope_def by (metis singletonD)
qed

theorem grants_are_scoped_witness:
  "authorized ''db1'' T3 (broker_run [Grant ''h1'' ''dba'' [''db1''] T3, Grant ''h2'' ''ops'' [''a'', ''b''] T3] []) \<and>
   \<not> authorized ''a'' T0 (broker_run [Grant ''h1'' ''dba'' [''db1''] T3, Grant ''h2'' ''ops'' [''a'', ''b''] T3] [])"
proof -
  let ?b = "broker_run [Grant ''h1'' ''dba'' [''db1''] T3, Grant ''h2'' ''ops'' [''a'', ''b''] T3] []"
  have b: "?b = [(''h1'', \<lparr>sc_role = ''dba'', sc_hosts = [''db1''], sc_max_tier = T3\<rparr>)]"
    by (simp add: grant_def)
  have "authorize ''h1'' ''db1'' T3 ?b = Inr \<lparr>sc_role = ''dba'', sc_hosts = [''db1''], sc_max_tier = T3\<rparr>"
    unfolding b by (simp add: authorize_def)
  then have "authorized ''db1'' T3 ?b" using grants_are_scoped [OF refl] by blast
  moreover have "\<not> authorized ''a'' T0 ?b" unfolding b by (simp add: authorized_def)
  ultimately show ?thesis by blast
qed

end
