(* ===== verification/Actuation.thy ===== *)
theory Actuation
  imports Facts Runner
begin

section \<open>Actuation (actuation/base.py)\<close>

text \<open>
  The part every adapter shares: the environment a wrapped tool gets, the confinement of paths, the
  run of a subprocess, and the actuation of a request through the audited path. An adapter is the
  record of the methods a subclass provides. The file system and the processes are arguments: what
  \<^verbatim>\<open>Path.resolve\<close> and the tests of existence answer, and what a started process does.
\<close>

subsection \<open>Hosts and targets\<close>

record host_info =
  hi_name :: string
  hi_host_type :: host_type
  hi_ssh_alias :: "string option"
  hi_endpoints :: "string list"
  hi_nodes :: "string list"

definition ascii_alnum :: "char \<Rightarrow> bool" where
  "ascii_alnum c \<longleftrightarrow> is_digit c \<or> is_upper_letter c \<or> is_lower_letter c"

text \<open>A pattern that ends in a dollar sign also matches before one newline at the end.\<close>

definition drop_last_newline :: "string \<Rightarrow> string" where
  "drop_last_newline s = (if s \<noteq> [] \<and> last s = CHR ''\<newline>'' then butlast s else s)"

definition safe_target :: "string \<Rightarrow> bool" where
  "safe_target s \<longleftrightarrow>
     (case drop_last_newline s of
        [] \<Rightarrow> False
      | c # cs \<Rightarrow> ascii_alnum c \<and> list_all (\<lambda>x. ascii_alnum x \<or> x \<in> set ''._-[]:@'') cs)"

subsection \<open>The environment of a wrapped tool\<close>

definition ENV_ALLOWLIST :: "string list" where
  "ENV_ALLOWLIST =
     [''PATH'', ''HOME'', ''USER'', ''LOGNAME'', ''LANG'', ''LC_ALL'', ''LC_CTYPE'', ''TZ'', ''TMPDIR'',
      ''SSH_AUTH_SOCK'', ''TALOSCONFIG'', ''KUBECONFIG'', ''ANSIBLE_CONFIG'', ''ANSIBLE_VAULT_PASSWORD_FILE'']"

definition scrubbed_env :: "(string, string) pydict \<Rightarrow> (string, string) pydict" where
  "scrubbed_env environ =
     (let env0 = concat (map (\<lambda>key. case map_of environ key of None \<Rightarrow> [] | Some v \<Rightarrow> [(key, v)]) ENV_ALLOWLIST);
          env1 = (if map_of env0 ''PATH'' \<in> {None, Some []}
                  then AList.update ''PATH'' ''/usr/local/sbin:/usr/local/bin:/usr/sbin:/usr/bin:/sbin:/bin'' env0 else env0);
          env2 = (if map_of env1 ''LANG'' = None then AList.update ''LANG'' ''C.UTF-8'' env1 else env1)
      in AList.update ''SSH_ASKPASS'' [] (AList.update ''GIT_ASKPASS'' []
           (AList.update ''GIT_TERMINAL_PROMPT'' ''0'' (AList.update ''DEBIAN_FRONTEND'' ''noninteractive'' env2))))"

subsection \<open>Paths\<close>

datatype argv_error =
    No_root string
  | Escapes_root string
  | Not_found string
  | Unsafe_target string
  | Bad_host_key_policy string
  | No_verb
  | Verb_not_allowed string
  | Option_in_action string
  | Bad_node string
  | Ambiguous_reset
  | Labels_not_string
  | Bad_labels string
  | Bad_wipe_mode

record file_system =
  fs_resolve :: "string \<Rightarrow> string"   \<comment> \<open>the real absolute path, symbolic links followed\<close>
  fs_is_file :: "string \<Rightarrow> bool"
  fs_is_dir :: "string \<Rightarrow> bool"

definition path_parts :: "string \<Rightarrow> string list" where
  "path_parts p = filter (\<lambda>x. x \<noteq> []) (py_split CHR ''/'' p)"

definition is_relative_to :: "string \<Rightarrow> string \<Rightarrow> bool" where
  "is_relative_to p base \<longleftrightarrow> take (length (path_parts base)) (path_parts p) = path_parts base"

datatype require = File | Dir

definition confine_to_root ::
  "file_system \<Rightarrow> string option \<Rightarrow> string \<Rightarrow> require \<Rightarrow> string \<Rightarrow> argv_error + string" where
  "confine_to_root fs root_dir kind req action =
     (case root_dir of
        None \<Rightarrow> Inl (No_root kind)
      | Some r \<Rightarrow>
          (let base = fs_resolve fs r;
               candidate = fs_resolve fs (if startswith action ''/'' then action else base @ ''/'' @ action)
           in if \<not> is_relative_to candidate base then Inl (Escapes_root action)
              else if \<not> (case req of Dir \<Rightarrow> fs_is_dir fs candidate | File \<Rightarrow> fs_is_file fs candidate) then Inl (Not_found action)
              else Inr candidate))"

subsection \<open>Subprocesses\<close>

datatype proc_outcome =
    Exited int string string      \<comment> \<open>return code, standard output, standard error\<close>
  | Timed_out
  | Start_failed exn

record 'w system =
  sy_environ :: "(string, string) pydict"
  sy_which :: "string \<Rightarrow> bool"
  sy_run :: "string list \<Rightarrow> (string, string) pydict \<Rightarrow> 'w \<Rightarrow> proc_outcome \<times> 'w"
  sy_kill :: "'w \<Rightarrow> 'w"              \<comment> \<open>the process group is killed\<close>
  sy_signal :: "int \<Rightarrow> string option"  \<comment> \<open>the name of a signal\<close>

definition DEFAULT_TIMEOUT_S :: nat where "DEFAULT_TIMEOUT_S = 120"

text \<open>\<^verbatim>\<open>str(CalledProcessError(returncode, cmd))\<close>.\<close>

definition called_process_error :: "(int \<Rightarrow> string option) \<Rightarrow> int \<Rightarrow> string \<Rightarrow> string" where
  "called_process_error signal_name rc cmd =
     ''Command '' @ [apostrophe] @ cmd @ [apostrophe] @
     (if rc < 0 then
        (case signal_name (- rc) of
           Some n \<Rightarrow> '' died with '' @ n @ ''.''
         | None \<Rightarrow> '' died with unknown signal '' @ int_str (- rc) @ ''.'')
      else '' returned non-zero exit status '' @ int_str rc @ ''.'')"

definition run_subprocess :: "'w system \<Rightarrow> string list \<Rightarrow> bool \<Rightarrow> 'w tool" where
  "run_subprocess sys argv preview ctx =
     (if preview then (Inr (''DRY_RUN preview (not executed): '' @ py_join '' '' argv), ctx)
      else case argv of
        [] \<Rightarrow> (Inl (''IndexError'', Some ''list index out of range''), ctx)
      | cmd # _ \<Rightarrow>
          if \<not> sy_which sys cmd
          then (Inl (''FileNotFoundError'', Some (''actuation tool not found on PATH: '' @ cmd)), ctx)
          else
            (let (outcome, w) = sy_run sys argv (scrubbed_env (sy_environ sys)) (cx_world ctx)
             in case outcome of
                  Start_failed e \<Rightarrow> (Inl e, ctx\<lparr>cx_world := w\<rparr>)
                | Timed_out \<Rightarrow>
                    (Inl (''TimeoutError'', Some (''actuation timed out after '' @ nat_str DEFAULT_TIMEOUT_S @ ''s: '' @ cmd)),
                     ctx\<lparr>cx_world := sy_kill sys w\<rparr>)
                | Exited rc out err \<Rightarrow>
                    if rc \<noteq> 0
                    then (Inl (''CalledProcessError'', Some (called_process_error (sy_signal sys) rc cmd)), ctx\<lparr>cx_world := w\<rparr>)
                    else (Inr (out @ err), ctx\<lparr>cx_world := w\<rparr>)))"

subsection \<open>Adapters\<close>

type_synonym params = "(string \<times> pyval) list"

record adapter =
  ad_name :: string
  ad_supported :: "host_type list"
  ad_base_tier :: tier
  ad_native_dry_run :: bool
  ad_build_argv :: "host_info \<Rightarrow> string \<Rightarrow> params \<Rightarrow> bool \<Rightarrow> argv_error + string list"
  ad_extra :: "host_info \<Rightarrow> string \<Rightarrow> params \<Rightarrow> bool \<Rightarrow> exec_request predicate list"
  ad_retarget :: "host_info \<Rightarrow> exec_request \<Rightarrow> exec_request"  \<comment> \<open>what an override of build_request adds\<close>

definition supports :: "adapter \<Rightarrow> host_info \<Rightarrow> bool" where
  "supports A host \<longleftrightarrow> hi_host_type host \<in> set (ad_supported A)"

definition adapter_argv :: "adapter \<Rightarrow> host_info \<Rightarrow> string \<Rightarrow> params \<Rightarrow> bool \<Rightarrow> argv_error + string list" where
  "adapter_argv A host action ps dry_run =
     (if supports A host then ad_build_argv A host action ps dry_run else Inr [])"

definition build_request ::
  "adapter \<Rightarrow> host_info \<Rightarrow> string \<Rightarrow> params \<Rightarrow> bool \<Rightarrow> approval option \<Rightarrow> argv_error + exec_request" where
  "build_request A host action ps dry_run approval =
     (case adapter_argv A host action ps dry_run of
        Inl e \<Rightarrow> Inl e
      | Inr argv \<Rightarrow>
          (case (if \<not> dry_run \<or> \<not> supports A host then Inr argv else ad_build_argv A host action ps False) of
             Inl e \<Rightarrow> Inl e
           | Inr real_argv \<Rightarrow>
               Inr (ad_retarget A host
                 \<lparr>er_tool = ad_name A,
                  er_command = (if supports A host then Some (py_join '' '' argv) else None),
                  er_args = Some (fold (\<lambda>(k, v) d. AList.update k v d) ps [(''action'', PStr action)]),
                  er_target = Some (hi_name host), er_base_tier = ad_base_tier A, er_dry_run = dry_run,
                  er_approval = approval, er_untrusted = False,
                  er_action_key = (if supports A host then Some (py_join '' '' real_argv) else None)\<rparr>)))"

definition host_pred :: "adapter \<Rightarrow> host_info \<Rightarrow> exec_request predicate" where
  "host_pred A host =
     \<lparr>p_name = ''host_type'', p_test = (\<lambda>_. Some (supports A host)), p_severity = HARD,
      p_message = ad_name A @ '' does not actuate host_type='' @ host_value (hi_host_type host) @
                  '' (SEC-5; host '' @ hi_name host @ '')''\<rparr>"

definition merged_contract :: "adapter \<Rightarrow> host_info \<Rightarrow> string \<Rightarrow> params \<Rightarrow> bool \<Rightarrow> exec_request contract \<Rightarrow> exec_request contract" where
  "merged_contract A host action ps dry_run c =
     c\<lparr>preconditions := preconditions c @ host_pred A host #
        (if supports A host then ad_extra A host action ps dry_run else [])\<rparr>"

datatype act_exc = Argv_raised argv_error | Run_raised run_exc

text \<open>The call gets a copy of the context with the merged contract; everything else of the context is
  shared, so the contract alone is what it was afterwards.\<close>

definition actuate ::
  "(string \<Rightarrow> string) \<Rightarrow> run_env \<Rightarrow> 'w system \<Rightarrow> adapter \<Rightarrow> host_info \<Rightarrow> string \<Rightarrow> params \<Rightarrow> bool \<Rightarrow> approval option \<Rightarrow>
   'w exec_context \<Rightarrow> (act_exc + exec_result) \<times> 'w exec_context" where
  "actuate H env sys A host action ps dry_run approval ctx =
     (case adapter_argv A host action ps dry_run of
        Inl e \<Rightarrow> (Inl (Argv_raised e), ctx)
      | Inr argv \<Rightarrow>
          (case build_request A host action ps dry_run approval of
             Inl e \<Rightarrow> (Inl (Argv_raised e), ctx)
           | Inr req \<Rightarrow>
               (let preview = (dry_run \<and> \<not> ad_native_dry_run A);
                    (res, ctx') = run H env req (run_subprocess sys argv preview)
                      (ctx\<lparr>cx_contract := merged_contract A host action ps dry_run (cx_contract ctx)\<rparr>)
                in (map_sum Run_raised id res, ctx'\<lparr>cx_contract := cx_contract ctx\<rparr>))))"

definition make_executor :: "'w system \<Rightarrow> string list \<Rightarrow> bool \<Rightarrow> 'w tool" where
  "make_executor sys argv preview = run_subprocess sys argv preview"

subsection \<open>What reaches a wrapped tool\<close>

lemma update_keys_in: "set (keys d) \<subseteq> S \<Longrightarrow> k \<in> S \<Longrightarrow> set (keys (AList.update k v d)) \<subseteq> S"
  by (induction d) (auto split: if_splits)

lemma maybe_update_keys_in:
  "set (keys d) \<subseteq> S \<Longrightarrow> k \<in> S \<Longrightarrow> set (keys (if c then AList.update k v d else d)) \<subseteq> S"
  by (cases c) (simp_all only: if_True if_False update_keys_in)

text \<open>Nothing of the server's environment but the listed variables crosses into a wrapped tool.\<close>

lemma scrubbed_env_keys:
  "set (keys (scrubbed_env environ)) \<subseteq>
   set ENV_ALLOWLIST \<union> {''DEBIAN_FRONTEND'', ''GIT_TERMINAL_PROMPT'', ''GIT_ASKPASS'', ''SSH_ASKPASS''}"
  unfolding scrubbed_env_def Let_def
  by (intro update_keys_in maybe_update_keys_in) (auto simp: ENV_ALLOWLIST_def split: option.splits)

subsection \<open>The gates of an actuation\<close>

lemma actuate_depends:
  assumes "actuate H env sys1 A host action ps dry_run approval ctx \<noteq> actuate H env sys2 A host action ps dry_run approval ctx"
  obtains req ex1 ex2 where "build_request A host action ps dry_run approval = Inr req"
    and "run H env req ex1 (ctx\<lparr>cx_contract := merged_contract A host action ps dry_run (cx_contract ctx)\<rparr>) \<noteq>
         run H env req ex2 (ctx\<lparr>cx_contract := merged_contract A host action ps dry_run (cx_contract ctx)\<rparr>)"
proof -
  from assms obtain argv req where a: "adapter_argv A host action ps dry_run = Inr argv"
      and r: "build_request A host action ps dry_run approval = Inr req"
    by (auto simp: actuate_def split: sum.splits)
  let ?ctx = "ctx\<lparr>cx_contract := merged_contract A host action ps dry_run (cx_contract ctx)\<rparr>"
  let ?ex = "\<lambda>sys. run_subprocess sys argv (dry_run \<and> \<not> ad_native_dry_run A)"
  have "run H env req (?ex sys1) ?ctx \<noteq> run H env req (?ex sys2) ?ctx"
    using assms a r by (auto simp: actuate_def)
  with r show thesis by (rule that)
qed

lemma merged_preconditions:
  "preconditions (merged_contract A host action ps dry_run c) =
   preconditions c @ host_pred A host # (if supports A host then ad_extra A host action ps dry_run else [])"
  "invariants (merged_contract A host action ps dry_run c) = invariants c"
  by (simp_all add: merged_contract_def)

definition approved_for :: "(string \<Rightarrow> string) \<Rightarrow> run_env \<Rightarrow> exec_request \<Rightarrow> tier \<Rightarrow> approval_registry \<Rightarrow> bool" where
  "approved_for H env req t reg \<longleftrightarrow>
     (\<exists>a p. er_approval req = Some a \<and> action_id H req = Some (ap_action_id a) \<and> map_of (pending reg) (ap_token a) = Some p \<and>
        bound_to p (ap_action_id a) (er_target req) t PATTERNS_VERSION (re_now env))"

lemma actuation_gates:
  assumes "actuate H env sys1 A host action ps dry_run approval ctx \<noteq> actuate H env sys2 A host action ps dry_run approval ctx"
  shows "supports A host" and "\<not> is_tripped (re_readable env) (cx_kill_switch ctx)"
    and "\<exists>req. build_request A host action ps dry_run approval = Inr req \<and>
      (\<forall>p \<in> set (preconditions (cx_contract ctx)) \<union> set (invariants (cx_contract ctx)) \<union>
         set (ad_extra A host action ps dry_run). \<not> blocks p req) \<and>
      (\<not> er_dry_run req \<longrightarrow> T2 \<le> classify (er_tool req) (er_command req) (er_base_tier req) \<longrightarrow>
         approved_for H env req (classify (er_tool req) (er_command req) (er_base_tier req)) (cx_approvals ctx))"
proof -
  let ?ctx = "ctx\<lparr>cx_contract := merged_contract A host action ps dry_run (cx_contract ctx)\<rparr>"
  obtain req ex1 ex2 where r: "build_request A host action ps dry_run approval = Inr req"
    and d: "run H env req ex1 ?ctx \<noteq> run H env req ex2 ?ctx"
    using assms by (rule actuate_depends)
  note g = execution_gates [OF d]
  have "\<not> blocks (host_pred A host) req" using g(5) by (simp add: merged_preconditions)
  then show s: "supports A host" by (simp add: blocks_def host_pred_def)
  show "\<not> is_tripped (re_readable env) (cx_kill_switch ctx)" using g(1) by simp
  have "\<forall>p \<in> set (preconditions (cx_contract ctx)) \<union> set (invariants (cx_contract ctx)) \<union>
         set (ad_extra A host action ps dry_run). \<not> blocks p req"
    using g(5) s by (auto simp: merged_preconditions)
  moreover have "approved_for H env req (classify (er_tool req) (er_command req) (er_base_tier req)) (cx_approvals ctx)"
    if "\<not> er_dry_run req" "T2 \<le> classify (er_tool req) (er_command req) (er_base_tier req)"
    using g(6) that by (auto simp: approved_for_def)
  ultimately show "\<exists>req. build_request A host action ps dry_run approval = Inr req \<and>
      (\<forall>p \<in> set (preconditions (cx_contract ctx)) \<union> set (invariants (cx_contract ctx)) \<union>
         set (ad_extra A host action ps dry_run). \<not> blocks p req) \<and>
      (\<not> er_dry_run req \<longrightarrow> T2 \<le> classify (er_tool req) (er_command req) (er_base_tier req) \<longrightarrow>
         approved_for H env req (classify (er_tool req) (er_command req) (er_base_tier req)) (cx_approvals ctx))"
    using r by blast
qed

text \<open>The contract an adapter has to meet to be gated by a person: it floors at T2, and an override of
  the request changes at most its target.\<close>

locale gated_adapter =
  fixes A :: adapter
  assumes floor: "T2 \<le> ad_base_tier A"
    and retarget: "ad_retarget A host req = req\<lparr>er_target := er_target (ad_retarget A host req)\<rparr>"
begin

lemma request_fields:
  assumes "build_request A host action ps dry_run approval = Inr req"
  shows "er_dry_run req = dry_run" and "er_approval req = approval" and "er_base_tier req = ad_base_tier A"
    and "er_tool req = ad_name A"
proof -
  from assms obtain r0 where r: "req = ad_retarget A host r0" and
    f: "er_dry_run r0 = dry_run" "er_approval r0 = approval" "er_base_tier r0 = ad_base_tier A" "er_tool r0 = ad_name A"
    by (auto simp: build_request_def split: sum.splits)
  have "req = r0\<lparr>er_target := er_target req\<rparr>" unfolding r by (rule retarget)
  with f show "er_dry_run req = dry_run" "er_approval req = approval" "er_base_tier req = ad_base_tier A" "er_tool req = ad_name A"
    by (metis exec_request.select_convs exec_request.surjective exec_request.update_convs(4))+
qed

lemma real_run_needs_approval:
  assumes "actuate H env sys1 A host action ps False approval ctx \<noteq> actuate H env sys2 A host action ps False approval ctx"
  shows "\<exists>req t. build_request A host action ps False approval = Inr req \<and> T2 \<le> t \<and> approved_for H env req t (cx_approvals ctx)"
proof -
  obtain req where r: "build_request A host action ps False approval = Inr req"
    and g: "\<not> er_dry_run req \<longrightarrow> T2 \<le> classify (er_tool req) (er_command req) (er_base_tier req) \<longrightarrow>
         approved_for H env req (classify (er_tool req) (er_command req) (er_base_tier req)) (cx_approvals ctx)"
    using actuation_gates(3) [OF assms] by blast
  note f = request_fields [OF r]
  have "T2 \<le> classify (er_tool req) (er_command req) (er_base_tier req)"
    using floor classify_ge_base [of "er_base_tier req"] f(3) by (metis order_trans)
  with g f(1) r show ?thesis by blast
qed

end

end
