(* ===== verification/Adapters.thy ===== *)
theory Adapters
  imports Actuation
begin

section \<open>Adapters (actuation/ssh.py, ansible.py, opentofu.py, runbook.py, talosctl.py)\<close>

text \<open>
  The command lines the five adapters build, the validation of a Talos node with the addresses
  \<^verbatim>\<open>ipaddress\<close> accepts, and the health gate of an upgrade, whose probe is an argument.
\<close>

subsection \<open>Strings and truth values\<close>

text \<open>\<^verbatim>\<open>str.split()\<close>: the words between runs of white space.\<close>

fun words_acc :: "string \<Rightarrow> string \<Rightarrow> string list" where
  "words_acc acc [] = (if acc = [] then [] else [rev acc])"
| "words_acc acc (c # cs) =
     (if is_space c then (if acc = [] then words_acc [] cs else rev acc # words_acc [] cs)
      else words_acc (c # acc) cs)"

definition py_words :: "string \<Rightarrow> string list" where
  "py_words s = words_acc [] s"

fun py_truthy :: "pyval \<Rightarrow> bool" where
  "py_truthy PNone = False"
| "py_truthy (PBool b) = b"
| "py_truthy (PInt i) = (i \<noteq> 0)"
| "py_truthy (PFloat t) = (float_value t \<noteq> Some 0)"
| "py_truthy (PStr s) = (s \<noteq> [])"
| "py_truthy (PList vs) = (vs \<noteq> [])"
| "py_truthy (PDict d) = (d \<noteq> [])"
| "py_truthy (POpaque s) = True"

definition no_override :: "host_info \<Rightarrow> exec_request \<Rightarrow> exec_request" where
  "no_override host req = req"

definition no_extra :: "host_info \<Rightarrow> string \<Rightarrow> params \<Rightarrow> bool \<Rightarrow> exec_request predicate list" where
  "no_extra host action ps dry_run = []"

subsection \<open>SSH\<close>

definition HOST_KEY_POLICIES :: "string list" where
  "HOST_KEY_POLICIES = [''accept-new'', ''yes'']"

definition ssh_host_key_policy :: string where "ssh_host_key_policy = ''accept-new''"
definition ssh_connect_timeout_s :: nat where "ssh_connect_timeout_s = 10"

definition ssh_argv :: "host_info \<Rightarrow> string \<Rightarrow> params \<Rightarrow> bool \<Rightarrow> argv_error + string list" where
  "ssh_argv host action ps dry_run =
     (let target = (case hi_ssh_alias host of Some a \<Rightarrow> if a \<noteq> [] then a else hi_name host | None \<Rightarrow> hi_name host)
      in if \<not> safe_target target then Inl (Unsafe_target target)
         else if ssh_host_key_policy \<notin> set HOST_KEY_POLICIES then Inl (Bad_host_key_policy ssh_host_key_policy)
         else Inr [''ssh'', ''-o'', ''BatchMode=yes'', ''-o'', ''StrictHostKeyChecking='' @ ssh_host_key_policy,
                   ''-o'', ''ConnectTimeout='' @ nat_str ssh_connect_timeout_s, target, action])"

definition SSHAdapter :: adapter where
  "SSHAdapter =
     \<lparr>ad_name = ''ssh'', ad_supported = [UBUNTU, WINDOWS], ad_base_tier = T2, ad_native_dry_run = False,
      ad_build_argv = ssh_argv, ad_extra = no_extra, ad_retarget = no_override\<rparr>"

subsection \<open>Ansible\<close>

definition ansible_argv ::
  "file_system \<Rightarrow> string option \<Rightarrow> host_info \<Rightarrow> string \<Rightarrow> params \<Rightarrow> bool \<Rightarrow> argv_error + string list" where
  "ansible_argv fs playbook_root host action ps dry_run =
     (if \<not> safe_target (hi_name host) then Inl (Unsafe_target (hi_name host))
      else case confine_to_root fs playbook_root ''playbook'' File action of
        Inl e \<Rightarrow> Inl e
      | Inr playbook \<Rightarrow>
          Inr ([''ansible-playbook'', playbook, ''--limit'', hi_name host] @ (if dry_run then [''--check''] else [])))"

definition AnsibleAdapter :: "file_system \<Rightarrow> string option \<Rightarrow> adapter" where
  "AnsibleAdapter fs playbook_root =
     \<lparr>ad_name = ''ansible'', ad_supported = [UBUNTU], ad_base_tier = T2, ad_native_dry_run = True,
      ad_build_argv = ansible_argv fs playbook_root, ad_extra = no_extra, ad_retarget = no_override\<rparr>"

subsection \<open>OpenTofu\<close>

definition tofu_prefix :: "file_system \<Rightarrow> string option \<Rightarrow> params \<Rightarrow> argv_error + string list" where
  "tofu_prefix fs tofu_root ps =
     (case map_of ps ''chdir'' of
        None \<Rightarrow> Inr [''tofu'']
      | Some PNone \<Rightarrow> Inr [''tofu'']
      | Some chdir \<Rightarrow>
          (case confine_to_root fs tofu_root ''tofu'' Dir (py_str chdir) of
             Inl e \<Rightarrow> Inl e
           | Inr workspace \<Rightarrow> Inr [''tofu'', ''-chdir='' @ workspace]))"

definition tofu_argv ::
  "file_system \<Rightarrow> string option \<Rightarrow> host_info \<Rightarrow> string \<Rightarrow> params \<Rightarrow> bool \<Rightarrow> argv_error + string list" where
  "tofu_argv fs tofu_root host action ps dry_run =
     (case tofu_prefix fs tofu_root ps of
        Inl e \<Rightarrow> Inl e
      | Inr prefix \<Rightarrow> Inr (if dry_run then prefix @ [''plan''] else prefix @ [''apply'', ''-auto-approve'']))"

definition OpenTofuAdapter :: "file_system \<Rightarrow> string option \<Rightarrow> adapter" where
  "OpenTofuAdapter fs tofu_root =
     \<lparr>ad_name = ''opentofu'', ad_supported = [UBUNTU, CLOUD], ad_base_tier = T2, ad_native_dry_run = True,
      ad_build_argv = tofu_argv fs tofu_root, ad_extra = no_extra, ad_retarget = no_override\<rparr>"

subsection \<open>Runbooks\<close>

definition runbook_argv ::
  "file_system \<Rightarrow> string option \<Rightarrow> host_info \<Rightarrow> string \<Rightarrow> params \<Rightarrow> bool \<Rightarrow> argv_error + string list" where
  "runbook_argv fs runbook_root host action ps dry_run =
     (case confine_to_root fs runbook_root ''runbook'' File action of
        Inl e \<Rightarrow> Inl e
      | Inr script \<Rightarrow>
          Inr ([''bash'', script] @ (case map_of ps ''args'' of Some (PList items) \<Rightarrow> map py_str items | _ \<Rightarrow> [])))"

definition RunbookAdapter :: "file_system \<Rightarrow> string option \<Rightarrow> adapter" where
  "RunbookAdapter fs runbook_root =
     \<lparr>ad_name = ''runbook'', ad_supported = [UBUNTU, WINDOWS, CLOUD], ad_base_tier = T2, ad_native_dry_run = False,
      ad_build_argv = runbook_argv fs runbook_root, ad_extra = no_extra, ad_retarget = no_override\<rparr>"

subsection \<open>Addresses\<close>

text \<open>\<^verbatim>\<open>ipaddress.ip_address\<close>: four decimal octets without leading zeros, or an IPv6 address in
  one of its spellings, optionally with a scope after a percent sign.\<close>

definition is_octet :: "string \<Rightarrow> bool" where
  "is_octet s \<longleftrightarrow> s \<noteq> [] \<and> list_all is_digit s \<and> length s \<le> 3 \<and> (s = ''0'' \<or> hd s \<noteq> CHR ''0'') \<and> digits_value s \<le> 255"

definition is_ipv4 :: "string \<Rightarrow> bool" where
  "is_ipv4 s \<longleftrightarrow> (let octets = py_split CHR ''.'' s in length octets = 4 \<and> list_all is_octet octets)"

definition is_hextet :: "string \<Rightarrow> bool" where
  "is_hextet s \<longleftrightarrow> s \<noteq> [] \<and> length s \<le> 4 \<and> list_all (\<lambda>c. c \<in> set ''0123456789ABCDEFabcdef'') s"

definition ipv6_parts :: "string list \<Rightarrow> bool" where
  "ipv6_parts parts \<longleftrightarrow>
     length parts \<le> 9 \<and>
     (case filter (\<lambda>i. parts ! i = []) [1..<length parts - 1] of
        [] \<Rightarrow> length parts = 8 \<and> list_all is_hextet parts
      | [i] \<Rightarrow>
          (let hi = take i parts; lo = drop (i + 1) parts;
               hi' = (if hd parts = [] then tl hi else hi);
               lo' = (if last parts = [] then butlast lo else lo)
           in (hd parts = [] \<longrightarrow> hi' = []) \<and> (last parts = [] \<longrightarrow> lo' = []) \<and>
              length hi' + length lo' < 8 \<and> list_all is_hextet hi' \<and> list_all is_hextet lo')
      | _ \<Rightarrow> False)"

definition is_ipv6_body :: "string \<Rightarrow> bool" where
  "is_ipv6_body s \<longleftrightarrow>
     (let parts = py_split CHR '':'' s
      in 3 \<le> length parts \<and>
         (if CHR ''.'' \<in> set (last parts)
          then is_ipv4 (last parts) \<and> ipv6_parts (butlast parts @ [''0'', ''0''])
          else ipv6_parts parts))"

definition is_ipv6 :: "string \<Rightarrow> bool" where
  "is_ipv6 s \<longleftrightarrow>
     CHR ''/'' \<notin> set s \<and>
     (if CHR ''%'' \<in> set s
      then (let scope_id = tl (dropWhile (\<lambda>c. c \<noteq> CHR ''%'') s)
            in scope_id \<noteq> [] \<and> CHR ''%'' \<notin> set scope_id \<and> is_ipv6_body (takeWhile (\<lambda>c. c \<noteq> CHR ''%'') s))
      else is_ipv6_body s)"

definition is_label :: "string \<Rightarrow> bool" where
  "is_label s \<longleftrightarrow>
     s \<noteq> [] \<and> length s \<le> 63 \<and> ascii_alnum (hd s) \<and> ascii_alnum (last s) \<and>
     list_all (\<lambda>c. ascii_alnum c \<or> c = CHR ''-'') s"

definition is_rfc1123_host :: "string \<Rightarrow> bool" where
  "is_rfc1123_host s0 \<longleftrightarrow>
     (let s = drop_last_newline s0
      in 1 \<le> length s \<and> length s \<le> 253 \<and> list_all is_label (py_split CHR ''.'' s))"

definition validate_node :: "string \<Rightarrow> bool" where
  "validate_node s \<longleftrightarrow> is_ipv4 s \<or> is_ipv6 s \<or> is_rfc1123_host s"

subsection \<open>talosctl\<close>

definition TALOSCTL_VERBS :: "string list" where
  "TALOSCTL_VERBS =
     [''version'', ''health'', ''get'', ''list'', ''read'', ''dmesg'', ''logs'', ''services'', ''containers'', ''memory'',
      ''processes'', ''stats'', ''disks'', ''mounts'', ''time'', ''members'', ''kubeconfig'',
      ''apply-config'', ''patch'', ''bootstrap'',
      ''reset'', ''upgrade'', ''upgrade-k8s'', ''reboot'', ''shutdown'', ''etcd'']"

definition WIPE_MODES :: "string list" where
  "WIPE_MODES = [''system-disk'', ''user-disks'', ''all'']"

definition DEFAULT_WIPE_MODE :: string where "DEFAULT_WIPE_MODE = ''system-disk''"

definition SYSTEM_LABELS :: "string list" where
  "SYSTEM_LABELS = [''EPHEMERAL'', ''STATE'']"

definition HEALTH_GATED_VERBS :: "string list" where
  "HEALTH_GATED_VERBS = [''upgrade'', ''upgrade-k8s'']"

definition validate_system_labels :: "string \<Rightarrow> argv_error + string" where
  "validate_system_labels s =
     (let tokens = map (\<lambda>tok. map upper_char (py_strip tok)) (py_split CHR '','' s)
      in if [] \<in> set tokens \<or> list_ex (\<lambda>tok. tok \<notin> set SYSTEM_LABELS) tokens then Inl (Bad_labels s)
         else Inr (py_join '','' tokens))"

text \<open>\<open>None\<close>: the coercion raises.\<close>

definition as_health_flag :: "pyval option \<Rightarrow> bool option" where
  "as_health_flag v =
     (case v of None \<Rightarrow> Some False | Some PNone \<Rightarrow> Some False | Some (PBool b) \<Rightarrow> Some b | Some _ \<Rightarrow> None)"

definition node_options :: "host_info \<Rightarrow> string list" where
  "node_options host =
     (if hi_nodes host \<noteq> [] then [''--nodes'', py_join '','' (hi_nodes host)] else []) @
     (if hi_endpoints host \<noteq> [] then [''--endpoints'', py_join '','' (hi_endpoints host)] else [])"

definition param :: "params \<Rightarrow> string \<Rightarrow> pyval" where
  "param ps k = (case map_of ps k of None \<Rightarrow> PNone | Some v \<Rightarrow> v)"

definition reset_options :: "params \<Rightarrow> argv_error + string list" where
  "reset_options ps =
     (if py_truthy (param ps ''system_labels'') then
        (if py_truthy (param ps ''wipe_mode'') then Inl Ambiguous_reset
         else case param ps ''system_labels'' of
           PStr s \<Rightarrow>
             (case validate_system_labels s of
                Inl e \<Rightarrow> Inl e
              | Inr labels \<Rightarrow> Inr [''--system-labels-to-wipe'', labels])
         | _ \<Rightarrow> Inl Labels_not_string)
      else
        (let wipe_mode = (if py_truthy (param ps ''wipe_mode'') then param ps ''wipe_mode'' else PStr DEFAULT_WIPE_MODE)
         in case wipe_mode of
              PStr m \<Rightarrow> if m \<in> set WIPE_MODES then Inr [''--wipe-mode'', m] else Inl Bad_wipe_mode
            | _ \<Rightarrow> Inl Bad_wipe_mode))"

definition talosctl_argv :: "host_info \<Rightarrow> string \<Rightarrow> params \<Rightarrow> bool \<Rightarrow> argv_error + string list" where
  "talosctl_argv host action ps dry_run =
     (case py_words action of
        [] \<Rightarrow> Inl No_verb
      | verb # tokens \<Rightarrow>
          if verb \<notin> set TALOSCTL_VERBS then Inl (Verb_not_allowed verb)
          else case find (\<lambda>token. startswith token ''-'') tokens of
            Some token \<Rightarrow> Inl (Option_in_action token)
          | None \<Rightarrow>
              (case find (\<lambda>v. \<not> validate_node v) (hi_nodes host @ hi_endpoints host) of
                 Some v \<Rightarrow> Inl (Bad_node v)
               | None \<Rightarrow>
                   (let argv = [''talosctl''] @ node_options host @ verb # tokens
                    in if verb = ''reset'' then map_sum id (\<lambda>options. argv @ options) (reset_options ps)
                       else Inr argv)))"

text \<open>The health probe: the command line it runs, and whether the run was found to succeed. A node
  that does not validate makes the test raise.\<close>

definition health_argv :: "host_info \<Rightarrow> bool \<Rightarrow> string list" where
  "health_argv host client_side_only =
     [''talosctl''] @ node_options host @ [''health''] @ (if client_side_only then [''--server=false''] else [])"

definition health_ok :: "(string list \<Rightarrow> bool) \<Rightarrow> host_info \<Rightarrow> bool \<Rightarrow> bool option" where
  "health_ok healthy host client_side_only =
     (if list_all validate_node (hi_nodes host @ hi_endpoints host)
      then Some (healthy (health_argv host client_side_only)) else None)"

definition talosctl_extra ::
  "(string list \<Rightarrow> bool) \<Rightarrow> host_info \<Rightarrow> string \<Rightarrow> params \<Rightarrow> bool \<Rightarrow> exec_request predicate list" where
  "talosctl_extra healthy host action ps dry_run =
     (let verb = (case py_words action of [] \<Rightarrow> [] | v # _ \<Rightarrow> v)
      in if dry_run \<or> verb \<notin> set HEALTH_GATED_VERBS then []
         else [\<lparr>p_name = ''talos_health'',
                p_test = (\<lambda>_. Option.bind (as_health_flag (map_of ps ''health_client_side_only'')) (health_ok healthy host)),
                p_severity = HARD,
                p_message = ''talosctl health pre-flight failed for '' @ hi_name host @ ''; refusing '' @ verb @ '' (BL-023)''\<rparr>])"

definition talosctl_retarget :: "host_info \<Rightarrow> exec_request \<Rightarrow> exec_request" where
  "talosctl_retarget host req =
     (if hi_nodes host \<noteq> [] then req\<lparr>er_target := Some (py_join '','' (hi_nodes host))\<rparr> else req)"

definition TalosctlAdapter :: "(string list \<Rightarrow> bool) \<Rightarrow> adapter" where
  "TalosctlAdapter healthy =
     \<lparr>ad_name = ''talosctl'', ad_supported = [TALOS], ad_base_tier = T2, ad_native_dry_run = False,
      ad_build_argv = talosctl_argv, ad_extra = talosctl_extra healthy, ad_retarget = talosctl_retarget\<rparr>"

subsection \<open>Every adapter is gated\<close>

interpretation ssh: gated_adapter SSHAdapter
  by unfold_locales (simp_all add: SSHAdapter_def no_override_def)

interpretation ansible: gated_adapter "AnsibleAdapter fs playbook_root" for fs playbook_root
  by unfold_locales (simp_all add: AnsibleAdapter_def no_override_def)

interpretation opentofu: gated_adapter "OpenTofuAdapter fs tofu_root" for fs tofu_root
  by unfold_locales (simp_all add: OpenTofuAdapter_def no_override_def)

interpretation runbook: gated_adapter "RunbookAdapter fs runbook_root" for fs runbook_root
  by unfold_locales (simp_all add: RunbookAdapter_def no_override_def)

interpretation talosctl: gated_adapter "TalosctlAdapter healthy" for healthy
  by unfold_locales (simp_all add: TalosctlAdapter_def talosctl_retarget_def)

text \<open>The table of tools/actuate.py, with the roots of the configuration.\<close>

definition ADAPTERS ::
  "file_system \<Rightarrow> (string list \<Rightarrow> bool) \<Rightarrow> string option \<Rightarrow> string option \<Rightarrow> string option \<Rightarrow> (string \<times> adapter) list" where
  "ADAPTERS fs healthy playbook_root tofu_root runbook_root =
     [(''ssh'', SSHAdapter), (''ansible'', AnsibleAdapter fs playbook_root), (''opentofu'', OpenTofuAdapter fs tofu_root),
      (''talosctl'', TalosctlAdapter healthy), (''runbook'', RunbookAdapter fs runbook_root)]"

lemma adapter_cases:
  assumes "map_of (ADAPTERS fs healthy pr tr rr) name = Some A"
  obtains "name = ''ssh''" "A = SSHAdapter" | "name = ''ansible''" "A = AnsibleAdapter fs pr"
    | "name = ''opentofu''" "A = OpenTofuAdapter fs tr" | "name = ''talosctl''" "A = TalosctlAdapter healthy"
    | "name = ''runbook''" "A = RunbookAdapter fs rr"
  using assms by (auto simp: ADAPTERS_def split: if_splits)

lemma adapter_approval:
  assumes "map_of (ADAPTERS fs healthy pr tr rr) name = Some A"
    and "actuate H env sys1 A host action ps False approval ctx \<noteq> actuate H env sys2 A host action ps False approval ctx"
  shows "\<exists>req t. build_request A host action ps False approval = Inr req \<and> T2 \<le> t \<and> approved_for H env req t (cx_approvals ctx)"
  using assms(1)
proof (cases rule: adapter_cases)
  case 1 then show ?thesis using assms(2) ssh.real_run_needs_approval by blast
next
  case 2 then show ?thesis using assms(2) ansible.real_run_needs_approval by blast
next
  case 3 then show ?thesis using assms(2) opentofu.real_run_needs_approval by blast
next
  case 4 then show ?thesis using assms(2) talosctl.real_run_needs_approval by blast
next
  case 5 then show ?thesis using assms(2) runbook.real_run_needs_approval by blast
qed

lemma adapter_talos:
  assumes "map_of (ADAPTERS fs healthy pr tr rr) name = Some A" and "supports A host"
  shows "hi_host_type host = TALOS \<longleftrightarrow> name = ''talosctl''"
  using assms(1)
  by (cases rule: adapter_cases)
    (use assms(2) in \<open>auto simp: supports_def SSHAdapter_def AnsibleAdapter_def OpenTofuAdapter_def RunbookAdapter_def TalosctlAdapter_def\<close>)

lemma upgrade_needs_health:
  assumes "\<forall>p \<in> set (talosctl_extra healthy host action ps False). \<not> blocks p req"
    and "py_words action = verb # tokens" and "verb \<in> set HEALTH_GATED_VERBS"
  shows "\<exists>client_side_only. healthy (health_argv host client_side_only)"
  using assms by (auto simp: talosctl_extra_def blocks_def health_ok_def Let_def bind_eq_None_conv
      split: if_splits option.splits)

text \<open>C2: A wrapped tool runs only on the kind of host it is for, and only behind every gate. If what
  the tools of the system do makes any difference to an actuation through one of the five adapters,
  then the adapter supports the type of the host (a Talos host is reached through talosctl alone, and
  talosctl reaches nothing else), the kill switch is not engaged, a real run carries an approval that
  is pending for exactly this request at T2 or above, and a real Talos upgrade has passed the health
  probe.\<close>

theorem actuation_is_gated:
  assumes "map_of (ADAPTERS fs healthy pr tr rr) name = Some A"
    and "actuate H env sys1 A host action ps dry_run approval ctx \<noteq> actuate H env sys2 A host action ps dry_run approval ctx"
  shows "hi_host_type host \<in> set (ad_supported A) \<and> (hi_host_type host = TALOS \<longleftrightarrow> name = ''talosctl'') \<and>
    \<not> is_tripped (re_readable env) (cx_kill_switch ctx) \<and>
    (\<not> dry_run \<longrightarrow> (\<exists>req t. build_request A host action ps False approval = Inr req \<and> T2 \<le> t \<and>
       approved_for H env req t (cx_approvals ctx))) \<and>
    (\<forall>verb tokens. \<not> dry_run \<and> name = ''talosctl'' \<and> py_words action = verb # tokens \<and> verb \<in> set HEALTH_GATED_VERBS \<longrightarrow>
       (\<exists>client_side_only. healthy (health_argv host client_side_only)))"
proof (intro conjI impI allI)
  note g = actuation_gates [OF assms(2)]
  show "hi_host_type host \<in> set (ad_supported A)" using g(1) by (simp add: supports_def)
  show "hi_host_type host = TALOS \<longleftrightarrow> name = ''talosctl''" by (rule adapter_talos [OF assms(1) g(1)])
  show "\<not> is_tripped (re_readable env) (cx_kill_switch ctx)" by (rule g(2))
  show "\<exists>req t. build_request A host action ps False approval = Inr req \<and> T2 \<le> t \<and> approved_for H env req t (cx_approvals ctx)"
    if "\<not> dry_run" using adapter_approval [OF assms(1)] assms(2) that by simp
  fix verb tokens
  assume v: "\<not> dry_run \<and> name = ''talosctl'' \<and> py_words action = verb # tokens \<and> verb \<in> set HEALTH_GATED_VERBS"
  with assms(1) have A: "A = TalosctlAdapter healthy" by (simp add: ADAPTERS_def)
  from g(3) obtain req where "\<forall>p \<in> set (ad_extra A host action ps dry_run). \<not> blocks p req" by blast
  with v A show "\<exists>client_side_only. healthy (health_argv host client_side_only)"
    using upgrade_needs_health [of healthy host action ps req verb tokens] by (simp add: TalosctlAdapter_def)
qed

subsection \<open>The command line of talosctl\<close>

lemma reset_options_explicit:
  assumes "reset_options ps = Inr options"
  shows "(\<exists>m. options = [''--wipe-mode'', m] \<and> m \<in> set WIPE_MODES \<and>
      (m \<noteq> DEFAULT_WIPE_MODE \<longrightarrow> map_of ps ''wipe_mode'' = Some (PStr m))) \<or>
    (\<exists>ls. options = [''--system-labels-to-wipe'', py_join '','' ls] \<and> ls \<noteq> [] \<and> set ls \<subseteq> set SYSTEM_LABELS)"
proof (cases "py_truthy (param ps ''system_labels'')")
  case True
  with assms obtain l where l: "validate_system_labels l = Inr (options ! 1)" "options = [''--system-labels-to-wipe'', options ! 1]"
    by (auto simp: reset_options_def split: if_splits pyval.splits sum.splits)
  let ?ls = "map (\<lambda>tok. map upper_char (py_strip tok)) (py_split CHR '','' l)"
  have "py_split c s \<noteq> []" for c s by (induction s) (auto split: list.splits)
  with l(1) have "options ! 1 = py_join '','' ?ls \<and> ?ls \<noteq> [] \<and> set ?ls \<subseteq> set SYSTEM_LABELS"
    by (auto simp: validate_system_labels_def Let_def list_ex_iff split: if_splits)
  with l(2) show ?thesis by metis
next
  case False
  with assms show ?thesis
    by (auto simp: reset_options_def Let_def param_def split: if_splits pyval.splits option.splits)
qed


subsection \<open>Concrete actuations\<close>

lemma execute_world: "cx_world (snd (execute_step H env req ex d g c)) = cx_world (snd (ex c))"
proof -
  obtain res c1 where e: "ex c = (res, c1)" by (cases "ex c")
  obtain b where b: "spend_wall env c1 = Inr (c1\<lparr>cx_budget := b\<rparr>)" using spend_wall_Inr by blast
  have f: "cx_world (snd (finish H env req d out err c2)) = cx_world c2" for out err c2
    by (simp add: finish_def audit_def Let_def split: prod.splits sum.splits)
  show ?thesis
    by (auto simp: execute_step_def e b mint_step_def surface_approval_def f Let_def split: sum.splits option.splits if_splits)
qed

definition demo_fs :: file_system where
  "demo_fs = \<lparr>fs_resolve = (\<lambda>p. p), fs_is_file = (\<lambda>_. True), fs_is_dir = (\<lambda>_. True)\<rparr>"

definition demo_system :: "nat \<Rightarrow> nat system" where
  "demo_system n =
     \<lparr>sy_environ = [], sy_which = (\<lambda>_. True), sy_run = (\<lambda>_ _ _. (Exited 0 [] [], n)), sy_kill = (\<lambda>w. w), sy_signal = (\<lambda>_. None)\<rparr>"

definition demo_host :: host_info where
  "demo_host = \<lparr>hi_name = ''h'', hi_host_type = UBUNTU, hi_ssh_alias = None, hi_endpoints = [], hi_nodes = []\<rparr>"

definition demo_act_context :: "nat exec_context" where
  "demo_act_context =
     \<lparr>cx_mode = OPEN, cx_audit = new_logger 0 GENESIS True False [] [] [],
      cx_kill_switch = \<lparr>ks_sentinel = False, ks_tripped = False, ks_file = False\<rparr>,
      cx_approvals = demo_pending, cx_contract = empty_contract, cx_max_output_bytes = 100, cx_budget = None,
      cx_taint = \<lparr>untrusted_ingested = False\<rparr>, cx_console = [], cx_consent_ceiling = None, cx_world = 0\<rparr>"

lemma demo_plan_allowed: "d_allowed (check OPEN ''opentofu'' (Some ''tofu plan'') T2)"
proof -
  have "deny_match ''opentofu tofu plan'' = None" by code_simp
  then have "\<not> on_deny_list ''opentofu'' (Some ''tofu plan'')"
    by (simp add: on_deny_list_def probe_def)
  from check_not_denied [OF this, of OPEN T2] show ?thesis by simp
qed

lemma demo_supports: "supports (OpenTofuAdapter demo_fs None) demo_host"
  by (simp add: supports_def OpenTofuAdapter_def demo_host_def)

lemma demo_argv:
  "adapter_argv (OpenTofuAdapter demo_fs None) demo_host ''w'' [] True = Inr [''tofu'', ''plan'']"
  "ad_build_argv (OpenTofuAdapter demo_fs None) demo_host ''w'' [] False = Inr [''tofu'', ''apply'', ''-auto-approve'']"
  by (simp_all add: adapter_argv_def demo_supports) (simp_all add: OpenTofuAdapter_def tofu_argv_def tofu_prefix_def)

lemma demo_request_built:
  "\<exists>req. build_request (OpenTofuAdapter demo_fs None) demo_host ''w'' [] True None = Inr req \<and>
     er_tool req = ''opentofu'' \<and> er_command req = Some ''tofu plan'' \<and> er_base_tier req = T2 \<and> er_dry_run req \<and>
     er_args req \<noteq> None \<and> er_untrusted req = False"
  by (simp add: build_request_def demo_argv demo_supports) (simp add: OpenTofuAdapter_def no_override_def)

text \<open>A planned change under a contract whose predicates hold reaches the system.\<close>

lemma demo_actuation_world:
  assumes "\<And>p req. p \<in> set (preconditions c) \<union> set (invariants c) \<Longrightarrow> p_test p req = Some True"
  shows "cx_world (snd (actuate H demo_run_env (demo_system n) (OpenTofuAdapter demo_fs None) demo_host ''w'' [] True None
    (demo_act_context\<lparr>cx_contract := c\<rparr>))) = n"
proof -
  let ?A = "OpenTofuAdapter demo_fs None"
  let ?c = "merged_contract ?A demo_host ''w'' [] True c"
  let ?ctx = "demo_act_context\<lparr>cx_contract := ?c\<rparr>"
  obtain req where r: "build_request ?A demo_host ''w'' [] True None = Inr req" and
    rf: "er_tool req = ''opentofu''" "er_command req = Some ''tofu plan''" "er_base_tier req = T2" "er_dry_run req"
      "er_args req \<noteq> None" "er_untrusted req = False"
    using demo_request_built by blast
  have "ad_extra ?A demo_host ''w'' [] True = []" by (simp add: OpenTofuAdapter_def no_extra_def)
  then have "\<not> blocks p req" if "p \<in> set (preconditions ?c) \<union> set (invariants ?c)" for p
    using that assms [of p req] by (auto simp: merged_preconditions blocks_def host_pred_def demo_supports)
  then have "contract_gate req ?ctx = Pass ?ctx"
    using check_pre_hard_iff [of ?c req] by (simp add: contract_gate_def Let_def)
  then have g: "gates H demo_run_env req d ?ctx = Pass ?ctx" for d
    using rf(4) by (simp add: gates_def approval_gate_def budget_gate_def demo_act_context_def)
  have t: "arm_taint req ?ctx = ?ctx" by (simp add: arm_taint_def rf)
  have k: "\<not> is_tripped (re_readable demo_run_env) (cx_kill_switch ?ctx)" "exceeds_consent ?ctx d = None"
    "cx_mode ?ctx = OPEN" for d
    by (simp_all add: demo_act_context_def is_tripped_def exceeds_consent_def)
  have "\<exists>d g. admit H demo_run_env req ?ctx = Admitted d g ?ctx"
    unfolding admit_def Let_def t rf(1-3) g using k demo_plan_allowed rf(5) by simp
  then obtain d g where a: "admit H demo_run_env req ?ctx = Admitted d g ?ctx" by blast
  have nd: "ad_native_dry_run ?A" by (simp add: OpenTofuAdapter_def)
  have "cx_world (snd (run H demo_run_env req (run_subprocess (demo_system n) [''tofu'', ''plan''] False) ?ctx)) = n"
    by (simp add: run_admit a execute_world run_subprocess_def demo_system_def)
  then show ?thesis by (auto simp: actuate_def demo_argv r nd Let_def split: prod.split)
qed

lemma demo_actuation_matters:
  "actuate H demo_run_env (demo_system 1) (OpenTofuAdapter demo_fs None) demo_host ''w'' [] True None demo_act_context \<noteq>
   actuate H demo_run_env (demo_system 2) (OpenTofuAdapter demo_fs None) demo_host ''w'' [] True None demo_act_context"
proof -
  have c: "demo_act_context = demo_act_context\<lparr>cx_contract := empty_contract\<rparr>" by (simp add: demo_act_context_def)
  have "cx_world (snd (actuate H demo_run_env (demo_system n) (OpenTofuAdapter demo_fs None) demo_host ''w'' [] True None
      demo_act_context)) = n" for n
    by (subst c) (rule demo_actuation_world, simp add: empty_contract_def)
  from this [of 1] this [of 2] show ?thesis by fastforce
qed

theorem actuation_is_gated_witness:
  "map_of (ADAPTERS demo_fs (\<lambda>_. True) None None None) ''opentofu'' = Some (OpenTofuAdapter demo_fs None) \<and>
   hi_host_type demo_host \<in> set (ad_supported (OpenTofuAdapter demo_fs None)) \<and> hi_host_type demo_host \<noteq> TALOS"
proof -
  have m: "map_of (ADAPTERS demo_fs (\<lambda>_. True) None None None) ''opentofu'' = Some (OpenTofuAdapter demo_fs None)"
    by (simp add: ADAPTERS_def)
  show ?thesis using m actuation_is_gated [OF m demo_actuation_matters] by auto
qed


end
