(* ===== verification/Drift.thy ===== *)
theory Drift
  imports StoreSpec Runner "HOL-Library.Product_Lexorder"
begin

section \<open>Drift (drift/engine.py, findings.py, converge.py, sources.py)\<close>

text \<open>
  The diff of observed against desired facts, its findings as facts, the sources of desired state
  and the convergence plan, which is an execution request and nothing else. The regular
  expressions of the Ansible parser are written out as the scans they are.
\<close>

subsection \<open>Findings\<close>

datatype drift_kind = MISSING | UNEXPECTED | CHANGED

fun kind_value :: "drift_kind \<Rightarrow> string" where
  "kind_value MISSING = ''missing''"
| "kind_value UNEXPECTED = ''unexpected''"
| "kind_value CHANGED = ''changed''"

datatype drift_severity = INFO | WARNING | CRITICAL

fun severity_value :: "drift_severity \<Rightarrow> string" where
  "severity_value INFO = ''info''"
| "severity_value WARNING = ''warning''"
| "severity_value CRITICAL = ''critical''"

type_synonym py_dict_value = "(string \<times> pyval) list"

record drift_finding =
  df_subject :: string
  df_predicate :: string
  df_kind :: drift_kind
  df_severity :: drift_severity
  df_observed :: "py_dict_value option"
  df_desired :: "py_dict_value option"

definition opt_dict :: "py_dict_value option \<Rightarrow> pyval" where
  "opt_dict d = (case d of None \<Rightarrow> PNone | Some kvs \<Rightarrow> PDict kvs)"

definition new_fact :: "string \<Rightarrow> string \<Rightarrow> string \<Rightarrow> py_dict_value \<Rightarrow> string \<Rightarrow> string \<Rightarrow> string option \<Rightarrow> fact" where
  "new_fact subject predicate fact_type val t_valid actor reason =
     \<lparr>f_subject = subject, f_predicate = predicate, f_fact_type = fact_type, f_value = val, f_t_valid = t_valid,
      f_actor = actor, f_reason = reason, f_t_invalid = None, f_t_recorded = None, f_t_superseded = None,
      f_fact_id = None\<rparr>"

definition to_fact :: "string \<Rightarrow> string \<Rightarrow> drift_finding \<Rightarrow> fact" where
  "to_fact now actor f =
     new_fact (df_subject f) (''drift:'' @ df_predicate f) DRIFT
       [(''kind'', PStr (kind_value (df_kind f))), (''severity'', PStr (severity_value (df_severity f))),
        (''observed'', opt_dict (df_observed f)), (''desired'', opt_dict (df_desired f))] now actor None"

subsection \<open>The diff\<close>

definition SECURITY_PREDICATES :: "string list" where
  "SECURITY_PREDICATES = [''file_integrity'', ''listening_ports'', ''ssh_config'', ''users'']"

definition default_severity :: "string \<Rightarrow> drift_kind \<Rightarrow> drift_severity" where
  "default_severity predicate kind =
     (if predicate \<in> set SECURITY_PREDICATES then CRITICAL
      else if kind = UNEXPECTED then INFO
      else WARNING)"

text \<open>A dict comprehension: a later fact of the same key replaces the value, not the place.\<close>

definition fact_index :: "fact list \<Rightarrow> ((string \<times> string) \<times> fact) list" where
  "fact_index facts = fold (\<lambda>f d. AList.update (f_subject f, f_predicate f) f d) facts []"

definition diff_desired ::
  "(string \<Rightarrow> drift_kind \<Rightarrow> drift_severity) \<Rightarrow> ((string \<times> string) \<times> fact) list \<Rightarrow> (string \<times> string) \<times> fact \<Rightarrow> drift_finding list" where
  "diff_desired severity_for obs kw =
     (case kw of ((subject, predicate), want) \<Rightarrow>
        case map_of obs (subject, predicate) of
          None \<Rightarrow> [\<lparr>df_subject = subject, df_predicate = predicate, df_kind = MISSING,
                    df_severity = severity_for predicate MISSING, df_observed = None, df_desired = Some (f_value want)\<rparr>]
        | Some have_fact \<Rightarrow>
            if \<not> py_eq (PDict (f_value have_fact)) (PDict (f_value want))
            then [\<lparr>df_subject = subject, df_predicate = predicate, df_kind = CHANGED,
                   df_severity = severity_for predicate CHANGED, df_observed = Some (f_value have_fact),
                   df_desired = Some (f_value want)\<rparr>]
            else [])"

definition diff_unexpected ::
  "(string \<Rightarrow> drift_kind \<Rightarrow> drift_severity) \<Rightarrow> ((string \<times> string) \<times> fact) list \<Rightarrow> (string \<times> string) \<times> fact \<Rightarrow> drift_finding list" where
  "diff_unexpected severity_for des kh =
     (case kh of ((subject, predicate), have_fact) \<Rightarrow>
        if map_of des (subject, predicate) = None
        then [\<lparr>df_subject = subject, df_predicate = predicate, df_kind = UNEXPECTED,
               df_severity = severity_for predicate UNEXPECTED, df_observed = Some (f_value have_fact), df_desired = None\<rparr>]
        else [])"

definition finding_order :: "drift_finding \<Rightarrow> string \<times> string \<times> string" where
  "finding_order f = (df_subject f, df_predicate f, kind_value (df_kind f))"

definition diff ::
  "(string \<Rightarrow> drift_kind \<Rightarrow> drift_severity) \<Rightarrow> bool \<Rightarrow> fact list \<Rightarrow> fact list \<Rightarrow> drift_finding list" where
  "diff severity_for flag_unexpected observed desired =
     (let obs = fact_index observed; des = fact_index desired;
          findings = concat (map (diff_desired severity_for obs) des) @
            (if flag_unexpected then concat (map (diff_unexpected severity_for des) obs) else [])
      in sort_key finding_order findings)"

subsection \<open>Convergence\<close>

record convergence_plan =
  pl_finding :: drift_finding
  pl_target :: string
  pl_command :: string
  pl_rationale :: string

definition propose :: "drift_finding \<Rightarrow> string \<Rightarrow> string \<Rightarrow> string \<Rightarrow> convergence_plan" where
  "propose finding target command rationale =
     \<lparr>pl_finding = finding, pl_target = target, pl_command = command, pl_rationale = rationale\<rparr>"

definition to_execution_request :: "bool \<Rightarrow> approval option \<Rightarrow> convergence_plan \<Rightarrow> exec_request" where
  "to_execution_request dry_run approval plan =
     \<lparr>er_tool = ''converge'', er_command = Some (pl_command plan),
      er_args = Some [(''subject'', PStr (df_subject (pl_finding plan))), (''predicate'', PStr (df_predicate (pl_finding plan))),
                      (''kind'', PStr (kind_value (df_kind (pl_finding plan)))), (''rationale'', PStr (pl_rationale plan))],
      er_target = Some (pl_target plan), er_base_tier = T2, er_dry_run = dry_run, er_approval = approval,
      er_untrusted = False, er_action_key = None\<rparr>"

subsection \<open>Sources\<close>

definition known_good_from_store :: "string option \<Rightarrow> sqlite_store \<Rightarrow> store_exc + fact list" where
  "known_good_from_store subject st = list_active subject (Some KNOWN_GOOD) st"

definition as_obj :: "pyval option \<Rightarrow> py_dict_value option" where
  "as_obj v = (case v of Some (PDict d) \<Rightarrow> Some d | _ \<Rightarrow> None)"

definition tofu_finding :: "py_dict_value \<Rightarrow> drift_finding" where
  "tofu_finding entry =
     (let address = (case map_of entry ''address'' of None \<Rightarrow> ''unknown'' | Some v \<Rightarrow> py_str v);
          change = (case as_obj (map_of entry ''change'') of None \<Rightarrow> [] | Some d \<Rightarrow> d)
      in \<lparr>df_subject = ''tofu:'' @ address, df_predicate = ''resource'', df_kind = CHANGED, df_severity = WARNING,
          df_observed = as_obj (map_of change ''before''), df_desired = as_obj (map_of change ''after'')\<rparr>)"

text \<open>Only a decode error is caught; a text outside the model's characters is not given a value.\<close>

definition parse_tofu_plan :: "string \<Rightarrow> json_error + drift_finding list" where
  "parse_tofu_plan plan_json =
     (case loads plan_json of
        Inl e \<Rightarrow> if e = JSONDecodeError then Inr [] else Inl e
      | Inr data \<Rightarrow>
          Inr (case data of
                 PDict d \<Rightarrow>
                   concat (map (\<lambda>entry. case entry of PDict e \<Rightarrow> [tofu_finding e] | _ \<Rightarrow> [])
                     (case map_of d ''resource_drift'' of Some (PList entries) \<Rightarrow> entries | _ \<Rightarrow> []))
               | _ \<Rightarrow> []))"

text \<open>\<^verbatim>\<open>^TASK \[(?P<task>.+?)\]\<close>: at least one character, then up to the next bracket.\<close>

definition match_task :: "string \<Rightarrow> string option" where
  "match_task line =
     (if startswith line ''TASK ['' then
        (case drop 6 line of
           [] \<Rightarrow> None
         | c # cs \<Rightarrow> if CHR '']'' \<in> set cs then Some (c # takeWhile (\<lambda>x. x \<noteq> CHR '']'') cs) else None)
      else None)"

text \<open>A prefix, then \<^verbatim>\<open>\[(?P<host>[^\]]+)\]\<close>: the host and what follows the bracket.\<close>

definition match_host :: "string \<Rightarrow> string \<Rightarrow> (string \<times> string) option" where
  "match_host start line =
     (if startswith line (start @ ''['') then
        (let body = drop (length start + 1) line;
             host = takeWhile (\<lambda>x. x \<noteq> CHR '']'') body
         in if host = [] \<or> CHR '']'' \<notin> set body then None
            else Some (host, drop (length host + 1) body))
      else None)"

definition match_changed :: "string \<Rightarrow> string option" where
  "match_changed line = map_option fst (match_host ''changed: '' line)"

text \<open>\<^verbatim>\<open>^fatal: \[...\][^:]*: (?P<why>UNREACHABLE|FAILED)\<close>.\<close>

definition match_fatal :: "string \<Rightarrow> (string \<times> string) option" where
  "match_fatal line =
     (case match_host ''fatal: '' line of
        None \<Rightarrow> None
      | Some (host, suffix) \<Rightarrow>
          (let tail = dropWhile (\<lambda>x. x \<noteq> CHR '':'') suffix
           in if startswith tail '': UNREACHABLE'' then Some (host, ''UNREACHABLE'')
              else if startswith tail '': FAILED'' then Some (host, ''FAILED'')
              else None))"

definition match_failed :: "string \<Rightarrow> string option" where
  "match_failed line = map_option fst (match_host ''failed: '' line)"

definition ansible_finding :: "string \<Rightarrow> string \<Rightarrow> drift_severity \<Rightarrow> py_dict_value \<Rightarrow> drift_finding" where
  "ansible_finding host task sev observed =
     \<lparr>df_subject = ''host:'' @ host, df_predicate = task, df_kind = CHANGED, df_severity = sev,
      df_observed = Some observed, df_desired = Some [(''task'', PStr task), (''compliant'', PBool True)]\<rparr>"

fun ansible_lines :: "string \<Rightarrow> string list \<Rightarrow> drift_finding list" where
  "ansible_lines current_task [] = []"
| "ansible_lines current_task (raw_line # lines) =
     (let line = py_strip raw_line in
      case match_task line of
        Some task \<Rightarrow> ansible_lines task lines
      | None \<Rightarrow>
          (case match_changed line of
             Some host \<Rightarrow> ansible_finding host current_task WARNING [(''would_change'', PBool True)] # ansible_lines current_task lines
           | None \<Rightarrow>
               (case match_fatal line of
                  Some (host, why) \<Rightarrow>
                    ansible_finding host current_task CRITICAL
                      [(''failed'', PBool (why = ''FAILED'')), (''unreachable'', PBool (why = ''UNREACHABLE''))] #
                    ansible_lines current_task lines
                | None \<Rightarrow>
                    (case match_failed line of
                       Some host \<Rightarrow> ansible_finding host current_task CRITICAL [(''failed'', PBool True)] # ansible_lines current_task lines
                     | None \<Rightarrow> ansible_lines current_task lines))))"

definition parse_ansible_check :: "string \<Rightarrow> drift_finding list" where
  "parse_ansible_check output = ansible_lines ''unknown'' (splitlines output)"

subsection \<open>What the diff finds\<close>

text \<open>The specification: the last fact of a key in a list, and the finding two such facts call for.\<close>

fun latest :: "fact list \<Rightarrow> string \<times> string \<Rightarrow> fact option" where
  "latest [] k = None"
| "latest (f # fs) k =
     (case latest fs k of
        Some g \<Rightarrow> Some g
      | None \<Rightarrow> if (f_subject f, f_predicate f) = k then Some f else None)"

definition expected_finding ::
  "(string \<Rightarrow> drift_kind \<Rightarrow> drift_severity) \<Rightarrow> bool \<Rightarrow> string \<times> string \<Rightarrow> fact option \<Rightarrow> fact option \<Rightarrow> drift_finding option" where
  "expected_finding severity_for flag_unexpected k obs des =
     (let finding = (\<lambda>kind. \<lparr>df_subject = fst k, df_predicate = snd k, df_kind = kind, df_severity = severity_for (snd k) kind,
                             df_observed = map_option f_value obs, df_desired = map_option f_value des\<rparr>)
      in case des of
           None \<Rightarrow> if obs \<noteq> None \<and> flag_unexpected then Some (finding UNEXPECTED) else None
         | Some want \<Rightarrow>
             (case obs of
                None \<Rightarrow> Some (finding MISSING)
              | Some have_fact \<Rightarrow>
                  if py_eq (PDict (f_value have_fact)) (PDict (f_value want)) then None else Some (finding CHANGED)))"

definition finding_key :: "drift_finding \<Rightarrow> string \<times> string" where
  "finding_key f = (df_subject f, df_predicate f)"

lemma fold_index_map_of:
  "map_of (fold (\<lambda>f d. AList.update (f_subject f, f_predicate f) f d) fs d0) k =
   (case latest fs k of None \<Rightarrow> map_of d0 k | Some f \<Rightarrow> Some f)"
  by (induction fs arbitrary: d0) (auto simp: update_conv split: option.splits)

lemma fact_index_map_of [simp]: "map_of (fact_index fs) k = latest fs k"
  by (simp add: fact_index_def fold_index_map_of split: option.splits)

lemma fact_index_distinct [simp]: "distinct (map fst (fact_index fs))"
proof -
  have "distinct (map fst d0) \<Longrightarrow> distinct (map fst (fold (\<lambda>f d. AList.update (f_subject f, f_predicate f) f d) fs d0))"
    for d0 :: "((string \<times> string) \<times> fact) list"
    by (induction fs arbitrary: d0) (auto intro: distinct_update)
  then show ?thesis by (simp add: fact_index_def)
qed

lemma fact_index_entry: "(k, f) \<in> set (fact_index fs) \<longleftrightarrow> latest fs k = Some f"
  using map_of_eq_Some_iff [OF fact_index_distinct, of fs k f] by simp

lemma latest_None: "latest fs k = None \<longleftrightarrow> (\<forall>f. f \<in> set fs \<longrightarrow> (f_subject f, f_predicate f) \<noteq> k)"
  by (induction fs) (auto split: option.splits)

lemma diff_desired_eq:
  "diff_desired sev (fact_index observed) (k, want) =
   (case expected_finding sev flag k (latest observed k) (Some want) of None \<Rightarrow> [] | Some f \<Rightarrow> [f])"
  by (cases k) (simp add: diff_desired_def expected_finding_def Let_def split: option.splits)

lemma diff_unexpected_eq:
  "latest observed k = Some have_fact \<Longrightarrow>
   diff_unexpected sev (fact_index desired) (k, have_fact) =
   (if latest desired k = None
    then (case expected_finding sev True k (latest observed k) None of None \<Rightarrow> [] | Some f \<Rightarrow> [f]) else [])"
  by (cases k) (simp add: diff_unexpected_def expected_finding_def Let_def split: option.splits)

lemma mem_singleton_option: "x \<in> set (case y of None \<Rightarrow> [] | Some z \<Rightarrow> [z]) \<longleftrightarrow> y = Some x"
  by (auto split: option.split)

lemma expected_finding_key: "expected_finding sev flag k obs des = Some f \<Longrightarrow> finding_key f = k"
  by (auto simp: expected_finding_def finding_key_def Let_def split: option.splits if_splits)

lemma mem_diff_desired:
  "f \<in> set (concat (map (diff_desired sev (fact_index observed)) (fact_index desired))) \<longleftrightarrow>
   (\<exists>k want. latest desired k = Some want \<and> expected_finding sev flag k (latest observed k) (Some want) = Some f)"
proof -
  have "f \<in> set (diff_desired sev (fact_index observed) (k, want)) \<longleftrightarrow>
      expected_finding sev flag k (latest observed k) (Some want) = Some f" for k want
    by (simp only: diff_desired_eq [where flag = flag] mem_singleton_option)
  then show ?thesis by (fastforce simp: fact_index_entry)
qed

lemma mem_diff_unexpected:
  "f \<in> set (concat (map (diff_unexpected sev (fact_index desired)) (fact_index observed))) \<longleftrightarrow>
   (\<exists>k. latest desired k = None \<and> expected_finding sev True k (latest observed k) None = Some f)"
  (is "?lhs \<longleftrightarrow> ?rhs")
proof -
  have u: "latest observed k = Some h \<Longrightarrow> f \<in> set (diff_unexpected sev (fact_index desired) (k, h)) \<longleftrightarrow>
      latest desired k = None \<and> expected_finding sev True k (latest observed k) None = Some f" for k h
    by (simp only: diff_unexpected_eq mem_singleton_option split: if_split) simp
  have n: "expected_finding sev True k None None = None" for k
    by (simp add: expected_finding_def Let_def)
  have "?lhs \<longleftrightarrow> (\<exists>k h. latest observed k = Some h \<and> f \<in> set (diff_unexpected sev (fact_index desired) (k, h)))"
    by (simp add: Bex_def split_paired_Ex fact_index_entry)
  also have "\<dots> \<longleftrightarrow> (\<exists>k h. latest observed k = Some h \<and> latest desired k = None \<and>
      expected_finding sev True k (latest observed k) None = Some f)"
    using u by blast
  also have "\<dots> \<longleftrightarrow> ?rhs"
    using n by (metis not_Some_eq option.distinct(1))
  finally show ?thesis .
qed

lemma expected_unflagged: "expected_finding sev False k obs None = None"
  by (simp add: expected_finding_def Let_def)

lemma mem_diff:
  "f \<in> set (diff sev flag observed desired) \<longleftrightarrow>
   expected_finding sev flag (finding_key f) (latest observed (finding_key f)) (latest desired (finding_key f)) = Some f"
  (is "_ \<longleftrightarrow> ?spec (finding_key f)")
proof -
  let ?want = "\<exists>k w. latest desired k = Some w \<and> expected_finding sev flag k (latest observed k) (Some w) = Some f"
  let ?extra = "\<exists>k. latest desired k = None \<and> expected_finding sev True k (latest observed k) None = Some f"
  have "f \<in> set (diff sev flag observed desired) \<longleftrightarrow> ?want \<or> flag \<and> ?extra"
    unfolding diff_def Let_def set_sort set_append Un_iff mem_diff_desired [where flag = flag]
    by (simp add: mem_diff_unexpected del: set_concat)
  also have "\<dots> \<longleftrightarrow> (\<exists>k. ?spec k)"
    using expected_unflagged [of sev] by (cases flag) (metis not_Some_eq option.distinct(1))+
  finally have "f \<in> set (diff sev flag observed desired) \<longleftrightarrow> (\<exists>k. ?spec k)" .
  then show ?thesis using expected_finding_key by metis
qed

lemma disjoint_parts: "A \<subseteq> B \<Longrightarrow> C \<inter> B = {} \<Longrightarrow> A \<inter> C = {}"
  by auto

lemma concat_keys_distinct:
  assumes "distinct (map fst xs)"
    and "\<And>x f. x \<in> set xs \<Longrightarrow> f \<in> set (g x) \<Longrightarrow> finding_key f = fst x"
    and "\<And>x. x \<in> set xs \<Longrightarrow> length (g x) \<le> 1"
  shows "distinct (map finding_key (concat (map g xs))) \<and> finding_key ` set (concat (map g xs)) \<subseteq> fst ` set xs"
  using assms
proof (induction xs)
  case (Cons x xs)
  have IH: "distinct (map finding_key (concat (map g xs))) \<and> finding_key ` set (concat (map g xs)) \<subseteq> fst ` set xs"
    by (rule Cons.IH) (use Cons.prems in \<open>simp_all del: One_nat_def\<close>)
  have "length (g x) \<le> 1" using Cons.prems(3) by simp
  then have "distinct (map finding_key (g x))" by (cases "g x") auto
  moreover have gk: "finding_key ` set (g x) \<subseteq> {fst x}" using Cons.prems(2) [of x] by auto
  moreover have "finding_key ` set (g x) \<inter> fst ` set xs = {}"
    using gk Cons.prems(1) by (intro disjoint_parts [OF gk]) simp
  with conjunct2 [OF IH] have "finding_key ` set (concat (map g xs)) \<inter> finding_key ` set (g x) = {}"
    by (rule disjoint_parts)
  ultimately have "distinct (map finding_key (concat (map g (x # xs))))"
    using IH by (simp only: list.map concat.simps map_append distinct_append set_map Int_commute)
  moreover have "finding_key ` set (concat (map g (x # xs))) \<subseteq> fst ` set (x # xs)"
    unfolding list.map concat.simps set_append image_Un list.set image_insert
    by (rule Un_least [OF subset_trans [OF gk] subset_trans [OF conjunct2 [OF IH]]]) auto
  ultimately show ?case by blast
qed simp

lemma diff_keys_distinct: "distinct (map finding_key (diff sev flag observed desired))"
proof -
  let ?d = "concat (map (diff_desired sev (fact_index observed)) (fact_index desired))"
  let ?u = "concat (map (diff_unexpected sev (fact_index desired)) (fact_index observed))"
  have d: "distinct (map finding_key ?d) \<and> finding_key ` set ?d \<subseteq> fst ` set (fact_index desired)"
    by (rule concat_keys_distinct)
      (auto simp: diff_desired_def finding_key_def split: option.splits if_splits prod.splits)
  have u: "distinct (map finding_key ?u) \<and> finding_key ` set ?u \<subseteq> fst ` set (fact_index observed)"
    by (rule concat_keys_distinct)
      (auto simp: diff_unexpected_def finding_key_def split: if_splits prod.splits)
  have "finding_key f \<notin> fst ` set (fact_index desired)" if "f \<in> set ?u" for f
  proof -
    from that obtain k where "latest desired k = None" "expected_finding sev True k (latest observed k) None = Some f"
      unfolding mem_diff_unexpected by blast
    then have "map_of (fact_index desired) (finding_key f) = None" using expected_finding_key by auto
    then show ?thesis unfolding map_of_eq_None_iff .
  qed
  then have "finding_key ` set ?u \<inter> fst ` set (fact_index desired) = {}"
    unfolding disjoint_iff image_iff by (metis image_eqI)
  with conjunct2 [OF d] have "finding_key ` set ?d \<inter> finding_key ` set ?u = {}" by (rule disjoint_parts)
  then have "distinct (map finding_key (?d @ (if flag then ?u else [])))"
    using d u by (cases flag) (simp_all only: map_append distinct_append set_map if_True if_False append_Nil2)
  then show ?thesis
    unfolding diff_def Let_def distinct_map by (simp only: distinct_sort set_sort)
qed

lemma diff_sorted: "sorted (map finding_order (diff sev flag observed desired))"
  by (simp add: diff_def Let_def)

lemma sorted_keys_unique:
  fixes g :: "'b \<Rightarrow> 'c :: linorder"
  assumes "set xs = set ys" and "distinct (map h xs)" and "distinct (map h ys)"
    and "sorted (map g xs)" and "sorted (map g ys)" and "\<And>x y. g x = g y \<Longrightarrow> h x = h y"
  shows "xs = ys"
proof -
  have inj: "inj_on g (set xs \<union> set ys)"
  proof (rule inj_onI)
    fix x y
    assume "x \<in> set xs \<union> set ys" "y \<in> set xs \<union> set ys" and g: "g x = g y"
    then have "x \<in> set xs" "y \<in> set xs" using assms(1) by simp_all
    with assms(2) assms(6) [OF g] show "x = y" unfolding distinct_map by (blast dest: inj_onD)
  qed
  have "distinct (map g xs)" "distinct (map g ys)"
    using assms(1-3) inj by (simp_all add: distinct_map)
  then have "map g xs = map g ys"
    using assms(1,4,5) by (intro sorted_distinct_set_unique) simp_all
  then show ?thesis using inj by (rule map_inj_on)
qed

text \<open>The diff depends on nothing but the last values of the keys.\<close>

lemma diff_cong:
  assumes "\<And>k. map_option f_value (latest d1 k) = map_option f_value (latest d2 k)"
  shows "diff sev flag observed d1 = diff sev flag observed d2"
proof (rule sorted_keys_unique [where h = finding_key and g = finding_order])
  have "expected_finding sev flag k obs (latest d1 k) = expected_finding sev flag k obs (latest d2 k)" for k obs
    using assms [of k]
    by (cases "latest d1 k"; cases "latest d2 k") (simp_all add: expected_finding_def Let_def cong: option.case_cong)
  then show "set (diff sev flag observed d1) = set (diff sev flag observed d2)"
    by (intro set_eqI) (simp add: mem_diff)
qed (simp_all add: diff_keys_distinct diff_sorted finding_order_def finding_key_def)

text \<open>C18: The diff is exact. For any severity function, with or without unexpected findings, the diff
  of a list of observed facts against a list of desired ones is sorted by subject, predicate and
  kind, has at most one finding for a subject and predicate, and contains a finding exactly when the
  last observed and the last desired fact of that key call for it: missing when only the desired one
  exists, changed when their values are not equal, unexpected (if asked for) when only the observed
  one exists, and none otherwise.\<close>

theorem diff_exact:
  "sorted (map finding_order (diff sev flag observed desired)) \<and>
   distinct (map finding_key (diff sev flag observed desired)) \<and>
   (\<forall>f. f \<in> set (diff sev flag observed desired) \<longleftrightarrow>
      expected_finding sev flag (finding_key f) (latest observed (finding_key f)) (latest desired (finding_key f)) = Some f)"
  by (intro conjI allI) (rule diff_sorted diff_keys_distinct mem_diff)+

subsection \<open>Drift never fixes itself\<close>

lemma to_execution_request_fields [simp]:
  "er_tool (to_execution_request dry_run a plan) = ''converge''"
  "er_base_tier (to_execution_request dry_run a plan) = T2"
  "er_dry_run (to_execution_request dry_run a plan) = dry_run"
  "er_approval (to_execution_request dry_run a plan) = a"
  "er_target (to_execution_request dry_run a plan) = Some (pl_target plan)"
  by (simp_all add: to_execution_request_def)

text \<open>A finding never fixes itself. Whatever the finding and the proposed command are, a real run
  of the plan without an approval has a result and leaves a state that do not depend on what the
  command does: it is never executed. With an approval it can only be one that is pending for
  exactly this action, at this target and at a tier of T2 or above.\<close>

theorem convergence_is_human_gated:
  "run H env (to_execution_request False None (propose finding target command rationale)) ex1 ctx =
   run H env (to_execution_request False None (propose finding target command rationale)) ex2 ctx \<and>
   (run H env (to_execution_request False (Some a) (propose finding target command rationale)) ex1 ctx =
    run H env (to_execution_request False (Some a) (propose finding target command rationale)) ex2 ctx \<or>
    (\<exists>p tier. map_of (pending (cx_approvals ctx)) (ap_token a) = Some p \<and> T2 \<le> tier \<and>
       bound_to p (ap_action_id a) (Some target) tier PATTERNS_VERSION (re_now env) \<and>
       action_id H (to_execution_request False (Some a) (propose finding target command rationale)) = Some (ap_action_id a)))"
proof -
  let ?req = "\<lambda>a. to_execution_request False a (propose finding target command rationale)"
  let ?tier = "\<lambda>a. classify (er_tool (?req a)) (er_command (?req a)) (er_base_tier (?req a))"
  have t: "T2 \<le> ?tier a" for a
    using classify_ge_base [of T2] by simp
  have "\<exists>b p. a = Some b \<and> map_of (pending (cx_approvals ctx)) (ap_token b) = Some p \<and>
      bound_to p (ap_action_id b) (Some target) (?tier a) PATTERNS_VERSION (re_now env) \<and>
      action_id H (?req a) = Some (ap_action_id b)"
    if "run H env (?req a) ex1 ctx \<noteq> run H env (?req a) ex2 ctx" for a
    using execution_gates(6) [OF that] t [of a] by (auto simp: propose_def)
  from this [of None] this [of "Some a"] t [of "Some a"] show ?thesis
    by (metis option.distinct(1) option.inject)
qed

end
