(* ===== verification/Cis.thy ===== *)
theory Cis
  imports Drift "HOL-Library.Multiset"
begin

section \<open>The CIS baseline (drift/cis.py)\<close>

text \<open>
  The controls of the CIS Kubernetes Benchmark as desired values, their materialisation as
  known-good facts, the normal form of a setting, and the diff of observed settings against the
  baseline. The clock is an argument: the instant of the fact written at each position.
\<close>

subsection \<open>Settings\<close>

definition CIS_BENCHMARK_DEFAULT :: string where
  "CIS_BENCHMARK_DEFAULT = ''talos''"

datatype scope = Node | Controlplane | Cluster

definition normalize_items :: "pyval \<Rightarrow> string list" where
  "normalize_items raw =
     (case raw of
        PList xs \<Rightarrow> map py_str xs
      | _ \<Rightarrow> (let t = py_str raw in if CHR '','' \<in> set t then py_split CHR '','' t else [t]))"

definition normalize_token :: "string \<Rightarrow> string" where
  "normalize_token item =
     (let token = py_strip item
      in if py_lower token \<in> {''true'', ''false''} then py_lower token else token)"

definition normalize_value :: "pyval \<Rightarrow> string" where
  "normalize_value raw =
     (case raw of
        PBool b \<Rightarrow> if b then ''true'' else ''false''
      | _ \<Rightarrow>
          (let tokens = map normalize_token (normalize_items raw)
           in if length tokens = 1 then hd tokens else py_join '','' (sort tokens)))"

subsection \<open>Controls\<close>

record cis_control =
  cc_control_id :: string
  cc_scope :: scope
  cc_desired :: pyval
  cc_title :: string
  cc_level :: int
  cc_scored :: bool
  cc_cis_ref :: string
  cc_rationale :: string
  cc_remediation :: string
  cc_benchmark :: string

definition mk_control ::
  "string \<Rightarrow> scope \<Rightarrow> pyval \<Rightarrow> string \<Rightarrow> int \<Rightarrow> bool \<Rightarrow> string \<Rightarrow> string \<Rightarrow> string \<Rightarrow> cis_control" where
  "mk_control control_id sc desired title level scored cis_ref rationale remediation =
     \<lparr>cc_control_id = control_id, cc_scope = sc, cc_desired = desired, cc_title = title, cc_level = level,
      cc_scored = scored, cc_cis_ref = cis_ref, cc_rationale = rationale, cc_remediation = remediation,
      cc_benchmark = CIS_BENCHMARK_DEFAULT\<rparr>"

definition control_key :: "cis_control \<Rightarrow> string" where
  "control_key c = cc_benchmark c @ '':'' @ cc_control_id c"

definition control_predicate :: "cis_control \<Rightarrow> string" where
  "control_predicate c = ''cis:'' @ cc_benchmark c @ '':'' @ cc_control_id c"

definition desired_value :: "cis_control \<Rightarrow> py_dict_value" where
  "desired_value c = [(''value'', PStr (normalize_value (cc_desired c)))]"

definition reason_options :: dump_options where
  "reason_options = \<lparr>ensure_ascii = False, item_sep = '', '', key_sep = '': '', default_str = (\<lambda>_. None)\<rparr>"

definition reason_json :: "cis_control \<Rightarrow> string option" where
  "reason_json c =
     dumps reason_options
       (PDict [(''id'', PStr (cc_control_id c)), (''benchmark'', PStr (cc_benchmark c)), (''title'', PStr (cc_title c)),
               (''level'', PInt (cc_level c)), (''scored'', PBool (cc_scored c)), (''cis_ref'', PStr (cc_cis_ref c)),
               (''rationale'', PStr (cc_rationale c)), (''remediation'', PStr (cc_remediation c))])"

definition to_known_good :: "string \<Rightarrow> string \<Rightarrow> string \<Rightarrow> cis_control \<Rightarrow> fact" where
  "to_known_good now subject actor c =
     new_fact subject (control_predicate c) KNOWN_GOOD (desired_value c) now actor (reason_json c)"

subsection \<open>The baseline\<close>

definition KUBELET_CONTROLS :: "cis_control list" where
  "KUBELET_CONTROLS =
     [mk_control ''kubelet-anonymous-auth'' Node (PBool False) ''Kubelet anonymous auth disabled'' 1 True
        ''k8s 4.2.1''
        ''Anonymous requests to the kubelet must be rejected.''
        ''Set the kubelet --anonymous-auth flag (or KubeletConfiguration) to false.'',
      mk_control ''kubelet-authorization-mode'' Node (PStr ''Webhook'') ''Kubelet authorization mode is not AlwaysAllow'' 1 True
        ''k8s 4.2.2''
        ''The kubelet must authorize requests via Webhook, not AlwaysAllow.''
        ''Set the kubelet --authorization-mode to Webhook.'',
      mk_control ''kubelet-read-only-port'' Node (PInt 0) ''Kubelet read-only port disabled'' 1 True
        ''k8s 4.2.4''
        ''The unauthenticated read-only port exposes node and pod data; disable it.''
        ''Set the kubelet --read-only-port to 0.'',
      mk_control ''kubelet-protect-kernel-defaults'' Node (PBool True) ''Kubelet protect-kernel-defaults enabled'' 1 True
        ''k8s 4.2.6''
        ''The kubelet must not override safe kernel defaults.''
        ''Set the kubelet --protect-kernel-defaults to true.'',
      mk_control ''kubelet-make-iptables-util-chains'' Node (PBool True) ''Kubelet manages iptables util chains'' 1 True
        ''k8s 4.2.7''
        ''The kubelet must maintain the iptables utility chains it relies on.''
        ''Set the kubelet --make-iptables-util-chains to true.'',
      mk_control ''kubelet-rotate-certificates'' Node (PBool True) ''Kubelet client certificate rotation enabled'' 1 True
        ''k8s 4.2.11''
        ''Kubelet client certificates must rotate so a leaked cert expires.''
        ''Set the kubelet --rotate-certificates to true.'',
      mk_control ''kubelet-rotate-server-certificates'' Node (PBool True) ''Kubelet server certificate rotation enabled'' 1 True
        ''k8s 4.2.12''
        ''Kubelet serving certificates must rotate via the CSR API.''
        ''Enable RotateKubeletServerCertificate on the kubelet.'',
      mk_control ''kubelet-event-qps'' Node (PInt 0) ''Kubelet event QPS cap'' 2 False
        ''k8s 4.2.9''
        ''An operational rate-limit knob for kubelet event creation, not a security control.''
        ''Set the kubelet --event-qps to the value appropriate for the fleet's load.'']"

definition APISERVER_CONTROLS :: "cis_control list" where
  "APISERVER_CONTROLS =
     [mk_control ''apiserver-anonymous-auth'' Controlplane (PBool False) ''API server anonymous auth disabled'' 1 True
        ''k8s 1.2.1''
        ''Anonymous requests to the API server must be rejected.''
        ''Set kube-apiserver --anonymous-auth to false.'',
      mk_control ''apiserver-profiling'' Controlplane (PBool False) ''API server profiling disabled'' 1 True
        ''k8s 1.2.21''
        ''The profiling endpoint exposes detailed system information; disable it.''
        ''Set kube-apiserver --profiling to false.'',
      mk_control ''apiserver-authorization-mode'' Controlplane (PList [PStr ''Node'', PStr ''RBAC'']) ''API server authorization mode is Node,RBAC'' 1 True
        ''k8s 1.2.7''
        ''Authorization must use Node and RBAC, never AlwaysAllow.''
        ''Set kube-apiserver --authorization-mode to Node,RBAC.'',
      mk_control ''apiserver-service-account-lookup'' Controlplane (PBool True) ''API server validates service account tokens against etcd'' 1 True
        ''k8s 1.2.13''
        ''A deleted service account's token must stop working immediately.''
        ''Set kube-apiserver --service-account-lookup to true.'']"

definition CONTROLLER_MANAGER_CONTROLS :: "cis_control list" where
  "CONTROLLER_MANAGER_CONTROLS =
     [mk_control ''controller-manager-profiling'' Controlplane (PBool False) ''Controller-manager profiling disabled'' 1 True
        ''k8s 1.3.2''
        ''The profiling endpoint exposes detailed system information; disable it.''
        ''Set kube-controller-manager --profiling to false.'',
      mk_control ''controller-manager-use-service-account-credentials'' Controlplane (PBool True) ''Controller-manager uses individual service account credentials'' 1 True
        ''k8s 1.3.3''
        ''Each controller must run with its own least-privilege credential.''
        ''Set kube-controller-manager --use-service-account-credentials to true.'',
      mk_control ''controller-manager-bind-address'' Controlplane (PStr ''127.0.0.1'') ''Controller-manager bound to loopback'' 1 True
        ''k8s 1.3.7''
        ''The controller-manager must not expose its port beyond the node.''
        ''Set kube-controller-manager --bind-address to 127.0.0.1.'']"

definition SCHEDULER_CONTROLS :: "cis_control list" where
  "SCHEDULER_CONTROLS =
     [mk_control ''scheduler-profiling'' Controlplane (PBool False) ''Scheduler profiling disabled'' 1 True
        ''k8s 1.4.1''
        ''The profiling endpoint exposes detailed system information; disable it.''
        ''Set kube-scheduler --profiling to false.'',
      mk_control ''scheduler-bind-address'' Controlplane (PStr ''127.0.0.1'') ''Scheduler bound to loopback'' 1 True
        ''k8s 1.4.2''
        ''The scheduler must not expose its port beyond the node.''
        ''Set kube-scheduler --bind-address to 127.0.0.1.'']"

definition CLUSTER_CONTROLS :: "cis_control list" where
  "CLUSTER_CONTROLS =
     [mk_control ''cluster-default-pod-security'' Cluster (PStr ''restricted'') ''Cluster default Pod Security Standard is restricted'' 1 False
        ''k8s 5.2.1''
        ''Namespaces without an explicit policy must default to the restricted PSS.''
        ''Configure the PodSecurity admission default to enforce the restricted standard.'']"

definition TALOS_SATISFIED :: "(string \<times> string) list" where
  "TALOS_SATISFIED =
     [(''talos:node-no-ssh'',
       ''Talos exposes no shell or SSH; node-level interactive access does not exist (host_type=talos, SEC-5), so the host-access hardening controls cannot drift.''),
      (''talos:kubelet-config-file-perms'',
       ''The kubelet config is delivered by immutable Talos machine config, not a writable on-disk file a node could re-permission (CIS 4.1 file-perm controls).''),
      (''talos:apiserver-manifest-file-perms'',
       ''Control-plane static-pod manifests and their ownership/permissions are managed by Talos as immutable machine config (CIS 1.1 manifest-file controls).''),
      (''talos:etcd-data-dir-perms'',
       ''The etcd data directory ownership and permissions are managed by Talos and not mutable from a node (CIS 1.1.11/1.1.12).'')]"

definition CIS_SUPPRESSED :: "(string \<times> string) list" where
  "CIS_SUPPRESSED =
     [(''talos:kubelet-event-qps'',
       ''Event QPS is an operational throughput knob (CIS Level 2, not scored), tuned per fleet load rather than enforced as a security control (operator-reviewable).'')]"

definition CIS_BASELINE :: "cis_control list" where
  "CIS_BASELINE =
     KUBELET_CONTROLS @ APISERVER_CONTROLS @ CONTROLLER_MANAGER_CONTROLS @ SCHEDULER_CONTROLS @ CLUSTER_CONTROLS"

definition EXCLUDED :: "string list" where
  "EXCLUDED = map fst TALOS_SATISFIED @ map fst CIS_SUPPRESSED"

definition active_controls :: "cis_control list" where
  "active_controls = filter (\<lambda>c. control_key c \<notin> set EXCLUDED) CIS_BASELINE"

definition active_control_keys :: "string list" where
  "active_control_keys = map control_key active_controls"

definition cis_severity :: "string \<Rightarrow> drift_kind \<Rightarrow> drift_severity" where
  "cis_severity predicate kind =
     (if startswith predicate ''cis:'' then CRITICAL else default_severity predicate kind)"

definition subjects_for :: "scope \<Rightarrow> string list \<Rightarrow> string list \<Rightarrow> string list \<Rightarrow> string list" where
  "subjects_for sc nodes control_plane_nodes clusters =
     (case sc of
        Node \<Rightarrow> map (\<lambda>n. ''host:'' @ n) nodes
      | Controlplane \<Rightarrow> map (\<lambda>n. ''host:'' @ n) control_plane_nodes
      | Cluster \<Rightarrow> map (\<lambda>c. ''cluster:'' @ c) clusters)"

definition baseline_pairs :: "string list \<Rightarrow> string list \<Rightarrow> string list \<Rightarrow> (cis_control \<times> string) list" where
  "baseline_pairs nodes control_plane_nodes clusters =
     concat (map (\<lambda>c. map (\<lambda>s. (c, s)) (subjects_for (cc_scope c) nodes control_plane_nodes clusters)) active_controls)"

definition cis_baseline_facts ::
  "(nat \<Rightarrow> string) \<Rightarrow> string \<Rightarrow> string list \<Rightarrow> string list \<Rightarrow> string list \<Rightarrow> fact list" where
  "cis_baseline_facts clock actor nodes control_plane_nodes clusters =
     map (\<lambda>(i, c, s). to_known_good (clock i) s actor c)
       (List.enumerate 0 (baseline_pairs nodes control_plane_nodes clusters))"

definition cis_drift ::
  "(nat \<Rightarrow> string) \<Rightarrow> fact list \<Rightarrow> string list \<Rightarrow> string list \<Rightarrow> string list \<Rightarrow> drift_finding list" where
  "cis_drift clock observed nodes control_plane_nodes clusters =
     diff cis_severity False observed
       (cis_baseline_facts clock ''cis-baseline'' nodes control_plane_nodes clusters)"

text \<open>The loop over \<^verbatim>\<open>store.put_fact\<close>: an exception leaves the facts before it written. Each write
  draws the time and the identifier of its position.\<close>

fun put_all :: "(nat \<Rightarrow> string) \<Rightarrow> (nat \<Rightarrow> string) \<Rightarrow> nat \<Rightarrow> fact list \<Rightarrow> sqlite_store \<Rightarrow> (store_exc + unit) \<times> sqlite_store" where
  "put_all clock ids n [] st = (Inr (), st)"
| "put_all clock ids n (f # fs) st =
     (case put_fact (clock n) (ids n) f st of
        (Inl x, st') \<Rightarrow> (Inl x, st')
      | (Inr _, st') \<Rightarrow> put_all clock ids (Suc n) fs st')"

definition seed_cis_baseline ::
  "(nat \<Rightarrow> string) \<Rightarrow> (nat \<Rightarrow> string) \<Rightarrow> string \<Rightarrow> string list \<Rightarrow> string list \<Rightarrow> string list \<Rightarrow>
   sqlite_store \<Rightarrow> (store_exc + nat) \<times> sqlite_store" where
  "seed_cis_baseline clock ids actor nodes control_plane_nodes clusters st =
     (let facts = cis_baseline_facts clock actor nodes control_plane_nodes clusters
      in case put_all (\<lambda>n. clock (length facts + n)) ids 0 facts st of
           (Inl x, st') \<Rightarrow> (Inl x, st')
         | (Inr _, st') \<Rightarrow> (Inr (length facts), st'))"

subsection \<open>The normal form\<close>

lemma normalize_list: "normalize_value (PList vs) =
  (let tokens = map (normalize_token \<circ> py_str) vs in if length tokens = 1 then hd tokens else py_join '','' (sort tokens))"
  by (simp add: normalize_value_def normalize_items_def Let_def)

lemma comma_in_join: "\<forall>x \<in> set xs. sep \<notin> set x \<Longrightarrow> sep \<in> set (py_join [sep] xs) \<longleftrightarrow> 2 \<le> length xs"
  by (induction "[sep]" xs rule: py_join.induct) auto

lemma normalize_str:
  "normalize_value (PStr s) =
   (let tokens = map normalize_token (if CHR '','' \<in> set s then py_split CHR '','' s else [s])
    in if length tokens = 1 then hd tokens else py_join '','' (sort tokens))"
  by (simp add: normalize_value_def normalize_items_def py_str_def Let_def)

lemma normalize_join:
  assumes "\<forall>x \<in> set xs. CHR '','' \<notin> set x" and "xs \<noteq> []"
  shows "normalize_value (PStr (py_join '','' xs)) = normalize_value (PList (map PStr xs))"
proof -
  have "(if CHR '','' \<in> set (py_join '','' xs) then py_split CHR '','' (py_join '','' xs) else [py_join '','' xs]) = xs"
  proof (cases "2 \<le> length xs")
    case True
    then show ?thesis using comma_in_join [OF assms(1)] py_split_join [OF assms] by simp
  next
    case False
    then obtain x where "xs = [x]" using assms(2) by (cases xs; cases "tl xs") auto
    then show ?thesis using assms(1) by simp
  qed
  then show ?thesis
    by (simp add: normalize_str normalize_list o_def py_str_def)
qed

lemma normalize_mset:
  assumes "mset vs = mset ws"
  shows "normalize_value (PList vs) = normalize_value (PList ws)"
proof -
  let ?t = "normalize_token \<circ> py_str"
  have "mset (map ?t vs) = mset (map ?t ws)" using assms by simp
  then have s: "sort (map ?t vs) = sort (map ?t ws)"
    by (metis mset_sort properties_for_sort sorted_sort)
  have l: "length vs = length ws" using assms by (rule mset_eq_length)
  show ?thesis
  proof (cases "length vs = 1")
    case True
    with l obtain v w where "vs = [v]" "ws = [w]" by (metis One_nat_def length_0_conv length_Suc_conv)
    with assms show ?thesis by simp
  next
    case False
    with s l show ?thesis by (simp add: normalize_list Let_def)
  qed
qed

text \<open>Stripping and lowering leave a token that neither changes again.\<close>

lemma normalize_token_idem: "normalize_token (normalize_token x) = normalize_token x"
proof (cases "py_lower (py_strip x) \<in> {''true'', ''false''}")
  case True
  then have "normalize_token x \<in> {''true'', ''false''}" by (simp add: normalize_token_def Let_def)
  then show ?thesis
    by (auto simp: normalize_token_def Let_def py_strip_def py_lstrip_def py_rstrip_def is_space_def char_between_def
        ord_def py_lower_def lower_char_def is_upper_letter_def)
next
  case False
  then show ?thesis by (simp add: normalize_token_def Let_def)
qed

lemma token_chars: "set (normalize_token x) \<subseteq> set x \<union> set ''truefalse''"
proof (cases "py_lower (py_strip x) \<in> {''true'', ''false''}")
  case True
  then have "normalize_token x \<in> {''true'', ''false''}" by (simp add: normalize_token_def Let_def)
  then show ?thesis by auto
next
  case False
  have "set (py_strip x) \<subseteq> set x"
    unfolding py_strip_def py_rstrip_def py_lstrip_def by (auto dest!: set_dropWhileD)
  with False show ?thesis by (auto simp: normalize_token_def Let_def)
qed

text \<open>The normal form of a list of settings does not depend on their order, is the one of the same
  list written as a comma-separated string, and is its own normal form.\<close>

lemma sort_map_idem: "\<forall>x \<in> set xs. f x = x \<Longrightarrow> map f (sort xs) = sort xs"
  by (rule map_idI) simp

lemma normalize_value_canonical:
  assumes "mset xs = mset ys" and "\<forall>x \<in> set xs. CHR '','' \<notin> set x" and "xs \<noteq> []"
  shows "normalize_value (PList (map PStr xs)) = normalize_value (PList (map PStr ys))"
    and "normalize_value (PStr (py_join '','' xs)) = normalize_value (PList (map PStr ys))"
    and "normalize_value (PStr (normalize_value (PList (map PStr xs)))) = normalize_value (PList (map PStr xs))"
proof -
  show m: "normalize_value (PList (map PStr xs)) = normalize_value (PList (map PStr ys))"
    by (rule normalize_mset) (simp add: assms(1))
  with normalize_join [OF assms(2,3)]
  show "normalize_value (PStr (py_join '','' xs)) = normalize_value (PList (map PStr ys))" by simp
  let ?ts = "sort (map normalize_token xs)"
  have n: "normalize_value (PList (map PStr zs)) = py_join '','' (sort (map normalize_token zs))" for zs
    by (cases zs; cases "tl zs") (simp_all add: normalize_list o_def py_str_def Let_def)
  have nc: "\<forall>t \<in> set ?ts. CHR '','' \<notin> set t"
    using assms(2) token_chars by fastforce
  have ne: "?ts \<noteq> []" using assms(3) by (metis list.map_disc_iff set_empty set_sort)
  have "sort (map normalize_token ?ts) = ?ts"
    using sort_map_idem [of "map normalize_token xs" normalize_token] by (simp add: normalize_token_idem sort_key_id_if_sorted)
  with normalize_join [OF nc ne] n
  show "normalize_value (PStr (normalize_value (PList (map PStr xs)))) = normalize_value (PList (map PStr xs))"
    by simp
qed

subsection \<open>The baseline as facts\<close>

lemma baseline_ids_distinct: "distinct (map cc_control_id CIS_BASELINE)"
  by (simp add: CIS_BASELINE_def KUBELET_CONTROLS_def APISERVER_CONTROLS_def CONTROLLER_MANAGER_CONTROLS_def
      SCHEDULER_CONTROLS_def CLUSTER_CONTROLS_def mk_control_def)

lemma baseline_benchmark: "c \<in> set CIS_BASELINE \<Longrightarrow> cc_benchmark c = CIS_BENCHMARK_DEFAULT"
  by (auto simp: CIS_BASELINE_def KUBELET_CONTROLS_def APISERVER_CONTROLS_def CONTROLLER_MANAGER_CONTROLS_def
      SCHEDULER_CONTROLS_def CLUSTER_CONTROLS_def mk_control_def)

lemma active_in_baseline: "c \<in> set active_controls \<Longrightarrow> c \<in> set CIS_BASELINE"
  by (simp add: active_controls_def)

lemma predicate_inj:
  assumes "c \<in> set active_controls" and "c' \<in> set active_controls" and "control_predicate c = control_predicate c'"
  shows "c = c'"
proof -
  note m = active_in_baseline [OF assms(1)] active_in_baseline [OF assms(2)]
  have "cc_control_id c = cc_control_id c'"
    using assms(3) m [THEN baseline_benchmark] by (simp add: control_predicate_def)
  with m baseline_ids_distinct show ?thesis unfolding distinct_map by (blast dest: inj_onD)
qed

lemma mem_baseline_pairs:
  "(c, s) \<in> set (baseline_pairs nodes cps clusters) \<longleftrightarrow>
   c \<in> set active_controls \<and> s \<in> set (subjects_for (cc_scope c) nodes cps clusters)"
  by (auto simp: baseline_pairs_def)

lemma mem_baseline_facts:
  "f \<in> set (cis_baseline_facts clock actor nodes cps clusters) \<Longrightarrow>
   \<exists>i c s. (c, s) \<in> set (baseline_pairs nodes cps clusters) \<and> f = to_known_good (clock i) s actor c"
  by (auto simp: cis_baseline_facts_def in_set_enumerate_eq) (metis nth_mem prod.collapse)

lemma baseline_facts_mem:
  "(c, s) \<in> set (baseline_pairs nodes cps clusters) \<Longrightarrow>
   \<exists>i. to_known_good (clock i) s actor c \<in> set (cis_baseline_facts clock actor nodes cps clusters)"
proof -
  let ?ps = "baseline_pairs nodes cps clusters"
  assume "(c, s) \<in> set ?ps"
  then obtain i where "i < length ?ps" "?ps ! i = (c, s)" by (auto simp: in_set_conv_nth)
  then have "(i, c, s) \<in> set (List.enumerate 0 ?ps)" by (simp add: in_set_enumerate_eq)
  then have "to_known_good (clock i) s actor c \<in> set (cis_baseline_facts clock actor nodes cps clusters)"
    unfolding cis_baseline_facts_def set_map by (rule rev_image_eqI) simp
  then show ?thesis ..
qed

lemma known_good_fields [simp]:
  "f_subject (to_known_good now s actor c) = s" "f_predicate (to_known_good now s actor c) = control_predicate c"
  "f_value (to_known_good now s actor c) = desired_value c" "f_fact_type (to_known_good now s actor c) = KNOWN_GOOD"
  "f_actor (to_known_good now s actor c) = actor" "f_t_invalid (to_known_good now s actor c) = None"
  by (simp_all add: to_known_good_def new_fact_def)

lemma latest_Some: "latest fs k = Some f \<Longrightarrow> f \<in> set fs \<and> (f_subject f, f_predicate f) = k"
  by (induction fs) (auto split: option.splits if_splits)

lemma latest_unique:
  assumes "g \<in> set fs" and "(f_subject g, f_predicate g) = k"
    and "\<And>f. f \<in> set fs \<Longrightarrow> (f_subject f, f_predicate f) = k \<Longrightarrow> h f = h g"
  shows "map_option h (latest fs k) = Some (h g)"
proof -
  obtain f where "latest fs k = Some f"
    using assms(1,2) latest_None [of fs k] by (cases "latest fs k") auto
  with latest_Some [OF this] assms(3) [of f] show ?thesis by simp
qed

lemma latest_baseline:
  "map_option f_value (latest (cis_baseline_facts clock actor nodes cps clusters) (s, p)) = Some v \<longleftrightarrow>
   (\<exists>c. (c, s) \<in> set (baseline_pairs nodes cps clusters) \<and> control_predicate c = p \<and> v = desired_value c)"
  (is "?lhs \<longleftrightarrow> ?rhs")
proof
  assume ?lhs
  then obtain f where "latest (cis_baseline_facts clock actor nodes cps clusters) (s, p) = Some f" "v = f_value f" by auto
  with latest_Some [OF this(1)] show ?rhs by (auto dest!: mem_baseline_facts)
next
  assume ?rhs
  then obtain c where c: "(c, s) \<in> set (baseline_pairs nodes cps clusters)" "control_predicate c = p" "v = desired_value c"
    by blast
  then obtain i where i: "to_known_good (clock i) s actor c \<in> set (cis_baseline_facts clock actor nodes cps clusters)"
    using baseline_facts_mem by blast
  have "f_value f = desired_value c"
    if "f \<in> set (cis_baseline_facts clock actor nodes cps clusters)" "(f_subject f, f_predicate f) = (s, p)" for f
    using that c by (auto dest!: mem_baseline_facts simp: mem_baseline_pairs dest: predicate_inj)
  with i c latest_unique [OF i, of "(s, p)" f_value] show ?lhs by simp
qed

subsection \<open>The diff against the baseline\<close>

text \<open>What one control calls for on one subject.\<close>

definition control_finding :: "fact list \<Rightarrow> cis_control \<Rightarrow> string \<Rightarrow> drift_finding option" where
  "control_finding observed c s =
     (let finding = (\<lambda>kind obs. \<lparr>df_subject = s, df_predicate = control_predicate c, df_kind = kind, df_severity = CRITICAL,
                                df_observed = obs, df_desired = Some (desired_value c)\<rparr>)
      in case latest observed (s, control_predicate c) of
           None \<Rightarrow> Some (finding MISSING None)
         | Some h \<Rightarrow> if py_eq (PDict (f_value h)) (PDict (desired_value c)) then None
                     else Some (finding CHANGED (Some (f_value h))))"

lemma cis_predicate_critical: "cis_severity (control_predicate c) kind = CRITICAL"
  by (simp add: cis_severity_def control_predicate_def startswith_def)

lemma expected_control:
  "f_value w = desired_value c \<Longrightarrow>
   expected_finding cis_severity False (s, control_predicate c) (latest observed (s, control_predicate c)) (Some w) =
   control_finding observed c s"
  by (auto simp: expected_finding_def control_finding_def cis_predicate_critical Let_def split: option.splits)

lemma mem_cis_drift:
  "f \<in> set (cis_drift clock observed nodes cps clusters) \<longleftrightarrow>
   (\<exists>c s. c \<in> set active_controls \<and> s \<in> set (subjects_for (cc_scope c) nodes cps clusters) \<and>
      control_finding observed c s = Some f)"
proof -
  let ?des = "cis_baseline_facts clock ''cis-baseline'' nodes cps clusters"
  have key: "control_finding observed c s = Some f \<Longrightarrow> finding_key f = (s, control_predicate c)" for c s
    by (auto simp: control_finding_def finding_key_def Let_def split: option.splits if_splits)
  have "f \<in> set (cis_drift clock observed nodes cps clusters) \<longleftrightarrow>
      (\<exists>w. latest ?des (finding_key f) = Some w \<and>
         expected_finding cis_severity False (finding_key f) (latest observed (finding_key f)) (Some w) = Some f)"
    unfolding cis_drift_def mem_diff
    by (cases "latest ?des (finding_key f)") (simp_all add: expected_unflagged)
  also have "\<dots> \<longleftrightarrow> (\<exists>c s. (c, s) \<in> set (baseline_pairs nodes cps clusters) \<and> control_finding observed c s = Some f)"
    (is "?l \<longleftrightarrow> ?r")
  proof
    assume ?l
    then obtain w s p where w: "latest ?des (s, p) = Some w" "finding_key f = (s, p)"
        "expected_finding cis_severity False (s, p) (latest observed (s, p)) (Some w) = Some f"
      by (cases "finding_key f") auto
    then obtain c where "(c, s) \<in> set (baseline_pairs nodes cps clusters)" "control_predicate c = p" "f_value w = desired_value c"
      using latest_baseline [of clock "''cis-baseline''" nodes cps clusters s p "f_value w"] by auto
    with w(3) expected_control show ?r by metis
  next
    assume ?r
    then obtain c s where c: "(c, s) \<in> set (baseline_pairs nodes cps clusters)" "control_finding observed c s = Some f" by blast
    then obtain w where "latest ?des (s, control_predicate c) = Some w" "f_value w = desired_value c"
      using latest_baseline [of clock "''cis-baseline''" nodes cps clusters s "control_predicate c" "desired_value c"]
      by (cases "latest ?des (s, control_predicate c)") auto
    with c key [OF c(2)] expected_control show ?l by metis
  qed
  finally show ?thesis by (simp add: mem_baseline_pairs conj_assoc)
qed

text \<open>C33: The CIS scan reports exactly the controls that do not hold. A finding is reported if and only
  if it is the one an active control (a baseline control that is neither waived nor guaranteed by the
  platform) calls for on one of the subjects of its scope: missing when nothing was observed, changed
  when the last observed value is not the desired one, always critical, with the desired value of the
  control; a control that holds gives none.\<close>

theorem cis_drift_exact:
  "f \<in> set (cis_drift clock observed nodes cps clusters) \<longleftrightarrow>
   (\<exists>c s. c \<in> set CIS_BASELINE \<and> control_key c \<notin> set EXCLUDED \<and>
      s \<in> set (subjects_for (cc_scope c) nodes cps clusters) \<and> control_finding observed c s = Some f)"
  by (simp add: mem_cis_drift active_controls_def conj_assoc)

subsection \<open>Seeding the store\<close>

lemma reason_json_defined: "reason_json c \<noteq> None"
  by (simp add: reason_json_def)

lemma desired_value_wf: "wf_val (PDict (desired_value c))" "dumps value_options (PDict (desired_value c)) \<noteq> None"
  "stored_value (desired_value c) = desired_value c"
  by (simp_all add: desired_value_def stored_value_def)

text \<open>Facts that the store accepts.\<close>

definition acceptable :: "fact \<Rightarrow> bool" where
  "acceptable f \<longleftrightarrow> f_actor f \<noteq> [] \<and> f_t_invalid f = None \<and> wf_val (PDict (f_value f)) \<and>
     dumps value_options (PDict (f_value f)) \<noteq> None"

lemma put_acceptable:
  assumes "store_inv st" and "acceptable f" and "i \<notin> set (map col_id (st_facts st))"
  shows "\<exists>st'. put_fact now i f st = (Inr (stored_fact now i f), st') \<and> store_inv st' \<and>
    active_view st' = (active_view st)(fact_key f := Some (stored_fact now i f)) \<and>
    set (map col_id (st_facts st')) = insert i (set (map col_id (st_facts st)))"
proof -
  note p = put_fact_spec [OF assms(1), of f now i]
  have "spec_put now i f (sqlite_abs st) = (Inr (Some (stored_fact now i f)), spec_record now i f (sqlite_abs st))"
    using assms by (auto simp: spec_put.simps acceptable_def sqlite_abs_def)
  with p assms(2) have r: "store_inv (snd (put_fact now i f st))"
      "sqlite_abs (snd (put_fact now i f st)) = spec_record now i f (sqlite_abs st)"
      "map_sum id Some (fst (put_fact now i f st)) = Inr (Some (stored_fact now i f))"
    by (simp_all add: acceptable_def)
  then have "fst (put_fact now i f st) = Inr (stored_fact now i f)"
    by (cases "fst (put_fact now i f st)") auto
  with r assms(2) show ?thesis
    by (intro exI [of _ "snd (put_fact now i f st)"]) (auto simp: sqlite_abs_def spec_record_def acceptable_def prod_eq_iff)
qed

lemma put_all_view:
  assumes "store_inv st" and "\<forall>f \<in> set fs. acceptable f" and "inj ids"
    and "\<forall>m \<ge> n. ids m \<notin> set (map col_id (st_facts st))"
  shows "\<exists>st'. put_all clock ids n fs st = (Inr (), st') \<and> store_inv st' \<and>
    (\<forall>k. if k \<in> fact_key ` set fs
         then \<exists>f now i. f \<in> set fs \<and> fact_key f = k \<and> active_view st' k = Some (stored_fact now i f)
         else active_view st' k = active_view st k)"
  using assms
proof (induction fs arbitrary: n st)
  case (Cons f fs)
  obtain st1 where st1: "put_fact (clock n) (ids n) f st = (Inr (stored_fact (clock n) (ids n) f), st1)" "store_inv st1"
      "active_view st1 = (active_view st)(fact_key f := Some (stored_fact (clock n) (ids n) f))"
      "set (map col_id (st_facts st1)) = insert (ids n) (set (map col_id (st_facts st)))"
    using put_acceptable [OF Cons.prems(1), of f "ids n" "clock n"] Cons.prems(2,4) by auto
  have "\<forall>m \<ge> Suc n. ids m \<notin> set (map col_id (st_facts st1))"
    unfolding st1(4) using Cons.prems(3,4) by (auto dest: injD)
  from Cons.IH [OF st1(2) _ Cons.prems(3) this] Cons.prems(2)
  obtain st' where st': "put_all clock ids (Suc n) fs st1 = (Inr (), st')" "store_inv st'"
      "\<forall>k. if k \<in> fact_key ` set fs
         then \<exists>f now i. f \<in> set fs \<and> fact_key f = k \<and> active_view st' k = Some (stored_fact now i f)
         else active_view st' k = active_view st1 k" by auto
  have "if k \<in> fact_key ` set (f # fs)
         then \<exists>g now i. g \<in> set (f # fs) \<and> fact_key g = k \<and> active_view st' k = Some (stored_fact now i g)
         else active_view st' k = active_view st k" for k
    using spec [OF st'(3), of k] st1(3) by (cases "k \<in> fact_key ` set fs"; cases "k = fact_key f") auto
  moreover have "put_all clock ids n (f # fs) st = (Inr (), st')" using st1(1) st'(1) by simp
  ultimately show ?case using st'(2) by (intro exI [of _ st'] conjI allI)
qed simp

lemma fact_of_fields:
  assumes "readable r"
  shows "f_subject (fact_of r) = col_subject r" "f_predicate (fact_of r) = col_second r"
  using assms by (auto simp: fact_of_def readable_def row_to_fact_def split: sum.splits)

text \<open>The list of active facts of a type has, for every key, the active fact of the key.\<close>

lemma latest_list_active:
  assumes "store_inv st"
  shows "\<exists>fs. list_active None (Some t) st = Inr fs \<and> (\<forall>s p. latest fs (s, p) = active_view st (s, p, t))"
proof -
  let ?rows = "filter (\<lambda>r. active_row r \<and> matches None (col_subject r) \<and> matches (Some t) (col_third r)) (st_facts st)"
  let ?fs = "map fact_of ?rows"
  have rd: "readable r" if "r \<in> set (st_facts st)" for r
    using assms that by (simp add: store_inv_def table_inv_def)
  have in_fs: "f \<in> set ?fs \<and> (f_subject f, f_predicate f) = (s, p) \<longleftrightarrow>
      (\<exists>r. r \<in> set (active_rows (s, p, t) (st_facts st)) \<and> f = fact_of r)" for f s p
    using rd by (auto simp: set_active_rows row_key_def matches_def fact_of_fields)
  have "latest ?fs (s, p) = active_view st (s, p, t)" for s p
  proof (cases "active_rows (s, p, t) (st_facts st)")
    case Nil
    then have "latest ?fs (s, p) = None" using in_fs [of _ s p] latest_None [of ?fs "(s, p)"] by auto
    with Nil show ?thesis by (simp add: active_view_def)
  next
    case (Cons r rs)
    have "distinct (map row_key (active_rows (s, p, t) (st_facts st)))"
    proof -
      have "active_rows (s, p, t) (st_facts st) = filter (\<lambda>r. row_key r = (s, p, t)) (filter active_row (st_facts st))"
        by (simp add: active_rows_def conj_commute)
      moreover have "distinct (map row_key (filter active_row (st_facts st)))"
        using assms by (simp add: store_inv_def table_inv_def unique_ok_def)
      ultimately show ?thesis by (simp only: distinct_map_filter)
    qed
    moreover have "map row_key (active_rows (s, p, t) (st_facts st)) = replicate (Suc (length rs)) (s, p, t)"
      by (rule replicate_eqI) (auto simp: set_active_rows Cons [symmetric], simp add: Cons)
    ultimately have "rs = []" by (cases rs) simp_all
    then have "map_option id (latest ?fs (s, p)) = Some (id (fact_of r))"
      using in_fs [of _ s p] Cons by (intro latest_unique) auto
    then show ?thesis using Cons by (simp add: active_view_def option.map_id)
  qed
  then show ?thesis using list_active_eq [OF assms, of None "Some t"] by blast
qed

text \<open>C32: Seeding the store and scanning it is the CIS scan. On a fresh store, with identifiers that are
  never drawn twice and a named actor, seeding writes every fact of the baseline and answers their
  number; the known-good facts read back give, against any list of observed facts, exactly the
  findings of the scan against the baseline itself.\<close>

theorem seeded_store_scan:
  assumes "inj ids" and "actor \<noteq> []"
  shows "\<exists>st facts. seed_cis_baseline clock ids actor nodes cps clusters store_init =
      (Inr (length (baseline_pairs nodes cps clusters)), st) \<and>
    known_good_from_store None st = Inr facts \<and>
    diff cis_severity False observed facts = cis_drift clock' observed nodes cps clusters"
proof -
  let ?fs = "cis_baseline_facts clock actor nodes cps clusters"
  have "acceptable f" if "f \<in> set ?fs" for f
    using mem_baseline_facts [OF that] assms(2) desired_value_wf by (auto simp: acceptable_def simp del: wf_val.simps)
  then obtain st where st: "put_all (\<lambda>n. clock (length ?fs + n)) ids 0 ?fs store_init = (Inr (), st)" "store_inv st"
      "\<forall>k. if k \<in> fact_key ` set ?fs
         then \<exists>f now i. f \<in> set ?fs \<and> fact_key f = k \<and> active_view st k = Some (stored_fact now i f)
         else active_view st k = active_view store_init k"
    using put_all_view [OF store_init_inv _ assms(1), of ?fs 0 "\<lambda>n. clock (length ?fs + n)"]
    by (auto simp: store_init_def)
  obtain facts where facts: "list_active None (Some KNOWN_GOOD) st = Inr facts"
      "\<forall>s p. latest facts (s, p) = active_view st (s, p, KNOWN_GOOD)"
    using latest_list_active [OF st(2)] by blast
  have empty: "active_view store_init k = None" for k
    by (simp add: active_view_def active_rows_def store_init_def)
  have v: "map_option f_value (latest facts (s, p)) = Some v \<longleftrightarrow>
      (\<exists>c. (c, s) \<in> set (baseline_pairs nodes cps clusters) \<and> control_predicate c = p \<and> v = desired_value c)" for s p v
  proof (cases "(s, p, KNOWN_GOOD) \<in> fact_key ` set ?fs")
    case True
    with st(3) facts(2) obtain f now i where f: "f \<in> set ?fs" "fact_key f = (s, p, KNOWN_GOOD)"
        "latest facts (s, p) = Some (stored_fact now i f)" by metis
    from mem_baseline_facts [OF f(1)] f(2) obtain c where c: "(c, s) \<in> set (baseline_pairs nodes cps clusters)"
        "control_predicate c = p" "f_value f = desired_value c" by (auto simp: fact_key_def)
    have "f_value (stored_fact now i f) = desired_value c" using c(3) desired_value_wf(3) by (simp add: stored_fact_def)
    with f(3) c show ?thesis by (auto simp: mem_baseline_pairs dest: predicate_inj)
  next
    case False
    with st(3) facts(2) empty have "latest facts (s, p) = None" by metis
    moreover have "(c, s) \<notin> set (baseline_pairs nodes cps clusters)" if "control_predicate c = p" for c
    proof
      assume "(c, s) \<in> set (baseline_pairs nodes cps clusters)"
      then obtain i where "to_known_good (clock i) s actor c \<in> set ?fs" using baseline_facts_mem by blast
      then have "fact_key (to_known_good (clock i) s actor c) \<in> fact_key ` set ?fs" by (rule imageI)
      with False that show False by (simp add: fact_key_def)
    qed
    ultimately show ?thesis by auto
  qed
  have "map_option f_value (latest facts k) =
      map_option f_value (latest (cis_baseline_facts clock' ''cis-baseline'' nodes cps clusters) k)" for k
  proof (cases k)
    case (Pair s p)
    have eq: "(\<And>v. x = Some v \<longleftrightarrow> y = Some v) \<Longrightarrow> x = y" for x y :: "py_dict_value option"
      by (cases x; cases y) auto
    show ?thesis unfolding Pair by (rule eq) (simp only: v latest_baseline)
  qed
  then have "diff cis_severity False observed facts = cis_drift clock' observed nodes cps clusters"
    unfolding cis_drift_def by (rule diff_cong)
  moreover have "length ?fs = length (baseline_pairs nodes cps clusters)" by (simp add: cis_baseline_facts_def)
  ultimately show ?thesis using st(1) facts(1)
    by (simp add: seed_cis_baseline_def known_good_from_store_def Let_def)
qed

theorem seeded_store_scan_witness:
  "inj (\<lambda>n. nat_str n) \<and> ''cis-baseline'' \<noteq> [] \<and>
   (\<exists>st facts. seed_cis_baseline (\<lambda>_. ''t'') (\<lambda>n. nat_str n) ''cis-baseline'' [''n1''] [''n1''] [''c''] store_init =
      (Inr (length (baseline_pairs [''n1''] [''n1''] [''c''])), st) \<and>
    known_good_from_store None st = Inr facts \<and>
    diff cis_severity False [] facts = cis_drift (\<lambda>_. ''t'') [] [''n1''] [''n1''] [''c''])"
proof -
  have i: "inj (\<lambda>n. nat_str n)" by (rule inj_on_inverseI [of _ digits_value]) simp
  show ?thesis using i seeded_store_scan [OF i, of "''cis-baseline''"] by simp
qed

end
