(* ===== verification/Collectors.thy ===== *)
theory Collectors
  imports Cis
begin

section \<open>Collectors (collectors/base.py, osquery.py, probe.py, talos.py, cis.py, aide.py)\<close>

text \<open>
  The parsers of captured telemetry. Each turns a text into observed facts about one subject. A text
  the JSON model gives no value (an escape above code point 255) is the only error; everything else is
  an answer. The searches of the AIDE parser are written out as the scans they are.
\<close>

subsection \<open>Common\<close>

definition observed_fact :: "string \<Rightarrow> string \<Rightarrow> string \<Rightarrow> py_dict_value \<Rightarrow> string \<Rightarrow> fact" where
  "observed_fact now subject predicate val actor = new_fact subject predicate OBSERVED val now actor None"

text \<open>\<^verbatim>\<open>parse_constant=lambda _const: None\<close>: the three constants of json are read as \<^verbatim>\<open>None\<close>.\<close>

fun no_constants :: "pyval \<Rightarrow> pyval" where
  "no_constants (PFloat t) = (if t \<in> {''NaN'', ''Infinity'', ''-Infinity''} then PNone else PFloat t)"
| "no_constants (PList vs) = PList (map no_constants vs)"
| "no_constants (PDict kvs) = PDict (map (\<lambda>(k, v). (k, no_constants v)) kvs)"
| "no_constants v = v"

definition loads_finite :: "string \<Rightarrow> json_error + pyval" where
  "loads_finite s = map_sum id no_constants (loads s)"

fun is_dict :: "pyval \<Rightarrow> bool" where
  "is_dict (PDict _) = True"
| "is_dict _ = False"

subsection \<open>osquery\<close>

definition osquery_parse :: "string \<Rightarrow> string \<Rightarrow> string \<Rightarrow> string \<Rightarrow> string \<Rightarrow> json_error + fact list" where
  "osquery_parse predicate now raw subject actor =
     (case loads_finite raw of
        Inl e \<Rightarrow> if e = JSONDecodeError then Inr [] else Inl e
      | Inr parsed \<Rightarrow>
          (let rows = (case parsed of PList vs \<Rightarrow> vs | _ \<Rightarrow> []);
               clean_rows = filter is_dict rows
           in Inr [observed_fact now subject predicate
                     [(''rows'', PList clean_rows), (''count'', PInt (int (length clean_rows)))] actor]))"

subsection \<open>Command probe\<close>

definition PROBE_MAX_PAIRS :: nat where "PROBE_MAX_PAIRS = 4096"
definition PROBE_MAX_KEY_LEN :: nat where "PROBE_MAX_KEY_LEN = 256"
definition PROBE_MAX_VALUE_LEN :: nat where "PROBE_MAX_VALUE_LEN = 8192"

text \<open>\<^verbatim>\<open>s.strip('"')\<close>.\<close>

definition strip_char :: "char \<Rightarrow> string \<Rightarrow> string" where
  "strip_char q s = rev (dropWhile (\<lambda>c. c = q) (rev (dropWhile (\<lambda>c. c = q) s)))"

fun probe_lines :: "string list \<Rightarrow> py_dict_value \<Rightarrow> py_dict_value" where
  "probe_lines [] data = data"
| "probe_lines (line # lines) data =
     (if PROBE_MAX_PAIRS \<le> length data then data
      else
        (let stripped = py_strip line in
         if stripped = [] \<or> startswith stripped ''#'' then probe_lines lines data
         else if CHR ''='' \<in> set stripped then
           (let (key, val) = partition_at CHR ''='' stripped
            in probe_lines lines
                 (AList.update (take PROBE_MAX_KEY_LEN (py_strip key))
                    (PStr (take PROBE_MAX_VALUE_LEN (strip_char quote (py_strip val)))) data))
         else if CHR '':'' \<in> set stripped then
           (let (key, val) = partition_at CHR '':'' stripped
            in probe_lines lines
                 (AList.update (take PROBE_MAX_KEY_LEN (py_strip key))
                    (PStr (take PROBE_MAX_VALUE_LEN (py_strip val))) data))
         else probe_lines lines data))"

definition probe_parse :: "string \<Rightarrow> string \<Rightarrow> string \<Rightarrow> string \<Rightarrow> string \<Rightarrow> fact list" where
  "probe_parse predicate now raw subject actor =
     [observed_fact now subject predicate (probe_lines (splitlines raw) []) actor]"

subsection \<open>Talos\<close>

definition MAX_STATUS_CHARS :: nat where "MAX_STATUS_CHARS = 4096"

definition talos_value :: "pyval \<Rightarrow> py_dict_value" where
  "talos_value parsed =
     (case parsed of
        PList vs \<Rightarrow> (let items = filter is_dict vs in [(''items'', PList items), (''count'', PInt (int (length items)))])
      | PDict d \<Rightarrow> d
      | _ \<Rightarrow> [(''value'', parsed)])"

definition talos_parse :: "string \<Rightarrow> string \<Rightarrow> string \<Rightarrow> string \<Rightarrow> string \<Rightarrow> json_error + fact list" where
  "talos_parse predicate now raw0 subject actor =
     (let raw = py_strip raw0 in
      if raw = [] then Inr []
      else case loads_finite raw of
        Inl e \<Rightarrow>
          if e = JSONDecodeError
          then (let status = (if length raw \<le> MAX_STATUS_CHARS then raw
                              else take MAX_STATUS_CHARS raw @ ''...[truncated]'')
                in Inr [observed_fact now subject predicate [(''status'', PStr status)] actor])
          else Inl e
      | Inr parsed \<Rightarrow> Inr [observed_fact now subject predicate (talos_value parsed) actor])"

subsection \<open>CIS evidence\<close>

definition evidence_benchmark :: "string \<Rightarrow> py_dict_value \<Rightarrow> string" where
  "evidence_benchmark own parsed =
     (case map_of parsed ''benchmark'' of Some (PStr b) \<Rightarrow> if b \<noteq> [] then b else own | _ \<Rightarrow> own)"

definition evidence_items :: "py_dict_value \<Rightarrow> py_dict_value" where
  "evidence_items parsed = (case map_of parsed ''controls'' of Some (PDict controls) \<Rightarrow> controls | _ \<Rightarrow> parsed)"

definition evidence_facts ::
  "(string \<Rightarrow> string) \<Rightarrow> string \<Rightarrow> string \<Rightarrow> string \<Rightarrow> py_dict_value \<Rightarrow> fact list" where
  "evidence_facts now own subject actor parsed =
     (let benchmark = evidence_benchmark own parsed
      in concat (map (\<lambda>(control_id, v).
            if control_id = ''benchmark'' then []
            else if benchmark @ '':'' @ control_id \<notin> set active_control_keys then []
            else [observed_fact (now control_id) subject (''cis:'' @ benchmark @ '':'' @ control_id)
                    [(''value'', PStr (normalize_value v))] actor])
          (evidence_items parsed)))"

definition cis_parse ::
  "string \<Rightarrow> (string \<Rightarrow> string) \<Rightarrow> string \<Rightarrow> string \<Rightarrow> string \<Rightarrow> json_error + fact list" where
  "cis_parse own now raw0 subject actor =
     (let raw = py_strip raw0 in
      if raw = [] then Inr []
      else case loads_finite raw of
        Inl e \<Rightarrow> if e = JSONDecodeError then Inr [] else Inl e
      | Inr (PDict parsed) \<Rightarrow> Inr (evidence_facts now own subject actor parsed)
      | Inr _ \<Rightarrow> Inr [])"

subsection \<open>AIDE\<close>

definition MAX_INT_DIGITS :: nat where "MAX_INT_DIGITS = 18"

definition bounded_int :: "string \<Rightarrow> int" where
  "bounded_int raw =
     (if MAX_INT_DIGITS < length raw then 0
      else case int_of_str raw of Inl _ \<Rightarrow> 0 | Inr i \<Rightarrow> i)"

text \<open>One piece of the summary pattern, \<^verbatim>\<open>label:\s*(\d+)\<close> in any case, at its first occurrence: the
  digits and the text after them.\<close>

definition count_at :: "string \<Rightarrow> string \<Rightarrow> (string \<times> string) option" where
  "count_at caption s =
     (if startswith (py_lower s) caption then
        (let r = py_lstrip (drop (length caption) s); ds = takeWhile is_digit r
         in if ds = [] then None else Some (ds, dropWhile is_digit r))
      else None)"

fun find_count :: "string \<Rightarrow> string \<Rightarrow> (string \<times> string) option" where
  "find_count caption [] = None"
| "find_count caption (c # cs) =
     (case count_at caption (c # cs) of Some r \<Rightarrow> Some r | None \<Rightarrow> find_count caption cs)"

text \<open>The pieces are joined by lazy gaps, so each one is found at its first place after the last.\<close>

definition aide_summary :: "string \<Rightarrow> (string \<times> string \<times> string \<times> string) option" where
  "aide_summary raw =
     (case find_count ''total number of entries:'' raw of
        None \<Rightarrow> None
      | Some (tot, r1) \<Rightarrow>
          (case find_count ''added entries:'' r1 of
             None \<Rightarrow> None
           | Some (added, r2) \<Rightarrow>
               (case find_count ''removed entries:'' r2 of
                  None \<Rightarrow> None
                | Some (removed, r3) \<Rightarrow>
                    map_option (\<lambda>(changed, _). (tot, added, removed, changed)) (find_count ''changed entries:'' r3))))"

datatype aide_section = Added | Removed | Changed

fun section_name :: "aide_section \<Rightarrow> string" where
  "section_name Added = ''added''"
| "section_name Removed = ''removed''"
| "section_name Changed = ''changed''"

definition is_section :: "aide_section \<Rightarrow> string \<Rightarrow> bool" where
  "is_section sec line \<longleftrightarrow>
     (let l = py_lower line; r = drop (length (section_name sec)) l
      in startswith l (section_name sec) \<and> r \<noteq> [] \<and> is_space (hd r) \<and>
         startswith (py_lstrip r) ''entries:'' \<and> py_lstrip (drop 8 (py_lstrip r)) = [])"

definition match_section :: "string \<Rightarrow> aide_section option" where
  "match_section line = find (\<lambda>sec. is_section sec line) [Added, Removed, Changed]"

text \<open>\<^verbatim>\<open>/\S+\<close>, the first place it matches.\<close>

fun find_path :: "string \<Rightarrow> string option" where
  "find_path [] = None"
| "find_path (c # cs) =
     (if c = CHR ''/'' \<and> cs \<noteq> [] \<and> \<not> is_space (hd cs) then Some (c # takeWhile (\<lambda>x. \<not> is_space x) cs)
      else find_path cs)"

fun collect_paths :: "aide_section option \<Rightarrow> string list \<Rightarrow> (aide_section \<times> string) list" where
  "collect_paths current [] = []"
| "collect_paths current (line # lines) =
     (case match_section (py_strip line) of
        Some sec \<Rightarrow> collect_paths (Some sec) lines
      | None \<Rightarrow>
          (case current of
             None \<Rightarrow> collect_paths None lines
           | Some sec \<Rightarrow>
               if py_strip line = [] then collect_paths None lines
               else (case find_path line of
                       Some path \<Rightarrow> (sec, path) # collect_paths current lines
                     | None \<Rightarrow> collect_paths current lines)))"

definition bucket :: "aide_section \<Rightarrow> (aide_section \<times> string) list \<Rightarrow> string list" where
  "bucket sec ps = map snd (filter (\<lambda>p. fst p = sec) ps)"

definition aide_parse :: "string \<Rightarrow> string \<Rightarrow> string \<Rightarrow> string \<Rightarrow> fact list" where
  "aide_parse now raw subject actor =
     (let summary = aide_summary raw;
          paths = collect_paths None (splitlines raw);
          added = bucket Added paths; removed = bucket Removed paths; changed = bucket Changed paths;
          has_diff = (added \<noteq> [] \<or> removed \<noteq> [] \<or> changed \<noteq> []);
          complete = (summary \<noteq> None \<or> has_diff)
      in [observed_fact now subject ''file_integrity''
            ([(''added'', PList (map PStr added)), (''removed'', PList (map PStr removed)),
              (''changed'', PList (map PStr changed)), (''complete'', PBool complete),
              (''clean'', PBool (complete \<and> \<not> has_diff))] @
             (case summary of
                None \<Rightarrow> []
              | Some (t, a, r, c) \<Rightarrow>
                  [(''totals'', PDict [(''total'', PInt (bounded_int t)), (''added'', PInt (bounded_int a)),
                     (''removed'', PInt (bounded_int r)), (''changed'', PInt (bounded_int c))])])) actor])"

subsection \<open>Evidence and baseline agree\<close>

lemma active_benchmark: "c \<in> set active_controls \<Longrightarrow> cc_benchmark c = ''talos''"
  using baseline_benchmark [OF active_in_baseline] by (simp add: CIS_BENCHMARK_DEFAULT_def)

lemma active_not_benchmark: "c \<in> set active_controls \<Longrightarrow> cc_control_id c \<noteq> ''benchmark''"
proof -
  have "''benchmark'' \<notin> cc_control_id ` set CIS_BASELINE"
    by (simp add: CIS_BASELINE_def KUBELET_CONTROLS_def APISERVER_CONTROLS_def CONTROLLER_MANAGER_CONTROLS_def
        SCHEDULER_CONTROLS_def CLUSTER_CONTROLS_def mk_control_def)
  then show "c \<in> set active_controls \<Longrightarrow> cc_control_id c \<noteq> ''benchmark''"
    by (metis active_in_baseline imageI)
qed

lemma observed_fact_fields [simp]:
  "f_subject (observed_fact now s p v a) = s" "f_predicate (observed_fact now s p v a) = p"
  "f_value (observed_fact now s p v a) = v"
  by (simp_all add: observed_fact_def new_fact_def)

abbreviation setting :: "pyval \<Rightarrow> py_dict_value" where
  "setting v \<equiv> [(''value'', PStr (normalize_value v))]"

lemma mem_evidence_facts:
  assumes "evidence_benchmark own parsed = ''talos''"
  shows "f \<in> set (evidence_facts now own subject actor parsed) \<longleftrightarrow>
    (\<exists>i v. (i, v) \<in> set (evidence_items parsed) \<and> i \<noteq> ''benchmark'' \<and> ''talos:'' @ i \<in> set active_control_keys \<and>
       f = observed_fact (now i) subject (''cis:talos:'' @ i) (setting v) actor)"
  using assms by (fastforce simp: evidence_facts_def Let_def split: if_splits)

lemma latest_evidence:
  assumes "evidence_benchmark own parsed = ''talos''" and "distinct (map fst (evidence_items parsed))"
    and "c \<in> set active_controls"
  shows "map_option f_value (latest (evidence_facts now own subject actor parsed) (subject, control_predicate c)) =
    map_option setting (map_of (evidence_items parsed) (cc_control_id c))"
proof (cases "map_of (evidence_items parsed) (cc_control_id c)")
  case None
  then have "cc_control_id c \<notin> fst ` set (evidence_items parsed)" by (simp add: map_of_eq_None_iff)
  then have "latest (evidence_facts now own subject actor parsed) (subject, control_predicate c) = None"
    using active_benchmark [OF assms(3)]
    by (force simp: latest_None mem_evidence_facts [OF assms(1)] control_predicate_def)
  with None show ?thesis by simp
next
  case (Some v)
  let ?f = "observed_fact (now (cc_control_id c)) subject (control_predicate c) (setting v) actor"
  have "''talos:'' @ cc_control_id c \<in> set active_control_keys"
    using assms(3) active_benchmark [OF assms(3)] by (force simp: active_control_keys_def control_key_def)
  then have "?f \<in> set (evidence_facts now own subject actor parsed)"
    using map_of_SomeD [OF Some] active_not_benchmark [OF assms(3)] active_benchmark [OF assms(3)]
    by (auto simp: mem_evidence_facts [OF assms(1)] control_predicate_def)
  moreover have "f_value f = f_value ?f"
    if "f \<in> set (evidence_facts now own subject actor parsed)" "(f_subject f, f_predicate f) = (subject, control_predicate c)" for f
  proof -
    from that(1) obtain i w where i: "(i, w) \<in> set (evidence_items parsed)"
        "f = observed_fact (now i) subject (''cis:talos:'' @ i) (setting w) actor"
      unfolding mem_evidence_facts [OF assms(1)] by blast
    with that(2) have "i = cc_control_id c" using active_benchmark [OF assms(3)] by (simp add: control_predicate_def)
    with i(1) Some assms(2) have "w = v" by (simp add: map_of_eq_Some_iff eq_key_imp_eq_value)
    with i(2) show ?thesis by simp
  qed
  ultimately have "map_option f_value (latest (evidence_facts now own subject actor parsed) (subject, control_predicate c)) =
      Some (f_value ?f)"
    by (intro latest_unique) auto
  with Some show ?thesis by simp
qed

lemma setting_eq: "py_eq (PDict (setting v)) (PDict (desired_value c)) \<longleftrightarrow> normalize_value v = normalize_value (cc_desired c)"
  by (auto simp: desired_value_def)

lemma control_holds:
  assumes "evidence_benchmark own parsed = ''talos''" and "distinct (map fst (evidence_items parsed))"
    and "c \<in> set active_controls"
  shows "control_finding (evidence_facts now own s actor parsed) c s = None \<longleftrightarrow>
    (\<exists>v. map_of (evidence_items parsed) (cc_control_id c) = Some v \<and> normalize_value v = normalize_value (cc_desired c))"
proof -
  let ?obs = "latest (evidence_facts now own s actor parsed) (s, control_predicate c)"
  let ?set = "map_of (evidence_items parsed) (cc_control_id c)"
  note l = latest_evidence [OF assms, of now s actor]
  show ?thesis
  proof (cases ?set)
    case None
    with l have "?obs = None" by simp
    with None show ?thesis by (simp add: control_finding_def Let_def)
  next
    case (Some v)
    with l obtain h where "?obs = Some h" "f_value h = setting v" by auto
    with Some setting_eq [of v c] show ?thesis by (simp add: control_finding_def Let_def del: py_eq.simps)
  qed
qed

text \<open>C17: A subject passes the CIS scan exactly when its evidence shows every control. For evidence
  that is a JSON object of the Talos benchmark, the scan of the facts the collector makes of it has no
  finding about the subject if and only if, for every active control whose scope has the subject, the
  evidence has a setting whose normal form is the one of the desired setting.\<close>

theorem evidence_compliance:
  assumes "py_strip raw \<noteq> []" and "loads_finite (py_strip raw) = Inr (PDict parsed)"
    and "evidence_benchmark own parsed = ''talos''" and "distinct (map fst (evidence_items parsed))"
  shows "\<exists>facts. cis_parse own now raw s actor = Inr facts \<and>
    ((\<forall>f. f \<in> set (cis_drift clock facts nodes cps clusters) \<longrightarrow> df_subject f \<noteq> s) \<longleftrightarrow>
     (\<forall>c. c \<in> set active_controls \<and> s \<in> set (subjects_for (cc_scope c) nodes cps clusters) \<longrightarrow>
        (\<exists>v. map_of (evidence_items parsed) (cc_control_id c) = Some v \<and>
             normalize_value v = normalize_value (cc_desired c))))"
proof -
  let ?facts = "evidence_facts now own s actor parsed"
  have "cis_parse own now raw s actor = Inr ?facts"
    using assms(1,2) by (simp add: cis_parse_def Let_def)
  moreover have sub: "df_subject f = s'" if "control_finding ?facts c s' = Some f" for c s' f
    using that by (auto simp: control_finding_def Let_def split: option.splits if_splits)
  have "(\<forall>f. f \<in> set (cis_drift clock ?facts nodes cps clusters) \<longrightarrow> df_subject f \<noteq> s) \<longleftrightarrow>
      (\<forall>c. c \<in> set active_controls \<and> s \<in> set (subjects_for (cc_scope c) nodes cps clusters) \<longrightarrow>
        control_finding ?facts c s = None)" (is "?l \<longleftrightarrow> ?r")
  proof
    assume ?l
    show ?r
    proof (intro allI impI)
      fix c
      assume c: "c \<in> set active_controls \<and> s \<in> set (subjects_for (cc_scope c) nodes cps clusters)"
      show "control_finding ?facts c s = None"
      proof (cases "control_finding ?facts c s")
        case (Some f)
        with c have "f \<in> set (cis_drift clock ?facts nodes cps clusters)" unfolding mem_cis_drift by blast
        with \<open>?l\<close> sub [OF Some] show ?thesis by simp
      qed
    qed
  next
    assume ?r
    show ?l
    proof (intro allI impI notI)
      fix f
      assume "f \<in> set (cis_drift clock ?facts nodes cps clusters)" and s: "df_subject f = s"
      then obtain c s' where c: "c \<in> set active_controls" "s' \<in> set (subjects_for (cc_scope c) nodes cps clusters)"
          "control_finding ?facts c s' = Some f" unfolding mem_cis_drift by blast
      with sub [OF c(3)] s \<open>?r\<close> show False by simp
    qed
  qed
  ultimately show ?thesis using control_holds [OF assms(3,4)] by simp
qed

definition demo_evidence :: string where
  "demo_evidence = ''{'' @ [quote] @ ''cluster-default-pod-security'' @ [quote] @ '': '' @ [quote] @ ''restricted '' @ [quote] @ ''}''"

lemma demo_evidence_loads:
  "py_strip demo_evidence \<noteq> []"
  "loads_finite (py_strip demo_evidence) = Inr (PDict [(''cluster-default-pod-security'', PStr ''restricted '')])"
  by code_simp+

lemma cluster_controls_only:
  "c \<in> set active_controls \<and> ''cluster:c'' \<in> set (subjects_for (cc_scope c) [] [] [''c'']) \<Longrightarrow>
   cc_control_id c = ''cluster-default-pod-security'' \<and> cc_desired c = PStr ''restricted''"
proof -
  assume c: "c \<in> set active_controls \<and> ''cluster:c'' \<in> set (subjects_for (cc_scope c) [] [] [''c''])"
  then have "c \<in> set (filter (\<lambda>c. cc_scope c = Cluster) CIS_BASELINE)"
    by (auto simp: subjects_for_def active_in_baseline split: scope.splits)
  also have "filter (\<lambda>c. cc_scope c = Cluster) CIS_BASELINE = CLUSTER_CONTROLS"
    by (simp add: CIS_BASELINE_def KUBELET_CONTROLS_def APISERVER_CONTROLS_def CONTROLLER_MANAGER_CONTROLS_def
        SCHEDULER_CONTROLS_def CLUSTER_CONTROLS_def mk_control_def)
  finally show ?thesis by (simp add: CLUSTER_CONTROLS_def mk_control_def)
qed

theorem evidence_compliance_witness:
  "\<exists>facts. cis_parse ''talos'' (\<lambda>_. ''t'') demo_evidence ''cluster:c'' ''collector'' = Inr facts \<and>
    filter (\<lambda>f. df_subject f = ''cluster:c'') (cis_drift (\<lambda>_. ''t'') facts [] [] [''c'']) = []"
proof -
  let ?p = "[(''cluster-default-pod-security'', PStr ''restricted '')]"
  have e: "evidence_benchmark ''talos'' ?p = ''talos''" "evidence_items ?p = ?p"
    by (simp_all add: evidence_benchmark_def evidence_items_def)
  have n: "normalize_value (PStr ''restricted '') = normalize_value (PStr ''restricted'')" by code_simp
  obtain facts where "cis_parse ''talos'' (\<lambda>_. ''t'') demo_evidence ''cluster:c'' ''collector'' = Inr facts"
    and "(\<forall>f. f \<in> set (cis_drift (\<lambda>_. ''t'') facts [] [] [''c'']) \<longrightarrow> df_subject f \<noteq> ''cluster:c'') \<longleftrightarrow>
     (\<forall>c. c \<in> set active_controls \<and> ''cluster:c'' \<in> set (subjects_for (cc_scope c) [] [] [''c'']) \<longrightarrow>
        (\<exists>v. map_of (evidence_items ?p) (cc_control_id c) = Some v \<and> normalize_value v = normalize_value (cc_desired c)))"
    using evidence_compliance [OF demo_evidence_loads e(1), of "\<lambda>_. ''t''" "''cluster:c''" "''collector''" "\<lambda>_. ''t''" "[]" "[]" "[''c'']"]
    by (auto simp: e(2))
  moreover have "\<exists>v. map_of (evidence_items ?p) (cc_control_id c) = Some v \<and> normalize_value v = normalize_value (cc_desired c)"
    if "c \<in> set active_controls \<and> ''cluster:c'' \<in> set (subjects_for (cc_scope c) [] [] [''c''])" for c
    using cluster_controls_only [OF that] n by (simp add: e(2))
  ultimately show ?thesis by (intro exI [of _ facts]) (simp add: filter_empty_conv)
qed

subsection \<open>Hostile telemetry is bounded\<close>

lemma length_alist_update: "length (AList.update k v d) \<le> Suc (length d)"
  by (induction d) auto

lemma alist_update_all:
  assumes "\<forall>p \<in> set d. P p" and "P (k, v)"
  shows "\<forall>p \<in> set (AList.update k v d). P p"
  using assms by (induction d) auto

lemma strip_char_length: "length (strip_char q s) \<le> length s"
  by (simp add: strip_char_def) (metis length_dropWhile_le length_rev order_trans)

definition probe_bounded :: "py_dict_value \<Rightarrow> bool" where
  "probe_bounded d \<longleftrightarrow> length d \<le> PROBE_MAX_PAIRS \<and>
     (\<forall>p \<in> set d. length (fst p) \<le> PROBE_MAX_KEY_LEN \<and>
        (case snd p of PStr v \<Rightarrow> length v \<le> PROBE_MAX_VALUE_LEN | _ \<Rightarrow> False))"

lemma probe_bounded_update:
  assumes "probe_bounded d" and "length d < PROBE_MAX_PAIRS"
  shows "probe_bounded (AList.update (take PROBE_MAX_KEY_LEN k) (PStr (take PROBE_MAX_VALUE_LEN v)) d)"
  using assms length_alist_update [of "take PROBE_MAX_KEY_LEN k" "PStr (take PROBE_MAX_VALUE_LEN v)" d]
  unfolding probe_bounded_def by (intro conjI alist_update_all) auto

lemma probe_lines_bounded: "probe_bounded d \<Longrightarrow> probe_bounded (probe_lines lines d)"
  by (induction lines arbitrary: d) (simp_all add: Let_def probe_bounded_update split: prod.split)

text \<open>Whatever a probe prints, the fact it gives has at most 4096 pairs, with keys of at most 256 and
  values of at most 8192 characters; and a text that is no JSON gives a bounded Talos status.\<close>

lemma probe_parse_bounded:
  "\<exists>f. probe_parse predicate now raw subject actor = [f] \<and> probe_bounded (f_value f)"
  using probe_lines_bounded [of "[]" "splitlines raw"] by (simp add: probe_parse_def probe_bounded_def)

lemma aide_clean_needs_summary:
  assumes "aide_parse now raw subject actor = [f]" and "map_of (f_value f) ''clean'' = Some (PBool True)"
  shows "aide_summary raw \<noteq> None" and "collect_paths None (splitlines raw) = []"
proof -
  let ?ps = "collect_paths None (splitlines raw)"
  have c: "aide_summary raw \<noteq> None \<and> bucket Added ?ps = [] \<and> bucket Removed ?ps = [] \<and> bucket Changed ?ps = []"
    using assms by (auto simp: aide_parse_def Let_def)
  then show "aide_summary raw \<noteq> None" by blast
  have "p \<notin> set ?ps" for p
    using c by (cases p; cases "fst p") (auto simp: bucket_def filter_empty_conv)
  then show "?ps = []" by (metis list.set_intros(1) neq_Nil_conv)
qed

end
