(* ===== verification/Tools.thy ===== *)
theory Tools
  imports Credentials Adapters Collectors
begin

section \<open>Tools (tools/_audited.py, actuate.py, emergency.py, drift.py, collect.py, state.py, context.py)\<close>

text \<open>
  The handlers of the tool surface over the audited path. The arguments a handler gets are those the
  argument model of the registry has validated. The store of the session is the world of the execution
  context, so a handler that reads or writes facts is a tool over the SQLite store.
\<close>

subsection \<open>The audited route\<close>

definition READ_OUTPUT_BYTES :: nat where "READ_OUTPUT_BYTES = 8 * 1024 * 1024"

datatype tool_exc = Tool_error string | Route_raised run_exc

definition audited_request :: "string \<Rightarrow> (string \<times> pyval) list \<Rightarrow> string option \<Rightarrow> bool \<Rightarrow> exec_request" where
  "audited_request name args target untrusted =
     \<lparr>er_tool = name, er_command = None, er_args = Some args, er_target = target, er_base_tier = T0, er_dry_run = False,
      er_approval = None, er_untrusted = untrusted, er_action_key = None\<rparr>"

definition run_audited ::
  "(string \<Rightarrow> string) \<Rightarrow> run_env \<Rightarrow> string \<Rightarrow> (string \<times> pyval) list \<Rightarrow> 'w tool \<Rightarrow> string option \<Rightarrow> bool \<Rightarrow>
   'w exec_context \<Rightarrow> (tool_exc + string) \<times> 'w exec_context" where
  "run_audited H env name args execute target untrusted ctx =
     (let (res, ctx') = run H env (audited_request name args target untrusted) execute
            (ctx\<lparr>cx_max_output_bytes := READ_OUTPUT_BYTES\<rparr>);
          ctx'' = ctx'\<lparr>cx_max_output_bytes := cx_max_output_bytes ctx\<rparr>
      in case res of
           Inl x \<Rightarrow> (Inl (Route_raised x), ctx'')
         | Inr result \<Rightarrow>
             if \<not> xr_ok result
             then (Inl (Tool_error (case xr_error result of
                                      Some e \<Rightarrow> if e \<noteq> [] then e else name @ '' failed''
                                    | None \<Rightarrow> name @ '' failed'')), ctx'')
             else if READ_OUTPUT_BYTES < xr_output_len result
             then (Inl (Tool_error (name @ '' result is '' @ nat_str (xr_output_len result) @ '' bytes, over the '' @
                     nat_str READ_OUTPUT_BYTES @ ''-byte limit; narrow the query (the call was '' @
                     ''audited; nothing was returned truncated)'')), ctx'')
             else (Inr (xr_output result), ctx''))"

text \<open>\<^verbatim>\<open>json.dumps(d, sort_keys=True)\<close>; \<open>None\<close> when a value has no JSON form.\<close>

definition json_body :: "(string \<times> pyval) list \<Rightarrow> string option" where
  "json_body d =
     dumps \<lparr>ensure_ascii = True, item_sep = '', '', key_sep = '': '', default_str = (\<lambda>_. None)\<rparr> (PDict d)"

subsection \<open>Emergency stop\<close>

definition stop_tool :: "bool \<Rightarrow> string \<Rightarrow> 'w tool" where
  "stop_tool created reason ctx =
     (let ctx' = ctx\<lparr>cx_kill_switch := trip created (cx_kill_switch ctx)\<rparr>
      in case json_body [(''stopped'', PBool True), (''reason'', PStr reason)] of
           None \<Rightarrow> (Inl (''TypeError'', None), ctx')
         | Some t \<Rightarrow> (Inr t, ctx'))"

definition emergency_stop ::
  "(string \<Rightarrow> string) \<Rightarrow> run_env \<Rightarrow> bool \<Rightarrow> string \<Rightarrow> 'w exec_context \<Rightarrow> (tool_exc + string) \<times> 'w exec_context" where
  "emergency_stop H env created reason ctx =
     run_audited H env ''emergency_stop'' [(''reason'', PStr reason)] (stop_tool created reason) None False ctx"

subsection \<open>Session context\<close>

definition RESTRICTED :: string where "RESTRICTED = ''restricted''"

definition is_restricted :: "(string \<times> pyval) list \<Rightarrow> bool" where
  "is_restricted row \<longleftrightarrow>
     map_of row ''classification'' = Some (PStr RESTRICTED) \<or>
     (case map_of row ''value'' of Some (PDict d) \<Rightarrow> map_of d ''classification'' = Some (PStr RESTRICTED) | _ \<Rightarrow> False)"

definition filter_restricted :: "bool \<Rightarrow> (string \<times> pyval) list list \<Rightarrow> (string \<times> pyval) list list" where
  "filter_restricted allow_restricted rows =
     (if allow_restricted then rows else filter (\<lambda>row. \<not> is_restricted row) rows)"

definition mark_if_observed :: "fact list \<Rightarrow> 'w exec_context \<Rightarrow> 'w exec_context" where
  "mark_if_observed facts ctx =
     (if list_ex (\<lambda>f. f_fact_type f = OBSERVED) facts then ctx\<lparr>cx_taint := mark (cx_taint ctx)\<rparr> else ctx)"

subsection \<open>Drift scan\<close>

definition finding_row :: "drift_finding \<Rightarrow> pyval" where
  "finding_row f =
     PDict [(''subject'', PStr (df_subject f)), (''predicate'', PStr (df_predicate f)),
            (''kind'', PStr (kind_value (df_kind f))), (''severity'', PStr (severity_value (df_severity f)))]"

text \<open>\<open>exn_of\<close>: the exception a store error is, as the audited path reports it.\<close>

definition drift_scan_tool :: "(store_exc \<Rightarrow> exn) \<Rightarrow> string option \<Rightarrow> sqlite_store tool" where
  "drift_scan_tool exn_of subject ctx =
     (case list_active subject (Some OBSERVED) (cx_world ctx) of
        Inl x \<Rightarrow> (Inl (exn_of x), ctx)
      | Inr observed \<Rightarrow>
          (let ctx' = mark_if_observed observed ctx
           in case list_active subject (Some KNOWN_GOOD) (cx_world ctx) of
                Inl x \<Rightarrow> (Inl (exn_of x), ctx')
              | Inr desired \<Rightarrow>
                  (let findings = diff cis_severity True observed desired
                   in case json_body [(''count'', PInt (int (length findings))), (''findings'', PList (map finding_row findings))] of
                        None \<Rightarrow> (Inl (''TypeError'', None), ctx')
                      | Some t \<Rightarrow> (Inr t, ctx'))))"

definition drift_scan ::
  "(string \<Rightarrow> string) \<Rightarrow> run_env \<Rightarrow> (store_exc \<Rightarrow> exn) \<Rightarrow> string option \<Rightarrow> sqlite_store exec_context \<Rightarrow>
   (tool_exc + string) \<times> sqlite_store exec_context" where
  "drift_scan H env exn_of subject ctx =
     run_audited H env ''drift_scan'' [(''subject'', opt_str subject)] (drift_scan_tool exn_of subject) None False ctx"

subsection \<open>State reads\<close>

definition answer_rows :: "string \<Rightarrow> (string \<times> pyval) list list \<Rightarrow> string option" where
  "answer_rows what rows = json_body [(''count'', PInt (int (length rows))), (what, PList (map PDict rows))]"

definition fact_view :: "fact \<Rightarrow> (string \<times> pyval) list" where
  "fact_view f =
     [(''subject'', PStr (f_subject f)), (''predicate'', PStr (f_predicate f)), (''fact_type'', PStr (f_fact_type f)),
      (''value'', PDict (f_value f))]"

definition query_facts_tool :: "(store_exc \<Rightarrow> exn) \<Rightarrow> bool \<Rightarrow> string option \<Rightarrow> string option \<Rightarrow> sqlite_store tool" where
  "query_facts_tool exn_of allow_restricted subject fact_type ctx =
     (case list_active subject fact_type (cx_world ctx) of
        Inl x \<Rightarrow> (Inl (exn_of x), ctx)
      | Inr facts \<Rightarrow>
          (let ctx' = mark_if_observed facts ctx
           in case answer_rows ''facts'' (filter_restricted allow_restricted (map fact_view facts)) of
                None \<Rightarrow> (Inl (''TypeError'', None), ctx')
              | Some t \<Rightarrow> (Inr t, ctx')))"

definition query_facts ::
  "(string \<Rightarrow> string) \<Rightarrow> run_env \<Rightarrow> (store_exc \<Rightarrow> exn) \<Rightarrow> bool \<Rightarrow> string option \<Rightarrow> string option \<Rightarrow> sqlite_store exec_context \<Rightarrow>
   (tool_exc + string) \<times> sqlite_store exec_context" where
  "query_facts H env exn_of allow_restricted subject fact_type ctx =
     run_audited H env ''query_facts'' [(''subject'', opt_str subject), (''fact_type'', opt_str fact_type)]
       (query_facts_tool exn_of allow_restricted subject fact_type) None False ctx"

definition history_view :: "fact \<Rightarrow> (string \<times> pyval) list" where
  "history_view f =
     [(''predicate'', PStr (f_predicate f)), (''value'', PDict (f_value f)), (''t_recorded'', opt_str (f_t_recorded f)),
      (''active'', PBool (is_active f))]"

definition fact_history_tool :: "(store_exc \<Rightarrow> exn) \<Rightarrow> bool \<Rightarrow> string \<Rightarrow> string option \<Rightarrow> sqlite_store tool" where
  "fact_history_tool exn_of allow_restricted subject predicate ctx =
     (case history subject predicate None (cx_world ctx) of
        Inl x \<Rightarrow> (Inl (exn_of x), ctx)
      | Inr facts \<Rightarrow>
          (let ctx' = mark_if_observed facts ctx
           in case answer_rows ''history'' (filter_restricted allow_restricted (map history_view facts)) of
                None \<Rightarrow> (Inl (''TypeError'', None), ctx')
              | Some t \<Rightarrow> (Inr t, ctx')))"

definition fact_history ::
  "(string \<Rightarrow> string) \<Rightarrow> run_env \<Rightarrow> (store_exc \<Rightarrow> exn) \<Rightarrow> bool \<Rightarrow> string \<Rightarrow> string option \<Rightarrow> sqlite_store exec_context \<Rightarrow>
   (tool_exc + string) \<times> sqlite_store exec_context" where
  "fact_history H env exn_of allow_restricted subject predicate ctx =
     run_audited H env ''fact_history'' [(''subject'', PStr subject), (''predicate'', opt_str predicate)]
       (fact_history_tool exn_of allow_restricted subject predicate) (Some subject) False ctx"

subsection \<open>Ingest\<close>

datatype collector_name = Osquery | Aide | Probe | Talos | Cis

fun collector_value :: "collector_name \<Rightarrow> string" where
  "collector_value Osquery = ''osquery''"
| "collector_value Aide = ''aide''"
| "collector_value Probe = ''probe''"
| "collector_value Talos = ''talos''"
| "collector_value Cis = ''cis''"

definition MAX_RAW_CHARS :: nat where "MAX_RAW_CHARS = 4 * 1024 * 1024"

record ingest_args =
  ia_collector :: collector_name
  ia_subject :: string
  ia_raw :: string
  ia_predicate :: "string option"

definition collector_parse ::
  "(string \<Rightarrow> string) \<Rightarrow> collector_name \<Rightarrow> string \<Rightarrow> string \<Rightarrow> string \<Rightarrow> json_error + fact list" where
  "collector_parse now kind predicate raw subject =
     (case kind of
        Aide \<Rightarrow> Inr (aide_parse (now []) raw subject ''collector'')
      | Osquery \<Rightarrow> osquery_parse predicate (now []) raw subject ''collector''
      | Talos \<Rightarrow> talos_parse predicate (now []) raw subject ''collector''
      | Cis \<Rightarrow> cis_parse CIS_BENCHMARK_DEFAULT now raw subject ''collector''
      | Probe \<Rightarrow> Inr (probe_parse predicate (now []) raw subject ''collector''))"

definition ingest_predicate :: "ingest_args \<Rightarrow> string" where
  "ingest_predicate args =
     (case ia_predicate args of Some p \<Rightarrow> if p \<noteq> [] then p else collector_value (ia_collector args)
      | None \<Rightarrow> collector_value (ia_collector args))"

definition ingest_tool ::
  "(store_exc \<Rightarrow> exn) \<Rightarrow> (nat \<Rightarrow> string) \<Rightarrow> (nat \<Rightarrow> string) \<Rightarrow> ingest_args \<Rightarrow> fact list \<Rightarrow> sqlite_store tool" where
  "ingest_tool exn_of clock ids args facts ctx =
     (case put_all clock ids 0 facts (cx_world ctx) of
        (Inl x, st) \<Rightarrow> (Inl (exn_of x), ctx\<lparr>cx_world := st\<rparr>)
      | (Inr _, st) \<Rightarrow>
          (Inr (''{'' @ py_join '', ''
             [dumps_str True ''ingested'' @ '': '' @ nat_str (length facts),
              dumps_str True ''subject'' @ '': '' @ dumps_str True (ia_subject args),
              dumps_str True ''collector'' @ '': '' @ dumps_str True (collector_value (ia_collector args))] @ ''}''),
           ctx\<lparr>cx_world := st\<rparr>))"

text \<open>The outer error: the raw text is outside the JSON model.\<close>

definition ingest ::
  "(string \<Rightarrow> string) \<Rightarrow> run_env \<Rightarrow> (store_exc \<Rightarrow> exn) \<Rightarrow> (string \<Rightarrow> string) \<Rightarrow> (nat \<Rightarrow> string) \<Rightarrow> (nat \<Rightarrow> string) \<Rightarrow> ingest_args \<Rightarrow>
   sqlite_store exec_context \<Rightarrow> json_error + (tool_exc + string) \<times> sqlite_store exec_context" where
  "ingest H env exn_of now clock ids args ctx =
     (let predicate = ingest_predicate args
      in case collector_parse now (ia_collector args) predicate (ia_raw args) (ia_subject args) of
           Inl e \<Rightarrow> Inl e
         | Inr facts \<Rightarrow>
             Inr (run_audited H env ''ingest_observation''
               [(''collector'', PStr (collector_value (ia_collector args))), (''subject'', PStr (ia_subject args)),
                (''predicate'', PStr predicate), (''raw_sha256'', PStr (sha256_text H (ia_raw args))),
                (''raw_len'', PInt (int (length (utf8_encode (ia_raw args)))))]
               (ingest_tool exn_of clock ids args facts) (Some (ia_subject args)) True ctx))"

subsection \<open>Actuation\<close>

record run_action_args =
  ra_adapter :: string
  ra_host :: string
  ra_host_type :: host_type
  ra_action :: string
  ra_ssh_alias :: "string option"
  ra_nodes :: "string list"
  ra_endpoints :: "string list"
  ra_dry_run :: bool
  ra_approval_token :: "string option"
  ra_wipe_mode :: "string option"
  ra_health_client_side_only :: bool
  ra_tofu_chdir :: "string option"

definition covered_pred :: "mode \<Rightarrow> host_info \<Rightarrow> credential_broker \<Rightarrow> exec_request predicate" where
  "covered_pred m host broker =
     \<lparr>p_name = ''credential_scope'',
      p_test = (\<lambda>req. Some (authorized (hi_name host) (d_tier (check m (er_tool req) (er_command req) (er_base_tier req))) broker)),
      p_severity = HARD,
      p_message = ''no credential grant covers host '' @ repr_str (hi_name host) @
                  '' at the classified tier (scoped credentials, BL-049)''\<rparr>"

definition broker_gated_context :: "credential_broker option \<Rightarrow> host_info \<Rightarrow> 'w exec_context \<Rightarrow> 'w exec_context" where
  "broker_gated_context broker host ctx =
     (case broker of
        None \<Rightarrow> ctx
      | Some b \<Rightarrow>
          if \<not> has_grants b then ctx
          else ctx\<lparr>cx_contract := (cx_contract ctx)\<lparr>preconditions :=
                 preconditions (cx_contract ctx) @ [covered_pred (cx_mode ctx) host b]\<rparr>\<rparr>)"

definition action_host :: "run_action_args \<Rightarrow> host_info" where
  "action_host args =
     \<lparr>hi_name = ra_host args, hi_host_type = ra_host_type args, hi_ssh_alias = ra_ssh_alias args,
      hi_endpoints = ra_endpoints args, hi_nodes = ra_nodes args\<rparr>"

definition action_params :: "run_action_args \<Rightarrow> params" where
  "action_params args =
     (case ra_wipe_mode args of None \<Rightarrow> [] | Some m \<Rightarrow> [(''wipe_mode'', PStr m)]) @
     (if ra_health_client_side_only args then [(''health_client_side_only'', PBool True)] else []) @
     (case ra_tofu_chdir args of None \<Rightarrow> [] | Some d \<Rightarrow> [(''chdir'', PStr d)])"

definition action_body :: "(string \<Rightarrow> string) \<Rightarrow> run_action_args \<Rightarrow> exec_request \<Rightarrow> exec_result \<Rightarrow> bool \<Rightarrow> string option" where
  "action_body H args request result tainted =
     (let body = [(''ok'', PBool (xr_ok result)), (''tier'', PStr (label (d_tier (xr_decision result)))),
                  (''error'', opt_str (xr_error result)), (''output_sha256'', PStr (xr_output_sha256 result)),
                  (''output_len'', PInt (int (xr_output_len result))), (''output'', PStr (xr_output result))];
          gated = (d_requires_approval (xr_decision result) \<or> tainted \<and> T1 \<le> d_tier (xr_decision result))
      in if \<not> ra_dry_run args then json_body body
         else (case action_id H request of
                 None \<Rightarrow> None
               | Some aid \<Rightarrow>
                   json_body (body @ [(''action_id'', PStr aid)] @
                     (if xr_ok result \<and> gated
                      then [(''approval'', PStr (''a single-use approval token was minted to the server operator '' @
                              ''console (out-of-band); pass it as approval_token with '' @ ''dry_run=false''))]
                      else []))))"

datatype action_exc = Actuate_raised act_exc | Unknown_adapter | Action_id_error

definition run_action ::
  "(string \<Rightarrow> string) \<Rightarrow> run_env \<Rightarrow> 'w system \<Rightarrow> (string \<times> adapter) list \<Rightarrow> credential_broker option \<Rightarrow> run_action_args \<Rightarrow>
   'w exec_context \<Rightarrow> (action_exc + string) \<times> 'w exec_context" where
  "run_action H env sys adapters broker args ctx =
     (case map_of adapters (ra_adapter args) of
        None \<Rightarrow> (Inl Unknown_adapter, ctx)
      | Some A \<Rightarrow>
          (let host = action_host args; ps = action_params args
           in case build_request A host (ra_action args) ps (ra_dry_run args) None of
                Inl e \<Rightarrow> (Inl (Actuate_raised (Argv_raised e)), ctx)
              | Inr request \<Rightarrow>
                  if ra_approval_token args \<noteq> None \<and> action_id H request = None
                  then (Inl Action_id_error, ctx)
                  else
                    (let approval = (case ra_approval_token args of
                                       None \<Rightarrow> None
                                     | Some tok \<Rightarrow> map_option (\<lambda>aid. \<lparr>ap_action_id = aid, ap_token = tok\<rparr>) (action_id H request));
                         (res, ctx') = actuate H env sys A host (ra_action args) ps (ra_dry_run args) approval
                                         (broker_gated_context broker host ctx);
                         ctx'' = ctx'\<lparr>cx_contract := cx_contract ctx\<rparr>
                     in case res of
                          Inl x \<Rightarrow> (Inl (Actuate_raised x), ctx'')
                        | Inr result \<Rightarrow>
                            (case action_body H args request result (untrusted_ingested (cx_taint ctx'')) of
                               None \<Rightarrow> (Inl Action_id_error, ctx'')
                             | Some t \<Rightarrow> (Inr t, ctx'')))))"

subsection \<open>The emergency stop is always reachable\<close>

lemma any_match_split: "any_match ps s \<longleftrightarrow> any_match (take n ps) s \<or> any_match (drop n ps) s"
  unfolding any_match_def by (metis append_take_drop_id list_ex_append)

lemma stop_not_tier3a: "\<not> any_match (take 8 TIER3) ''emergency_stop''"
  by code_simp

lemma stop_not_tier3b: "\<not> any_match (take 8 (drop 8 TIER3)) ''emergency_stop''"
  by code_simp

lemma stop_not_tier3c: "\<not> any_match (drop 8 (drop 8 TIER3)) ''emergency_stop''"
  by code_simp

lemma stop_not_tier3: "\<not> any_match TIER3 ''emergency_stop''"
  using stop_not_tier3a stop_not_tier3b stop_not_tier3c any_match_split [of TIER3 _ 8] any_match_split [of "drop 8 TIER3" _ 8]
  by blast

lemma stop_not_tier2: "\<not> any_match TIER2 ''emergency_stop''"
  by code_simp

lemma stop_not_tier1: "\<not> any_match TIER1 ''emergency_stop''"
  by code_simp

lemma stop_not_privileged: "\<not> any_match PRIV_ESCALATION ''emergency_stop''"
  by code_simp

lemma stop_probe_tier: "command_tier ''emergency_stop'' = T0"
  by (simp add: command_tier_T0_iff stop_not_tier3 stop_not_tier2 stop_not_tier1 stop_not_privileged)

lemma stop_probe_not_denied: "deny_match ''emergency_stop'' = None"
  by code_simp

lemma stop_allowed:
  "d_allowed (check m ''emergency_stop'' None T0)" "d_tier (check m ''emergency_stop'' None T0) = T0"
  "\<not> d_requires_approval (check m ''emergency_stop'' None T0)"
proof -
  have n: "\<not> on_deny_list ''emergency_stop'' None" by (simp add: on_deny_list_def probe_def stop_probe_not_denied)
  have c: "classify ''emergency_stop'' None T0 = T0" by (simp add: classify_def probe_def stop_probe_tier Let_def)
  show a: "d_allowed (check m ''emergency_stop'' None T0)" "d_tier (check m ''emergency_stop'' None T0) = T0"
    using check_not_denied [OF n, of m T0] c by (cases m; simp add: tier_order)+
  then show "\<not> d_requires_approval (check m ''emergency_stop'' None T0)"
    by (simp add: check_requires_approval tier_order)
qed

lemma execute_kill_switch: "cx_kill_switch (snd (execute_step H env req ex d g c)) = cx_kill_switch (snd (ex c))"
proof -
  obtain res c1 where e: "ex c = (res, c1)" by (cases "ex c")
  obtain b where b: "spend_wall env c1 = Inr (c1\<lparr>cx_budget := b\<rparr>)" using spend_wall_Inr by blast
  have f: "cx_kill_switch (snd (finish H env req d out err c2)) = cx_kill_switch c2" for out err c2
    by (simp add: finish_def audit_def Let_def split: prod.splits sum.splits)
  show ?thesis
    by (auto simp: execute_step_def e b mint_step_def surface_approval_def f Let_def split: sum.splits option.splits if_splits)
qed

lemma stop_tool_trips: "ks_tripped (cx_kill_switch (snd (stop_tool created reason c)))"
  by (simp add: stop_tool_def trip_def Let_def split: option.splits)

lemma stop_admitted:
  assumes "\<not> is_tripped (re_readable env) (cx_kill_switch ctx)"
    and "\<forall>p \<in> set (preconditions (cx_contract ctx)) \<union> set (invariants (cx_contract ctx)).
      \<not> blocks p (audited_request ''emergency_stop'' args None False)"
  shows "\<exists>d g. admit H env (audited_request ''emergency_stop'' args None False) ctx = Admitted d g ctx"
proof -
  let ?req = "audited_request ''emergency_stop'' args None False"
  let ?d = "check (cx_mode ctx) ''emergency_stop'' None T0"
  have r: "er_tool ?req = ''emergency_stop''" "er_command ?req = None" "er_base_tier ?req = T0" "er_args ?req = Some args"
      "er_dry_run ?req = False" "er_untrusted ?req = False"
    by (simp_all add: audited_request_def)
  have t: "arm_taint ?req ctx = ctx" by (simp add: arm_taint_def r)
  have "contract_gate ?req ctx = Pass ctx"
    using assms(2) check_pre_hard_iff [of "cx_contract ctx" ?req] by (simp add: contract_gate_def Let_def)
  then have g: "gates H env ?req ?d ctx = Pass ctx"
    using stop_allowed [of "cx_mode ctx"]
    by (simp add: gates_def approval_gate_def gate_required_def budget_gate_def tier_order split: option.split)
  have c: "exceeds_consent ctx ?d = None"
    using stop_allowed(2) [of "cx_mode ctx"] by (simp add: exceeds_consent_def tier_order not_less split: option.split)
  show ?thesis
    unfolding admit_def Let_def t r g using assms(1) stop_allowed [of "cx_mode ctx"] c by simp
qed

text \<open>C6: The emergency stop always stops. In every mode, with any consent ceiling, with untrusted
  content taken in or not, with the action budget spent or not, and whatever fails while the stop is
  audited, after a call of the tool the kill switch is engaged and no call of any tool is executed
  any more, provided the sentinel can be read at the time of the stop and no predicate of the session's
  contract blocks the call.\<close>

theorem emergency_stop_always_stops:
  assumes "\<forall>p \<in> set (preconditions (cx_contract ctx)) \<union> set (invariants (cx_contract ctx)).
      \<not> blocks p (audited_request ''emergency_stop'' [(''reason'', PStr reason)] None False)"
    and "re_readable env" and "emergency_stop H env created reason ctx = (res, ctx')"
  shows "is_tripped (re_readable env') (cx_kill_switch ctx') \<and> run H env' req ex1 ctx' = run H env' req ex2 ctx'"
proof -
  let ?req = "audited_request ''emergency_stop'' [(''reason'', PStr reason)] None False"
  let ?ctx = "ctx\<lparr>cx_max_output_bytes := READ_OUTPUT_BYTES\<rparr>"
  let ?run = "run H env ?req (stop_tool created reason) ?ctx"
  have ks: "cx_kill_switch ctx' = cx_kill_switch (snd ?run)"
    using assms(3) by (auto simp: emergency_stop_def run_audited_def Let_def split: prod.splits sum.splits if_splits)
  have "is_tripped (re_readable env') (cx_kill_switch (snd ?run))"
  proof (cases "is_tripped (re_readable env) (cx_kill_switch ?ctx)")
    case True
    then have "cx_kill_switch (snd ?run) = cx_kill_switch ctx"
      by (simp add: run_def denied_def audit_def Let_def split: prod.splits sum.splits)
    with True assms(2) show ?thesis by (auto simp: is_tripped_def split: if_splits)
  next
    case False
    obtain d g where "admit H env ?req ?ctx = Admitted d g ?ctx"
      using stop_admitted [OF False] assms(1) by force
    then have "ks_tripped (cx_kill_switch (snd ?run))"
      by (simp add: run_admit execute_kill_switch stop_tool_trips)
    then show ?thesis by (simp add: is_tripped_def)
  qed
  then have "is_tripped (re_readable env') (cx_kill_switch ctx')" unfolding ks .
  then show ?thesis using execution_gates(1) [of H env' req ex1 ctx' ex2] by blast
qed

text \<open>A stop that meets an unreadable sentinel is refused, because the switch is taken to be engaged;
  nothing is tripped, and once the sentinel can be read again execution goes on.\<close>

lemma emergency_stop_lost:
  assumes "cx_kill_switch ctx = \<lparr>ks_sentinel = True, ks_tripped = False, ks_file = False\<rparr>" and "\<not> re_readable env"
  shows "cx_kill_switch (snd (emergency_stop H env created reason ctx)) = cx_kill_switch ctx"
    and "\<not> is_tripped True (cx_kill_switch (snd (emergency_stop H env created reason ctx)))"
proof -
  show k: "cx_kill_switch (snd (emergency_stop H env created reason ctx)) = cx_kill_switch ctx"
    using assms by (simp add: emergency_stop_def run_audited_def run_def denied_def audit_def is_tripped_def Let_def
        split: prod.splits sum.splits)
  then show "\<not> is_tripped True (cx_kill_switch (snd (emergency_stop H env created reason ctx)))"
    using assms(1) by (simp add: is_tripped_def)
qed

theorem emergency_stop_always_stops_witness:
  "is_tripped True (cx_kill_switch (snd (emergency_stop (\<lambda>_. ''ab'') demo_run_env True ''leak'' demo_context)))"
proof -
  obtain res ctx' where e: "emergency_stop (\<lambda>_. ''ab'') demo_run_env True ''leak'' demo_context = (res, ctx')" by fastforce
  have "preconditions (cx_contract demo_context) = []" "invariants (cx_contract demo_context) = []" "re_readable demo_run_env"
    by (simp_all add: demo_context_def empty_contract_def demo_run_env_def)
  with e emergency_stop_always_stops [of demo_context "''leak''" demo_run_env "\<lambda>_. ''ab''" True res ctx' demo_run_env]
  show ?thesis by simp
qed

subsection \<open>Scoped credentials gate the actuation tool\<close>

lemma run_action_depends:
  assumes "run_action H env sys1 adapters broker args ctx \<noteq> run_action H env sys2 adapters broker args ctx"
  obtains A approval where "map_of adapters (ra_adapter args) = Some A"
    and "actuate H env sys1 A (action_host args) (ra_action args) (action_params args) (ra_dry_run args) approval
           (broker_gated_context broker (action_host args) ctx) \<noteq>
         actuate H env sys2 A (action_host args) (ra_action args) (action_params args) (ra_dry_run args) approval
           (broker_gated_context broker (action_host args) ctx)"
proof -
  obtain A where A: "map_of adapters (ra_adapter args) = Some A"
    using assms by (cases "map_of adapters (ra_adapter args)") (auto simp: run_action_def)
  obtain request where r: "build_request A (action_host args) (ra_action args) (action_params args) (ra_dry_run args) None = Inr request"
    using assms A
    by (cases "build_request A (action_host args) (ra_action args) (action_params args) (ra_dry_run args) None")
      (auto simp: run_action_def Let_def)
  let ?approval = "case ra_approval_token args of None \<Rightarrow> None
     | Some tok \<Rightarrow> map_option (\<lambda>aid. \<lparr>ap_action_id = aid, ap_token = tok\<rparr>) (action_id H request)"
  let ?act = "\<lambda>sys. actuate H env sys A (action_host args) (ra_action args) (action_params args) (ra_dry_run args) ?approval
           (broker_gated_context broker (action_host args) ctx)"
  have "?act sys1 \<noteq> ?act sys2"
  proof
    assume eq: "?act sys1 = ?act sys2"
    have "run_action H env sys1 adapters broker args ctx = run_action H env sys2 adapters broker args ctx"
      unfolding run_action_def A Let_def option.case r sum.case eq by (rule refl)
    with assms show False by contradiction
  qed
  with A show thesis by (rule that)
qed

abbreviation request_tier :: "mode \<Rightarrow> exec_request \<Rightarrow> tier" where
  "request_tier m req \<equiv> d_tier (check m (er_tool req) (er_command req) (er_base_tier req))"

lemma covered_when_granted:
  assumes "run_action H env sys1 adapters (Some b) args ctx \<noteq> run_action H env sys2 adapters (Some b) args ctx"
    and "has_grants b"
  shows "\<exists>A approval req. map_of adapters (ra_adapter args) = Some A \<and>
    build_request A (action_host args) (ra_action args) (action_params args) (ra_dry_run args) approval = Inr req \<and>
    authorized (ra_host args) (request_tier (cx_mode ctx) req) b"
proof -
  let ?gctx = "broker_gated_context (Some b) (action_host args) ctx"
  obtain A approval where A: "map_of adapters (ra_adapter args) = Some A"
    and d: "actuate H env sys1 A (action_host args) (ra_action args) (action_params args) (ra_dry_run args) approval ?gctx \<noteq>
         actuate H env sys2 A (action_host args) (ra_action args) (action_params args) (ra_dry_run args) approval ?gctx"
    using assms(1) by (rule run_action_depends)
  have m: "covered_pred (cx_mode ctx) (action_host args) b \<in> set (preconditions (cx_contract ?gctx))"
    using assms(2) by (simp add: broker_gated_context_def)
  from actuation_gates(3) [OF d] obtain req where
    r: "build_request A (action_host args) (ra_action args) (action_params args) (ra_dry_run args) approval = Inr req"
    and "\<not> blocks (covered_pred (cx_mode ctx) (action_host args) b) req" using m by blast
  then have "authorized (ra_host args) (request_tier (cx_mode ctx) req) b"
    by (simp add: blocks_def covered_pred_def action_host_def)
  with A r show ?thesis by blast
qed


text \<open>Revoking the last grant opens the gate it closed. After one grant for other hosts, the
  actuation tool never runs a wrapped tool on a host it does not name; after that same grant is
  revoked, the tool behaves on every host as if there were no broker at all.\<close>

theorem last_revocation_opens:
  assumes "hosts \<noteq> []" and "t \<noteq> T3" and "ra_host args \<notin> set hosts"
  shows "run_action H env sys1 adapters (Some (broker_run [Grant handle role hosts t] [])) args ctx =
      run_action H env sys2 adapters (Some (broker_run [Grant handle role hosts t] [])) args ctx \<and>
    run_action H env sys1 adapters (Some (broker_run [Grant handle role hosts t, Revoke handle] [])) args ctx =
      run_action H env sys1 adapters None args ctx"
proof
  let ?b = "broker_run [Grant handle role hosts t] []"
  have "\<not> T3 \<le> t" using assms(2) by (cases t) (simp_all add: tier_order)
  then have g: "grant handle role hosts t [] = Inr [(handle, \<lparr>sc_role = role, sc_hosts = hosts, sc_max_tier = t\<rparr>)]"
    using assms(1) by (simp add: grant_def)
  have "has_grants ?b" "\<not> authorized (ra_host args) t' ?b" for t'
    using g assms(3) by (simp_all add: has_grants_def authorized_def)
  then show "run_action H env sys1 adapters (Some ?b) args ctx = run_action H env sys2 adapters (Some ?b) args ctx"
    using covered_when_granted [of H env sys1 adapters ?b args ctx sys2] by blast
  have e: "broker_run [Grant handle role hosts t, Revoke handle] [] = []"
    using g by (simp add: revoke_def)
  have n: "broker_gated_context (Some []) = (broker_gated_context None :: host_info \<Rightarrow> 'a exec_context \<Rightarrow> 'a exec_context)"
    by (intro ext) (simp add: broker_gated_context_def has_grants_def)
  show "run_action H env sys1 adapters (Some (broker_run [Grant handle role hosts t, Revoke handle] [])) args ctx =
      run_action H env sys1 adapters None args ctx"
    unfolding run_action_def e n by (rule refl)
qed

definition demo_args :: run_action_args where
  "demo_args =
     \<lparr>ra_adapter = ''opentofu'', ra_host = ''h'', ra_host_type = UBUNTU, ra_action = ''w'', ra_ssh_alias = None, ra_nodes = [],
      ra_endpoints = [], ra_dry_run = True, ra_approval_token = None, ra_wipe_mode = None,
      ra_health_client_side_only = False, ra_tofu_chdir = None\<rparr>"

lemma demo_args_fields [simp]:
  "action_host demo_args = demo_host" "action_params demo_args = []" "ra_adapter demo_args = ''opentofu''"
  "ra_action demo_args = ''w''" "ra_dry_run demo_args = True" "ra_approval_token demo_args = None" "ra_host demo_args = ''h''"
  by (simp_all add: demo_args_def action_host_def action_params_def demo_host_def)

lemma demo_granted: "broker_run [Grant ''g'' ''ops'' [''h''] T3] [] = [(''g'', \<lparr>sc_role = ''ops'', sc_hosts = [''h''], sc_max_tier = T3\<rparr>)]"
  by (simp add: grant_def)

lemma demo_run_action_world:
  "cx_world (snd (run_action H demo_run_env (demo_system n) (ADAPTERS demo_fs (\<lambda>_. True) None None None)
     (Some (broker_run [Grant ''g'' ''ops'' [''h''] T3] [])) demo_args demo_act_context)) = n"
proof -
  let ?A = "OpenTofuAdapter demo_fs None" and ?b = "broker_run [Grant ''g'' ''ops'' [''h''] T3] []"
  have A: "map_of (ADAPTERS demo_fs (\<lambda>_. True) None None None) ''opentofu'' = Some ?A" by (simp add: ADAPTERS_def)
  have g: "broker_gated_context (Some ?b) demo_host demo_act_context =
      demo_act_context\<lparr>cx_contract := (cx_contract demo_act_context)\<lparr>preconditions := [covered_pred OPEN demo_host ?b]\<rparr>\<rparr>"
    unfolding demo_granted by (simp add: broker_gated_context_def has_grants_def demo_act_context_def empty_contract_def)
  have t: "t \<le> T3" for t by (cases t) (simp_all add: tier_order)
  have "authorized ''h'' t ?b" for t unfolding demo_granted by (simp add: authorized_def t)
  then have ok: "p_test (covered_pred OPEN demo_host ?b) req = Some True" for req
    by (simp add: covered_pred_def demo_host_def del: broker_run.simps)
  have "cx_world (snd (actuate H demo_run_env (demo_system n) ?A demo_host ''w'' [] True None
      (broker_gated_context (Some ?b) demo_host demo_act_context))) = n"
    unfolding g by (rule demo_actuation_world)
      (auto simp: ok demo_act_context_def empty_contract_def simp del: broker_run.simps)
  moreover obtain request where "build_request ?A demo_host ''w'' [] True None = Inr request"
    using demo_request_built by blast
  ultimately show ?thesis
    by (auto simp: run_action_def A Let_def split: prod.split sum.split option.split)
qed


theorem last_revocation_opens_witness:
  "run_action (\<lambda>_. ''ab'') demo_run_env (demo_system 1) (ADAPTERS demo_fs (\<lambda>_. True) None None None)
      (Some (broker_run [Grant ''g'' ''ops'' [''other''] T2, Revoke ''g''] [])) demo_args demo_act_context =
   run_action (\<lambda>_. ''ab'') demo_run_env (demo_system 1) (ADAPTERS demo_fs (\<lambda>_. True) None None None) None demo_args demo_act_context"
proof -
  have "[''other''] \<noteq> []" "T2 \<noteq> T3" "ra_host demo_args \<notin> set [''other'']" by simp_all
  from last_revocation_opens [OF this] show ?thesis by blast
qed

end
