(* ===== verification/Registry.thy ===== *)
theory Registry
  imports Runner
begin

section \<open>Request correlation and the tool registry (execution/correlation.py, tools/registry.py)\<close>

text \<open>
  The registry maps tool names to specifications; a call looks the name up, validates the arguments
  through the argument model of the tool and hands the result to the handler. The argument models are
  classes of pydantic, a package of its own: what \<^verbatim>\<open>model_validate\<close> and \<^verbatim>\<open>model_json_schema\<close>
  return are fields of the specification. A handler gets what varies from call to call (\<open>'e\<close>: the
  clock, fresh tokens, outcomes of I/O), the correlation identifiers in force, the validated arguments
  and the session context.
\<close>

subsection \<open>Correlation identifiers\<close>

definition MAX_ID_LEN :: nat where "MAX_ID_LEN = 128"

definition bound_id :: "pyval \<Rightarrow> string option" where
  "bound_id value =
     (if value = PNone then None
      else let text = py_strip (py_str value) in if text = [] then None else Some (take MAX_ID_LEN text))"

record correlation =
  co_request_id :: "string option"
  co_client_id :: "string option"

text \<open>\<^verbatim>\<open>with request_scope(...)\<close>: the identifiers in force inside the block; outside it there are
  none.\<close>

definition request_scope :: "pyval \<Rightarrow> pyval \<Rightarrow> (correlation \<Rightarrow> 'a) \<Rightarrow> 'a" where
  "request_scope request_id client_id block =
     block \<lparr>co_request_id = bound_id request_id, co_client_id = bound_id client_id\<rparr>"

lemma bound_id_bounded: "bound_id v = Some t \<Longrightarrow> t \<noteq> [] \<and> length t \<le> MAX_ID_LEN"
  by (auto simp: bound_id_def MAX_ID_LEN_def Let_def split: if_splits)

lemma bound_id_None: "bound_id v = None \<longleftrightarrow> v = PNone \<or> py_strip (py_str v) = []"
  by (simp add: bound_id_def Let_def)

subsection \<open>Specifications\<close>

type_synonym args = "(string \<times> pyval) list"

text \<open>A validation error: its location, one text per part, and its message.\<close>

type_synonym validation_error = "string list \<times> string"

record ('e, 'm, 'c) tool_spec =
  ts_name :: string
  ts_description :: string
  ts_read_only :: bool
  ts_destructive :: bool
  ts_schema :: pyval
  ts_validate :: "args \<Rightarrow> validation_error list + 'm"
  ts_handler :: "'e \<Rightarrow> correlation \<Rightarrow> 'm \<Rightarrow> 'c \<Rightarrow> (exn + string) \<times> 'c"

definition to_mcp :: "('e, 'm, 'c) tool_spec \<Rightarrow> pyval" where
  "to_mcp spec =
     PDict [(''name'', PStr (ts_name spec)), (''description'', PStr (ts_description spec)),
            (''inputSchema'', ts_schema spec),
            (''annotations'', PDict [(''readOnlyHint'', PBool (ts_read_only spec)),
                                     (''destructiveHint'', PBool (ts_destructive spec))])]"

definition summarize :: "validation_error list \<Rightarrow> string" where
  "summarize errors =
     py_join ''; '' (map (\<lambda>(loc, msg). (if py_join ''.'' loc = [] then ''(root)'' else py_join ''.'' loc) @ '': '' @ msg)
       (take 3 errors))"

subsection \<open>The registry\<close>

type_synonym ('e, 'm, 'c) registry = "(string, ('e, 'm, 'c) tool_spec) pydict"

definition register :: "('e, 'm, 'c) tool_spec \<Rightarrow> ('e, 'm, 'c) registry \<Rightarrow> exn + ('e, 'm, 'c) registry" where
  "register spec reg =
     (if ts_name spec \<in> set (keys reg) then Inl (''ValueError'', Some (''duplicate tool name: '' @ ts_name spec))
      else Inr (AList.update (ts_name spec) spec reg))"

fun register_list :: "('e, 'm, 'c) tool_spec list \<Rightarrow> ('e, 'm, 'c) registry \<Rightarrow> exn + ('e, 'm, 'c) registry" where
  "register_list [] reg = Inr reg"
| "register_list (spec # specs) reg =
     (case register spec reg of Inl x \<Rightarrow> Inl x | Inr reg' \<Rightarrow> register_list specs reg')"

definition tool_names :: "('e, 'm, 'c) registry \<Rightarrow> string list" where
  "tool_names reg = sort (keys reg)"

definition tool_specs :: "('e, 'm, 'c) registry \<Rightarrow> ('e, 'm, 'c) tool_spec list" where
  "tool_specs reg = map (\<lambda>name. the (map_of reg name)) (tool_names reg)"

definition registry_call ::
  "string \<Rightarrow> args \<Rightarrow> 'e \<Rightarrow> correlation \<Rightarrow> ('e, 'm, 'c) registry \<Rightarrow> 'c \<Rightarrow> (exn + string) \<times> 'c" where
  "registry_call name arguments env corr reg ctx =
     (case map_of reg name of
        None \<Rightarrow> (Inl (''ToolError'', Some (''unknown tool: '' @ repr_str name)), ctx)
      | Some spec \<Rightarrow>
          (case ts_validate spec arguments of
             Inl errors \<Rightarrow>
               (Inl (''ToolError'', Some (''invalid arguments for '' @ repr_str name @ '': '' @ summarize errors)), ctx)
           | Inr model \<Rightarrow> ts_handler spec env corr model ctx))"

text \<open>Every name of a registry built by \<open>register\<close> stands once and maps to the specification that
  carries it.\<close>

definition wf_registry :: "('e, 'm, 'c) registry \<Rightarrow> bool" where
  "wf_registry reg \<longleftrightarrow> distinct (keys reg) \<and> (\<forall>(name, spec) \<in> set reg. ts_name spec = name)"

lemma wf_registry_Nil: "wf_registry []"
  by (simp add: wf_registry_def)

lemma register_append:
  "register spec reg = Inr reg' \<Longrightarrow> reg' = reg @ [(ts_name spec, spec)] \<and> ts_name spec \<notin> set (keys reg)"
  by (auto simp: register_def update_new split: if_splits)

lemma register_wf: "wf_registry reg \<Longrightarrow> register spec reg = Inr reg' \<Longrightarrow> wf_registry reg'"
  by (auto simp: wf_registry_def dest!: register_append)

lemma register_list_append:
  "register_list specs reg = Inr reg' \<Longrightarrow> reg' = reg @ map (\<lambda>s. (ts_name s, s)) specs"
proof (induction specs arbitrary: reg)
  case (Cons s ss)
  then obtain r where "register s reg = Inr r" "register_list ss r = Inr reg'" by (auto split: sum.splits)
  with Cons.IH register_append show ?case by fastforce
qed simp

lemma register_list_distinct:
  "distinct (map ts_name specs) \<Longrightarrow> set (map ts_name specs) \<inter> set (keys reg) = {} \<Longrightarrow>
   register_list specs reg = Inr (reg @ map (\<lambda>s. (ts_name s, s)) specs)"
proof (induction specs arbitrary: reg)
  case (Cons s ss)
  have "register s reg = Inr (reg @ [(ts_name s, s)])"
    using Cons.prems by (simp add: register_def update_new)
  moreover have "register_list ss (reg @ [(ts_name s, s)]) = Inr ((reg @ [(ts_name s, s)]) @ map (\<lambda>s. (ts_name s, s)) ss)"
    using Cons.prems by (intro Cons.IH) auto
  ultimately show ?case by simp
qed simp

lemma register_list_wf: "wf_registry reg \<Longrightarrow> register_list specs reg = Inr reg' \<Longrightarrow> wf_registry reg'"
  by (induction specs arbitrary: reg) (auto split: sum.splits dest: register_wf)

lemma tool_specs_names:
  assumes "wf_registry reg"
  shows "map ts_name (tool_specs reg) = tool_names reg"
proof -
  have "ts_name (the (map_of reg name)) = name" if "name \<in> set (keys reg)" for name
  proof -
    from that obtain spec where s: "map_of reg name = Some spec" by (cases "map_of reg name") (auto simp: map_of_eq_None_iff)
    then have "(name, spec) \<in> set reg" by (rule map_of_SomeD)
    with assms s show ?thesis by (auto simp: wf_registry_def)
  qed
  then show ?thesis by (simp add: tool_specs_def tool_names_def) (rule map_idI, simp)
qed

lemma call_known:
  "map_of reg name = Some spec \<Longrightarrow> ts_validate spec a = Inr m \<Longrightarrow>
   registry_call name a env corr reg ctx = ts_handler spec env corr m ctx"
  by (simp add: registry_call_def)

text \<open>Only the handler of a known tool with validated arguments can change the context.\<close>

lemma call_refused:
  assumes "map_of reg name = None \<or> (\<exists>spec e. map_of reg name = Some spec \<and> ts_validate spec a = Inl e)"
  shows "\<exists>t. registry_call name a env corr reg ctx = (Inl (''ToolError'', Some t), ctx)"
  using assms by (auto simp: registry_call_def)

end
