(* ===== verification/Surface.thy ===== *)
theory Surface
  imports Tools Registry
begin

section \<open>The tool surface (tools/*.py, tools/__init__.py, context.py)\<close>

text \<open>
  The six tools as specifications of the registry: the names, descriptions and hints the modules
  register, and the handlers of Tools over the context of a session. The validated arguments of the
  tools are one datatype, a constructor per argument model; the validation itself (pydantic) and the
  JSON schemas it generates are arguments, one per tool.
\<close>

record 'w server_context =
  sc_execution :: "'w exec_context"
  sc_transport :: string
  sc_allow_restricted :: bool
  sc_broker :: "credential_broker option"

datatype tool_model =
    Query_args "string option" "string option"
  | History_args string "string option"
  | Ingest_args ingest_args
  | Drift_args "string option"
  | Action_args run_action_args
  | Stop_args string

text \<open>What varies from call to call, and how an exception of a lower layer shows as a type name and a
  text.\<close>

record surface_env =
  su_hash :: "string \<Rightarrow> string"
  su_run :: run_env
  su_now :: "string \<Rightarrow> string"
  su_clock :: "nat \<Rightarrow> string"
  su_ids :: "nat \<Rightarrow> string"
  su_system :: "sqlite_store system"
  su_adapters :: "(string \<times> adapter) list"
  su_created :: bool
  su_store_exn :: "store_exc \<Rightarrow> exn"
  su_route_exn :: "run_exc \<Rightarrow> exn"
  su_action_exn :: "action_exc \<Rightarrow> exn"
  su_json_exn :: "json_error \<Rightarrow> exn"

type_synonym tool_session = "sqlite_store server_context"

type_synonym handler = "surface_env \<Rightarrow> correlation \<Rightarrow> tool_model \<Rightarrow> tool_session \<Rightarrow> (exn + string) \<times> tool_session"

text \<open>The identifiers of the request scope are those the audited path reads.\<close>

definition scoped_env :: "surface_env \<Rightarrow> correlation \<Rightarrow> run_env" where
  "scoped_env env corr =
     (su_run env)\<lparr>re_request_id := co_request_id corr, re_client_id := co_client_id corr\<rparr>"

fun tool_exn :: "surface_env \<Rightarrow> tool_exc \<Rightarrow> exn" where
  "tool_exn env (Tool_error m) = (''ToolError'', Some m)"
| "tool_exn env (Route_raised x) = su_route_exn env x"

definition on_execution ::
  "('x \<Rightarrow> exn) \<Rightarrow> (sqlite_store exec_context \<Rightarrow> ('x + string) \<times> sqlite_store exec_context) \<Rightarrow>
   tool_session \<Rightarrow> (exn + string) \<times> tool_session" where
  "on_execution raised f ctx =
     (case f (sc_execution ctx) of
        (Inl x, ex) \<Rightarrow> (Inl (raised x), ctx\<lparr>sc_execution := ex\<rparr>)
      | (Inr t, ex) \<Rightarrow> (Inr t, ctx\<lparr>sc_execution := ex\<rparr>))"

subsection \<open>The handlers\<close>

text \<open>A handler only ever gets the model of its own tool.\<close>

definition wrong_model :: exn where "wrong_model = (''AttributeError'', None)"

definition query_handler :: handler where
  "query_handler env corr m ctx =
     (case m of
        Query_args subject fact_type \<Rightarrow>
          on_execution (tool_exn env)
            (query_facts (su_hash env) (scoped_env env corr) (su_store_exn env) (sc_allow_restricted ctx) subject fact_type) ctx
      | _ \<Rightarrow> (Inl wrong_model, ctx))"

definition history_handler :: handler where
  "history_handler env corr m ctx =
     (case m of
        History_args subject predicate \<Rightarrow>
          on_execution (tool_exn env)
            (fact_history (su_hash env) (scoped_env env corr) (su_store_exn env) (sc_allow_restricted ctx) subject predicate) ctx
      | _ \<Rightarrow> (Inl wrong_model, ctx))"

definition ingest_handler :: handler where
  "ingest_handler env corr m ctx =
     (case m of
        Ingest_args args \<Rightarrow>
          (case ingest (su_hash env) (scoped_env env corr) (su_store_exn env) (su_now env) (su_clock env) (su_ids env) args
                  (sc_execution ctx) of
             Inl e \<Rightarrow> (Inl (su_json_exn env e), ctx)
           | Inr res \<Rightarrow> on_execution (tool_exn env) (\<lambda>_. res) ctx)
      | _ \<Rightarrow> (Inl wrong_model, ctx))"

definition drift_handler :: handler where
  "drift_handler env corr m ctx =
     (case m of
        Drift_args subject \<Rightarrow>
          on_execution (tool_exn env) (drift_scan (su_hash env) (scoped_env env corr) (su_store_exn env) subject) ctx
      | _ \<Rightarrow> (Inl wrong_model, ctx))"

definition action_handler :: handler where
  "action_handler env corr m ctx =
     (case m of
        Action_args args \<Rightarrow>
          on_execution (su_action_exn env)
            (run_action (su_hash env) (scoped_env env corr) (su_system env) (su_adapters env) (sc_broker ctx) args) ctx
      | _ \<Rightarrow> (Inl wrong_model, ctx))"

definition stop_handler :: handler where
  "stop_handler env corr m ctx =
     (case m of
        Stop_args reason \<Rightarrow>
          on_execution (tool_exn env) (emergency_stop (su_hash env) (scoped_env env corr) (su_created env) reason) ctx
      | _ \<Rightarrow> (Inl wrong_model, ctx))"

subsection \<open>Registration\<close>

text \<open>\<open>V\<close> and \<open>S\<close>: \<^verbatim>\<open>model_validate\<close> and \<^verbatim>\<open>model_json_schema\<close> of the
  argument model of the tool of that name.\<close>

type_synonym validator = "string \<Rightarrow> args \<Rightarrow> validation_error list + tool_model"

definition make_spec ::
  "validator \<Rightarrow> (string \<Rightarrow> pyval) \<Rightarrow> string \<Rightarrow> string \<Rightarrow> bool \<Rightarrow> bool \<Rightarrow> handler \<Rightarrow>
   (surface_env, tool_model, tool_session) tool_spec" where
  "make_spec V schema name description read_only destructive handler =
     \<lparr>ts_name = name, ts_description = description, ts_read_only = read_only, ts_destructive = destructive,
      ts_schema = schema name, ts_validate = V name, ts_handler = handler\<rparr>"

definition state_specs :: "validator \<Rightarrow> (string \<Rightarrow> pyval) \<Rightarrow> (surface_env, tool_model, tool_session) tool_spec list" where
  "state_specs V S =
     [make_spec V S ''query_facts'' ''List active fleet-state facts; filter by subject and/or fact_type.'' True False
        query_handler,
      make_spec V S ''fact_history'' ''Return the full recorded (bitemporal) history of facts for a subject.'' True False
        history_handler]"

definition collect_specs :: "validator \<Rightarrow> (string \<Rightarrow> pyval) \<Rightarrow> (surface_env, tool_model, tool_session) tool_spec list" where
  "collect_specs V S =
     [make_spec V S ''ingest_observation'' ''Parse captured host telemetry into observed facts.'' False False ingest_handler]"

definition drift_specs :: "validator \<Rightarrow> (string \<Rightarrow> pyval) \<Rightarrow> (surface_env, tool_model, tool_session) tool_spec list" where
  "drift_specs V S =
     [make_spec V S ''drift_scan'' ''Compute drift findings: observed facts versus the known-good baseline.'' True False
        drift_handler]"

definition actuate_specs :: "validator \<Rightarrow> (string \<Rightarrow> pyval) \<Rightarrow> (surface_env, tool_model, tool_session) tool_spec list" where
  "actuate_specs V S =
     [make_spec V S ''run_action'' ''Run a tier-gated actuation via an adapter (DRY_RUN, approve, execute).'' False True
        action_handler]"

definition emergency_specs :: "validator \<Rightarrow> (string \<Rightarrow> pyval) \<Rightarrow> (surface_env, tool_model, tool_session) tool_spec list" where
  "emergency_specs V S =
     [make_spec V S ''emergency_stop''
        (''Trip the kill switch to halt all subsequent execution immediately '' @
         ''(SEC-8). Restoring service is an out-of-band operator action.'') False False stop_handler]"

definition REGISTERED_TOOLS :: "string list" where
  "REGISTERED_TOOLS =
     [''query_facts'', ''fact_history'', ''ingest_observation'', ''drift_scan'', ''run_action'', ''emergency_stop'']"

definition register_all ::
  "validator \<Rightarrow> (string \<Rightarrow> pyval) \<Rightarrow> (surface_env, tool_model, tool_session) registry \<Rightarrow>
   exn + (surface_env, tool_model, tool_session) registry" where
  "register_all V S reg =
     register_list (state_specs V S @ collect_specs V S @ drift_specs V S @ actuate_specs V S @ emergency_specs V S) reg"

definition build_registry :: "validator \<Rightarrow> (string \<Rightarrow> pyval) \<Rightarrow> exn + (surface_env, tool_model, tool_session) registry" where
  "build_registry V S = register_all V S []"

definition surface :: "validator \<Rightarrow> (string \<Rightarrow> pyval) \<Rightarrow> (surface_env, tool_model, tool_session) registry" where
  "surface V S =
     map (\<lambda>s. (ts_name s, s))
       (state_specs V S @ collect_specs V S @ drift_specs V S @ actuate_specs V S @ emergency_specs V S)"

lemmas specs_defs =
  state_specs_def collect_specs_def drift_specs_def actuate_specs_def emergency_specs_def make_spec_def

text \<open>The registration of the six tools never fails, and advertises exactly the declared names.\<close>

lemma build_registry_surface: "build_registry V S = Inr (surface V S)"
  unfolding build_registry_def register_all_def surface_def
  by (subst register_list_distinct) (simp_all add: specs_defs)

lemma surface_names: "keys (surface V S) = REGISTERED_TOOLS"
  by (simp add: surface_def specs_defs REGISTERED_TOOLS_def)

lemma surface_wf: "wf_registry (surface V S)"
  using register_list_wf [OF wf_registry_Nil] build_registry_surface [of V S]
  unfolding build_registry_def register_all_def by blast

subsection \<open>Every answer is on record\<close>

definition seq_of :: "tool_session \<Rightarrow> int" where
  "seq_of ctx = lg_seq (cx_audit (sc_execution ctx))"

lemma run_once:
  assumes "wf_request req" and "keeps_audit execute" and "run H env req execute ctx = (Inr res, ctx')"
  shows "lg_seq (cx_audit ctx') = lg_seq (cx_audit ctx) + 1"
  using run_outcome [OF assms(1,2), of H env ctx] assms(3) by (simp add: audited_once_def)

lemma run_audited_once:
  assumes "wf_val (PDict a)" and "keeps_audit execute" and "run_audited H env name a execute target u ctx = (Inr t, ctx')"
  shows "lg_seq (cx_audit ctx') = lg_seq (cx_audit ctx) + 1"
proof -
  let ?req = "audited_request name a target u" and ?ctx = "ctx\<lparr>cx_max_output_bytes := READ_OUTPUT_BYTES\<rparr>"
  obtain res c where r: "run H env ?req execute ?ctx = (Inr res, c)" "ctx' = c\<lparr>cx_max_output_bytes := cx_max_output_bytes ctx\<rparr>"
    using assms(3) by (auto simp: run_audited_def Let_def split: prod.splits sum.splits if_splits)
  have "wf_request ?req" using assms(1) by (simp add: wf_request_def audited_request_def)
  from run_once [OF this assms(2) r(1)] r(2) show ?thesis by simp
qed

lemma mark_if_observed_audit [simp]: "cx_audit (mark_if_observed fs c) = cx_audit c"
  by (simp add: mark_if_observed_def)

lemma read_tools_keep_audit:
  "keeps_audit (query_facts_tool x allow subject ty)" "keeps_audit (fact_history_tool x allow subj predicate)"
  "keeps_audit (drift_scan_tool x subject)" "keeps_audit (ingest_tool x clock ids args facts)"
  "keeps_audit (stop_tool created reason)" "keeps_audit (run_subprocess sys argv preview)"
  by (auto simp: keeps_audit_def query_facts_tool_def fact_history_tool_def drift_scan_tool_def ingest_tool_def
      stop_tool_def run_subprocess_def Let_def split: sum.splits option.splits prod.splits list.splits proc_outcome.splits)

lemma opt_str_wf [simp]: "wf_val (opt_str x)"
  by (simp add: opt_str_def split: option.splits)

lemma on_execution_Inr:
  "on_execution raised f ctx = (Inr t, ctx') \<Longrightarrow>
   \<exists>ex. f (sc_execution ctx) = (Inr t, ex) \<and> ctx' = ctx\<lparr>sc_execution := ex\<rparr>"
  by (auto simp: on_execution_def split: prod.splits sum.splits)

lemma fold_update_params_wf:
  "wf_val (PDict ps) \<Longrightarrow> wf_val (PDict d) \<Longrightarrow> wf_val (PDict (fold (\<lambda>(k, v) d. AList.update k v d) ps d))"
proof (induction ps arbitrary: d)
  case (Cons p ps)
  obtain k v where p: "p = (k, v)" by fastforce
  from Cons.prems p have "wf_val (PDict ps)" "wf_val v" by simp_all
  with Cons.IH [of "AList.update k v d"] update_wf [OF Cons.prems(2), of v k] show ?case by (simp add: p)
qed simp

lemma request_args:
  assumes "\<And>r. ad_retarget A host r = r\<lparr>er_target := er_target (ad_retarget A host r)\<rparr>"
    and "build_request A host action ps dry_run approval = Inr req"
  shows "er_args req = Some (fold (\<lambda>(k, v) d. AList.update k v d) ps [(''action'', PStr action)])"
proof -
  obtain r0 where r: "req = ad_retarget A host r0"
    and a: "er_args r0 = Some (fold (\<lambda>(k, v) d. AList.update k v d) ps [(''action'', PStr action)])"
    using assms(2) by (auto simp: build_request_def split: sum.splits)
  have "req = r0\<lparr>er_target := er_target req\<rparr>" unfolding r by (rule assms(1))
  then have "er_args req = er_args r0" by (metis exec_request.select_convs(3) exec_request.surjective exec_request.update_convs(4))
  with a show ?thesis by simp
qed

lemma adapter_request_wf:
  assumes "map_of (ADAPTERS fs healthy pr tr rr) name = Some A" and "build_request A host action ps dry_run approval = Inr req"
    and "wf_val (PDict ps)"
  shows "wf_request req"
proof -
  have "ad_retarget A host r = r\<lparr>er_target := er_target (ad_retarget A host r)\<rparr>" for r
    using assms(1)
    by (cases rule: adapter_cases)
      (simp_all only: ssh.retarget [symmetric] ansible.retarget [symmetric] opentofu.retarget [symmetric]
        talosctl.retarget [symmetric] runbook.retarget [symmetric])
  from request_args [OF this assms(2)] show ?thesis
    using fold_update_params_wf [OF assms(3), of "[(''action'', PStr action)]"] by (simp add: wf_request_def)
qed

lemma map_sum_Inr: "map_sum f id x = Inr y \<Longrightarrow> x = Inr y"
  by (cases x) simp_all

lemma run_action_once:
  assumes "run_action H env sys (ADAPTERS fs healthy pr tr rr) broker args ctx = (Inr t, ctx')"
  shows "lg_seq (cx_audit ctx') = lg_seq (cx_audit ctx) + 1"
proof -
  let ?host = "action_host args" and ?ps = "action_params args" and ?ctx = "broker_gated_context broker (action_host args) ctx"
  have c: "cx_audit ?ctx = cx_audit ctx" by (simp add: broker_gated_context_def split: option.splits)
  obtain A approval res c1 where A: "map_of (ADAPTERS fs healthy pr tr rr) (ra_adapter args) = Some A"
    and a: "actuate H env sys A ?host (ra_action args) ?ps (ra_dry_run args) approval ?ctx = (Inr res, c1)"
    and c1: "cx_audit ctx' = cx_audit c1"
    using assms by (auto simp: run_action_def Let_def split: option.splits sum.splits prod.splits if_splits)
  obtain argv req c2 where b: "build_request A ?host (ra_action args) ?ps (ra_dry_run args) approval = Inr req"
    and r: "run H env req (run_subprocess sys argv (ra_dry_run args \<and> \<not> ad_native_dry_run A))
        (?ctx\<lparr>cx_contract := merged_contract A ?host (ra_action args) ?ps (ra_dry_run args) (cx_contract ?ctx)\<rparr>) = (Inr res, c2)"
    and c2: "cx_audit c1 = cx_audit c2"
    using a by (auto simp: actuate_def Let_def split: sum.splits prod.splits dest!: map_sum_Inr)
  have "wf_val (PDict ?ps)" by (simp add: action_params_def split: option.splits)
  from run_once [OF adapter_request_wf [OF A b this] read_tools_keep_audit(6) r] show ?thesis by (simp add: c c1 c2)
qed

text \<open>C9: No answer without a record. Whatever tool of the surface is called, over whatever arguments and in
  whatever session, when the handler returns a text (a read, an ingest, a drift scan, an emergency stop, an
  actuation or its dry run, whether the action was refused, failed or succeeded), the audit log has advanced
  by exactly one record.\<close>

theorem answers_are_on_record:
  assumes "map_of (surface V S) name = Some spec" and "su_adapters env = ADAPTERS fs healthy pr tr rr"
    and "ts_handler spec env corr m ctx = (Inr t, ctx')"
  shows "seq_of ctx' = seq_of ctx + 1"
proof -
  have h: "ts_handler spec \<in> {query_handler, history_handler, ingest_handler, drift_handler, action_handler, stop_handler}"
    using assms(1) by (auto simp: surface_def specs_defs split: if_splits)
  note once = run_audited_once [rotated 2]
  from h assms(3) consider
    (query) "query_handler env corr m ctx = (Inr t, ctx')" | (history) "history_handler env corr m ctx = (Inr t, ctx')"
    | (ingest) "ingest_handler env corr m ctx = (Inr t, ctx')" | (drift) "drift_handler env corr m ctx = (Inr t, ctx')"
    | (action) "action_handler env corr m ctx = (Inr t, ctx')" | (stop) "stop_handler env corr m ctx = (Inr t, ctx')"
    by auto
  then show ?thesis
  proof cases
    case query
    then show ?thesis
      by (auto simp: query_handler_def seq_of_def query_facts_def split: tool_model.splits
          dest!: on_execution_Inr once simp: read_tools_keep_audit)
  next
    case history
    then show ?thesis
      by (auto simp: history_handler_def seq_of_def fact_history_def split: tool_model.splits
          dest!: on_execution_Inr once simp: read_tools_keep_audit)
  next
    case ingest
    then show ?thesis
      by (auto simp: ingest_handler_def seq_of_def ingest_def Let_def split: tool_model.splits sum.splits
          dest!: on_execution_Inr once simp: read_tools_keep_audit)
  next
    case drift
    then show ?thesis
      by (auto simp: drift_handler_def seq_of_def drift_scan_def split: tool_model.splits
          dest!: on_execution_Inr once simp: read_tools_keep_audit)
  next
    case action
    then show ?thesis
      by (auto simp: action_handler_def seq_of_def assms(2) split: tool_model.splits
          dest!: on_execution_Inr intro!: run_action_once)
  next
    case stop
    then show ?thesis
      by (auto simp: stop_handler_def seq_of_def emergency_stop_def split: tool_model.splits
          dest!: on_execution_Inr once simp: read_tools_keep_audit)
  qed
qed

subsection \<open>A concrete call\<close>

definition demo_session :: tool_session where
  "demo_session =
     \<lparr>sc_execution =
        \<lparr>cx_mode = GUARDED, cx_audit = new_logger 0 GENESIS True False [] [] [],
         cx_kill_switch = \<lparr>ks_sentinel = False, ks_tripped = False, ks_file = False\<rparr>,
         cx_approvals = \<lparr>ttl_seconds = 600, pending = [], consumed = []\<rparr>, cx_contract = empty_contract,
         cx_max_output_bytes = 65536, cx_budget = None, cx_taint = \<lparr>untrusted_ingested = False\<rparr>, cx_console = [],
         cx_consent_ceiling = None, cx_world = store_init\<rparr>,
      sc_transport = ''stdio'', sc_allow_restricted = True, sc_broker = None\<rparr>"

definition demo_surface_env :: surface_env where
  "demo_surface_env =
     \<lparr>su_hash = (\<lambda>_. ''ab''), su_run = demo_run_env, su_now = (\<lambda>s. s), su_clock = (\<lambda>_. ''t''), su_ids = nat_str,
      su_system = \<lparr>sy_environ = [], sy_which = (\<lambda>_. False), sy_run = (\<lambda>_ _ w. (Timed_out, w)), sy_kill = (\<lambda>w. w),
        sy_signal = (\<lambda>_. None)\<rparr>,
      su_adapters = ADAPTERS demo_fs (\<lambda>_. True) None None None, su_created = True,
      su_store_exn = (\<lambda>_. (''Exception'', None)), su_route_exn = (\<lambda>_. (''Exception'', None)),
      su_action_exn = (\<lambda>_. (''Exception'', None)), su_json_exn = (\<lambda>_. (''ValueError'', None))\<rparr>"

definition demo_validator :: validator where
  "demo_validator name a =
     (case map_of a ''reason'' of Some (PStr r) \<Rightarrow> Inr (Stop_args r) | _ \<Rightarrow> Inl [([''reason''], ''Field required'')])"

lemma demo_stop_body:
  "json_body [(''stopped'', PBool True), (''reason'', PStr ''x'')] = Some (''{'' @ dumps_str True ''reason'' @ '': '' @ dumps_str True ''x'' @ '', '' @ dumps_str True ''stopped'' @ '': true}'')"
  by code_simp

lemma demo_stop_answers:
  "\<exists>t c. stop_handler demo_surface_env corr (Stop_args ''x'') demo_session = (Inr t, c)"
proof -
  let ?env = "scoped_env demo_surface_env corr" and ?H = "\<lambda>_::string. ''ab''"
  let ?req = "audited_request ''emergency_stop'' [(''reason'', PStr ''x'')] None False"
  let ?ctx = "(sc_execution demo_session)\<lparr>cx_max_output_bytes := READ_OUTPUT_BYTES\<rparr>"
  have w: "re_write ?env = re_write demo_run_env" by (simp add: scoped_env_def demo_surface_env_def)
  have "\<exists>d g. admit ?H ?env ?req ?ctx = Admitted d g ?ctx"
    by (rule stop_admitted) (simp_all add: demo_session_def is_tripped_def empty_contract_def)
  then obtain d g where a: "admit ?H ?env ?req ?ctx = Admitted d g ?ctx" by blast
  obtain c t where s: "stop_tool True ''x'' ?ctx = (Inr t, c)" "cx_audit c = cx_audit ?ctx" "cx_budget c = None"
    and n: "length (utf8_encode t) \<le> READ_OUTPUT_BYTES"
  proof
    let ?t = "''{'' @ dumps_str True ''reason'' @ '': '' @ dumps_str True ''x'' @ '', '' @ dumps_str True ''stopped'' @ '': true}''"
    show "stop_tool True ''x'' ?ctx = (Inr ?t, ?ctx\<lparr>cx_kill_switch := trip True (cx_kill_switch ?ctx)\<rparr>)"
      unfolding stop_tool_def demo_stop_body by simp
    have "length (utf8_encode ?t) \<le> 100" by code_simp
    then show "length (utf8_encode ?t) \<le> READ_OUTPUT_BYTES" by (simp add: READ_OUTPUT_BYTES_def)
  qed (simp_all add: demo_session_def)
  have e: "execute_step ?H ?env ?req (stop_tool True ''x'') d g ?ctx = finish ?H ?env ?req d t None c"
    using s by (simp add: execute_step_def spend_wall_def mint_step_def) (simp add: audited_request_def)
  have "\<not> record_can_raise (re_write ?env) (cx_audit c)"
    unfolding w s(2) by (simp add: record_can_raise_def demo_run_env_def demo_env_def)
  moreover have "wf_request ?req" by (simp add: wf_request_def audited_request_def)
  ultimately obtain res lg where "finish ?H ?env ?req d t None c = (Inr res, c\<lparr>cx_audit := lg\<rparr>)" "xr_ok res"
      "xr_output_len res = length (utf8_encode t)"
    using finish_outcome [of ?req ?H ?env d t None c] by auto
  with n a e show ?thesis
    by (auto simp: stop_handler_def on_execution_def emergency_stop_def run_audited_def run_admit demo_surface_env_def Let_def not_less
        simp del: cx_max_output_bytes_def split: prod.splits)
qed

theorem answers_are_on_record_witness:
  "\<exists>t c. ts_handler (the (map_of (surface demo_validator (\<lambda>_. PNone)) ''emergency_stop'')) demo_surface_env
       \<lparr>co_request_id = None, co_client_id = None\<rparr> (Stop_args ''x'') demo_session = (Inr t, c) \<and> seq_of c = 1"
proof -
  let ?spec = "the (map_of (surface demo_validator (\<lambda>_. PNone)) ''emergency_stop'')"
  have m: "map_of (surface demo_validator (\<lambda>_. PNone)) ''emergency_stop'' = Some ?spec" and h: "ts_handler ?spec = stop_handler"
    by (simp_all add: surface_def specs_defs)
  have z: "seq_of demo_session = 0" by (simp add: seq_of_def demo_session_def new_logger_def)
  have ad: "su_adapters demo_surface_env = ADAPTERS demo_fs (\<lambda>_. True) None None None" by (simp add: demo_surface_env_def)
  obtain t c where r: "ts_handler ?spec demo_surface_env \<lparr>co_request_id = None, co_client_id = None\<rparr> (Stop_args ''x'') demo_session = (Inr t, c)"
    unfolding h using demo_stop_answers by blast
  from answers_are_on_record [OF m ad r] z r show ?thesis by auto
qed

end
