(* ===== verification/Config.thy ===== *)
theory Config
  imports Policy Json
begin

section \<open>Configuration and the transport guard (config.py)\<close>

text \<open>
  \<^verbatim>\<open>load_config\<close> reads the \<^verbatim>\<open>PRAXIS_\<close> variables of an environment into a frozen
  \<^verbatim>\<open>Config\<close> without ever raising; \<^verbatim>\<open>validate_transport\<close> is the guard that runs before anything
  is bound. The environment is the mapping from names to texts. The lemmas say what every loaded
  configuration satisfies and, composed with the guard, for which environments the server may bind a
  socket.
\<close>

definition LOOPBACK_HOSTS :: "string set" where
  "LOOPBACK_HOSTS = {''127.0.0.1'', ''::1'', ''localhost''}"

definition ALLOW_ANY_TOKEN :: string where
  "ALLOW_ANY_TOKEN = ''yes-i-understand-the-risk''"

definition DEFAULT_RETENTION_DAYS :: int where
  "DEFAULT_RETENTION_DAYS = 365"

record config =
  cf_transport :: string
  cf_http_host :: string
  cf_http_port :: int
  cf_http_token :: "string option"
  cf_allow_any :: bool
  cf_allow_restricted :: bool
  cf_store_dsn :: "string option"
  cf_mode :: mode
  cf_audit_path :: "string option"
  cf_evidence_path :: "string option"
  cf_evidence_every :: int
  cf_anchor_path :: "string option"
  cf_audit_retention_days :: int
  cf_evidence_retention_days :: int
  cf_audit_syslog_address :: "string option"
  cf_tsa_url :: "string option"
  cf_tsa_cert_path :: "string option"
  cf_playbook_root :: "string option"
  cf_runbook_root :: "string option"
  cf_tofu_root :: "string option"
  cf_kill_switch_path :: "string option"
  cf_max_actions :: "int option"
  cf_max_wall_seconds :: "int option"
  cf_approval_ttl_seconds :: int

definition http_is_loopback :: "config \<Rightarrow> bool" where
  "http_is_loopback cfg \<longleftrightarrow> cf_http_host cfg \<in> LOOPBACK_HOSTS"

definition retention_args :: "config \<Rightarrow> (string \<times> int) list" where
  "retention_args cfg =
     [(''audit_retention_days'', cf_audit_retention_days cfg),
      (''evidence_retention_days'', cf_evidence_retention_days cfg)]"

subsection \<open>Reading the environment\<close>

definition truthy :: "string option \<Rightarrow> bool" where
  "truthy value \<longleftrightarrow>
     (case value of None \<Rightarrow> False | Some s \<Rightarrow> py_lower (py_strip s) \<in> {''1'', ''true'', ''yes'', ''on''})"

definition root_or_none :: "string option \<Rightarrow> string option" where
  "root_or_none value =
     (case value of None \<Rightarrow> None | Some s \<Rightarrow> if py_strip s = [] then None else Some (py_strip s))"

text \<open>\<^verbatim>\<open>int(s)\<close> refuses a text of more than 4300 digits with the same
  \<^verbatim>\<open>ValueError\<close> as a text that is not a number.\<close>

definition INT_MAX_STR_DIGITS :: nat where
  "INT_MAX_STR_DIGITS = 4300"

definition env_int :: "string \<Rightarrow> int option" where
  "env_int s =
     (if INT_MAX_STR_DIGITS < length (filter is_digit s) then None
      else case int_of_str s of Inl _ \<Rightarrow> None | Inr i \<Rightarrow> Some i)"

definition safe_int :: "string option \<Rightarrow> int \<Rightarrow> int" where
  "safe_int value dflt =
     (case value of None \<Rightarrow> dflt | Some s \<Rightarrow> (case env_int s of None \<Rightarrow> dflt | Some i \<Rightarrow> i))"

definition interval_or_default :: "string option \<Rightarrow> int \<Rightarrow> int" where
  "interval_or_default value dflt =
     (let parsed = safe_int value dflt in if 0 \<le> parsed then parsed else dflt)"

definition positive_or_none :: "string option \<Rightarrow> int option" where
  "positive_or_none value =
     (let parsed = safe_int value 0 in if 0 < parsed then Some parsed else None)"

text \<open>\<^verbatim>\<open>(value or default)\<close> for a text.\<close>

definition text_or :: "string \<Rightarrow> string option \<Rightarrow> string" where
  "text_or dflt value = (case value of None \<Rightarrow> dflt | Some s \<Rightarrow> if s = [] then dflt else s)"

definition mode_of :: "string \<Rightarrow> mode" where
  "mode_of s =
     (if s = mode_value OPEN then OPEN else if s = mode_value READONLY then READONLY else GUARDED)"

definition env_get :: "(string \<times> string) list \<Rightarrow> string \<Rightarrow> string option" where
  "env_get env name = map_of env (''PRAXIS_'' @ name)"

definition get_or :: "(string \<times> string) list \<Rightarrow> string \<Rightarrow> string \<Rightarrow> string option" where
  "get_or env name dflt = (case env_get env name of None \<Rightarrow> Some dflt | Some s \<Rightarrow> Some s)"

definition load_config :: "(string \<times> string) list \<Rightarrow> config" where
  "load_config env =
     (let transport = py_lower (text_or ''stdio'' (get_or env ''TRANSPORT'' ''stdio''));
          mode = mode_of (py_lower (text_or ''guarded'' (get_or env ''MODE'' ''guarded'')));
          restricted_default = (if transport = ''stdio'' then ''true'' else ''false'');
          host = py_strip (text_or ''127.0.0.1'' (get_or env ''HTTP_HOST'' ''127.0.0.1''))
      in \<lparr>cf_transport = transport,
          cf_http_host = (if host = [] then ''127.0.0.1'' else host),
          cf_http_port = safe_int (get_or env ''HTTP_PORT'' ''8765'') 8765,
          cf_http_token = env_get env ''HTTP_TOKEN'',
          cf_allow_any = (env_get env ''HTTP_ALLOW_ANY'' = Some ALLOW_ANY_TOKEN),
          cf_allow_restricted = truthy (get_or env ''ALLOW_RESTRICTED'' restricted_default),
          cf_store_dsn = env_get env ''STORE_DSN'',
          cf_mode = mode,
          cf_audit_path = env_get env ''AUDIT_PATH'',
          cf_evidence_path = env_get env ''EVIDENCE_PATH'',
          cf_evidence_every = interval_or_default (env_get env ''EVIDENCE_EVERY'') 64,
          cf_anchor_path = env_get env ''ANCHOR_PATH'',
          cf_audit_retention_days = interval_or_default (env_get env ''AUDIT_RETENTION_DAYS'') DEFAULT_RETENTION_DAYS,
          cf_evidence_retention_days =
            interval_or_default (env_get env ''EVIDENCE_RETENTION_DAYS'') DEFAULT_RETENTION_DAYS,
          cf_audit_syslog_address = env_get env ''AUDIT_SYSLOG_ADDRESS'',
          cf_tsa_url = env_get env ''TSA_URL'',
          cf_tsa_cert_path = env_get env ''TSA_CERT'',
          cf_playbook_root = root_or_none (env_get env ''PLAYBOOK_ROOT''),
          cf_runbook_root = root_or_none (env_get env ''RUNBOOK_ROOT''),
          cf_tofu_root = root_or_none (env_get env ''TOFU_ROOT''),
          cf_kill_switch_path = env_get env ''KILL_SWITCH_PATH'',
          cf_max_actions = positive_or_none (env_get env ''MAX_ACTIONS''),
          cf_max_wall_seconds = positive_or_none (env_get env ''MAX_WALL_SECONDS''),
          cf_approval_ttl_seconds = max 1 (safe_int (get_or env ''APPROVAL_TTL_SECONDS'' ''600'') 600)\<rparr>)"

subsection \<open>The transport guard\<close>

definition validate_transport :: "config \<Rightarrow> string + unit" where
  "validate_transport cfg =
     (if cf_transport cfg = ''stdio'' then Inr ()
      else if cf_transport cfg \<noteq> ''http'' then Inl (''unknown transport: '' @ repr_str (cf_transport cfg))
      else if cf_http_token cfg = None \<or> cf_http_token cfg = Some []
      then Inl ''HTTP transport requires PRAXIS_HTTP_TOKEN (no token, no bind)''
      else if \<not> (1 \<le> cf_http_port cfg \<and> cf_http_port cfg \<le> 65535)
      then Inl (''HTTP port out of range (1-65535): '' @ int_str (cf_http_port cfg))
      else if \<not> http_is_loopback cfg \<and> \<not> cf_allow_any cfg
      then Inl (''non-loopback HTTP bind requires PRAXIS_HTTP_ALLOW_ANY='' @ repr_str ALLOW_ANY_TOKEN @
             ''; the token alone does not authorize off-host exposure'')
      else Inr ())"

subsection \<open>What every loaded configuration satisfies\<close>

text \<open>The ranges the rest of the server relies on: intervals and retention periods are not negative,
  a ceiling that is set is positive, an approval lives at least a second, and a confinement root is
  absent or a text with no white space around it that is not empty.\<close>

definition set_root :: "string option \<Rightarrow> bool" where
  "set_root r \<longleftrightarrow> (case r of None \<Rightarrow> True | Some s \<Rightarrow> s \<noteq> [] \<and> py_strip s = s)"

definition positive :: "int option \<Rightarrow> bool" where
  "positive m \<longleftrightarrow> (case m of None \<Rightarrow> True | Some i \<Rightarrow> 0 < i)"

definition wf_config :: "config \<Rightarrow> bool" where
  "wf_config cfg \<longleftrightarrow>
     cf_transport cfg \<noteq> [] \<and> cf_http_host cfg \<noteq> [] \<and> py_strip (cf_http_host cfg) = cf_http_host cfg \<and>
     0 \<le> cf_evidence_every cfg \<and> 0 \<le> cf_audit_retention_days cfg \<and> 0 \<le> cf_evidence_retention_days cfg \<and>
     set_root (cf_playbook_root cfg) \<and> set_root (cf_runbook_root cfg) \<and> set_root (cf_tofu_root cfg) \<and>
     positive (cf_max_actions cfg) \<and> positive (cf_max_wall_seconds cfg) \<and> 1 \<le> cf_approval_ttl_seconds cfg"

lemma text_or_not_Nil: "dflt \<noteq> [] \<Longrightarrow> text_or dflt value \<noteq> []"
  by (simp add: text_or_def split: option.splits)

lemma interval_nonneg: "0 \<le> dflt \<Longrightarrow> 0 \<le> interval_or_default value dflt"
  by (simp add: interval_or_default_def Let_def)

lemma positive_positive: "positive (positive_or_none value)"
  by (simp add: positive_def positive_or_none_def Let_def)

lemma set_root_root: "set_root (root_or_none value)"
  by (simp add: set_root_def root_or_none_def split: option.splits)

lemma py_lower_Nil [simp]: "py_lower s = [] \<longleftrightarrow> s = []"
  by (simp add: py_lower_def)

lemma loopback_strip: "py_strip ''127.0.0.1'' = ''127.0.0.1''"
  by code_simp

text \<open>Only an explicit zero, or a text that is a number and zero, switches the runtime evidence off.\<close>

lemma interval_zero:
  "dflt \<noteq> 0 \<Longrightarrow> 0 \<le> dflt \<Longrightarrow>
   interval_or_default value dflt = 0 \<longleftrightarrow> (\<exists>s. value = Some s \<and> env_int s = Some 0)"
  by (auto simp: interval_or_default_def safe_int_def Let_def split: option.splits if_splits)

lemma evidence_off:
  "cf_evidence_every (load_config env) = 0 \<longleftrightarrow>
   (\<exists>s. env_get env ''EVIDENCE_EVERY'' = Some s \<and> env_int s = Some 0)"
  by (simp add: load_config_def Let_def interval_zero)

text \<open>Restricted rows are shown over stdio and withheld over any other transport unless the
  environment says otherwise.\<close>

lemma restricted_default:
  "env_get env ''ALLOW_RESTRICTED'' = None \<Longrightarrow>
   cf_allow_restricted (load_config env) \<longleftrightarrow> cf_transport (load_config env) = ''stdio''"
proof -
  have t: "truthy (Some ''true'')" "\<not> truthy (Some ''false'')" by code_simp+
  assume "env_get env ''ALLOW_RESTRICTED'' = None"
  then show ?thesis by (simp add: load_config_def Let_def get_or_def t)
qed

lemma load_config_wf: "wf_config (load_config env)"
  unfolding wf_config_def load_config_def Let_def
  using text_or_not_Nil [of "''stdio''" "get_or env ''TRANSPORT'' ''stdio''"]
  by (simp add: interval_nonneg positive_positive set_root_root loopback_strip DEFAULT_RETENTION_DAYS_def)

text \<open>C37: Whatever the environment holds, the configuration built from it is well formed: the host and
  the transport are not empty and the host has no white space around it, the evidence interval and both
  retention periods are not negative, each action and wall ceiling is absent or positive, an approval
  lives at least one second, and each confinement root is absent or a stripped text that is not empty (so
  an empty variable cannot widen the confinement to the working directory).\<close>

theorem load_config_typed: "wf_config (load_config env)"
  by (rule load_config_wf)

text \<open>The transport guard accepts the configuration of an environment exactly when the transport is
  stdio, or it is http with a token that is set and not empty, a port between 1 and 65535, and a host
  that is a loopback name or the literal opt-in in \<^verbatim>\<open>PRAXIS_HTTP_ALLOW_ANY\<close>.\<close>

theorem transport_guard_exact:
  "validate_transport (load_config env) = Inr () \<longleftrightarrow>
   cf_transport (load_config env) = ''stdio'' \<or>
   (cf_transport (load_config env) = ''http'' \<and>
    (\<exists>tok. map_of env ''PRAXIS_HTTP_TOKEN'' = Some tok \<and> tok \<noteq> []) \<and>
    cf_http_port (load_config env) \<in> {1..65535} \<and>
    (cf_http_host (load_config env) \<in> {''127.0.0.1'', ''::1'', ''localhost''} \<or>
     map_of env ''PRAXIS_HTTP_ALLOW_ANY'' = Some ''yes-i-understand-the-risk''))"
proof -
  have "cf_http_token (load_config env) = map_of env ''PRAXIS_HTTP_TOKEN''"
    and "cf_allow_any (load_config env) \<longleftrightarrow> map_of env ''PRAXIS_HTTP_ALLOW_ANY'' = Some ''yes-i-understand-the-risk''"
    by (simp_all add: load_config_def Let_def env_get_def ALLOW_ANY_TOKEN_def)
  then show ?thesis
    by (auto simp: validate_transport_def http_is_loopback_def LOOPBACK_HOSTS_def)
qed

end
