(* ===== verification/Server.thy ===== *)
theory Server
  imports Registry Config
begin

section \<open>MCP dispatch and the stdio transport (server.py)\<close>

text \<open>
  \<^verbatim>\<open>mcp_handle\<close> answers one JSON-RPC message; \<^verbatim>\<open>StdioServer.serve\<close> reads messages from a
  text stream with bounded reads, one per line, until the stream ends. The stream is the text that is
  left to read. What varies from message to message is given by \<open>envs\<close>, indexed by the number of
  lines read so far; \<open>deep\<close> tells which texts exhaust the recursion limit of the decoder.
\<close>

definition MCP_PROTOCOL_VERSION :: string where
  "MCP_PROTOCOL_VERSION = ''2025-11-25''"

definition SERVER_INFO :: pyval where
  "SERVER_INFO = PDict [(''name'', PStr ''praxis''), (''version'', PStr ''0.0.0'')]"

definition MAX_LINE_CHARS :: nat where
  "MAX_LINE_CHARS = 16 * 1024 * 1024"

subsection \<open>Replies\<close>

definition rpc_error :: "pyval \<Rightarrow> int \<Rightarrow> string \<Rightarrow> pyval" where
  "rpc_error mid code message =
     PDict [(''jsonrpc'', PStr ''2.0''), (''id'', mid),
            (''error'', PDict [(''code'', PInt code), (''message'', PStr message)])]"

definition rpc_result :: "pyval \<Rightarrow> pyval \<Rightarrow> pyval" where
  "rpc_result mid result = PDict [(''jsonrpc'', PStr ''2.0''), (''id'', mid), (''result'', result)]"

definition content :: "string \<Rightarrow> bool \<Rightarrow> pyval" where
  "content text is_error =
     PDict [(''content'', PList [PDict [(''type'', PStr ''text''), (''text'', PStr text)]]), (''isError'', PBool is_error)]"

definition tool_error :: "string \<Rightarrow> pyval" where
  "tool_error message = content message True"

text \<open>\<^verbatim>\<open>json.dumps(payload)\<close>, the members in the order of the dict; \<open>None\<close> is a value without
  a JSON form.\<close>

fun dumps_plain :: "pyval \<Rightarrow> string option" where
  "dumps_plain PNone = Some ''null''"
| "dumps_plain (PBool b) = Some (if b then ''true'' else ''false'')"
| "dumps_plain (PInt i) = Some (int_str i)"
| "dumps_plain (PFloat f) = Some f"
| "dumps_plain (PStr s) = Some (dumps_str True s)"
| "dumps_plain (PList vs) =
     map_option (\<lambda>ts. ''['' @ py_join '', '' ts @ '']'') (those (map dumps_plain vs))"
| "dumps_plain (PDict kvs) =
     map_option (\<lambda>ts. ''{'' @ py_join '', '' ts @ ''}'')
       (those (map (\<lambda>(k, v). map_option (\<lambda>t. dumps_str True k @ '': '' @ t) (dumps_plain v)) kvs))"
| "dumps_plain (POpaque _) = None"

definition write_line :: "pyval \<Rightarrow> string option" where
  "write_line payload = map_option (\<lambda>t. t @ [CHR ''\<newline>'']) (dumps_plain payload)"

subsection \<open>Dispatch\<close>

definition mcp_call ::
  "pyval option \<Rightarrow> 'e \<Rightarrow> correlation \<Rightarrow> ('e, 'm, 'c) registry \<Rightarrow> 'c \<Rightarrow> pyval \<times> 'c" where
  "mcp_call params env corr reg ctx =
     (case params of
        Some (PDict ps) \<Rightarrow>
          (case map_of ps ''name'' of
             Some (PStr name) \<Rightarrow>
               (let args = (case map_of ps ''arguments'' of Some (PDict a) \<Rightarrow> a | _ \<Rightarrow> [])
                in case registry_call name args env corr reg ctx of
                     (Inl exc, ctx') \<Rightarrow> (tool_error (bounded_error exc), ctx')
                   | (Inr text, ctx') \<Rightarrow> (content text False, ctx'))
           | _ \<Rightarrow> (tool_error ''missing tool name'', ctx))
      | _ \<Rightarrow> (tool_error ''missing params'', ctx))"

definition initialize_result :: pyval where
  "initialize_result =
     PDict [(''protocolVersion'', PStr MCP_PROTOCOL_VERSION), (''capabilities'', PDict [(''tools'', PDict [])]),
            (''serverInfo'', SERVER_INFO)]"

text \<open>A missing \<^verbatim>\<open>method\<close> is Python's \<^verbatim>\<open>None\<close>.\<close>

definition message_method :: "args \<Rightarrow> pyval" where
  "message_method message = (case map_of message ''method'' of None \<Rightarrow> PNone | Some m \<Rightarrow> m)"

definition mcp_handle ::
  "args \<Rightarrow> pyval \<Rightarrow> 'e \<Rightarrow> ('e, 'm, 'c) registry \<Rightarrow> 'c \<Rightarrow> pyval option \<times> 'c" where
  "mcp_handle message client_id env reg ctx =
     (case map_of message ''id'' of
        None \<Rightarrow> (None, ctx)
      | Some mid \<Rightarrow>
          (let m = message_method message
           in if m = PStr ''initialize'' then (Some (rpc_result mid initialize_result), ctx)
              else if m = PStr ''tools/list''
              then (Some (rpc_result mid (PDict [(''tools'', PList (map to_mcp (tool_specs reg)))])), ctx)
              else if m = PStr ''tools/call''
              then (let (result, ctx') = request_scope mid client_id
                          (\<lambda>corr. mcp_call (map_of message ''params'') env corr reg ctx)
                    in (Some (rpc_result mid result), ctx'))
              else (Some (rpc_error mid (-32601) (''method not found: '' @ py_repr m)), ctx)))"

subsection \<open>The stdio loop\<close>

text \<open>\<^verbatim>\<open>source.readline(n)\<close>: at most \<open>n\<close> characters, up to and including the first newline.\<close>

fun first_line :: "string \<Rightarrow> string" where
  "first_line [] = []"
| "first_line (c # cs) = (if c = CHR ''\<newline>'' then [c] else c # first_line cs)"

definition readline :: "nat \<Rightarrow> string \<Rightarrow> string \<times> string" where
  "readline n s = (take n (first_line s), drop (length (take n (first_line s))) s)"

definition ends_line :: "string \<Rightarrow> bool" where
  "ends_line s \<longleftrightarrow> s \<noteq> [] \<and> last s = CHR ''\<newline>''"

lemma readline_shrinks: "fst (readline (Suc n) s) \<noteq> [] \<Longrightarrow> length (snd (readline (Suc n) s)) < length s"
  by (cases s) (auto simp: readline_def)

lemma readline_less: "(chunk, r) = readline (Suc n) s \<Longrightarrow> chunk \<noteq> [] \<Longrightarrow> length r < length s"
  by (metis fst_conv snd_conv readline_shrinks)

text \<open>\<^verbatim>\<open>_drain_line\<close>: the text behind the rest of an oversize line.\<close>

function drain_line :: "nat \<Rightarrow> string \<Rightarrow> string" where
  "drain_line cap s =
     (let (chunk, r) = readline (Suc cap) s
      in if chunk = [] \<or> ends_line chunk then r else drain_line cap r)"
  by pat_completeness auto
termination
  by (relation "measure (\<lambda>(cap, s). length s)") (auto dest: readline_less)

declare drain_line.simps [simp del]


lemma drain_line_le: "length (drain_line cap s) \<le> length s"
proof (induction cap s rule: drain_line.induct)
  case (1 cap s)
  obtain chunk r where rl: "readline (Suc cap) s = (chunk, r)" by fastforce
  then have "length r \<le> length s" by (auto simp: readline_def)
  then show ?case
    using "1.IH" [OF rl [symmetric] refl] rl by (auto simp: drain_line.simps [of cap s])
qed

text \<open>One line: silence, a reply, or an exception no handler of the loop catches. The decoder raises
  \<^verbatim>\<open>JSONDecodeError\<close> and \<^verbatim>\<open>RecursionError\<close>, which the loop catches, and the plain
  \<^verbatim>\<open>ValueError\<close> of an integer literal over the digit limit, which it does not.\<close>

datatype line_outcome =
    Silent
  | Reply pyval
  | Value_error
  | Beyond             \<comment> \<open>a text outside the character range of the model\<close>

definition over_digit_limit :: "nat \<Rightarrow> bool" where
  "over_digit_limit n \<longleftrightarrow> INT_MAX_STR_DIGITS < n"

definition handle_line ::
  "(string \<Rightarrow> bool) \<Rightarrow> ('e, 'm, 'c) registry \<Rightarrow> 'e \<Rightarrow> string \<Rightarrow> 'c \<Rightarrow> line_outcome \<times> 'c" where
  "handle_line deep reg env line ctx =
     (let stripped = py_strip line
      in if stripped = [] then (Silent, ctx)
         else if deep stripped then (Reply (rpc_error PNone (-32700) ''parse error: input too deeply nested''), ctx)
         else case loads_in over_digit_limit stripped of
           Inl JSONDecodeError \<Rightarrow> (Reply (rpc_error PNone (-32700) ''parse error''), ctx)
         | Inl Int_digits_error \<Rightarrow> (Value_error, ctx)
         | Inl _ \<Rightarrow> (Beyond, ctx)
         | Inr (PDict message) \<Rightarrow>
             (case mcp_handle message PNone env reg ctx of
                (None, ctx') \<Rightarrow> (Silent, ctx')
              | (Some response, ctx') \<Rightarrow> (Reply response, ctx'))
         | Inr _ \<Rightarrow> (Reply (rpc_error PNone (-32600) ''invalid request''), ctx))"

datatype serve_end = Eof | Raised_value_error | Beyond_model

definition too_large :: pyval where
  "too_large = rpc_error PNone (-32600) ''request too large''"

function serve_loop ::
  "(string \<Rightarrow> bool) \<Rightarrow> ('e, 'm, 'c) registry \<Rightarrow> (nat \<Rightarrow> 'e) \<Rightarrow> nat \<Rightarrow> nat \<Rightarrow> string \<Rightarrow> 'c \<Rightarrow>
   serve_end \<times> pyval list \<times> 'c" where
  "serve_loop deep reg envs cap n s ctx =
     (let (line, r) = readline (Suc cap) s
      in if line = [] then (Eof, [], ctx)
         else if cap < length line \<and> \<not> ends_line line
         then (case serve_loop deep reg envs cap (Suc n) (drain_line cap r) ctx of
                 (e, out, ctx') \<Rightarrow> (e, too_large # out, ctx'))
         else case handle_line deep reg (envs n) line ctx of
           (Silent, ctx1) \<Rightarrow> serve_loop deep reg envs cap (Suc n) r ctx1
         | (Reply p, ctx1) \<Rightarrow>
             (case serve_loop deep reg envs cap (Suc n) r ctx1 of (e, out, ctx') \<Rightarrow> (e, p # out, ctx'))
         | (Value_error, ctx1) \<Rightarrow> (Raised_value_error, [], ctx1)
         | (Beyond, ctx1) \<Rightarrow> (Beyond_model, [], ctx1))"
  by pat_completeness auto
termination
proof (relation "measure (\<lambda>(deep, reg, envs, cap, n, s, ctx). length s)", goal_cases)
  case (2 deep reg envs cap n s ctx x line r)
  then have "length r < length s" by (auto dest: readline_less)
  then show ?case using drain_line_le [of cap r] by simp
qed (auto dest: readline_less)

declare serve_loop.simps [simp del]

subsection \<open>The lines of a stream\<close>

text \<open>The loop without its bounded reads: the stream cut into lines, each handled on its own.\<close>

lemma first_line_not_Nil [simp]: "first_line s = [] \<longleftrightarrow> s = []"
  by (cases s) auto

lemma first_line_le: "length (first_line s) \<le> length s"
  by (induction s) auto

function stream_lines :: "string \<Rightarrow> string list" where
  "stream_lines s = (if s = [] then [] else first_line s # stream_lines (drop (length (first_line s)) s))"
  by pat_completeness auto
termination
  by (relation "measure length") auto

declare stream_lines.simps [simp del]

definition line_body :: "string \<Rightarrow> string" where
  "line_body l = (if ends_line l then butlast l else l)"

fun serve_lines ::
  "(string \<Rightarrow> bool) \<Rightarrow> ('e, 'm, 'c) registry \<Rightarrow> (nat \<Rightarrow> 'e) \<Rightarrow> nat \<Rightarrow> nat \<Rightarrow> string list \<Rightarrow> 'c \<Rightarrow>
   serve_end \<times> pyval list \<times> 'c" where
  "serve_lines deep reg envs cap n [] ctx = (Eof, [], ctx)"
| "serve_lines deep reg envs cap n (l # ls) ctx =
     (if cap < length (line_body l)
      then (case serve_lines deep reg envs cap (Suc n) ls ctx of (e, out, ctx') \<Rightarrow> (e, too_large # out, ctx'))
      else case handle_line deep reg (envs n) l ctx of
        (Silent, ctx1) \<Rightarrow> serve_lines deep reg envs cap (Suc n) ls ctx1
      | (Reply p, ctx1) \<Rightarrow>
          (case serve_lines deep reg envs cap (Suc n) ls ctx1 of (e, out, ctx') \<Rightarrow> (e, p # out, ctx'))
      | (Value_error, ctx1) \<Rightarrow> (Raised_value_error, [], ctx1)
      | (Beyond, ctx1) \<Rightarrow> (Beyond_model, [], ctx1))"

lemma first_line_cut: "k < length (first_line s) \<Longrightarrow> \<not> ends_line (take k (first_line s))"
proof (induction s arbitrary: k)
  case (Cons c s)
  show ?case
  proof (cases k)
    case (Suc j)
    with Cons show ?thesis by (cases "take j (first_line s) = []") (auto simp: ends_line_def split: if_splits)
  qed (simp add: ends_line_def)
qed simp

lemma first_line_drop: "k < length (first_line s) \<Longrightarrow> first_line (drop k s) = drop k (first_line s)"
proof (induction s arbitrary: k)
  case (Cons c s)
  then show ?case by (cases k) (auto split: if_splits)
qed simp

lemma first_line_open: "\<not> ends_line (first_line s) \<Longrightarrow> first_line s = s"
  by (induction s) (auto simp: ends_line_def split: if_splits)

lemma drain_line_first: "drain_line cap s = drop (length (first_line s)) s"
proof (induction cap s rule: drain_line.induct)
  case (1 cap s)
  let ?l = "first_line s" and ?k = "length (take (Suc cap) (first_line s))"
  have rl: "readline (Suc cap) s = (take (Suc cap) ?l, drop ?k s)" by (simp add: readline_def)
  show ?case
  proof (cases "s = [] \<or> ends_line (take (Suc cap) ?l)")
    case True
    have "?k = length ?l"
    proof (cases "s = []")
      case False
      with True first_line_cut [of "Suc cap" s] show ?thesis by fastforce
    qed simp
    with True show ?thesis by (auto simp: drain_line.simps [of cap s] rl)
  next
    case False
    then have d: "drain_line cap s = drop (length (first_line (drop ?k s))) (drop ?k s)"
      using "1.IH" [OF rl [symmetric] refl] by (simp add: drain_line.simps [of cap s] rl)
    show ?thesis
    proof (cases "?k < length ?l")
      case True
      then have "first_line (drop ?k s) = drop ?k ?l" by (rule first_line_drop)
      then have e: "length (first_line (drop ?k s)) + ?k = length ?l" using True by simp
      show ?thesis unfolding d drop_drop e by (rule refl)
    next
      case k: False
      then have "take (Suc cap) ?l = ?l" by simp
      with False first_line_open [of s] have "?l = s" "?k = length s" by simp_all
      with d show ?thesis by simp
    qed
  qed
qed

text \<open>C23: Reading the stream in bounded pieces loses and joins nothing: for every bound, serving a stream
  is handling its lines one after the other in order, an oversize line (judged by its text without the
  newline) being refused as one message whatever it is followed by, and the lines behind it being read
  from their first character. In particular the loop, the draining of oversize lines included, ends on
  every stream.\<close>

theorem serve_by_lines:
  "serve_loop deep reg envs cap n s ctx = serve_lines deep reg envs cap n (stream_lines s) ctx"
proof (induction "length s" arbitrary: n s ctx rule: less_induct)
  case less
  show ?case
  proof (cases "s = []")
    case True
    then show ?thesis by (simp add: serve_loop.simps [of deep reg envs cap n "[]"] stream_lines.simps readline_def)
  next
    case False
    let ?l = "first_line s" and ?k = "length (take (Suc cap) (first_line s))"
    let ?r = "drop (length ?l) s"
    have rl: "readline (Suc cap) s = (take (Suc cap) ?l, drop ?k s)" by (simp add: readline_def)
    have IH: "serve_loop deep reg envs cap m ?r c = serve_lines deep reg envs cap m (stream_lines ?r) c" for m c
      using less [of ?r] False by simp
    have sl: "stream_lines s = ?l # stream_lines ?r" using False by (simp add: stream_lines.simps [of s])
    show ?thesis
    proof (cases "cap < length (line_body ?l)")
      case True
      have over: "cap < length (take (Suc cap) ?l) \<and> \<not> ends_line (take (Suc cap) ?l)"
        using True first_line_cut [of "Suc cap" s] by (cases "Suc cap < length ?l") (auto simp: line_body_def split: if_splits)
      have "drain_line cap (drop ?k s) = ?r"
      proof (cases "Suc cap < length ?l")
        case True
        then have e: "length (first_line (drop ?k s)) + ?k = length ?l"
          using first_line_drop [of "Suc cap" s] by simp
        show ?thesis unfolding drain_line_first drop_drop e by (rule refl)
      next
        case short: False
        then have t: "take (Suc cap) ?l = ?l" by simp
        with over first_line_open [of s] have "?l = s" by simp
        with t show ?thesis by (simp add: drain_line_first)
      qed
      with over False True IH show ?thesis
        by (simp add: serve_loop.simps [of deep reg envs cap n s] rl sl)
    next
      case fits: False
      have t: "take (Suc cap) ?l = ?l"
        using fits by (auto simp: line_body_def split: if_splits)
      have k: "\<not> (cap < length ?l \<and> \<not> ends_line ?l)" using fits by (auto simp: line_body_def split: if_splits)
      have ne: "?l \<noteq> []" using False by simp
      show ?thesis
        unfolding serve_loop.simps [of deep reg envs cap n s] sl serve_lines.simps(2) rl t Let_def prod.case
          if_not_P [OF ne] if_not_P [OF k] if_not_P [OF fits] IH by (rule refl)
    qed
  qed
qed

subsection \<open>What a message may do\<close>

definition reply_id :: "pyval \<Rightarrow> pyval option" where
  "reply_id p = (case p of PDict kvs \<Rightarrow> map_of kvs ''id'' | _ \<Rightarrow> None)"

definition is_reply :: "pyval \<Rightarrow> bool" where
  "is_reply p \<longleftrightarrow> (\<exists>mid r. p = rpc_result mid r) \<or> (\<exists>mid code msg. p = rpc_error mid code msg)"

lemma rpc_reply [simp]:
  "reply_id (rpc_result mid r) = Some mid" "reply_id (rpc_error mid code msg) = Some mid"
  "is_reply (rpc_result mid r)" "is_reply (rpc_error mid code msg)"
  by (auto simp: reply_id_def is_reply_def rpc_result_def rpc_error_def)

lemma mcp_handle_notification: "map_of message ''id'' = None \<Longrightarrow> mcp_handle message cid env reg ctx = (None, ctx)"
  by (simp add: mcp_handle_def)

lemma mcp_handle_request:
  "map_of message ''id'' = Some mid \<Longrightarrow>
   \<exists>p ctx'. mcp_handle message cid env reg ctx = (Some p, ctx') \<and> is_reply p \<and> reply_id p = Some mid"
  by (auto simp: mcp_handle_def request_scope_def Let_def split: prod.splits)

lemma mcp_call_context:
  assumes "snd (mcp_call params env corr reg ctx) \<noteq> ctx"
  obtains ps name spec m where "params = Some (PDict ps)" and "map_of ps ''name'' = Some (PStr name)"
    and "map_of reg name = Some spec"
    and "ts_validate spec (case map_of ps ''arguments'' of Some (PDict a) \<Rightarrow> a | _ \<Rightarrow> []) = Inr m"
    and "snd (mcp_call params env corr reg ctx) = snd (ts_handler spec env corr m ctx)"
proof -
  obtain ps name where p: "params = Some (PDict ps)" "map_of ps ''name'' = Some (PStr name)"
    using assms unfolding mcp_call_def by (auto split: option.splits pyval.splits)
  let ?a = "case map_of ps ''arguments'' of Some (PDict a) \<Rightarrow> a | _ \<Rightarrow> []"
  have c: "snd (mcp_call params env corr reg ctx) = snd (registry_call name ?a env corr reg ctx)"
    by (simp add: mcp_call_def p Let_def split: prod.splits sum.splits)
  show thesis
  proof (cases "map_of reg name")
    case None
    with assms c show thesis by (simp add: registry_call_def)
  next
    case (Some spec)
    show thesis
    proof (cases "ts_validate spec ?a")
      case (Inl e)
      with assms c Some show thesis by (simp add: registry_call_def)
    next
      case (Inr m)
      from call_known [OF Some Inr] c have "snd (mcp_call params env corr reg ctx) = snd (ts_handler spec env corr m ctx)" by simp
      with p Some Inr show thesis by (rule that)
    qed
  qed
qed

text \<open>C22: A message changes the session only through a tool: if it does, it carries an id (a notification
  never acts), its method is \<^verbatim>\<open>tools/call\<close>, it names a registered tool, the arguments passed the
  validation of that tool, and what happened is one call of the handler of that tool, with the validated
  arguments and with the message id and the client id, each stripped, at most 128 characters long and
  never empty, as the correlation identifiers in force.\<close>

theorem only_valid_calls_act:
  assumes "mcp_handle message client_id env reg ctx = (response, ctx')" and "ctx' \<noteq> ctx"
  shows "\<exists>mid ps name spec m. map_of message ''id'' = Some mid \<and> map_of message ''method'' = Some (PStr ''tools/call'') \<and>
     map_of message ''params'' = Some (PDict ps) \<and> map_of ps ''name'' = Some (PStr name) \<and> map_of reg name = Some spec \<and>
     ts_validate spec (case map_of ps ''arguments'' of Some (PDict a) \<Rightarrow> a | _ \<Rightarrow> []) = Inr m \<and>
     ctx' = snd (ts_handler spec env \<lparr>co_request_id = bound_id mid, co_client_id = bound_id client_id\<rparr> m ctx)"
proof -
  obtain mid where i: "map_of message ''id'' = Some mid"
    using assms by (cases "map_of message ''id''") (auto simp: mcp_handle_def)
  have m: "message_method message = PStr ''tools/call''"
    using assms i by (auto simp: mcp_handle_def Let_def split: if_splits)
  then have m': "map_of message ''method'' = Some (PStr ''tools/call'')"
    by (auto simp: message_method_def split: option.splits)
  let ?corr = "\<lparr>co_request_id = bound_id mid, co_client_id = bound_id client_id\<rparr>"
  have c: "ctx' = snd (mcp_call (map_of message ''params'') env ?corr reg ctx)"
    using assms(1) i m by (auto simp: mcp_handle_def request_scope_def Let_def split: prod.splits)
  then have "snd (mcp_call (map_of message ''params'') env ?corr reg ctx) \<noteq> ctx" using assms(2) by simp
  then show ?thesis by (rule mcp_call_context) (use i m' c in blast)
qed

subsection \<open>Replies can be written\<close>

text \<open>A value read from a text, and a reply built from one, always has a JSON text.\<close>

lemma those_defined: "\<forall>x \<in> set xs. f x \<noteq> None \<Longrightarrow> those (map f xs) \<noteq> None"
  by (induction xs) auto

lemma dumps_plain_defined: "opaques v = {} \<Longrightarrow> dumps_plain v \<noteq> None"
proof (induction v)
  case (PList vs)
  then have "those (map dumps_plain vs) \<noteq> None" by (intro those_defined) auto
  then show ?case by simp
next
  case (PDict kvs)
  have "dumps_plain v \<noteq> None" if "(k, v) \<in> set kvs" for k v
    using PDict.IH [OF that, of v] PDict.prems that by auto
  then have "those (map (\<lambda>(k, v). map_option (\<lambda>t. dumps_str True k @ '': '' @ t) (dumps_plain v)) kvs) \<noteq> None"
    by (intro those_defined) auto
  then show ?case by simp
qed simp_all

lemma fold_update_values:
  "snd ` set (fold (\<lambda>(k, v) d. AList.update k v d) kvs d) \<subseteq> snd ` set kvs \<union> snd ` set d"
proof (induction kvs arbitrary: d)
  case (Cons p kvs)
  obtain k v where p: "p = (k, v)" by fastforce
  have "snd ` set (AList.update k v d) \<subseteq> insert v (snd ` set d)"
    by (induction d) auto
  with Cons [of "AList.update k v d"] show ?case by (auto simp: p)
qed simp

lemma scan_number_closed: "scan_number s = Some (v, r) \<Longrightarrow> opaques v = {}"
  by (auto simp: scan_number_def Let_def split: option.splits prod.splits if_splits)

lemma scan_atom_closed: "scan_atom s = Inr (v, r) \<Longrightarrow> opaques v = {}"
  by (auto simp: scan_atom_in_def split: if_splits option.splits dest: scan_number_closed)

lemma scan_closed:
  "scan_value n s = Inr (v, r) \<Longrightarrow> opaques v = {}"
  "scan_items n s = Inr (vs, r) \<Longrightarrow> \<forall>v \<in> set vs. opaques v = {}"
  "scan_members n s = Inr (kvs, r) \<Longrightarrow> \<forall>v \<in> snd ` set kvs. opaques v = {}"
proof (induction n arbitrary: s v vs kvs r)
  case 0
  { case 1 then show ?case by simp }
  { case 2 then show ?case by simp }
  { case 3 then show ?case by simp }
next
  case (Suc n)
  { case 1
    have d: "opaques (PDict (fold (\<lambda>(k, v) d. AList.update k v d) kvs [])) = {}"
      if "scan_members n s' = Inr (kvs, r')" for s' kvs r'
      using Suc.IH(3) [OF that] fold_update_values [of kvs "[]"] by fastforce
    have nil: "opaques (PDict []) = {}" by simp
    from 1 show ?case
      by (auto split: list.splits if_splits sum.splits prod.splits simp del: opaques.simps(2)
          simp: nil d dest: Suc.IH(2) scan_atom_closed) }
  { case 2 then show ?case
      by (fastforce split: list.splits if_splits sum.splits prod.splits dest: Suc.IH(1,2)) }
  { case 3 then show ?case
      by (fastforce split: list.splits if_splits sum.splits prod.splits dest: Suc.IH(1,3)) }
qed

lemma loads_closed: "loads s = Inr v \<Longrightarrow> opaques v = {}"
  by (auto simp: loads_def loads_in_def simp del: scan_value_in.simps split: sum.splits if_splits dest: scan_closed(1))

definition plain_schemas :: "('e, 'm, 'c) registry \<Rightarrow> bool" where
  "plain_schemas reg \<longleftrightarrow> (\<forall>spec \<in> snd ` set reg. opaques (ts_schema spec) = {})"

lemma tool_specs_set: "set (tool_specs reg) \<subseteq> snd ` set reg"
proof
  fix spec assume "spec \<in> set (tool_specs reg)"
  then obtain name where n: "name \<in> set (keys reg)" "spec = the (map_of reg name)"
    by (auto simp: tool_specs_def tool_names_def)
  then obtain sp where "map_of reg name = Some sp" by (cases "map_of reg name") (auto simp: map_of_eq_None_iff)
  with n show "spec \<in> snd ` set reg" by (force dest: map_of_SomeD)
qed

lemma mcp_call_closed: "mcp_call params env corr reg ctx = (x, ctx') \<Longrightarrow> opaques x = {}"
  by (auto simp: mcp_call_def content_def tool_error_def Let_def split: option.splits pyval.splits prod.splits sum.splits)

lemma mcp_handle_writable:
  assumes "mcp_handle message cid env reg ctx = (Some p, ctx')" and "plain_schemas reg" and "opaques (PDict message) = {}"
  shows "write_line p \<noteq> None"
proof -
  obtain mid where i: "map_of message ''id'' = Some mid"
    using assms(1) by (cases "map_of message ''id''") (simp_all add: mcp_handle_def)
  then have m: "opaques mid = {}" using assms(3) by (fastforce dest: map_of_SomeD)
  have l: "opaques (PDict [(''tools'', PList (map to_mcp (tool_specs reg)))]) = {}"
  proof -
    have "\<forall>spec \<in> set (tool_specs reg). opaques (to_mcp spec) = {}"
      using assms(2) tool_specs_set [of reg] by (fastforce simp: plain_schemas_def to_mcp_def)
    then show ?thesis by simp
  qed
  have "opaques p = {}"
    using assms(1) i m l
    by (auto simp: mcp_handle_def Let_def request_scope_def rpc_result_def rpc_error_def initialize_result_def SERVER_INFO_def
        dest: mcp_call_closed split: if_splits prod.splits)
  then show ?thesis using dumps_plain_defined [of p] by (simp add: write_line_def)
qed

subsection \<open>Every request is answered\<close>

text \<open>The identifiers a line is owed: none for a blank line or a notification, a null one where no
  message could be read, its own for a message.\<close>

definition line_ids :: "(string \<Rightarrow> bool) \<Rightarrow> nat \<Rightarrow> string \<Rightarrow> pyval list" where
  "line_ids deep cap l =
     (if cap < length (line_body l) then [PNone]
      else if py_strip l = [] then []
      else if deep (py_strip l) then [PNone]
      else case loads (py_strip l) of
        Inr (PDict message) \<Rightarrow> (case map_of message ''id'' of None \<Rightarrow> [] | Some mid \<Rightarrow> [mid])
      | _ \<Rightarrow> [PNone])"

text \<open>A line the decoder of the loop reads or refuses: no integer literal over the digit limit, no
  character the model does not have.\<close>

definition readable_line :: "(string \<Rightarrow> bool) \<Rightarrow> nat \<Rightarrow> string \<Rightarrow> bool" where
  "readable_line deep cap l \<longleftrightarrow>
     cap < length (line_body l) \<or> py_strip l = [] \<or> deep (py_strip l) \<or>
     loads_in over_digit_limit (py_strip l) \<notin> {Inl Int_digits_error, Inl Beyond_char}"

lemma error_writable: "\<exists>t. write_line (rpc_error PNone code msg) = Some t"
  by (simp add: write_line_def rpc_error_def)

lemma handle_line_reply:
  assumes "\<not> cap < length (line_body l)" and "readable_line deep cap l"
    and "handle_line deep reg env l ctx = (oc, ctx')" and "plain_schemas reg"
  shows "(oc = Silent \<and> line_ids deep cap l = []) \<or>
         (\<exists>p mid. oc = Reply p \<and> is_reply p \<and> write_line p \<noteq> None \<and> reply_id p = Some mid \<and>
            line_ids deep cap l = [mid])"
proof (cases "py_strip l = [] \<or> deep (py_strip l)")
  case True
  with assms error_writable show ?thesis by (auto simp: handle_line_def line_ids_def Let_def)
next
  case False
  let ?t = "py_strip l"
  have f: "?t \<noteq> []" "\<not> deep ?t" using False by simp_all
  show ?thesis
  proof (cases "loads_in over_digit_limit ?t")
    case (Inl e)
    have e: "e = JSONDecodeError"
      using assms(1,2) f Inl loads_in_total [of over_digit_limit ?t] by (cases e) (auto simp: readable_line_def)
    have "loads ?t = Inl JSONDecodeError" using loads_limit [of over_digit_limit ?t] by (simp add: Inl e within_limit_def)
    with assms Inl e f error_writable show ?thesis by (auto simp: handle_line_def line_ids_def Let_def)
  next
    case (Inr v)
    then have l: "loads ?t = Inr v" by (rule loads_in_loads)
    show ?thesis
    proof (cases "\<exists>message. v = PDict message")
      case True
      then obtain message where v: "v = PDict message" by blast
      show ?thesis
      proof (cases "map_of message ''id''")
        case None
        with assms f Inr l v mcp_handle_notification [OF None, of PNone env reg ctx] show ?thesis
          by (auto simp: handle_line_def line_ids_def Let_def)
      next
        case (Some mid)
        then obtain p c where h: "mcp_handle message PNone env reg ctx = (Some p, c)" "is_reply p" "reply_id p = Some mid"
          using mcp_handle_request [OF Some, of PNone env reg ctx] by blast
        then have "write_line p \<noteq> None"
          using mcp_handle_writable [OF h(1) assms(4)] loads_closed [OF l] v by simp
        with assms f Inr l v h Some show ?thesis by (auto simp: handle_line_def line_ids_def Let_def)
      qed
    next
      case False
      with assms f Inr l error_writable show ?thesis
        by (auto simp: handle_line_def line_ids_def Let_def split: pyval.splits)
    qed
  qed
qed

lemma serve_lines_answers:
  assumes "\<forall>l \<in> set ls. readable_line deep cap l" and "plain_schemas reg"
  shows "\<exists>out ctx'. serve_lines deep reg envs cap n ls ctx = (Eof, out, ctx') \<and>
     map reply_id out = map Some (concat (map (line_ids deep cap) ls)) \<and>
     list_all (\<lambda>p. is_reply p \<and> write_line p \<noteq> None) out"
  using assms(1)
proof (induction ls arbitrary: n ctx)
  case (Cons l ls)
  have IH: "\<exists>out ctx'. serve_lines deep reg envs cap m ls c = (Eof, out, ctx') \<and>
     map reply_id out = map Some (concat (map (line_ids deep cap) ls)) \<and>
     list_all (\<lambda>p. is_reply p \<and> write_line p \<noteq> None) out" for m c
    using Cons by simp
  show ?case
  proof (cases "cap < length (line_body l)")
    case True
    with IH [of "Suc n" ctx] error_writable show ?thesis by (auto simp: line_ids_def [of deep cap l] too_large_def)
  next
    case False
    obtain oc c where h: "handle_line deep reg (envs n) l ctx = (oc, c)" by fastforce
    have "readable_line deep cap l" using Cons.prems by simp
    from handle_line_reply [OF False this h assms(2)] IH [of "Suc n" c] h False show ?thesis by auto
  qed
qed simp

text \<open>C36: The stdio server answers every request: on a stream whose lines hold no integer literal over the
  digit limit, the loop ends at the end of the stream, and the replies it wrote carry, in order, exactly
  the identifiers owed: one reply with its own id for each message with an id, one with a null id for each
  line that is oversize, too deeply nested, not JSON or not an object, and none for a notification or a
  blank line. Each reply is a result or an error and has a JSON text, provided the schemas the tools
  advertise have one.\<close>

theorem stdio_answers:
  assumes "\<forall>l \<in> set (stream_lines s). readable_line deep cap l" and "plain_schemas reg"
  shows "\<exists>out ctx'. serve_loop deep reg envs cap n s ctx = (Eof, out, ctx') \<and>
     map reply_id out = map Some (concat (map (line_ids deep cap) (stream_lines s))) \<and>
     list_all (\<lambda>p. is_reply p \<and> write_line p \<noteq> None) out"
proof -
  from serve_lines_answers [OF assms] show ?thesis by (simp only: serve_by_lines)
qed

text \<open>One line can end the server: when the text of a line is an integer of more than 4300 digits, the
  decoder raises a \<^verbatim>\<open>ValueError\<close> that is not a \<^verbatim>\<open>JSONDecodeError\<close>, which the loop does not catch; nothing
  is written and no line behind it is read.\<close>

theorem digit_limit_ends_stdio:
  assumes "INT_MAX_STR_DIGITS < k" and "k \<le> cap" and "\<not> deep (replicate k CHR ''1'')"
  shows "serve_loop deep reg envs cap n (replicate k CHR ''1'' @ CHR ''\<newline>'' # s) ctx = (Raised_value_error, [], ctx)"
proof -
  let ?d = "replicate k CHR ''1''"
  have k: "k \<noteq> 0" using assms(1) by (simp add: INT_MAX_STR_DIGITS_def)
  then obtain j where j: "k = Suc j" by (cases k) auto
  have fl: "first_line (replicate i CHR ''1'' @ CHR ''\<newline>'' # s) = replicate i CHR ''1'' @ ''\<newline>''" for i
    by (induction i) auto
  have sl: "stream_lines (?d @ CHR ''\<newline>'' # s) = (?d @ ''\<newline>'') # stream_lines s"
    by (simp add: stream_lines.simps [of "?d @ CHR ''\<newline>'' # s"] fl)
  have one: "\<not> is_space CHR ''1''" "is_digit CHR ''1''" "\<not> json_space CHR ''1''" by code_simp+
  have sp: "is_space CHR ''\<newline>''" by code_simp
  have "py_lstrip (?d @ ''\<newline>'') = ?d @ ''\<newline>''" "dropWhile is_space ?d = ?d"
    using one by (simp_all add: j py_lstrip_def)
  then have "py_strip (?d @ ''\<newline>'') = ?d"
    unfolding py_strip_def py_rstrip_def by (simp add: sp)
  moreover have "loads_in over_digit_limit ?d = Inl Int_digits_error"
  proof -
    have t: "takeWhile is_digit ?d = ?d" "dropWhile is_digit ?d = []" "skip_ws ?d = ?d"
      using one j by (simp_all add: takeWhile_eq_all_conv dropWhile_eq_Nil_conv skip_ws_def)
    have i: "scan_int ?d = Some ([], ?d, [])"
      using t one by (simp add: scan_int_def j)
    have big: "long_int over_digit_limit ?d"
      using assms(1) by (simp add: long_int_def i scan_frac_def scan_exp_def over_digit_limit_def)
    have "scan_number ?d = Some (PInt (int (digits_value ?d)), [])"
      by (simp add: scan_number_def i scan_frac_def scan_exp_def)
    with big have "scan_atom_in over_digit_limit ?d = Inl Int_digits_error"
      by (simp add: scan_atom_in_def startswith_def j)
    then show ?thesis
      unfolding loads_in_def t by (simp add: j quote_def)
  qed
  ultimately have "handle_line deep reg (envs n) (?d @ ''\<newline>'') ctx = (Value_error, ctx)"
    using assms(3) k by (simp add: handle_line_def)
  then show ?thesis
    using assms(2) unfolding serve_by_lines sl by (simp add: line_body_def ends_line_def)
qed

subsection \<open>A concrete server\<close>

definition counting_tool :: "(unit, unit, nat) tool_spec" where
  "counting_tool =
     \<lparr>ts_name = ''count'', ts_description = ''Count the calls.'', ts_read_only = False, ts_destructive = False,
      ts_schema = PDict [], ts_validate = (\<lambda>a. if a = [] then Inr () else Inl [([], ''Extra inputs are not permitted'')]),
      ts_handler = (\<lambda>_ _ _ n. (Inr ''ok'', Suc n))\<rparr>"

definition counting_registry :: "(unit, unit, nat) registry" where
  "counting_registry = [(''count'', counting_tool)]"

definition count_message :: args where
  "count_message =
     [(''id'', PStr '' 7 ''), (''method'', PStr ''tools/call''), (''params'', PDict [(''name'', PStr ''count'')])]"

theorem only_valid_calls_act_witness:
  "\<exists>mid ps name spec m. map_of count_message ''id'' = Some mid \<and> map_of count_message ''params'' = Some (PDict ps) \<and>
     map_of counting_registry name = Some spec \<and>
     Suc 0 = snd (ts_handler spec () \<lparr>co_request_id = bound_id mid, co_client_id = bound_id PNone\<rparr> m 0)"
proof -
  have h: "mcp_handle count_message PNone () counting_registry 0 =
      (Some (rpc_result (PStr '' 7 '') (content ''ok'' False)), Suc 0)"
    by (simp add: mcp_handle_def count_message_def message_method_def request_scope_def mcp_call_def registry_call_def
        counting_registry_def counting_tool_def)
  have n: "Suc 0 \<noteq> (0::nat)" by simp
  from only_valid_calls_act [OF h n] show ?thesis by blast
qed

definition demo_stream :: string where
  "demo_stream = ''{'' @ [quote] @ ''id'' @ [quote] @ '':1}'' @ newline @ newline @ ''x'' @ newline @ ''a line too long'' @ newline"

theorem stdio_answers_witness:
  "\<exists>out ctx'. serve_loop (\<lambda>_. False) counting_registry (\<lambda>_. ()) 12 0 demo_stream 0 = (Eof, out, ctx') \<and>
     map reply_id out = [Some (PInt 1), Some PNone, Some PNone]"
proof -
  have r: "\<forall>l \<in> set (stream_lines demo_stream). readable_line (\<lambda>_. False) 12 l" by code_simp
  have p: "plain_schemas counting_registry" by (simp add: plain_schemas_def counting_registry_def counting_tool_def)
  have i: "concat (map (line_ids (\<lambda>_. False) 12) (stream_lines demo_stream)) = [PInt 1, PNone, PNone]" by code_simp
  from stdio_answers [OF r p, of "\<lambda>_. ()" 0 0] show ?thesis unfolding i by auto
qed

theorem digit_limit_ends_stdio_witness:
  "serve_loop (\<lambda>_. False) counting_registry (\<lambda>_. ()) MAX_LINE_CHARS 0 (replicate 4301 CHR ''1'' @ CHR ''\<newline>'' # ''x'') 0 =
   (Raised_value_error, [], 0)"
  by (rule digit_limit_ends_stdio) (simp_all add: INT_MAX_STR_DIGITS_def MAX_LINE_CHARS_def)

end
