(* ===== verification/HttpServer.thy ===== *)
theory HttpServer
  imports Surface Server
begin

section \<open>Sessions and the HTTP transport (http_server.py)\<close>

text \<open>
  One POST is one step of the server. The parts a session shares with every other one (the audit log,
  the kill switch, the store, the console, the credential broker) are those of the base context; a
  session keeps the context \<^verbatim>\<open>session_context\<close> built for it, whose shared parts are read from
  the base when the session is looked up and written back when the dispatch returns. Each
  session method of the code runs under one lock, so it is one operation here; requests that overlap in
  time between those operations are not modelled.
\<close>

definition HTTP_BODY_MAX :: nat where "HTTP_BODY_MAX = 16 * 1024 * 1024"
definition MAX_SESSIONS :: nat where "MAX_SESSIONS = 256"
definition SESSION_TTL_SECONDS :: rat where "SESSION_TTL_SECONDS = 3600"

subsection \<open>Sessions\<close>

text \<open>\<^verbatim>\<open>str.upper\<close>; the characters whose upper case is longer or beyond the range of the model keep
  their value, none of which is a letter of a tier name.\<close>

definition py_upper :: "string \<Rightarrow> string" where
  "py_upper s = map upper_char s"

fun tier_of_name :: "string \<Rightarrow> tier option" where
  "tier_of_name s =
     (if s = ''T0'' then Some T0 else if s = ''T1'' then Some T1 else if s = ''T2'' then Some T2
      else if s = ''T3'' then Some T3 else None)"

definition parse_ceiling :: "pyval option \<Rightarrow> tier option" where
  "parse_ceiling params =
     (case params of
        Some (PDict ps) \<Rightarrow>
          (case map_of ps ''consentCeiling'' of
             None \<Rightarrow> None
           | Some raw \<Rightarrow>
               if raw = PNone then None
               else (case tier_of_name (py_upper (py_strip (py_str raw))) of Some t \<Rightarrow> Some t | None \<Rightarrow> Some T0))
      | _ \<Rightarrow> None)"

text \<open>A session of its own: no taint, no pending approval, an unspent budget, its consent ceiling; the
  contract is the default one. \<open>Inl\<close> is the exception of a constructor.\<close>

datatype session_error = Budget_refused budget_error | Ttl_refused string

definition session_budget :: "config \<Rightarrow> budget_error + budget_tracker option" where
  "session_budget cfg =
     (if cf_max_actions cfg \<noteq> None \<or> cf_max_wall_seconds cfg \<noteq> None
      then map_sum id Some
             (budget_init (cf_max_actions cfg) None (map_option (\<lambda>i. Fin (of_int i)) (cf_max_wall_seconds cfg)))
      else Inr None)"

definition session_context ::
  "'w server_context \<Rightarrow> config \<Rightarrow> tier option \<Rightarrow> session_error + 'w server_context" where
  "session_context base cfg cap =
     (case session_budget cfg of
        Inl e \<Rightarrow> Inl (Budget_refused e)
      | Inr budget \<Rightarrow>
          (case approval_registry_init (Fin (ttl_seconds (cx_approvals (sc_execution base)))) of
             Inl e \<Rightarrow> Inl (Ttl_refused e)
           | Inr approvals \<Rightarrow>
               Inr \<lparr>sc_execution =
                      \<lparr>cx_mode = cx_mode (sc_execution base), cx_audit = cx_audit (sc_execution base),
                       cx_kill_switch = cx_kill_switch (sc_execution base), cx_approvals = approvals,
                       cx_contract = empty_contract, cx_max_output_bytes = cx_max_output_bytes (sc_execution base),
                       cx_budget = budget, cx_taint = \<lparr>untrusted_ingested = False\<rparr>,
                       cx_console = cx_console (sc_execution base), cx_consent_ceiling = cap,
                       cx_world = cx_world (sc_execution base)\<rparr>,
                    sc_transport = sc_transport base, sc_allow_restricted = sc_allow_restricted base,
                    sc_broker = sc_broker base\<rparr>))"

text \<open>The shared parts: read from the base, written back to it.\<close>

definition attach :: "'w server_context \<Rightarrow> 'w server_context \<Rightarrow> 'w server_context" where
  "attach base ctx =
     ctx\<lparr>sc_execution := (sc_execution ctx)
           \<lparr>cx_audit := cx_audit (sc_execution base), cx_kill_switch := cx_kill_switch (sc_execution base),
            cx_console := cx_console (sc_execution base), cx_world := cx_world (sc_execution base)\<rparr>,
         sc_broker := sc_broker base\<rparr>"

definition publish :: "'w server_context \<Rightarrow> 'w server_context \<Rightarrow> 'w server_context" where
  "publish ctx base = attach ctx base"

record 'w http_session =
  ss_ctx :: "'w server_context"
  ss_ceiling :: "tier option"
  ss_last_seen :: rat

record 'w session_manager =
  sm_base :: "'w server_context"
  sm_sessions :: "(string, 'w http_session) pydict"
  sm_max_sessions :: nat
  sm_ttl_seconds :: rat

definition new_manager :: "'w server_context \<Rightarrow> 'w session_manager" where
  "new_manager base =
     \<lparr>sm_base = base, sm_sessions = [], sm_max_sessions = MAX_SESSIONS, sm_ttl_seconds = SESSION_TTL_SECONDS\<rparr>"

text \<open>\<^verbatim>\<open>min(self._sessions, key=...)\<close>: the first session seen longest ago.\<close>

fun least_seen :: "(string, 'w http_session) pydict \<Rightarrow> string option" where
  "least_seen [] = None"
| "least_seen (p # ps) =
     (case least_seen ps of
        None \<Rightarrow> Some (fst p)
      | Some t \<Rightarrow> if (case map_of ps t of None \<Rightarrow> True | Some q \<Rightarrow> ss_last_seen (snd p) \<le> ss_last_seen q)
                 then Some (fst p) else Some t)"

lemma least_seen_in: "least_seen ps = Some t \<Longrightarrow> t \<in> set (keys ps)"
  by (induction ps arbitrary: t) (auto split: option.splits if_splits)

lemma least_seen_None [simp]: "least_seen ps = None \<longleftrightarrow> ps = []"
  by (cases ps) (auto split: option.splits)

lemma length_delete_key: "t \<in> set (keys ps) \<Longrightarrow> length (AList.delete t ps) < length ps"
proof (induction ps)
  case (Cons p ps)
  then show ?case using length_delete_le [of t ps] by (cases p; cases "fst p = t") auto
qed simp

text \<open>The loop that makes room: \<open>None\<close> is the \<^verbatim>\<open>ValueError\<close> of \<^verbatim>\<open>min\<close> on an empty
  table, with no room for any session.\<close>

function make_room :: "nat \<Rightarrow> (string, 'w http_session) pydict \<Rightarrow> (string, 'w http_session) pydict option" where
  "make_room cap ps =
     (if length ps < cap then Some ps
      else case least_seen ps of None \<Rightarrow> None | Some t \<Rightarrow> make_room cap (AList.delete t ps))"
  by pat_completeness auto
termination
  by (relation "measure (\<lambda>(cap, ps). length ps)") (auto intro: length_delete_key least_seen_in)

declare make_room.simps [simp del]

definition idle :: "'w session_manager \<Rightarrow> rat \<Rightarrow> 'w http_session \<Rightarrow> bool" where
  "idle sm now s \<longleftrightarrow> sm_ttl_seconds sm < now - ss_last_seen s"

definition evict_locked :: "rat \<Rightarrow> 'w session_manager \<Rightarrow> 'w session_manager option" where
  "evict_locked now sm =
     map_option (\<lambda>ps. sm\<lparr>sm_sessions := ps\<rparr>)
       (make_room (sm_max_sessions sm) (filter (\<lambda>(_, s). \<not> idle sm now s) (sm_sessions sm)))"

datatype create_error = No_room | Session_refused session_error

text \<open>\<open>fresh\<close>: the identifier drawn; the two readings of the clock.\<close>

definition create_session ::
  "config \<Rightarrow> tier option \<Rightarrow> string \<Rightarrow> rat \<Rightarrow> rat \<Rightarrow> 'w session_manager \<Rightarrow> (create_error + string) \<times> 'w session_manager" where
  "create_session cfg cap fresh evict_at seen_at sm =
     (case evict_locked evict_at sm of
        None \<Rightarrow> (Inl No_room, sm\<lparr>sm_sessions := []\<rparr>)
      | Some sm1 \<Rightarrow>
          (case session_context (sm_base sm1) cfg cap of
             Inl e \<Rightarrow> (Inl (Session_refused e), sm1)
           | Inr ctx \<Rightarrow>
               (Inr fresh,
                sm1\<lparr>sm_sessions :=
                      AList.update fresh \<lparr>ss_ctx = ctx, ss_ceiling = cap, ss_last_seen = seen_at\<rparr> (sm_sessions sm1)\<rparr>)))"

definition get_session ::
  "string option \<Rightarrow> rat \<Rightarrow> 'w session_manager \<Rightarrow> 'w server_context option \<times> 'w session_manager" where
  "get_session session_id now sm =
     (case session_id of
        None \<Rightarrow> (None, sm)
      | Some sid \<Rightarrow>
          if sid = [] then (None, sm)
          else (case map_of (sm_sessions sm) sid of
                  None \<Rightarrow> (None, sm)
                | Some s \<Rightarrow>
                    if idle sm now s then (None, sm\<lparr>sm_sessions := AList.delete sid (sm_sessions sm)\<rparr>)
                    else (Some (attach (sm_base sm) (ss_ctx s)),
                          sm\<lparr>sm_sessions := AList.update sid (s\<lparr>ss_last_seen := now\<rparr>) (sm_sessions sm)\<rparr>)))"

text \<open>What the objects a dispatch worked on hold afterwards.\<close>

definition put_back :: "string \<Rightarrow> 'w server_context \<Rightarrow> 'w session_manager \<Rightarrow> 'w session_manager" where
  "put_back sid ctx sm =
     sm\<lparr>sm_base := publish ctx (sm_base sm),
        sm_sessions := map (\<lambda>(k, s). (k, if k = sid then s\<lparr>ss_ctx := ctx\<rparr> else s)) (sm_sessions sm)\<rparr>"

definition session_count :: "'w session_manager \<Rightarrow> nat" where
  "session_count sm = length (sm_sessions sm)"

subsection \<open>Requests\<close>

definition bearer_ok :: "string option \<Rightarrow> string \<Rightarrow> bool" where
  "bearer_ok header token =
     (if token = [] then False
      else case header of
        None \<Rightarrow> False
      | Some h \<Rightarrow>
          if h = [] then False
          else if \<not> startswith h ''Bearer '' then False
          else utf8_encode token = utf8_encode (py_strip (drop (length ''Bearer '') h)))"

text \<open>The text of a body: \<^verbatim>\<open>bytes.decode\<close> in the encoding \<^verbatim>\<open>json.loads\<close> detects. A byte is a
  character. \<open>Outside\<close>: text with a character beyond the range of the model, or in another encoding than
  UTF-8 without a byte order mark.\<close>

datatype decoded = Decoded string | Undecodable | Outside

definition cont_byte :: "char \<Rightarrow> bool" where
  "cont_byte c \<longleftrightarrow> char_between 128 191 c"

text \<open>The number of bytes that follow a first byte, and whether the second one is in its range
  (overlong forms and values over the last code point are refused; surrogates pass).\<close>

definition lead_width :: "char \<Rightarrow> nat" where
  "lead_width b =
     (if char_between 194 223 b then 1 else if char_between 224 239 b then 2 else if char_between 240 244 b then 3 else 0)"

definition second_ok :: "char \<Rightarrow> char \<Rightarrow> bool" where
  "second_ok b c \<longleftrightarrow>
     (if ord b = 224 then char_between 160 191 c else if ord b = 240 then char_between 144 191 c
      else if ord b = 244 then char_between 128 143 c else cont_byte c)"

fun push_char :: "char option \<Rightarrow> decoded \<Rightarrow> decoded" where
  "push_char (Some c) (Decoded s) = Decoded (c # s)"
| "push_char None (Decoded s) = Outside"
| "push_char _ d = d"

function utf8_decode :: "string \<Rightarrow> decoded" where
  "utf8_decode [] = Decoded []"
| "utf8_decode (b # r) =
     (if ord b < 128 then push_char (Some b) (utf8_decode r)
      else (let n = lead_width b; tail = take n r
            in if n = 0 \<or> length tail < n \<or> \<not> second_ok b (hd tail) \<or> \<not> list_all cont_byte tail then Undecodable
               else push_char
                      (if n = 1 \<and> ord b \<le> 195 then Some (char_of ((ord b - 192) * 64 + (ord (hd tail) - 128))) else None)
                      (utf8_decode (drop n r))))"
  by pat_completeness auto
termination
  by (relation "measure length") auto

definition other_encoding :: "string \<Rightarrow> bool" where
  "other_encoding b \<longleftrightarrow>
     (let code = map ord b in
      take 2 code = [254, 255] \<or> take 2 code = [255, 254] \<or> take 3 code = [239, 187, 191] \<or>
      take 4 code = [0, 0, 254, 255] \<or>
      (if 4 \<le> length b then code ! 0 = 0 \<or> code ! 1 = 0 else length b = 2 \<and> (code ! 0 = 0 \<or> code ! 1 = 0)))"

definition decode_body :: "string \<Rightarrow> decoded" where
  "decode_body b = (if other_encoding b then Outside else utf8_decode b)"

record http_request =
  hr_authorization :: "string option"
  hr_session_id :: "string option"
  hr_content_length :: "string option"
  hr_body :: string              \<comment> \<open>the bytes the client sends behind the headers\<close>

record 'e http_env =
  he_evict_at :: rat
  he_seen_at :: rat
  he_get_at :: rat
  he_fresh :: string
  he_call :: 'e
  he_deep :: "string \<Rightarrow> bool"

text \<open>A reply: status, JSON body if any, the session header, whether the connection is closed behind it.
  \<open>Dropped\<close>: an exception no handler catches; the connection ends without a reply.\<close>

datatype http_reply =
    Answer nat "pyval option" "string option" bool
  | Dropped
  | Not_modelled

text \<open>\<^verbatim>\<open>_read_body_capped\<close>: a refusal, or the body read.\<close>

definition read_body_capped :: "http_request \<Rightarrow> http_reply + string" where
  "read_body_capped q =
     (case hr_content_length q of
        None \<Rightarrow> Inl (Answer 411 (Some (rpc_error PNone (-32600) ''length required'')) None True)
      | Some raw \<Rightarrow>
          (case env_int raw of
             None \<Rightarrow> Inl (Answer 400 (Some (rpc_error PNone (-32600) ''invalid content-length'')) None True)
           | Some n \<Rightarrow>
               if n < 0 \<or> int HTTP_BODY_MAX < n
               then Inl (Answer 413 (Some (rpc_error PNone (-32600) ''request too large'')) None True)
               else Inr (take (nat n) (hr_body q))))"

definition do_GET :: http_reply where
  "do_GET = Answer 405 (Some (rpc_error PNone (-32600) ''method not allowed; POST MCP messages'')) None False"

text \<open>The context is that of the base for the shared parts, whichever session it is.\<close>

definition http_dispatch ::
  "config \<Rightarrow> ('e, 'm, 'w server_context) registry \<Rightarrow> 'e http_env \<Rightarrow> string option \<Rightarrow> args \<Rightarrow> 'w session_manager \<Rightarrow>
   http_reply \<times> 'w session_manager" where
  "http_dispatch cfg reg env header message sm =
     (let is_request = (map_of message ''id'' \<noteq> None);
          init = (is_request \<and> message_method message = PStr ''initialize'');
          (created, sm1) =
            (if init
             then create_session cfg (parse_ceiling (map_of message ''params'')) (he_fresh env) (he_evict_at env) (he_seen_at env) sm
             else (Inr [], sm))
      in case created of
           Inl _ \<Rightarrow> (Dropped, sm1)
         | Inr new \<Rightarrow>
             (let session_id = (if init then Some new else header)
              in case get_session session_id (he_get_at env) sm1 of
                   (None, sm2) \<Rightarrow>
                     if \<not> is_request then (Answer 202 None None False, sm2)
                     else (Answer 404 (Some (rpc_error (case map_of message ''id'' of None \<Rightarrow> PNone | Some i \<Rightarrow> i) (-32002)
                                               ''session not found; initialize first'')) None False, sm2)
                 | (Some ctx, sm2) \<Rightarrow>
                     (case mcp_handle message (opt_str session_id) (he_call env) reg ctx of
                        (None, ctx') \<Rightarrow> (Answer 202 None None False, put_back (the session_id) ctx' sm2)
                      | (Some response, ctx') \<Rightarrow>
                          (Answer 200 (Some response) (if init then Some new else None) False,
                           put_back (the session_id) ctx' sm2))))"

definition do_POST ::
  "config \<Rightarrow> ('e, 'm, 'w server_context) registry \<Rightarrow> 'e http_env \<Rightarrow> http_request \<Rightarrow> 'w session_manager \<Rightarrow>
   http_reply \<times> 'w session_manager" where
  "do_POST cfg reg env q sm =
     (if \<not> bearer_ok (hr_authorization q) (case cf_http_token cfg of None \<Rightarrow> [] | Some t \<Rightarrow> t)
      then (Answer 401 (Some (rpc_error PNone (-32001) ''unauthorized'')) None True, sm)
      else case read_body_capped q of
        Inl reply \<Rightarrow> (reply, sm)
      | Inr body \<Rightarrow>
          (case decode_body body of
             Undecodable \<Rightarrow> (Dropped, sm)
           | Outside \<Rightarrow> (Not_modelled, sm)
           | Decoded text \<Rightarrow>
               if he_deep env text then (Answer 200 (Some (rpc_error PNone (-32700) ''parse error'')) None False, sm)
               else (case loads_in over_digit_limit text of
                       Inl JSONDecodeError \<Rightarrow> (Answer 200 (Some (rpc_error PNone (-32700) ''parse error'')) None False, sm)
                     | Inl Int_digits_error \<Rightarrow> (Dropped, sm)
                     | Inl _ \<Rightarrow> (Not_modelled, sm)
                     | Inr (PDict message) \<Rightarrow> http_dispatch cfg reg env (hr_session_id q) message sm
                     | Inr _ \<Rightarrow> (Answer 200 (Some (rpc_error PNone (-32600) ''invalid request'')) None False, sm))))"

subsection \<open>Text and bytes\<close>

lemma ord_less [simp]: "ord c < 256"
  by (simp add: ord_def)

lemma two_bytes:
  assumes "\<not> ord c < 128"
  shows "ord (char_of (192 + ord c div 64)) = 192 + ord c div 64" "ord (char_of (128 + ord c mod 64)) = 128 + ord c mod 64"
    and "ord c div 64 = 2 \<or> ord c div 64 = 3"
proof -
  have "128 \<le> ord c" "ord c < 256" using assms by simp_all
  then have "128 div 64 \<le> ord c div 64" "ord c div 64 < 4"
    by (intro div_le_mono) (simp_all add: less_mult_imp_div_less)
  then have d: "ord c div 64 = 2 \<or> ord c div 64 = 3" by linarith
  then show "ord (char_of (192 + ord c div 64)) = 192 + ord c div 64" by (intro ord_char_of) linarith
  have "ord c mod 64 < 64" by simp
  then show "ord (char_of (128 + ord c mod 64)) = 128 + ord c mod 64" by (intro ord_char_of) linarith
  show "ord c div 64 = 2 \<or> ord c div 64 = 3" by (rule d)
qed

text \<open>Decoding undoes encoding: the text a client encodes in UTF-8 is the text the server reads.\<close>

lemma utf8_decode_encode: "utf8_decode (utf8_encode s) = Decoded s"
proof (induction s)
  case (Cons c s)
  show ?case
  proof (cases "ord c < 128")
    case True
    with Cons show ?thesis by (simp add: utf8_encode_Cons utf8_char_def)
  next
    case False
    let ?b = "char_of (192 + ord c div 64) :: char" and ?d = "char_of (128 + ord c mod 64) :: char"
    note o = two_bytes [OF False]
    have m: "ord c mod 64 < 64" by simp
    then have w: "lead_width ?b = 1" "cont_byte ?d" "second_ok ?b ?d" "\<not> ord ?b < 128" "ord ?b \<le> 195"
      using o(3) by (auto simp: lead_width_def cont_byte_def second_ok_def char_between_def o(1,2))
    have "(ord ?b - 192) * 64 + (ord ?d - 128) = ord c" by (simp add: o(1,2))
    then have "char_of ((ord ?b - 192) * 64 + (ord ?d - 128)) = c" by simp
    then show ?thesis
      using False w Cons by (simp add: utf8_encode_Cons utf8_char_def)
  qed
qed (simp add: utf8_encode_def)

lemma utf8_encode_inj: "utf8_encode s = utf8_encode t \<longleftrightarrow> s = t"
  using utf8_decode_encode by (metis decoded.inject)

subsection \<open>Authentication\<close>

lemma bearer_ok_iff:
  "bearer_ok header token \<longleftrightarrow>
   token \<noteq> [] \<and> (\<exists>presented. header = Some (''Bearer '' @ presented) \<and> py_strip presented = token)"
proof -
  have st: "startswith h ''Bearer '' \<longleftrightarrow> (\<exists>p. h = ''Bearer '' @ p)" for h
  proof
    assume "startswith h ''Bearer ''"
    then have "take 7 h = ''Bearer ''" by (simp add: startswith_def eval_nat_numeral)
    then have "h = ''Bearer '' @ drop 7 h" by (metis append_take_drop_id)
    then show "\<exists>p. h = ''Bearer '' @ p" by blast
  qed (auto simp: startswith_def)
  show ?thesis
  proof (cases header)
    case (Some h)
    show ?thesis
    proof (cases "\<exists>p. h = ''Bearer '' @ p")
      case True
      then obtain p where "h = ''Bearer '' @ p" by blast
      then show ?thesis by (auto simp: bearer_ok_def Some utf8_encode_inj startswith_def)
    next
      case False
      with st [of h] show ?thesis by (auto simp: bearer_ok_def Some)
    qed
  qed (simp add: bearer_ok_def)
qed


text \<open>A configured token with white space around it passes the transport guard, so the server starts,
  but no header authenticates: the presented token is stripped and the configured one is not.\<close>

theorem padded_token_locks_out:
  assumes "py_strip tok \<noteq> tok" and "cf_transport cfg = ''http''" and "cf_http_token cfg = Some tok"
    and "cf_http_port cfg \<in> {1..65535}" and "http_is_loopback cfg"
  shows "validate_transport cfg = Inr () \<and>
    do_POST cfg reg env q sm = (Answer 401 (Some (rpc_error PNone (-32001) ''unauthorized'')) None True, sm)"
proof
  have n: "tok \<noteq> []" using assms(1) by (auto simp: py_strip_def py_lstrip_def py_rstrip_def)
  then show "validate_transport cfg = Inr ()" using assms by (simp add: validate_transport_def)
  have "\<not> bearer_ok (hr_authorization q) tok"
    using assms(1) strip_strip by (metis bearer_ok_iff)
  then show "do_POST cfg reg env q sm = (Answer 401 (Some (rpc_error PNone (-32001) ''unauthorized'')) None True, sm)"
    by (simp add: do_POST_def assms(3))
qed

subsection \<open>The session table\<close>

definition manager_inv :: "'w session_manager \<Rightarrow> bool" where
  "manager_inv sm \<longleftrightarrow> distinct (keys (sm_sessions sm)) \<and> length (sm_sessions sm) \<le> sm_max_sessions sm"

text \<open>A table that lost entries and changed none.\<close>

definition only_removed :: "('k, 'v) pydict \<Rightarrow> ('k, 'v) pydict \<Rightarrow> bool" where
  "only_removed d d' \<longleftrightarrow> (\<forall>k. map_of d' k = None \<or> map_of d' k = map_of d k)"

lemma only_removed_refl [simp]: "only_removed d d"
  by (simp add: only_removed_def)

lemma only_removed_trans: "only_removed a b \<Longrightarrow> only_removed b c \<Longrightarrow> only_removed a c"
  unfolding only_removed_def by metis

lemma map_of_delete: "map_of (AList.delete t d) k = (if k = t then None else map_of d k)"
  by (simp add: delete_conv')

lemma map_of_update: "map_of (AList.update t v d) k = (if k = t then Some v else map_of d k)"
  by (simp add: update_conv')

lemma only_removed_delete: "only_removed d (AList.delete t d)"
  by (simp add: only_removed_def map_of_delete)

lemma only_removed_filter: "distinct (keys d) \<Longrightarrow> only_removed d (filter P d)"
proof (induction d)
  case (Cons p d)
  have "map_of (filter P d) (fst p) = None" if "fst p \<notin> set (keys d)"
    using that by (auto simp: map_of_eq_None_iff)
  with Cons show ?case by (cases p) (auto simp: only_removed_def)
qed simp

lemma make_room_facts:
  "make_room cap d = Some d' \<Longrightarrow> length d' < cap \<and> only_removed d d' \<and> (distinct (keys d) \<longrightarrow> distinct (keys d'))"
proof (induction cap d rule: make_room.induct)
  case (1 cap d)
  show ?case
  proof (cases "length d < cap")
    case True
    with "1.prems" show ?thesis by (simp add: make_room.simps [of cap d])
  next
    case False
    with "1.prems" obtain t where t: "least_seen d = Some t" "make_room cap (AList.delete t d) = Some d'"
      by (auto simp: make_room.simps [of cap d] split: option.splits)
    with "1.IH" [OF False t(1)] only_removed_trans [OF only_removed_delete] show ?thesis
      by (auto intro: distinct_delete)
  qed
qed

lemma make_room_some: "0 < cap \<Longrightarrow> make_room cap d \<noteq> None"
proof (induction cap d rule: make_room.induct)
  case (1 cap d)
  then show ?case by (cases "least_seen d") (auto simp: make_room.simps [of cap "[]"] make_room.simps [of cap d])
qed

lemma evict_facts:
  assumes "evict_locked now sm = Some sm'" and "distinct (keys (sm_sessions sm))"
  shows "\<exists>ps. sm' = sm\<lparr>sm_sessions := ps\<rparr> \<and> length ps < sm_max_sessions sm \<and> only_removed (sm_sessions sm) ps \<and> distinct (keys ps)"
proof -
  let ?f = "filter (\<lambda>(_, s). \<not> idle sm now s) (sm_sessions sm)"
  obtain ps where ps: "make_room (sm_max_sessions sm) ?f = Some ps" "sm' = sm\<lparr>sm_sessions := ps\<rparr>"
    using assms(1) by (auto simp: evict_locked_def)
  from make_room_facts [OF ps(1)] only_removed_filter [OF assms(2)] distinct_keys_filter [OF assms(2)] ps(2)
  show ?thesis by (blast intro: only_removed_trans)
qed

lemma length_update: "length (AList.update k v d) = (if k \<in> set (keys d) then length d else Suc (length d))"
  by (induction d) auto

text \<open>What creating a session does to the others, and what it makes.\<close>

lemma create_facts:
  assumes "create_session cfg cap fresh e_at s_at sm = (res, sm')" and "manager_inv sm"
  shows "sm_base sm' = sm_base sm \<and> sm_max_sessions sm' = sm_max_sessions sm \<and> sm_ttl_seconds sm' = sm_ttl_seconds sm \<and>
     manager_inv sm' \<and> (\<forall>t. t \<noteq> fresh \<longrightarrow> map_of (sm_sessions sm') t = None \<or> map_of (sm_sessions sm') t = map_of (sm_sessions sm) t) \<and>
     (\<forall>sid. res = Inr sid \<longrightarrow> sid = fresh \<and>
        (\<exists>ctx. session_context (sm_base sm) cfg cap = Inr ctx \<and>
           map_of (sm_sessions sm') fresh = Some \<lparr>ss_ctx = ctx, ss_ceiling = cap, ss_last_seen = s_at\<rparr>))"
proof (cases "evict_locked e_at sm")
  case None
  with assms show ?thesis by (auto simp: create_session_def manager_inv_def)
next
  case (Some sm1)
  obtain ps where ps: "sm1 = sm\<lparr>sm_sessions := ps\<rparr>" "length ps < sm_max_sessions sm" "only_removed (sm_sessions sm) ps" "distinct (keys ps)"
    using evict_facts [OF Some] assms(2) by (auto simp: manager_inv_def)
  show ?thesis
  proof (cases "session_context (sm_base sm) cfg cap")
    case (Inl e)
    with assms Some ps show ?thesis by (auto simp: create_session_def manager_inv_def only_removed_def)
  next
    case (Inr ctx)
    with assms(1) Some ps(1) have "res = Inr fresh"
        "sm' = sm\<lparr>sm_sessions := AList.update fresh \<lparr>ss_ctx = ctx, ss_ceiling = cap, ss_last_seen = s_at\<rparr> ps\<rparr>"
      by (simp_all add: create_session_def)
    with ps(2,3,4) Inr show ?thesis
      by (auto simp: manager_inv_def length_update map_of_update only_removed_def intro: distinct_update)
  qed
qed

text \<open>Looking a session up.\<close>

lemma get_facts:
  assumes "get_session sid now sm = (res, sm')" and "manager_inv sm"
  shows "sm_base sm' = sm_base sm" "sm_max_sessions sm' = sm_max_sessions sm" "sm_ttl_seconds sm' = sm_ttl_seconds sm"
    "manager_inv sm'"
    "\<forall>t. sid \<noteq> Some t \<longrightarrow> map_of (sm_sessions sm') t = map_of (sm_sessions sm) t"
    "\<forall>ctx. res = Some ctx \<longrightarrow> (\<exists>t s. sid = Some t \<and> map_of (sm_sessions sm) t = Some s \<and> \<not> idle sm now s \<and>
        ctx = attach (sm_base sm) (ss_ctx s))"
    "res = None \<longrightarrow> (\<forall>t. map_of (sm_sessions sm') t = None \<or> map_of (sm_sessions sm') t = map_of (sm_sessions sm) t)"
proof -
  have d: "length (AList.delete t d) \<le> length d" for t and d :: "(string, 'a http_session) pydict"
    by (rule length_delete_le)
  show "sm_base sm' = sm_base sm" "sm_max_sessions sm' = sm_max_sessions sm" "sm_ttl_seconds sm' = sm_ttl_seconds sm"
    "\<forall>t. sid \<noteq> Some t \<longrightarrow> map_of (sm_sessions sm') t = map_of (sm_sessions sm) t"
    "\<forall>ctx. res = Some ctx \<longrightarrow> (\<exists>t s. sid = Some t \<and> map_of (sm_sessions sm) t = Some s \<and> \<not> idle sm now s \<and>
        ctx = attach (sm_base sm) (ss_ctx s))"
    "res = None \<longrightarrow> (\<forall>t. map_of (sm_sessions sm') t = None \<or> map_of (sm_sessions sm') t = map_of (sm_sessions sm) t)"
    using assms(1) by (auto simp: get_session_def map_of_delete map_of_update split: option.splits if_splits)
  show "manager_inv sm'"
    using assms d [THEN order_trans]
    by (auto simp: get_session_def manager_inv_def length_update distinct_delete distinct_update
        split: option.splits if_splits dest!: map_of_SomeD) force+
qed

lemma put_back_map_of: "map_of (sm_sessions (put_back sid ctx sm)) t =
   map_option (\<lambda>s. if t = sid then s\<lparr>ss_ctx := ctx\<rparr> else s) (map_of (sm_sessions sm) t)"
proof -
  have "map_of (map (\<lambda>(k, s). (k, if k = sid then s\<lparr>ss_ctx := ctx\<rparr> else s)) d) t =
    map_option (\<lambda>s. if t = sid then s\<lparr>ss_ctx := ctx\<rparr> else s) (map_of d t)" for d
    by (induction d) auto
  then show ?thesis by (simp add: put_back_def)
qed

lemma put_back_frame:
  "sm_max_sessions (put_back sid ctx sm) = sm_max_sessions sm" "sm_ttl_seconds (put_back sid ctx sm) = sm_ttl_seconds sm"
  "sm_base (put_back sid ctx sm) = publish ctx (sm_base sm)"
  by (simp_all add: put_back_def)

lemma put_back_inv: "manager_inv sm \<Longrightarrow> manager_inv (put_back sid ctx sm)"
proof -
  have "keys (map (\<lambda>(k, s). (k, if k = sid then s\<lparr>ss_ctx := ctx\<rparr> else s)) d) = keys d" for d
    by (induction d) auto
  then have "keys (sm_sessions (put_back sid ctx sm)) = keys (sm_sessions sm)"
    by (simp add: put_back_def del: map_map)
  moreover have "length (sm_sessions (put_back sid ctx sm)) = length (sm_sessions sm)"
    "sm_max_sessions (put_back sid ctx sm) = sm_max_sessions sm"
    by (simp_all add: put_back_def)
  ultimately show "manager_inv sm \<Longrightarrow> manager_inv (put_back sid ctx sm)" unfolding manager_inv_def by (simp only:)
qed

subsection \<open>Sequences of requests\<close>

text \<open>The entries of the table after one dispatch: those of other sessions are unchanged or gone.\<close>

lemma dispatch_facts:
  assumes "http_dispatch cfg reg env header message sm = (reply, sm')" and "manager_inv sm"
  shows "manager_inv sm' \<and> sm_max_sessions sm' = sm_max_sessions sm \<and> sm_ttl_seconds sm' = sm_ttl_seconds sm \<and>
     (\<forall>t. t \<noteq> he_fresh env \<longrightarrow> header \<noteq> Some t \<longrightarrow>
        map_of (sm_sessions sm') t = None \<or> map_of (sm_sessions sm') t = map_of (sm_sessions sm) t)"
proof -
  let ?init = "map_of message ''id'' \<noteq> None \<and> message_method message = PStr ''initialize''"
  obtain created sm1 where c: "(if ?init
      then create_session cfg (parse_ceiling (map_of message ''params'')) (he_fresh env) (he_evict_at env) (he_seen_at env) sm
      else (Inr [], sm)) = (created, sm1)" by fastforce
  have f1: "manager_inv sm1 \<and> sm_max_sessions sm1 = sm_max_sessions sm \<and> sm_ttl_seconds sm1 = sm_ttl_seconds sm \<and>
     (\<forall>t. t \<noteq> he_fresh env \<longrightarrow> map_of (sm_sessions sm1) t = None \<or> map_of (sm_sessions sm1) t = map_of (sm_sessions sm) t) \<and>
     (?init \<longrightarrow> (\<forall>sid. created = Inr sid \<longrightarrow> sid = he_fresh env))"
    using c create_facts [OF _ assms(2)] assms(2) by (cases ?init) (fastforce, auto)
  show ?thesis
  proof (cases created)
    case (Inl e)
    with assms(1) c f1 show ?thesis by (simp add: http_dispatch_def Let_def)
  next
    case (Inr new)
    let ?sid = "if ?init then Some new else header"
    obtain res sm2 where g: "get_session ?sid (he_get_at env) sm1 = (res, sm2)" by fastforce
    note gf = get_facts [OF g conjunct1 [OF f1]]
    have f2: "manager_inv sm2 \<and> sm_max_sessions sm2 = sm_max_sessions sm \<and> sm_ttl_seconds sm2 = sm_ttl_seconds sm \<and>
       (\<forall>t. t \<noteq> he_fresh env \<longrightarrow> header \<noteq> Some t \<longrightarrow>
          map_of (sm_sessions sm2) t = None \<or> map_of (sm_sessions sm2) t = map_of (sm_sessions sm) t)"
    proof (intro conjI allI impI)
      fix t assume t: "t \<noteq> he_fresh env" "header \<noteq> Some t"
      then have "?sid \<noteq> Some t" using f1 Inr by auto
      with gf(5) have "map_of (sm_sessions sm2) t = map_of (sm_sessions sm1) t" by blast
      with f1 t(1) show "map_of (sm_sessions sm2) t = None \<or> map_of (sm_sessions sm2) t = map_of (sm_sessions sm) t" by auto
    qed (use gf(2,3,4) f1 in simp_all)
    show ?thesis
    proof (cases res)
      case None
      with assms(1) c Inr g f2 show ?thesis by (auto simp: http_dispatch_def Let_def split: if_splits)
    next
      case (Some ctx)
      then obtain sid where s: "?sid = Some sid" using gf(6) by blast
      obtain r ctx' where m: "mcp_handle message (opt_str ?sid) (he_call env) reg ctx = (r, ctx')" by fastforce
      have sm': "sm' = put_back sid ctx' sm2"
        using assms(1) c Inr g Some m s by (auto simp: http_dispatch_def Let_def split: option.splits if_splits)
      have "sid = he_fresh env \<or> header = Some sid" using s f1 Inr by (auto split: if_splits)
      with f2 sm' show ?thesis
        using put_back_inv [of sm2 sid ctx'] by (auto simp: put_back_map_of put_back_frame option.map_ident split: if_splits)
    qed
  qed
qed

lemma post_facts:
  assumes "do_POST cfg reg env q sm = (reply, sm')" and "manager_inv sm"
  shows "manager_inv sm' \<and> sm_max_sessions sm' = sm_max_sessions sm \<and> sm_ttl_seconds sm' = sm_ttl_seconds sm \<and>
     (\<forall>t. t \<noteq> he_fresh env \<longrightarrow> hr_session_id q \<noteq> Some t \<longrightarrow>
        map_of (sm_sessions sm') t = None \<or> map_of (sm_sessions sm') t = map_of (sm_sessions sm) t)"
proof -
  consider "sm' = sm" | message where "http_dispatch cfg reg env (hr_session_id q) message sm = (reply, sm')"
    using assms(1)
    by (auto simp: do_POST_def split: if_splits sum.splits decoded.splits json_error.splits pyval.splits)
  then show ?thesis
  proof cases
    case 2
    from dispatch_facts [OF this assms(2)] show ?thesis by blast
  qed (use assms(2) in auto)
qed

fun http_run ::
  "config \<Rightarrow> ('e, 'm, 'w server_context) registry \<Rightarrow> ('e http_env \<times> http_request) list \<Rightarrow> 'w session_manager \<Rightarrow> 'w session_manager" where
  "http_run cfg reg [] sm = sm"
| "http_run cfg reg ((env, q) # rs) sm = http_run cfg reg rs (snd (do_POST cfg reg env q sm))"

lemma http_run_inv: "manager_inv sm \<Longrightarrow> manager_inv (http_run cfg reg rs sm) \<and>
   sm_max_sessions (http_run cfg reg rs sm) = sm_max_sessions sm \<and> sm_ttl_seconds (http_run cfg reg rs sm) = sm_ttl_seconds sm"
proof (induction rs arbitrary: sm)
  case (Cons r rs)
  obtain env q where r: "r = (env, q)" by fastforce
  have "do_POST cfg reg env q sm = (fst (do_POST cfg reg env q sm), snd (do_POST cfg reg env q sm))" by simp
  from post_facts [OF this Cons.prems] Cons.IH show ?case by (simp add: r)
qed simp

text \<open>C35: The session table stays bounded: after any sequence of POSTs, with any tokens, headers, bodies and
  clock readings, there are at most 256 sessions, each under an identifier of its own.\<close>

theorem sessions_bounded:
  "session_count (http_run cfg reg rs (new_manager base)) \<le> 256 \<and>
   distinct (keys (sm_sessions (http_run cfg reg rs (new_manager base))))"
proof -
  have "manager_inv (new_manager base)" by (simp add: manager_inv_def new_manager_def)
  from http_run_inv [OF this, of cfg reg rs] show ?thesis
    by (simp add: manager_inv_def session_count_def new_manager_def MAX_SESSIONS_def)
qed

subsection \<open>Isolation\<close>

lemma attach_back [simp]: "attach (attach b c) b = b"
  by (simp add: attach_def)

lemma attach_frame [simp]:
  "cx_approvals (sc_execution (attach b c)) = cx_approvals (sc_execution c)"
  "cx_taint (sc_execution (attach b c)) = cx_taint (sc_execution c)"
  "cx_budget (sc_execution (attach b c)) = cx_budget (sc_execution c)"
  "cx_consent_ceiling (sc_execution (attach b c)) = cx_consent_ceiling (sc_execution c)"
  by (simp_all add: attach_def)

text \<open>A session nothing has happened in.\<close>

definition clean_session :: "tier option \<Rightarrow> 'w server_context \<Rightarrow> bool" where
  "clean_session cap ctx \<longleftrightarrow>
     \<not> untrusted_ingested (cx_taint (sc_execution ctx)) \<and> pending (cx_approvals (sc_execution ctx)) = [] \<and>
     consumed (cx_approvals (sc_execution ctx)) = [] \<and> cx_consent_ceiling (sc_execution ctx) = cap \<and>
     (\<forall>b. cx_budget (sc_execution ctx) = Some b \<longrightarrow> actions b = 0 \<and> wall_seconds b = Fin 0)"

lemma budget_init_zero: "budget_init a u w = Inr b \<Longrightarrow> actions b = 0 \<and> wall_seconds b = Fin 0"
  by (auto simp: budget_init_def split: if_splits sum.splits)

lemma map_sum_Some: "map_sum id Some x = Inr (Some b) \<Longrightarrow> x = Inr b"
  by (cases x) simp_all

lemma session_context_clean: "session_context base cfg cap = Inr ctx \<Longrightarrow> clean_session cap ctx"
proof -
  assume "session_context base cfg cap = Inr ctx"
  then obtain budget reg where b: "session_budget cfg = Inr budget" and r: "approval_registry_init (Fin (ttl_seconds (cx_approvals (sc_execution base)))) = Inr reg"
    and c: "cx_taint (sc_execution ctx) = \<lparr>untrusted_ingested = False\<rparr>" "cx_approvals (sc_execution ctx) = reg"
      "cx_consent_ceiling (sc_execution ctx) = cap" "cx_budget (sc_execution ctx) = budget"
    by (auto simp: session_context_def split: sum.splits)
  have "pending reg = [] \<and> consumed reg = []" using r by (auto simp: approval_registry_init_def split: if_splits)
  moreover have "\<forall>x. budget = Some x \<longrightarrow> actions x = 0 \<and> wall_seconds x = Fin 0"
    using b budget_init_zero by (fastforce simp: session_budget_def split: if_splits dest!: map_sum_Some)
  ultimately show ?thesis by (simp add: clean_session_def c)
qed

text \<open>An initialize request: what the session it answers holds, and that it leaves the base alone.\<close>

lemma mcp_initialize:
  "map_of message ''id'' = Some mid \<Longrightarrow> message_method message = PStr ''initialize'' \<Longrightarrow>
   mcp_handle message cid env reg ctx = (Some (rpc_result mid initialize_result), ctx)"
  by (simp add: mcp_handle_def)

lemma dispatch_initialize:
  assumes "http_dispatch cfg reg env header message sm = (reply, sm')" and "manager_inv sm"
    and "map_of message ''id'' = Some mid" and "message_method message = PStr ''initialize''"
  shows "sm_base sm' = sm_base sm \<and>
    (\<forall>st body sid c. reply = Answer st body (Some sid) c \<longrightarrow> sid = he_fresh env \<and>
       (\<exists>s. map_of (sm_sessions sm') sid = Some s \<and> clean_session (parse_ceiling (map_of message ''params'')) (ss_ctx s)))"
proof -
  obtain created sm1 where c: "create_session cfg (parse_ceiling (map_of message ''params'')) (he_fresh env)
      (he_evict_at env) (he_seen_at env) sm = (created, sm1)" by fastforce
  note cf = create_facts [OF c assms(2)]
  show ?thesis
  proof (cases created)
    case (Inl e)
    with assms c cf show ?thesis by (auto simp: http_dispatch_def Let_def)
  next
    case (Inr new)
    obtain res sm2 where g: "get_session (Some new) (he_get_at env) sm1 = (res, sm2)" by fastforce
    have "manager_inv sm1" using cf by blast
    note gf = get_facts [OF g this]
    show ?thesis
    proof (cases res)
      case None
      with assms c Inr g gf(1) cf show ?thesis by (auto simp: http_dispatch_def Let_def)
    next
      case (Some ctx)
      obtain ctx0 where n: "new = he_fresh env" "session_context (sm_base sm) cfg (parse_ceiling (map_of message ''params'')) = Inr ctx0"
        "map_of (sm_sessions sm1) new = Some \<lparr>ss_ctx = ctx0, ss_ceiling = parse_ceiling (map_of message ''params''), ss_last_seen = he_seen_at env\<rparr>"
        using cf Inr by auto
      have a: "ctx = attach (sm_base sm1) ctx0" "map_of (sm_sessions sm2) new \<noteq> None"
        using gf(6) Some n(3) g by (auto simp: get_session_def map_of_update split: option.splits if_splits)
      have r: "reply = Answer 200 (Some (rpc_result mid initialize_result)) (Some new) False" "sm' = put_back new ctx sm2"
        using assms c Inr g Some mcp_initialize [OF assms(3,4), of "opt_str (Some new)" "he_call env" reg ctx] by (auto simp: http_dispatch_def Let_def)
      have "clean_session (parse_ceiling (map_of message ''params'')) ctx"
        using session_context_clean [OF n(2)] by (simp add: clean_session_def a(1))
      moreover have "sm_base sm' = sm_base sm"
        using gf(1) cf by (simp add: r(2) put_back_frame publish_def a(1))
      ultimately show ?thesis using r a(2) n(1) by (auto simp: put_back_map_of)
    qed
  qed
qed

lemma dispatch_session_header:
  assumes "http_dispatch cfg reg env header message sm = (Answer st body (Some sid) c, sm')"
  shows "map_of message ''id'' \<noteq> None \<and> message_method message = PStr ''initialize''"
  using assms by (auto simp: http_dispatch_def Let_def split: if_splits sum.splits prod.splits option.splits)

lemma post_dispatch:
  assumes "do_POST cfg reg env q sm = (reply, sm')" and "sm' \<noteq> sm \<or> (\<exists>st body sid c. reply = Answer st body (Some sid) c)"
  obtains message where "http_dispatch cfg reg env (hr_session_id q) message sm = (reply, sm')"
proof -
  have "\<exists>raw. read_body_capped q = Inr raw"
    using assms by (auto simp: do_POST_def read_body_capped_def split: if_splits sum.splits option.splits)
  with assms that show thesis
    by (auto simp: do_POST_def split: if_splits sum.splits decoded.splits json_error.splits pyval.splits)
qed


subsection \<open>An idle session stays dead\<close>

lemma get_idle:
  "map_of (sm_sessions sm) t = None \<or> (\<exists>s. map_of (sm_sessions sm) t = Some s \<and> idle sm now s) \<Longrightarrow>
   fst (get_session (Some t) now sm) = None"
  by (auto simp: get_session_def)

text \<open>\<open>s\<close>: the entry the session had when it was last seen.\<close>

definition dead :: "string \<Rightarrow> 'w http_session \<Rightarrow> 'w session_manager \<Rightarrow> bool" where
  "dead t s sm \<longleftrightarrow> map_of (sm_sessions sm) t = None \<or> map_of (sm_sessions sm) t = Some s"

lemma dispatch_dead:
  assumes "http_dispatch cfg reg env header message sm = (reply, sm')" and "manager_inv sm" and "dead t s sm"
    and "he_fresh env \<noteq> t" and "idle sm (he_get_at env) s"
  shows "dead t s sm' \<and> (header = Some t \<longrightarrow> sm_base sm' = sm_base sm)"
proof (cases "header = Some t")
  case False
  with dispatch_facts [OF assms(1,2)] assms(3,4) show ?thesis by (metis dead_def)
next
  case True
  show ?thesis
  proof (cases "map_of message ''id'' \<noteq> None \<and> message_method message = PStr ''initialize''")
    case init: True
    then obtain mid where i: "map_of message ''id'' = Some mid" "message_method message = PStr ''initialize''" by auto
    have "http_dispatch cfg reg env header message sm = http_dispatch cfg reg env None message sm"
      using init by (simp add: http_dispatch_def Let_def split: prod.split sum.split)
    with dispatch_facts [of cfg reg env None message sm reply sm'] assms(1,2,3,4) dispatch_initialize [OF assms(1,2) i]
    show ?thesis by (metis dead_def option.distinct(1))
  next
    case plain: False
    have "fst (get_session (Some t) (he_get_at env) sm) = None"
      using assms(3,5) by (intro get_idle) (auto simp: dead_def)
    then obtain sm2 where g: "get_session header (he_get_at env) sm = (None, sm2)"
      using True by (cases "get_session header (he_get_at env) sm") auto
    then have "sm' = sm2" using assms(1) plain by (auto simp: http_dispatch_def Let_def split: if_splits)
    with get_facts(1,7) [OF g assms(2)] assms(3) show ?thesis by (fastforce simp: dead_def)
  qed
qed

lemma post_dead:
  assumes "do_POST cfg reg env q sm = (reply, sm')" and "manager_inv sm" and "dead t s sm"
    and "he_fresh env \<noteq> t" and "idle sm (he_get_at env) s"
  shows "dead t s sm' \<and> (hr_session_id q = Some t \<longrightarrow> sm_base sm' = sm_base sm)"
proof (cases "sm' = sm")
  case False
  then show ?thesis using post_dispatch [OF assms(1)] dispatch_dead [OF _ assms(2,3,4,5)] by metis
qed (use assms(3) in simp)

text \<open>C34: An expired session is never revived. Once a session has been idle for longer than the time to live,
  then through any further sequence of POSTs, its owner's included, its entry is never refreshed or used (it
  is the one it had when it was last seen, or it is gone), and a POST that names it reaches no tool: nothing
  shared changes, not the audit log, the kill switch, the console, the store or the broker.\<close>

theorem expired_never_revived:
  assumes "manager_inv sm" and "map_of (sm_sessions sm) t = Some s"
    and "\<forall>(env, q) \<in> set rs. he_fresh env \<noteq> t \<and> sm_ttl_seconds sm < he_get_at env - ss_last_seen s"
    and "he_fresh env \<noteq> t" and "sm_ttl_seconds sm < he_get_at env - ss_last_seen s" and "hr_session_id q = Some t"
  shows "map_of (sm_sessions (http_run cfg reg rs sm)) t \<in> {None, Some s} \<and>
    sm_base (snd (do_POST cfg reg env q (http_run cfg reg rs sm))) = sm_base (http_run cfg reg rs sm)"
proof -
  have d: "dead t s (http_run cfg reg rs sm)"
    if "manager_inv sm" "dead t s sm" "\<forall>(env, q) \<in> set rs. he_fresh env \<noteq> t \<and> sm_ttl_seconds sm < he_get_at env - ss_last_seen s" for sm
    using that
  proof (induction rs arbitrary: sm)
    case (Cons r rs)
    obtain env q where r: "r = (env, q)" by fastforce
    obtain reply sm1 where p: "do_POST cfg reg env q sm = (reply, sm1)" by fastforce
    have "he_fresh env \<noteq> t" "idle sm (he_get_at env) s" using Cons.prems(3) by (auto simp: r idle_def)
    with post_dead [OF p Cons.prems(1,2)] post_facts [OF p Cons.prems(1)] Cons.IH [of sm1] Cons.prems(3)
    show ?case by (simp add: r p)
  qed simp
  have dd: "dead t s (http_run cfg reg rs sm)" using assms(1,2,3) by (intro d) (auto simp: dead_def)
  obtain reply sm' where p: "do_POST cfg reg env q (http_run cfg reg rs sm) = (reply, sm')" by fastforce
  have "manager_inv (http_run cfg reg rs sm)" "idle (http_run cfg reg rs sm) (he_get_at env) s"
    using http_run_inv [OF assms(1), of cfg reg rs] assms(5) by (simp_all add: idle_def)
  from post_dead [OF p this(1) dd assms(4) this(2)] dd assms(6) show ?thesis by (auto simp: p dead_def)
qed

subsection \<open>Bodies that end the connection without a reply\<close>

text \<open>\<^verbatim>\<open>json.loads\<close> raises \<^verbatim>\<open>UnicodeDecodeError\<close> on bytes that are not UTF-8 and
  \<^verbatim>\<open>ValueError\<close> on an integer over the digit limit; \<^verbatim>\<open>do_POST\<close> catches neither.\<close>

lemma undecodable_body_dropped:
  assumes "bearer_ok (hr_authorization q) tok" and "cf_http_token cfg = Some tok" and "read_body_capped q = Inr body"
    and "decode_body body = Undecodable \<or> (\<exists>t. decode_body body = Decoded t \<and> \<not> he_deep env t \<and>
           loads_in over_digit_limit t = Inl Int_digits_error)"
  shows "do_POST cfg reg env q sm = (Dropped, sm)"
  using assms by (auto simp: do_POST_def)

subsection \<open>A concrete HTTP server\<close>

definition demo_cfg :: config where
  "demo_cfg = load_config [(''PRAXIS_TRANSPORT'', ''http''), (''PRAXIS_HTTP_TOKEN'', ''tok'')]"

definition demo_http_env :: "rat \<Rightarrow> string \<Rightarrow> surface_env http_env" where
  "demo_http_env now fresh =
     \<lparr>he_evict_at = now, he_seen_at = now, he_get_at = now, he_fresh = fresh, he_call = demo_surface_env, he_deep = (\<lambda>_. False)\<rparr>"

definition demo_post :: "string option \<Rightarrow> string \<Rightarrow> http_request" where
  "demo_post session body =
     \<lparr>hr_authorization = Some ''Bearer tok'', hr_session_id = session, hr_content_length = Some (nat_str (length body)),
      hr_body = body\<rparr>"

definition demo_initialize :: string where
  "demo_initialize = ''{'' @ [quote] @ ''id'' @ [quote] @ '':1,'' @ [quote] @ ''method'' @ [quote] @ '':'' @
     [quote] @ ''initialize'' @ [quote] @ ''}''"

lemma demo_undecodable: "decode_body [char_of (255::nat)] = Undecodable"
  by code_simp

lemma demo_cfg_fields [simp]:
  "cf_http_token demo_cfg = Some ''tok''" "cf_max_actions demo_cfg = None" "cf_max_wall_seconds demo_cfg = None"
  by (simp_all add: demo_cfg_def load_config_def env_get_def positive_or_none_def safe_int_def Let_def)

lemma demo_bearer [simp]: "bearer_ok (Some ''Bearer tok'') ''tok''"
  by code_simp

lemma demo_initialize_read:
  "read_body_capped (demo_post s demo_initialize) = Inr demo_initialize"
  "decode_body demo_initialize = Decoded demo_initialize"
  "loads_in over_digit_limit demo_initialize = Inr (PDict [(''id'', PInt 1), (''method'', PStr ''initialize'')])"
proof -
  have l: "length demo_initialize = 30" by code_simp
  have e: "env_int (nat_str 30) = Some 30" by code_simp
  show "read_body_capped (demo_post s demo_initialize) = Inr demo_initialize"
    by (simp add: read_body_capped_def demo_post_def l e HTTP_BODY_MAX_def)
  show "decode_body demo_initialize = Decoded demo_initialize" by code_simp
  show "loads_in over_digit_limit demo_initialize = Inr (PDict [(''id'', PInt 1), (''method'', PStr ''initialize'')])"
    by code_simp
qed

lemma demo_post_fields [simp]: "hr_authorization (demo_post s b) = Some ''Bearer tok''" "hr_session_id (demo_post s b) = s"
  by (simp_all add: demo_post_def)

lemma demo_post_initialize:
  "do_POST demo_cfg reg (demo_http_env now fresh) (demo_post s demo_initialize) sm =
   http_dispatch demo_cfg reg (demo_http_env now fresh) s [(''id'', PInt 1), (''method'', PStr ''initialize'')] sm"
  unfolding do_POST_def demo_post_fields demo_cfg_fields option.case
  by (simp add: demo_initialize_read) (simp add: demo_http_env_def)

lemma demo_first_session:
  assumes "fresh \<noteq> []"
  shows "\<exists>body sm'. http_dispatch demo_cfg reg (demo_http_env now fresh) s [(''id'', PInt 1), (''method'', PStr ''initialize'')]
     (new_manager demo_session) = (Answer 200 (Some body) (Some fresh) False, sm')"
proof -
  let ?m = "[(''id'', PInt 1), (''method'', PStr ''initialize'')]" and ?env = "demo_http_env now fresh"
  have i: "map_of ?m ''id'' = Some (PInt 1)" "message_method ?m = PStr ''initialize''" by (simp_all add: message_method_def)
  obtain ctx where x: "session_context demo_session demo_cfg None = Inr ctx"
    by (simp add: session_context_def session_budget_def approval_registry_init_def demo_session_def)
  let ?s = "\<lparr>ss_ctx = ctx, ss_ceiling = None, ss_last_seen = now\<rparr>"
  let ?sm = "(new_manager demo_session)\<lparr>sm_sessions := [(fresh, ?s)]\<rparr>"
  have c: "create_session demo_cfg None (he_fresh ?env) (he_evict_at ?env) (he_seen_at ?env) (new_manager demo_session) = (Inr fresh, ?sm)"
    using x by (simp add: create_session_def evict_locked_def new_manager_def MAX_SESSIONS_def demo_http_env_def
        make_room.simps [of 256 "[]"])
  have g: "get_session (Some fresh) (he_get_at ?env) ?sm = (Some (attach demo_session ctx), ?sm)"
    using assms by (simp add: get_session_def idle_def new_manager_def SESSION_TTL_SECONDS_def demo_http_env_def)
  have p: "parse_ceiling (map_of ?m ''params'') = None" by (simp add: parse_ceiling_def)
  have h: "mcp_handle ?m (opt_str (Some fresh)) (he_call ?env) reg (attach demo_session ctx) =
      (Some (rpc_result (PInt 1) initialize_result), attach demo_session ctx)"
    using i by (rule mcp_initialize)
  have "http_dispatch demo_cfg reg ?env s ?m (new_manager demo_session) =
      (Answer 200 (Some (rpc_result (PInt 1) initialize_result)) (Some fresh) False, put_back fresh (attach demo_session ctx) ?sm)"
    unfolding http_dispatch_def Let_def i p
    by (simp only: option.distinct not_False_eq_True simp_thms if_True c prod.case sum.case g option.case h option.sel)
  then show ?thesis by blast
qed


theorem padded_token_locks_out_witness:
  "validate_transport (demo_cfg\<lparr>cf_http_token := Some ''tok ''\<rparr>) = Inr () \<and>
   fst (do_POST (demo_cfg\<lparr>cf_http_token := Some ''tok ''\<rparr>) (surface demo_validator (\<lambda>_. PNone)) (demo_http_env 0 ''s'')
     (demo_post None demo_initialize) (new_manager demo_session)) =
   Answer 401 (Some (rpc_error PNone (-32001) ''unauthorized'')) None True"
proof -
  let ?cfg = "demo_cfg\<lparr>cf_http_token := Some ''tok ''\<rparr>"
  have p: "py_strip ''tok '' \<noteq> ''tok ''" by code_simp
  have "cf_transport demo_cfg = ''http''" "cf_http_port demo_cfg = 8765" "cf_http_host demo_cfg = ''127.0.0.1''"
    unfolding demo_cfg_def by code_simp+
  then have "cf_transport ?cfg = ''http''" "cf_http_token ?cfg = Some ''tok ''" "cf_http_port ?cfg \<in> {1..65535}" "http_is_loopback ?cfg"
    by (simp_all add: http_is_loopback_def LOOPBACK_HOSTS_def)
  from padded_token_locks_out [OF p this, of "surface demo_validator (\<lambda>_. PNone)" "demo_http_env 0 ''s''"
      "demo_post None demo_initialize" "new_manager demo_session"] show ?thesis by simp
qed


definition demo_table :: "sqlite_store session_manager" where
  "demo_table = (new_manager demo_session)\<lparr>sm_sessions := [(''t'', \<lparr>ss_ctx = demo_session, ss_ceiling = None, ss_last_seen = 0\<rparr>)]\<rparr>"

theorem expired_never_revived_witness:
  "sm_base (snd (do_POST demo_cfg (surface demo_validator (\<lambda>_. PNone)) (demo_http_env 4000 ''u'')
     (demo_post (Some ''t'') demo_initialize) demo_table)) = demo_session"
proof -
  let ?s = "\<lparr>ss_ctx = demo_session, ss_ceiling = None, ss_last_seen = 0\<rparr> :: sqlite_store http_session"
  have a: "manager_inv demo_table" "map_of (sm_sessions demo_table) ''t'' = Some ?s" "sm_base demo_table = demo_session"
    by (simp_all add: manager_inv_def demo_table_def new_manager_def MAX_SESSIONS_def)
  have e: "\<forall>(env, q) \<in> set ([] :: (surface_env http_env \<times> http_request) list).
      he_fresh env \<noteq> ''t'' \<and> sm_ttl_seconds demo_table < he_get_at env - ss_last_seen ?s" by simp
  have f: "he_fresh (demo_http_env 4000 ''u'') \<noteq> ''t''" "sm_ttl_seconds demo_table < he_get_at (demo_http_env 4000 ''u'') - ss_last_seen ?s"
    "hr_session_id (demo_post (Some ''t'') demo_initialize) = Some ''t''"
    by (simp_all add: demo_http_env_def demo_table_def new_manager_def SESSION_TTL_SECONDS_def)
  from expired_never_revived [OF a(1,2) e f, of demo_cfg "surface demo_validator (\<lambda>_. PNone)"] a(3) show ?thesis by simp
qed

end
