(* ===== verification/Startup.thy ===== *)
theory Startup
  imports HttpServer Evidence PostgresStore
begin

section \<open>Assembling and starting the server (server.py, __main__.py)\<close>

text \<open>
  \<^verbatim>\<open>build_context\<close> assembles the store, the evidence scheduler, the audit logger with its session
  header, the kill switch, the budget and the approval registry from a configuration; \<^verbatim>\<open>serve\<close>
  checks the transport first and covers the tail of the log on the way out. What the file system, the
  database and the certificate file hold is given by \<open>startup_env\<close>.
\<close>

datatype startup_error =
    Transport_refused string
  | Store_failed exn
  | Stamper_failed stamper_error
  | Audit_failed audit_exc
  | Header_collision "string list"
  | Int_too_large int
  | Budget_failed budget_error
  | Approvals_failed string

text \<open>\<^verbatim>\<open>math.isfinite(i)\<close> and \<^verbatim>\<open>float(i)\<close> raise \<^verbatim>\<open>OverflowError\<close> for an
  integer whose nearest double is out of range; the configuration bounds no integer above.\<close>

definition fits_float :: "int \<Rightarrow> bool" where
  "fits_float i \<longleftrightarrow> \<bar>i\<bar> < 2 ^ 1024 - 2 ^ 970"

record 'w startup_env =
  st_open_store :: "string option \<Rightarrow> exn + 'w"
  st_evidence_suffix :: "string \<Rightarrow> string"    \<comment> \<open>\<^verbatim>\<open>with_suffix\<close> of the audit path\<close>
  st_read_cert :: "string \<Rightarrow> string option"
  st_rfc3161 :: "string \<Rightarrow> string \<Rightarrow> stamper"
  st_files :: "string \<Rightarrow> file_state"           \<comment> \<open>the files before the start\<close>
  st_openable :: "string \<Rightarrow> bool"              \<comment> \<open>the file can be opened for appending\<close>
  st_stderr :: bool
  st_write :: write_env
  st_header :: session_header
  st_scheduler :: scheduler_env

record 'w server =
  sv_context :: "'w server_context"
  sv_evidence :: "(stamper \<times> scheduler) option"

text \<open>A path that is set: \<^verbatim>\<open>Path(x) if x else None\<close>.\<close>

definition path_or_none :: "string option \<Rightarrow> string option" where
  "path_or_none p = (case p of None \<Rightarrow> None | Some s \<Rightarrow> if s = [] then None else Some s)"

definition build_scheduler ::
  "'w startup_env \<Rightarrow> config \<Rightarrow> startup_error + (stamper \<times> scheduler) option" where
  "build_scheduler env cfg =
     (case path_or_none (cf_audit_path cfg) of
        None \<Rightarrow> Inr None
      | Some audit_path \<Rightarrow>
          if \<not> 0 < cf_evidence_every cfg then Inr None
          else
            (let evidence_path = (case path_or_none (cf_evidence_path cfg) of
                                    None \<Rightarrow> st_evidence_suffix env audit_path | Some p \<Rightarrow> p)
             in case select_stamper (st_read_cert env) (st_rfc3161 env) (cf_tsa_url cfg) (cf_tsa_cert_path cfg) of
                  Inl e \<Rightarrow> Inl (Stamper_failed e)
                | Inr S \<Rightarrow>
                    Inr (Some (S, \<lparr>sc_every = cf_evidence_every cfg, sc_pending = 0, sc_audit = st_files env audit_path,
                                   sc_evidence = st_files env evidence_path,
                                   sc_anchor = map_option (st_files env) (path_or_none (cf_anchor_path cfg)), sc_notes = []\<rparr>))))"

definition audit_env :: "'w startup_env \<Rightarrow> string \<Rightarrow> open_env" where
  "audit_env env p =
     \<lparr>oe_exists = (st_files env p \<noteq> Absent), oe_readable = (st_files env p \<noteq> Unreadable),
      oe_openable = st_openable env p, oe_stderr = st_stderr env\<rparr>"

fun text_of :: "file_state \<Rightarrow> string" where
  "text_of (Text t) = t"
| "text_of _ = []"

definition build_logger :: "'w startup_env \<Rightarrow> config \<Rightarrow> bool \<Rightarrow> audit_exc + audit_logger" where
  "build_logger env cfg hooked =
     (let sinks = (if path_or_none (cf_audit_syslog_address cfg) \<noteq> None then [''syslog''] else [])
      in case path_or_none (cf_audit_path cfg) of
           None \<Rightarrow> audit_init (audit_env env []) False False sinks []
         | Some p \<Rightarrow> audit_init (audit_env env p) True hooked sinks (text_of (st_files env p)))"

definition build_kill_switch :: "'w startup_env \<Rightarrow> config \<Rightarrow> kill_switch" where
  "build_kill_switch env cfg =
     (case path_or_none (cf_kill_switch_path cfg) of
        None \<Rightarrow> \<lparr>ks_sentinel = False, ks_tripped = False, ks_file = False\<rparr>
      | Some p \<Rightarrow> \<lparr>ks_sentinel = True, ks_tripped = False, ks_file = (st_files env p \<noteq> Absent)\<rparr>)"

text \<open>What the audit file holds once the logger has opened it and written to it, and the post-record
  hook for the records written so far.\<close>

definition audit_file :: "'w startup_env \<Rightarrow> config \<Rightarrow> audit_logger \<Rightarrow> file_state" where
  "audit_file env cfg lg =
     (case path_or_none (cf_audit_path cfg) of
        None \<Rightarrow> Absent
      | Some p \<Rightarrow>
          if st_files env p \<noteq> Unreadable \<and> st_openable env p then Text (lg_file lg) else st_files env p)"

definition run_hook ::
  "(string \<Rightarrow> string) \<Rightarrow> 'w startup_env \<Rightarrow> config \<Rightarrow> audit_logger \<Rightarrow> stamper \<times> scheduler \<Rightarrow> stamper \<times> scheduler" where
  "run_hook D env cfg lg S_sc =
     (let (S, sc) = S_sc; sc1 = sc\<lparr>sc_audit := audit_file env cfg lg\<rparr>
      in (S, fold (\<lambda>_. on_record D S (st_scheduler env)) (lg_hook_calls lg) sc1))"

definition build_context ::
  "(string \<Rightarrow> string) \<Rightarrow> (string \<Rightarrow> string) \<Rightarrow> 'w startup_env \<Rightarrow> config \<Rightarrow> startup_error + 'w server" where
  "build_context H D env cfg =
     (case st_open_store env (cf_store_dsn cfg) of Inl e \<Rightarrow> Inl (Store_failed e) | Inr store \<Rightarrow>
      (case build_scheduler env cfg of Inl e \<Rightarrow> Inl e | Inr scheduler \<Rightarrow>
      (case build_logger env cfg (scheduler \<noteq> None) of Inl e \<Rightarrow> Inl (Audit_failed e) | Inr lg \<Rightarrow>
      (case bind_session H (st_write env) (st_header env) (Some (retention_args cfg)) lg of
         (Inl clash, _) \<Rightarrow> Inl (Header_collision clash)
       | (Inr (Inl e), _) \<Rightarrow> Inl (Audit_failed e)
       | (Inr (Inr _), lg1) \<Rightarrow>
      if \<not> (case cf_max_wall_seconds cfg of None \<Rightarrow> True | Some i \<Rightarrow> fits_float i)
      then Inl (Int_too_large (the (cf_max_wall_seconds cfg)))
      else (case session_budget cfg of Inl e \<Rightarrow> Inl (Budget_failed e) | Inr budget \<Rightarrow>
      if \<not> fits_float (cf_approval_ttl_seconds cfg) then Inl (Int_too_large (cf_approval_ttl_seconds cfg))
      else (case approval_registry_init (Fin (of_int (cf_approval_ttl_seconds cfg))) of
         Inl e \<Rightarrow> Inl (Approvals_failed e)
       | Inr approvals \<Rightarrow>
           Inr \<lparr>sv_context =
                  \<lparr>sc_execution =
                     \<lparr>cx_mode = cf_mode cfg, cx_audit = lg1, cx_kill_switch = build_kill_switch env cfg,
                      cx_approvals = approvals, cx_contract = empty_contract, cx_max_output_bytes = 65536,
                      cx_budget = budget, cx_taint = \<lparr>untrusted_ingested = False\<rparr>, cx_console = [],
                      cx_consent_ceiling = None, cx_world = store\<rparr>,
                   sc_transport = cf_transport cfg, sc_allow_restricted = cf_allow_restricted cfg, sc_broker = Some []\<rparr>,
                sv_evidence = map_option (run_hook D env cfg lg1) scheduler\<rparr>))))))"

text \<open>\<^verbatim>\<open>serve\<close> up to the point where it reads the first message, and on the way out.\<close>

definition start :: "(string \<Rightarrow> string) \<Rightarrow> (string \<Rightarrow> string) \<Rightarrow> 'w startup_env \<Rightarrow> config \<Rightarrow> startup_error + 'w server" where
  "start H D env cfg =
     (case validate_transport cfg of Inl e \<Rightarrow> Inl (Transport_refused e) | Inr _ \<Rightarrow> build_context H D env cfg)"

definition shutdown ::
  "(string \<Rightarrow> string) \<Rightarrow> scheduler_env \<Rightarrow> (stamper \<times> scheduler) option \<Rightarrow> (stamper \<times> scheduler) option" where
  "shutdown D env evidence = map_option (\<lambda>(S, sc). (S, finalize D S env sc)) evidence"

text \<open>\<^verbatim>\<open>main\<close>: the exit message of a refused transport.\<close>

definition main_exit :: "startup_error \<Rightarrow> string option" where
  "main_exit e = (case e of Transport_refused m \<Rightarrow> Some (''praxis: refusing to start: '' @ m) | _ \<Rightarrow> None)"

subsection \<open>What a started server is\<close>

fun internal_error :: "startup_error \<Rightarrow> bool" where
  "internal_error (Header_collision clash) = True"
| "internal_error (Budget_failed e) = True"
| "internal_error (Approvals_failed m) = True"
| "internal_error _ = False"

lemma budget_from_config:
  "positive (cf_max_actions cfg) \<Longrightarrow> positive (cf_max_wall_seconds cfg) \<Longrightarrow>
   \<exists>b. session_budget cfg = Inr b \<and>
     (b = None \<longleftrightarrow> cf_max_actions cfg = None \<and> cf_max_wall_seconds cfg = None) \<and>
     (\<forall>t. b = Some t \<longrightarrow> max_actions t = cf_max_actions cfg \<and> max_usd t = None \<and> actions t = 0 \<and> wall_seconds t = Fin 0)"
  by (auto simp: session_budget_def budget_init_def check_limit_def finite_nonneg_def positive_def split: option.splits)

lemma approvals_from_config:
  "1 \<le> t \<Longrightarrow> approval_registry_init (Fin (of_int t)) = Inr \<lparr>ttl_seconds = of_int t, pending = [], consumed = []\<rparr>"
  by (simp add: approval_registry_init_def)

lemma retention_no_clash:
  "filter (\<lambda>k. k \<in> set (keys (session_args h))) (keys (retention_args cfg)) = []"
  by (simp add: session_args_def retention_args_def)

lemma bind_session_writes:
  "bind_session H env h (Some (retention_args cfg)) lg =
   apfst Inr (record_entry H env
      \<lparr>en_tool = ''praxis'', en_tier = ''T0'', en_decision = ''session'',
       en_args = session_args h @ [(''audit_retention_days'', PInt (cf_audit_retention_days cfg)),
                                   (''evidence_retention_days'', PInt (cf_evidence_retention_days cfg))],
       en_output_sha256 = EMPTY_SHA256 H, en_output_len = 0, en_target = None, en_error = None,
       en_request_id = None, en_client_id = None, en_patterns_version = sh_patterns_version h\<rparr> lg)"
  unfolding bind_session_def Let_def option.case retention_no_clash
  by (simp add: retention_args_def session_args_def)

lemma scheduler_external: "build_scheduler env cfg = Inl e \<Longrightarrow> \<not> internal_error e"
  by (auto simp: build_scheduler_def Let_def split: option.splits if_splits sum.splits)

lemma build_context_failure:
  assumes "wf_config cfg" and "build_context H D env cfg = Inl e"
  shows "\<not> internal_error e"
proof -
  obtain b where b: "session_budget cfg = Inr b"
    using assms(1) budget_from_config [of cfg] by (auto simp: wf_config_def)
  have a: "approval_registry_init (Fin (of_int (cf_approval_ttl_seconds cfg))) =
      Inr \<lparr>ttl_seconds = of_int (cf_approval_ttl_seconds cfg), pending = [], consumed = []\<rparr>"
    using assms(1) by (intro approvals_from_config) (simp add: wf_config_def)
  show ?thesis
    using assms(2) scheduler_external [of env cfg e] unfolding build_context_def bind_session_writes a b
    by (simp split: sum.splits prod.splits if_splits) (auto simp: apfst_def map_prod_def split: prod.splits)
qed

lemma build_context_success:
  assumes "build_context H D env cfg = Inr sv"
  obtains store lg scheduler b reg where
    "session_budget cfg = Inr b" "approval_registry_init (Fin (of_int (cf_approval_ttl_seconds cfg))) = Inr reg"
    "sc_execution (sv_context sv) =
       \<lparr>cx_mode = cf_mode cfg, cx_audit = lg, cx_kill_switch = build_kill_switch env cfg, cx_approvals = reg,
        cx_contract = empty_contract, cx_max_output_bytes = 65536, cx_budget = b,
        cx_taint = \<lparr>untrusted_ingested = False\<rparr>, cx_console = [], cx_consent_ceiling = None, cx_world = store\<rparr>"
    "sc_broker (sv_context sv) = Some []" "sv_evidence sv = map_option (run_hook D env cfg lg) scheduler"
    "\<exists>lg0 r. build_logger env cfg (scheduler \<noteq> None) = Inr lg0 \<and>
       bind_session H (st_write env) (st_header env) (Some (retention_args cfg)) lg0 = (Inr (Inr r), lg)"
proof -
  show thesis
    using assms unfolding build_context_def
    by (simp split: sum.splits prod.splits if_splits) (rule that; force)
qed

text \<open>C38: Starting from any environment either fails for an external reason (a refused transport, the
  store, the time-stamping certificate, the audit file, or an integer no double can hold) and never
  because of a ceiling, a time to live or a header key the server chose itself, or yields a server that
  passed the transport guard and starts from the safe posture: the configured mode, no taint, no pending
  or spent approval, no consent ceiling, an unspent budget present exactly when a ceiling is configured,
  no credential grant, and a kill switch that is tripped exactly when the sentinel file exists.\<close>

theorem startup_posture:
  "case start H D env (load_config vars) of
     Inl e \<Rightarrow> \<not> internal_error e
   | Inr sv \<Rightarrow>
       validate_transport (load_config vars) = Inr () \<and>
       cx_mode (sc_execution (sv_context sv)) = cf_mode (load_config vars) \<and>
       clean_session None (sv_context sv) \<and>
       (cx_budget (sc_execution (sv_context sv)) = None \<longleftrightarrow>
         cf_max_actions (load_config vars) = None \<and> cf_max_wall_seconds (load_config vars) = None) \<and>
       sc_broker (sv_context sv) = Some [] \<and>
       (is_tripped True (cx_kill_switch (sc_execution (sv_context sv))) \<longleftrightarrow>
         (\<exists>p. cf_kill_switch_path (load_config vars) = Some p \<and> p \<noteq> [] \<and> st_files env p \<noteq> Absent))"
proof (cases "start H D env (load_config vars)")
  case (Inl e)
  then show ?thesis
    using build_context_failure [OF load_config_wf, of H D env vars e]
    by (auto simp: start_def split: sum.splits)
next
  case (Inr sv)
  let ?cfg = "load_config vars"
  from Inr have v: "validate_transport ?cfg = Inr ()" and c: "build_context H D env ?cfg = Inr sv"
    by (simp_all add: start_def split: sum.splits)
  from c obtain store lg scheduler b reg where x: "session_budget ?cfg = Inr b"
      "approval_registry_init (Fin (of_int (cf_approval_ttl_seconds ?cfg))) = Inr reg"
      "sc_broker (sv_context sv) = Some []"
      "sc_execution (sv_context sv) =
         \<lparr>cx_mode = cf_mode ?cfg, cx_audit = lg, cx_kill_switch = build_kill_switch env ?cfg, cx_approvals = reg,
          cx_contract = empty_contract, cx_max_output_bytes = 65536, cx_budget = b,
          cx_taint = \<lparr>untrusted_ingested = False\<rparr>, cx_console = [], cx_consent_ceiling = None, cx_world = store\<rparr>"
    by (rule build_context_success)
  have "pending reg = [] \<and> consumed reg = []"
    using x(2) by (auto simp: approval_registry_init_def split: if_splits)
  moreover have "(b = None \<longleftrightarrow> cf_max_actions ?cfg = None \<and> cf_max_wall_seconds ?cfg = None) \<and>
      (\<forall>t. b = Some t \<longrightarrow> actions t = 0 \<and> wall_seconds t = Fin 0)"
    using budget_from_config [of ?cfg] load_config_wf [of vars] x(1) by (auto simp: wf_config_def)
  moreover have "is_tripped True (build_kill_switch env ?cfg) \<longleftrightarrow>
      (\<exists>p. cf_kill_switch_path ?cfg = Some p \<and> p \<noteq> [] \<and> st_files env p \<noteq> Absent)"
    by (simp add: build_kill_switch_def path_or_none_def is_tripped_def split: option.split)
  ultimately show ?thesis
    unfolding Inr sum.case clean_session_def using v x(3,4) by simp
qed

subsection \<open>The session header in the trail\<close>

definition header_entry :: "(string \<Rightarrow> string) \<Rightarrow> config \<Rightarrow> session_header \<Rightarrow> entry" where
  "header_entry H cfg h =
     \<lparr>en_tool = ''praxis'', en_tier = ''T0'', en_decision = ''session'',
      en_args = session_args h @ [(''audit_retention_days'', PInt (cf_audit_retention_days cfg)),
                                  (''evidence_retention_days'', PInt (cf_evidence_retention_days cfg))],
      en_output_sha256 = EMPTY_SHA256 H, en_output_len = 0, en_target = None, en_error = None,
      en_request_id = None, en_client_id = None, en_patterns_version = sh_patterns_version h\<rparr>"

lemma header_line_safe:
  assumes "hex_digest H" and "\<forall>c \<in> set (ts @ sh_praxis_version h @ sh_binary_sha256 h @ sh_started_at h). ord c \<noteq> 133"
  shows "line_safe (payload_of 0 ts [] (header_entry H cfg h))"
  using assms hex_not_133 [OF assms(1)]
  by (simp add: line_safe_def payload_of_def header_entry_def session_args_def opt_str_def EMPTY_SHA256_def ball_Un)
    (simp add: ord_def)

text \<open>C39: A restart extends the trail it finds: when the audit file was left by a logger whose chain
  verifies, the file opens and is written to, and the clock and the header hold no U+0085, a server that
  starts from the configuration has appended exactly one line, the session header with the retention
  periods in force, and the whole file still passes \<^verbatim>\<open>verify_chain\<close> with one record more.\<close>

theorem startup_extends_trail:
  assumes "start H D env cfg = Inr sv" and "hex_digest H" and "chain_inv H ls left"
    and "path_or_none (cf_audit_path cfg) = Some p" and "st_files env p = Text (lg_file left)" and "st_openable env p"
    and "we_file (st_write env) = None"
    and "\<forall>c \<in> set (we_ts (st_write env) @ sh_praxis_version (st_header env) @ sh_binary_sha256 (st_header env) @
           sh_started_at (st_header env)). ord c \<noteq> 133"
  shows "\<exists>l r. lg_file (cx_audit (sc_execution (sv_context sv))) = lg_file left @ l @ newline \<and>
     l = canonical (to_dict r) \<and>
     map_of (ar_payload r) ''tool'' = Some (PStr ''praxis'') \<and> map_of (ar_payload r) ''decision'' = Some (PStr ''session'') \<and>
     map_of (ar_payload r) ''args'' =
       Some (PDict [(''audit_retention_days'', PInt (cf_audit_retention_days cfg)),
                    (''binary_sha256'', PStr (sh_binary_sha256 (st_header env))),
                    (''evidence_retention_days'', PInt (cf_evidence_retention_days cfg)),
                    (''praxis_version'', PStr (sh_praxis_version (st_header env))),
                    (''started_at'', PStr (sh_started_at (st_header env)))]) \<and>
     verify_chain H (Some (lg_file (cx_audit (sc_execution (sv_context sv))))) =
       Inr \<lparr>vr_ok = True, vr_count = Suc (length ls), vr_broken_at = None, vr_reason = None\<rparr>"
proof -
  let ?e = "header_entry H cfg (st_header env)"
  have "build_context H D env cfg = Inr sv"
    using assms(1) by (simp add: start_def split: sum.splits)
  then obtain lg hooked lg0 r where lg: "cx_audit (sc_execution (sv_context sv)) = lg"
      and l0: "build_logger env cfg hooked = Inr lg0"
      and b: "bind_session H (st_write env) (st_header env) (Some (retention_args cfg)) lg0 = (Inr (Inr r), lg)"
    by (elim build_context_success) auto
  have "recover (Some (lg_file left)) = Inr (int (length ls), lg_prev_hash left)"
    using assms(3) recover_file_of unfolding chain_inv_def by metis
  with l0 assms(3-6) have c0: "chain_inv H ls lg0"
    by (auto simp: build_logger_def audit_init_def audit_env_def new_logger_def chain_inv_def Let_def)
  have clean: "clean_call (st_write env) ?e"
    unfolding clean_call_def using assms(7) header_line_safe [OF assms(2,8)]
    by (simp add: header_entry_def session_args_def)
  from record_chain [OF c0 clean assms(2)] b have
    c: "chain_inv H (ls @ [canonical (to_dict (entry_record H (we_ts (st_write env)) ?e lg0))]) lg"
    by (auto simp: bind_session_writes header_entry_def [symmetric])
  let ?r = "entry_record H (we_ts (st_write env)) ?e lg0"
  show ?thesis
    unfolding lg
  proof (intro exI [of _ "canonical (to_dict ?r)"] exI [of _ ?r] conjI)
    show "lg_file lg = lg_file left @ canonical (to_dict ?r) @ newline"
      using c assms(3) by (simp add: chain_inv_def)
    show "verify_chain H (Some (lg_file lg)) =
        Inr \<lparr>vr_ok = True, vr_count = Suc (length ls), vr_broken_at = None, vr_reason = None\<rparr>"
      using chain_verifies [OF c] by simp
  qed (simp_all add: entry_record_def entry_payload_def payload_of_def header_entry_def session_args_def)
qed

subsection \<open>A restart over a log of one line\<close>

definition demo_start_cfg :: config where
  "demo_start_cfg = load_config [(''PRAXIS_AUDIT_PATH'', ''a.jsonl'')]"

definition demo_left :: audit_logger where
  "demo_left = new_logger 1 ''ab'' True False [] (demo_line @ newline) []"

definition demo_header :: session_header where
  "demo_header = \<lparr>sh_praxis_version = ''1'', sh_binary_sha256 = ''ab'', sh_patterns_version = 1, sh_started_at = ''t''\<rparr>"

definition demo_startup_env :: "unit startup_env" where
  "demo_startup_env =
     \<lparr>st_open_store = (\<lambda>_. Inr ()), st_evidence_suffix = (\<lambda>p. p @ ''.evidence''), st_read_cert = (\<lambda>_. None),
      st_rfc3161 = (\<lambda>_ _. local_stamper), st_files = (\<lambda>p. if p = ''a.jsonl'' then Text (lg_file demo_left) else Absent),
      st_openable = (\<lambda>_. True), st_stderr = True, st_write = demo_env, st_header = demo_header,
      st_scheduler = \<lparr>se_checkpoint = \<lparr>ce_ts = ''t'', ce_stamp_ts = ''t'', ce_write = Append_ok\<rparr>, se_anchor = Append_ok\<rparr>\<rparr>"

lemma demo_left_chain: "chain_inv (\<lambda>_. ''ab'') [demo_line] demo_left"
  using demo_chain by (simp add: chain_inv_def demo_left_def new_logger_def file_of_def) (simp add: ord_def)

lemma demo_start_fields:
  "cf_audit_path demo_start_cfg = Some ''a.jsonl''" "cf_transport demo_start_cfg = ''stdio''"
  "cf_evidence_every demo_start_cfg = 64" "cf_evidence_path demo_start_cfg = None" "cf_tsa_url demo_start_cfg = None"
  "cf_max_actions demo_start_cfg = None" "cf_max_wall_seconds demo_start_cfg = None"
  "cf_anchor_path demo_start_cfg = None" "cf_audit_syslog_address demo_start_cfg = None"
proof -
  have "py_lower ''stdio'' = ''stdio''" by code_simp
  then show "cf_audit_path demo_start_cfg = Some ''a.jsonl''" "cf_transport demo_start_cfg = ''stdio''"
    "cf_evidence_every demo_start_cfg = 64" "cf_evidence_path demo_start_cfg = None" "cf_tsa_url demo_start_cfg = None"
    "cf_max_actions demo_start_cfg = None" "cf_max_wall_seconds demo_start_cfg = None"
    "cf_anchor_path demo_start_cfg = None" "cf_audit_syslog_address demo_start_cfg = None"
    by (simp_all add: demo_start_cfg_def load_config_def env_get_def get_or_def text_or_def positive_or_none_def
        interval_or_default_def safe_int_def Let_def)
qed

lemma demo_start_ttl: "cf_approval_ttl_seconds demo_start_cfg = 600"
proof -
  have "env_int ''600'' = Some 600" by code_simp
  then show ?thesis
    by (simp add: demo_start_cfg_def load_config_def get_or_def env_get_def safe_int_def Let_def)
qed

lemma demo_starts: "\<exists>sv. start (\<lambda>_. ''ab'') D demo_startup_env demo_start_cfg = Inr sv"
proof -
  let ?env = "demo_startup_env" and ?H = "\<lambda>_. ''ab''"
  let ?e = "header_entry ?H demo_start_cfg demo_header"
  have p: "path_or_none (cf_audit_path demo_start_cfg) = Some ''a.jsonl''"
    by (simp add: path_or_none_def demo_start_fields)
  have c: "chain_inv ?H [demo_line] (new_logger 1 ''ab'' True hooked sinks (demo_line @ newline) [])" for hooked sinks
    using demo_left_chain by (simp add: chain_inv_def demo_left_def new_logger_def)
  have "recover (Some (file_of [demo_line])) = Inr (1, ''ab'')"
    using recover_file_of [of "[demo_line]" ?H "''ab''" 1] demo_chain by simp
  then have l: "build_logger ?env demo_start_cfg hooked = Inr (new_logger 1 ''ab'' True hooked [] (demo_line @ newline) [])" for hooked
    by (simp add: build_logger_def p path_or_none_def demo_start_fields audit_env_def audit_init_def demo_startup_env_def
        file_of_def demo_left_def new_logger_def)
  have clean: "clean_call demo_env ?e"
    unfolding clean_call_def using header_line_safe [OF demo_digest, of "we_ts demo_env" demo_header demo_start_cfg]
    by (simp add: header_entry_def session_args_def demo_env_def demo_header_def ord_def)
  have b: "\<exists>r lg. bind_session ?H (st_write ?env) (st_header ?env) (Some (retention_args demo_start_cfg))
      (new_logger 1 ''ab'' True hooked [] (demo_line @ newline) []) = (Inr (Inr r), lg)" for hooked
    using record_chain [OF c clean demo_digest, of hooked "[]"]
    by (auto simp: bind_session_writes header_entry_def [symmetric] demo_startup_env_def)
  have s: "\<exists>sc. build_scheduler ?env demo_start_cfg = Inr (Some sc)"
    by (simp add: build_scheduler_def path_or_none_def demo_start_fields select_stamper_def Let_def)
  then obtain sc where s: "build_scheduler ?env demo_start_cfg = Inr (Some sc)" ..
  obtain r lg where b: "bind_session ?H (st_write ?env) (st_header ?env) (Some (retention_args demo_start_cfg))
      (new_logger 1 ''ab'' True True [] (demo_line @ newline) []) = (Inr (Inr r), lg)"
    using b by blast
  have store: "st_open_store ?env dsn = Inr ()" for dsn by (simp add: demo_startup_env_def)
  show ?thesis
    by (simp add: start_def validate_transport_def demo_start_fields build_context_def store s l b session_budget_def
        demo_start_ttl fits_float_def approval_registry_init_def)
qed

theorem startup_extends_trail_witness:
  "\<exists>sv. start (\<lambda>_. ''ab'') (\<lambda>_. ''ab'') demo_startup_env demo_start_cfg = Inr sv \<and>
     verify_chain (\<lambda>_. ''ab'') (Some (lg_file (cx_audit (sc_execution (sv_context sv))))) =
       Inr \<lparr>vr_ok = True, vr_count = 2, vr_broken_at = None, vr_reason = None\<rparr>"
proof -
  obtain sv where sv: "start (\<lambda>_. ''ab'') (\<lambda>_. ''ab'') demo_startup_env demo_start_cfg = Inr sv"
    using demo_starts by blast
  have p: "path_or_none (cf_audit_path demo_start_cfg) = Some ''a.jsonl''"
    by (simp add: path_or_none_def demo_start_fields)
  have "st_files demo_startup_env ''a.jsonl'' = Text (lg_file demo_left)" "st_openable demo_startup_env ''a.jsonl''"
    "we_file (st_write demo_startup_env) = None"
    "\<forall>c \<in> set (we_ts (st_write demo_startup_env) @ sh_praxis_version (st_header demo_startup_env) @
        sh_binary_sha256 (st_header demo_startup_env) @ sh_started_at (st_header demo_startup_env)). ord c \<noteq> 133"
    by (simp_all add: demo_startup_env_def demo_env_def demo_header_def) (simp_all add: ord_def)
  from startup_extends_trail [OF sv demo_digest demo_left_chain p this] sv show ?thesis
    by (auto simp: numeral_2_eq_2)
qed

end
