(* ===== verification/Findall.thy ===== *)
theory Findall
  imports PyRe
begin

section \<open>findall and groups of a regular expression\<close>

text \<open>
  \<^verbatim>\<open>pattern.findall(s)\<close>: the texts of the matches, left to right and without overlap, and the
  text of one group of \<^verbatim>\<open>pattern.match(s)\<close>. No pattern these are used with matches the empty text;
  the length test stands for it.
\<close>

function findall_from :: "rexp \<Rightarrow> char option \<Rightarrow> string \<Rightarrow> string list" where
  "findall_from r b s =
     (case s of
        [] \<Rightarrow> []
      | c # cs \<Rightarrow>
          (case ends r (b, s) of
             [] \<Rightarrow> findall_from r (Some c) cs
           | q # _ \<Rightarrow>
               if length (snd q) < length s
               then take (length s - length (snd q)) s # findall_from r (fst q) (snd q)
               else findall_from r (Some c) cs))"
  by pat_completeness auto
termination
  by (relation "measure (\<lambda>(r, b, s). length s)") auto

declare findall_from.simps [simp del]

definition re_findall :: "rexp \<Rightarrow> string \<Rightarrow> string list" where
  "re_findall r s = findall_from r None s"

definition read_between :: "pos \<Rightarrow> pos \<Rightarrow> string" where
  "read_between q q' = take (length (snd q) - length (snd q')) (snd q)"

definition match_group :: "rexp \<Rightarrow> rexp \<Rightarrow> rexp \<Rightarrow> string \<Rightarrow> string option" where
  "match_group pre grp post s =
     (case concat (map (\<lambda>q1. map (\<lambda>q2. read_between q1 q2) (filter (\<lambda>q2. ends post q2 \<noteq> []) (ends grp q1)))
             (ends pre (None, s))) of
        [] \<Rightarrow> None
      | t # _ \<Rightarrow> Some t)"

text \<open>What is found is a text the pattern relates two positions of the subject by.\<close>

lemma ends_read:
  assumes "q' \<in> set (ends r q)"
  shows "snd q = read_between q q' @ snd q'" and "(q, q') \<in> sem r"
proof -
  show s: "(q, q') \<in> sem r" using assms ends_sem [of r q] by auto
  from sem_reads [OF this] obtain w where "snd q = w @ snd q'" by (auto simp: reads_def)
  then show "snd q = read_between q q' @ snd q'" by (simp add: read_between_def)
qed

lemma match_group_read:
  assumes "match_group pre grp post s = Some t"
  shows "\<exists>q1 q2. q2 \<in> set (ends grp q1) \<and> t = read_between q1 q2"
proof -
  let ?ts = "concat (map (\<lambda>q1. map (\<lambda>q2. read_between q1 q2) (filter (\<lambda>q2. ends post q2 \<noteq> []) (ends grp q1)))
      (ends pre (None, s)))"
  have "t \<in> set ?ts" using assms unfolding match_group_def by (cases ?ts) simp_all
  then show ?thesis by auto
qed

lemma findall_sem:
  "t \<in> set (findall_from r b s) \<Longrightarrow>
   \<exists>q q'. (q, q') \<in> sem r \<and> t = read_between q q' \<and> t \<noteq> [] \<and> (\<exists>u. s = u @ snd q)"
proof (induction r b s rule: findall_from.induct)
  case (1 r b s)
  show ?case
  proof (cases s)
    case Nil
    with "1.prems" show ?thesis by (simp add: findall_from.simps [of r b "[]"])
  next
    case (Cons c cs)
    have skip: "t \<in> set (findall_from r (Some c) cs) \<Longrightarrow> ?thesis" if "ends r (b, s) = [] \<or> (\<exists>q qs. ends r (b, s) = q # qs \<and> \<not> length (snd q) < length s)"
      using "1.IH"(1) [OF Cons] "1.IH"(3) [OF Cons] that unfolding Cons by (metis append_Cons)
    show ?thesis
    proof (cases "ends r (b, s)")
      case Nil
      with "1.prems" Cons skip show ?thesis by (subst (asm) findall_from.simps) simp
    next
      case (Cons q qs)
      note e = this
      show ?thesis
      proof (cases "length (snd q) < length s")
        case False
        with "1.prems" e \<open>s = c # cs\<close> skip show ?thesis by (subst (asm) findall_from.simps) simp
      next
        case True
        have q: "q \<in> set (ends r (b, s))" by (simp add: e)
        from "1.prems" True e \<open>s = c # cs\<close> have "t = read_between (b, s) q \<or> t \<in> set (findall_from r (fst q) (snd q))"
          by (subst (asm) findall_from.simps) (simp add: read_between_def)
        then show ?thesis
        proof
          assume "t = read_between (b, s) q"
          moreover have "read_between (b, s) q \<noteq> []" using True \<open>s = c # cs\<close> by (simp add: read_between_def)
          ultimately show ?thesis using ends_read(2) [OF q] by (metis append_Nil snd_conv)
        next
          assume "t \<in> set (findall_from r (fst q) (snd q))"
          from "1.IH"(2) [OF \<open>s = c # cs\<close> e] True this show ?thesis
            using ends_read(1) [OF q] by (metis append.assoc snd_conv)
        qed
      qed
    qed
  qed
qed

end
