(* ===== verification/Governance.thy ===== *)
theory Governance
  imports Findall Json
begin

section \<open>The compliance catalog and its cross-reference rules (governance/)\<close>

text \<open>
  The catalog is the record the pydantic model yields; the repository the rules look at is given by
  what exists in it and what its files hold. A violation is the constructor of the message the code
  formats, with the fields it interpolates. \<open>consistent\<close> states the rules as relations between the
  catalog, the constraints, the source tree and the prose map.
\<close>

datatype control_status = IMPLEMENTED | PARTIAL | PLANNED

record regulatory_ref =
  rr_framework :: string
  rr_article :: string
  rr_note :: string

record compliance_control =
  cc_title :: string
  cc_statement :: string
  cc_invariants :: "int list"
  cc_modules :: "string list"
  cc_proving_tests :: "string list"
  cc_regulatory :: "regulatory_ref list"
  cc_status :: control_status
  cc_tracking :: "string option"

record compliance_catalog =
  ct_version :: string
  ct_notes :: string
  ct_frameworks :: "(string, string) pydict"
  ct_controls :: "(string, compliance_control) pydict"

text \<open>The repository: \<open>rp_read\<close> is \<open>None\<close> where \<^verbatim>\<open>read_text\<close> raises.\<close>

record repo =
  rp_exists :: "string \<Rightarrow> bool"
  rp_is_file :: "string \<Rightarrow> bool"
  rp_read :: "string \<Rightarrow> string option"
  rp_python_files :: "string list"     \<comment> \<open>\<^verbatim>\<open>sorted(src.rglob("*.py"))\<close>, relative to the root\<close>

subsection \<open>The tokens\<close>

definition digits1 :: rexp where "digits1 = many1 (Cls is_digit)"

definition SEC_ID :: rexp where
  "SEC_ID = seqs [AtBegin, lit ''SEC-'', digits1, AtEnd]"

definition CTL_ID :: rexp where
  "CTL_ID = seqs [AtBegin, lit ''CTL-'', rep 3 (Cls is_digit), AtEnd]"

definition SEC_TOKEN :: rexp where
  "SEC_TOKEN = seqs [WordB, lit ''SEC-'', digits1, WordB]"

definition sec_token :: rexp where
  "sec_token = seqs [lit ''SEC-'', digits1]"

definition STPA_PATH :: string where "STPA_PATH = ''docs/stpa/07-security-constraints.md''"
definition MAP_PATH :: string where "MAP_PATH = ''docs/governance/compliance-map.md''"

datatype read_error = Read_error string

definition read_text :: "repo \<Rightarrow> string \<Rightarrow> read_error + string" where
  "read_text repo p = (case rp_read repo p of None \<Rightarrow> Inl (Read_error p) | Some t \<Rightarrow> Inr t)"

text \<open>One computation after the other, stopping at the first that raises.\<close>

fun traverse :: "('a \<Rightarrow> 'e + 'b) \<Rightarrow> 'a list \<Rightarrow> 'e + 'b list" where
  "traverse f [] = Inr []"
| "traverse f (x # xs) =
     (case f x of Inl e \<Rightarrow> Inl e | Inr y \<Rightarrow> (case traverse f xs of Inl e \<Rightarrow> Inl e | Inr ys \<Rightarrow> Inr (y # ys)))"

definition stpa_row :: "string \<Rightarrow> string option" where
  "stpa_row line =
     match_group (seqs [AtBegin, lit ''|'', spaces]) sec_token (seqs [spaces, lit ''|'']) line"

definition stpa_sec_ids :: "repo \<Rightarrow> read_error + string list" where
  "stpa_sec_ids repo =
     (case read_text repo STPA_PATH of
        Inl e \<Rightarrow> Inl e
      | Inr text \<Rightarrow> Inr (remdups (map the (filter (\<lambda>m. m \<noteq> None) (map stpa_row (splitlines text))))))"

definition map_sec_ids :: "repo \<Rightarrow> read_error + string list" where
  "map_sec_ids repo =
     (case read_text repo MAP_PATH of Inl e \<Rightarrow> Inl e | Inr text \<Rightarrow> Inr (remdups (re_findall SEC_TOKEN text)))"

definition src_sec_tokens :: "repo \<Rightarrow> read_error + (string, string list) pydict" where
  "src_sec_tokens repo =
     traverse (\<lambda>rel. case read_text repo rel of
                 Inl e \<Rightarrow> Inl e | Inr text \<Rightarrow> Inr (rel, remdups (re_findall SEC_TOKEN text)))
       (rp_python_files repo)"

subsection \<open>The rules\<close>

datatype gate_violation =
    Bad_id string
  | Not_in_stpa string
  | Coverage_gap string
  | Bad_invariant string int
  | Missing_module string string
  | No_back_citation string string
  | Unknown_framework string string
  | Test_form string string
  | Test_file_missing string string
  | Test_not_found string string string
  | No_proving_test string
  | No_tracking string control_status
  | Tracked_implemented string string
  | Framework_uncited string
  | Dangling string string
  | Map_parity string

text \<open>\<^verbatim>\<open>test.split("::", 1)\<close>; \<open>None\<close> when there is no \<^verbatim>\<open>::\<close>.\<close>

fun split_test :: "string \<Rightarrow> (string \<times> string) option" where
  "split_test (a # b # cs) =
     (if a = CHR '':'' \<and> b = CHR '':'' then Some ([], cs)
      else map_option (\<lambda>(rel, func). (a # rel, func)) (split_test (b # cs)))"
| "split_test _ = None"

definition defines_test :: "string \<Rightarrow> string \<Rightarrow> bool" where
  "defines_test text func = re_search (seqs [WordB, lit ''def '', lit func, WordB]) text"

definition check_proving_test :: "repo \<Rightarrow> string \<Rightarrow> string \<Rightarrow> read_error + gate_violation option" where
  "check_proving_test repo cid test =
     (case split_test test of
        None \<Rightarrow> Inr (Some (Test_form cid test))
      | Some (rel, func) \<Rightarrow>
          if \<not> rp_is_file repo rel then Inr (Some (Test_file_missing cid rel))
          else (case read_text repo rel of
                  Inl e \<Rightarrow> Inl e
                | Inr text \<Rightarrow> Inr (if defines_test text func then None else Some (Test_not_found cid func rel))))"

definition is_sec :: "string \<Rightarrow> bool" where "is_sec cid = re_match SEC_ID cid"
definition is_ctl :: "string \<Rightarrow> bool" where "is_ctl cid = re_match CTL_ID cid"

definition endswith :: "string \<Rightarrow> string \<Rightarrow> bool" where
  "endswith s w \<longleftrightarrow> length w \<le> length s \<and> drop (length s - length w) s = w"

definition tokens_at :: "(string, string list) pydict \<Rightarrow> string \<Rightarrow> string list" where
  "tokens_at src_tokens m = (case map_of src_tokens m of None \<Rightarrow> [] | Some ts \<Rightarrow> ts)"

definition check_module ::
  "repo \<Rightarrow> (string, string list) pydict \<Rightarrow> string \<Rightarrow> string \<Rightarrow> gate_violation list" where
  "check_module repo src_tokens cid m =
     (if \<not> rp_exists repo m then [Missing_module cid m]
      else if is_sec cid \<and> startswith m ''src/praxis/'' \<and> endswith m ''.py'' \<and> cid \<notin> set (tokens_at src_tokens m)
      then [No_back_citation cid m] else [])"

definition check_status :: "string \<Rightarrow> compliance_control \<Rightarrow> gate_violation list" where
  "check_status cid control =
     (let tracked = (case cc_tracking control of None \<Rightarrow> False | Some t \<Rightarrow> t \<noteq> [])
      in (if cc_status control \<in> {PARTIAL, PLANNED} \<and> \<not> tracked then [No_tracking cid (cc_status control)] else []) @
         (if cc_status control = IMPLEMENTED \<and> tracked
          then [Tracked_implemented cid (the (cc_tracking control))] else []))"

text \<open>The body of the loop over the controls, without the frameworks it collects.\<close>

definition check_control ::
  "repo \<Rightarrow> (string, string list) pydict \<Rightarrow> string list \<Rightarrow> string \<times> compliance_control \<Rightarrow> read_error + gate_violation list" where
  "check_control repo src_tokens framework_ids c =
     (let (cid, control) = c
      in case traverse (check_proving_test repo cid) (cc_proving_tests control) of
           Inl e \<Rightarrow> Inl e
         | Inr problems \<Rightarrow>
             Inr (map (Bad_invariant cid) (filter (\<lambda>i. \<not> (1 \<le> i \<and> i \<le> 9)) (cc_invariants control)) @
                  concat (map (check_module repo src_tokens cid) (cc_modules control)) @
                  map (\<lambda>r. Unknown_framework cid (rr_framework r))
                    (filter (\<lambda>r. rr_framework r \<notin> set framework_ids) (cc_regulatory control)) @
                  map the (filter (\<lambda>p. p \<noteq> None) problems) @
                  (if cc_status control = IMPLEMENTED \<and> cc_proving_tests control = [] then [No_proving_test cid] else []) @
                  check_status cid control))"

definition minus :: "string list \<Rightarrow> string list \<Rightarrow> string list" where
  "minus xs ys = sort (remdups (filter (\<lambda>x. x \<notin> set ys) xs))"

definition cited_frameworks :: "compliance_catalog \<Rightarrow> string list" where
  "cited_frameworks catalog =
     concat (map (\<lambda>(cid, control). map rr_framework (cc_regulatory control)) (ct_controls catalog))"

definition validate_catalog :: "repo \<Rightarrow> compliance_catalog \<Rightarrow> read_error + gate_violation list" where
  "validate_catalog repo catalog =
     (case stpa_sec_ids repo of Inl e \<Rightarrow> Inl e | Inr stpa \<Rightarrow>
      (case src_sec_tokens repo of Inl e \<Rightarrow> Inl e | Inr src_tokens \<Rightarrow>
      (let ids = keys (ct_controls catalog);
           framework_ids = keys (ct_frameworks catalog);
           sec_controls = filter is_sec ids
       in case traverse (check_control repo src_tokens framework_ids) (ct_controls catalog) of
            Inl e \<Rightarrow> Inl e
          | Inr per_control \<Rightarrow>
      (case map_sec_ids repo of Inl e \<Rightarrow> Inl e | Inr mapped \<Rightarrow>
       Inr (map Bad_id (filter (\<lambda>cid. \<not> (is_sec cid \<or> is_ctl cid)) ids) @
            map Not_in_stpa (minus sec_controls stpa) @
            map Coverage_gap (minus stpa ids) @
            concat per_control @
            map Framework_uncited (minus framework_ids (cited_frameworks catalog)) @
            concat (map (\<lambda>(m, tokens). map (Dangling m) (minus tokens ids)) src_tokens) @
            map Map_parity (minus mapped ids))))))"

text \<open>\<^verbatim>\<open>run\<close>: what loading the catalog gave, a model violation and an unreadable file being
  violations themselves; \<^verbatim>\<open>main\<close> exits with 1 as soon as there is one.\<close>

datatype load_outcome = Loaded compliance_catalog | Schema_invalid | Catalog_unreadable | Not_utf8

datatype run_violation = Schema_error | Unreadable_error | Rule gate_violation

definition run_governance :: "repo \<Rightarrow> load_outcome \<Rightarrow> read_error + run_violation list" where
  "run_governance repo loaded =
     (case loaded of
        Schema_invalid \<Rightarrow> Inr [Schema_error]
      | Catalog_unreadable \<Rightarrow> Inr [Unreadable_error]
      | Not_utf8 \<Rightarrow> Inl (Read_error ''docs/governance/compliance-controls.json'')
      | Loaded catalog \<Rightarrow> map_sum id (map Rule) (validate_catalog repo catalog))"

definition main_governance :: "repo \<Rightarrow> load_outcome \<Rightarrow> read_error + int" where
  "main_governance repo loaded =
     (case run_governance repo loaded of Inl e \<Rightarrow> Inl e | Inr errors \<Rightarrow> Inr (if errors \<noteq> [] then 1 else 0))"

subsection \<open>What a clean run means\<close>

definition test_ok :: "repo \<Rightarrow> string \<Rightarrow> bool" where
  "test_ok repo test \<longleftrightarrow>
     (\<exists>rel func text. split_test test = Some (rel, func) \<and> rp_is_file repo rel \<and> rp_read repo rel = Some text \<and>
        defines_test text func)"

definition control_ok ::
  "repo \<Rightarrow> (string, string list) pydict \<Rightarrow> string set \<Rightarrow> string \<Rightarrow> compliance_control \<Rightarrow> bool" where
  "control_ok repo src_tokens frameworks cid c \<longleftrightarrow>
     set (cc_invariants c) \<subseteq> {1..9} \<and>
     (\<forall>m \<in> set (cc_modules c). rp_exists repo m \<and>
        (is_sec cid \<and> startswith m ''src/praxis/'' \<and> endswith m ''.py'' \<longrightarrow> cid \<in> set (tokens_at src_tokens m))) \<and>
     rr_framework ` set (cc_regulatory c) \<subseteq> frameworks \<and>
     (\<forall>t \<in> set (cc_proving_tests c). test_ok repo t) \<and>
     (if cc_status c = IMPLEMENTED then cc_proving_tests c \<noteq> [] \<and> cc_tracking c \<in> {None, Some []}
      else cc_tracking c \<notin> {None, Some []})"

definition consistent :: "repo \<Rightarrow> compliance_catalog \<Rightarrow> bool" where
  "consistent repo catalog \<longleftrightarrow>
     (\<exists>stpa src_tokens mapped.
        stpa_sec_ids repo = Inr stpa \<and> src_sec_tokens repo = Inr src_tokens \<and> map_sec_ids repo = Inr mapped \<and>
        (\<forall>cid \<in> set (keys (ct_controls catalog)). is_sec cid \<or> is_ctl cid) \<and>
        {cid \<in> set (keys (ct_controls catalog)). is_sec cid} = set stpa \<and>
        (\<forall>(cid, c) \<in> set (ct_controls catalog).
           control_ok repo src_tokens (set (keys (ct_frameworks catalog))) cid c) \<and>
        set (keys (ct_frameworks catalog)) = set (cited_frameworks catalog) \<and>
        (\<forall>(m, tokens) \<in> set src_tokens. set tokens \<subseteq> set (keys (ct_controls catalog))) \<and>
        set mapped \<subseteq> set (keys (ct_controls catalog)))"

lemma sem_sec_token:
  assumes "((b, s), q) \<in> sem sec_token"
  shows "\<exists>ds. ds \<noteq> [] \<and> list_all is_digit ds \<and> s = ''SEC-'' @ ds @ snd q"
proof -
  have star: "(q1, q2) \<in> (sem (Cls is_digit))\<^sup>* \<Longrightarrow> \<exists>ds. list_all is_digit ds \<and> snd q1 = ds @ snd q2" for q1 q2
  proof (induction rule: rtrancl_induct)
    case base
    show ?case by (intro exI [of _ "[]"]) simp
  next
    case (step y z)
    from step.IH obtain ds where "list_all is_digit ds" "snd q1 = ds @ snd y" by blast
    moreover from step.hyps(2) obtain c where "snd y = c # snd z" "is_digit c" unfolding sem.simps by auto
    ultimately show ?case by (intro exI [of _ "ds @ [c]"]) simp
  qed
  from assms obtain c q1 where "s = ''SEC-'' @ c # snd q1" "is_digit c" "(q1, q) \<in> (sem (Cls is_digit))\<^sup>*"
    by (fastforce simp: sec_token_def digits1_def many1_def lit_def)
  moreover from star [OF this(3)] obtain ds where "list_all is_digit ds" "snd q1 = ds @ snd q" by blast
  ultimately show ?thesis by (intro exI [of _ "c # ds"]) simp
qed

lemma digits_match: "list_all is_digit ds \<Longrightarrow> ((b, ds), (after b ds, [])) \<in> (sem (Cls is_digit))\<^sup>*"
proof (induction ds arbitrary: b)
  case (Cons d ds)
  then have "((b, d # ds), (Some d, ds)) \<in> sem (Cls is_digit)" "((Some d, ds), (after (Some d) ds, [])) \<in> (sem (Cls is_digit))\<^sup>*"
    by simp_all
  then show ?case by (metis after_append after_def append_Cons append_Nil converse_rtrancl_into_rtrancl last.simps list.distinct(1))
qed simp

lemma is_sec_token:
  assumes "ds \<noteq> []" and "list_all is_digit ds"
  shows "is_sec (''SEC-'' @ ds)"
proof -
  obtain d ds' where ds: "ds = d # ds'" using assms(1) by (cases ds) auto
  have "((None, ''SEC-'' @ ds), (after (Some d) ds', [])) \<in> sem SEC_ID"
    using digits_match [of ds' "Some d"] assms(2)
    by (auto simp: ds SEC_ID_def digits1_def many1_def lit_def at_end_def intro!: relcompI)
  then show ?thesis unfolding is_sec_def re_match_def ends_not_Nil by blast
qed

lemma stpa_row_sec: "stpa_row line = Some t \<Longrightarrow> is_sec t"
proof -
  assume "stpa_row line = Some t"
  then obtain q1 q2 where "q2 \<in> set (ends sec_token q1)" "t = read_between q1 q2"
    unfolding stpa_row_def by (blast dest: match_group_read)
  moreover from this(1) have "(q1, q2) \<in> sem sec_token" by (rule ends_read(2))
  with sem_sec_token [of "fst q1" "snd q1" q2] obtain ds where "ds \<noteq> []" "list_all is_digit ds" "snd q1 = ''SEC-'' @ ds @ snd q2"
    by auto
  moreover have "snd q1 = t @ snd q2" using ends_read(1) calculation(1,2) by blast
  ultimately show ?thesis using is_sec_token [of ds] by simp
qed

lemma stpa_ids_sec: "stpa_sec_ids repo = Inr stpa \<Longrightarrow> sec \<in> set stpa \<Longrightarrow> is_sec sec"
  by (auto simp: stpa_sec_ids_def stpa_row_sec split: sum.splits)

lemma minus_Nil: "minus xs ys = [] \<longleftrightarrow> set xs \<subseteq> set ys"
  unfolding minus_def set_empty [symmetric] by auto

lemma concat_map_Nil: "concat (map f xs) = [] \<longleftrightarrow> (\<forall>x \<in> set xs. f x = [])"
  by (induction xs) auto

lemma traverse_constant:
  "(\<exists>ys. traverse f xs = Inr ys \<and> (\<forall>y \<in> set ys. P y)) \<longleftrightarrow> (\<forall>x \<in> set xs. \<exists>y. f x = Inr y \<and> P y)"
  by (induction xs) (auto split: sum.splits)

lemma proving_test_ok: "check_proving_test repo cid t = Inr None \<longleftrightarrow> test_ok repo t"
  by (auto simp: check_proving_test_def test_ok_def read_text_def split: option.splits prod.splits)

lemma control_clean:
  "check_control repo src_tokens frameworks (cid, c) = Inr [] \<longleftrightarrow> control_ok repo src_tokens (set frameworks) cid c"
proof -
  have t: "(\<exists>ps. traverse (check_proving_test repo cid) (cc_proving_tests c) = Inr ps \<and> (\<forall>p \<in> set ps. p = None)) \<longleftrightarrow>
      (\<forall>t \<in> set (cc_proving_tests c). test_ok repo t)"
    unfolding traverse_constant by (simp add: proving_test_ok)
  have m: "concat (map (check_module repo src_tokens cid) (cc_modules c)) = [] \<longleftrightarrow>
      (\<forall>m \<in> set (cc_modules c). rp_exists repo m \<and>
        (is_sec cid \<and> startswith m ''src/praxis/'' \<and> endswith m ''.py'' \<longrightarrow> cid \<in> set (tokens_at src_tokens m)))"
    unfolding concat_map_Nil check_module_def by auto
  have s: "check_status cid c = [] \<and> \<not> (cc_status c = IMPLEMENTED \<and> cc_proving_tests c = []) \<longleftrightarrow>
      (if cc_status c = IMPLEMENTED then cc_proving_tests c \<noteq> [] \<and> cc_tracking c \<in> {None, Some []}
       else cc_tracking c \<notin> {None, Some []})"
    by (cases "cc_status c") (auto simp: check_status_def Let_def split: option.splits)
  have i: "filter (\<lambda>i. \<not> (1 \<le> i \<and> i \<le> 9)) (cc_invariants c) = [] \<longleftrightarrow> set (cc_invariants c) \<subseteq> {1..9}"
    by (auto simp: filter_empty_conv)
  have f: "filter (\<lambda>r. rr_framework r \<notin> set frameworks) (cc_regulatory c) = [] \<longleftrightarrow>
      rr_framework ` set (cc_regulatory c) \<subseteq> set frameworks"
    by (auto simp: filter_empty_conv)
  have "check_control repo src_tokens frameworks (cid, c) = Inr [] \<longleftrightarrow>
      (\<exists>ps. traverse (check_proving_test repo cid) (cc_proving_tests c) = Inr ps \<and> (\<forall>p \<in> set ps. p = None)) \<and>
      filter (\<lambda>i. \<not> (1 \<le> i \<and> i \<le> 9)) (cc_invariants c) = [] \<and>
      concat (map (check_module repo src_tokens cid) (cc_modules c)) = [] \<and>
      filter (\<lambda>r. rr_framework r \<notin> set frameworks) (cc_regulatory c) = [] \<and>
      (check_status cid c = [] \<and> \<not> (cc_status c = IMPLEMENTED \<and> cc_proving_tests c = []))"
    unfolding check_control_def Let_def prod.case
    by (cases "traverse (check_proving_test repo cid) (cc_proving_tests c)") (auto simp: filter_empty_conv)
  then show ?thesis unfolding t m s i f control_ok_def by blast
qed

text \<open>C21: The compliance gate exits with 0 exactly when the catalog loads and is consistent with the
  repository in both directions: every id has one of the two forms, the SEC controls are exactly the
  STPA constraints, every control cites only existing modules (which cite it back), known frameworks,
  invariants 1 to 9 and tests that exist and define the function, every implemented control has a test and
  no open tracking item and every other one has a tracking item, the frameworks in scope are exactly the
  cited ones, and no source file and no row of the prose map names a control that is not there.\<close>

theorem gate_exact:
  "main_governance repo loaded = Inr 0 \<longleftrightarrow> (\<exists>catalog. loaded = Loaded catalog \<and> consistent repo catalog)"
proof (cases loaded)
  case (Loaded catalog)
  let ?ids = "keys (ct_controls catalog)" and ?fs = "keys (ct_frameworks catalog)"
  have "validate_catalog repo catalog = Inr [] \<longleftrightarrow> consistent repo catalog"
  proof (cases "stpa_sec_ids repo"; cases "src_sec_tokens repo"; cases "map_sec_ids repo")
    fix stpa src_tokens mapped
    assume e: "stpa_sec_ids repo = Inr stpa" "src_sec_tokens repo = Inr src_tokens" "map_sec_ids repo = Inr mapped"
    have c: "(\<exists>per. traverse (check_control repo src_tokens ?fs) (ct_controls catalog) = Inr per \<and> (\<forall>vs \<in> set per. vs = [])) \<longleftrightarrow>
        (\<forall>(cid, c) \<in> set (ct_controls catalog). control_ok repo src_tokens (set ?fs) cid c)"
      unfolding traverse_constant using control_clean by fastforce
    have cited: "\<forall>(cid, c) \<in> set (ct_controls catalog). control_ok repo src_tokens (set ?fs) cid c \<Longrightarrow>
        set (cited_frameworks catalog) \<subseteq> set ?fs"
      by (fastforce simp: cited_frameworks_def control_ok_def)
    have sec: "set stpa = {cid \<in> set ?ids. is_sec cid} \<longleftrightarrow> set (filter is_sec ?ids) \<subseteq> set stpa \<and> set stpa \<subseteq> set ?ids"
      using stpa_ids_sec [OF e(1)] by auto
    have d: "concat (map (\<lambda>(m, tokens). map (Dangling m) (minus tokens ?ids)) src_tokens) = [] \<longleftrightarrow>
        (\<forall>(m, tokens) \<in> set src_tokens. set tokens \<subseteq> set ?ids)"
      unfolding concat_map_Nil split_beta map_is_Nil_conv minus_Nil ..
    have b: "filter (\<lambda>cid. \<not> (is_sec cid \<or> is_ctl cid)) ?ids = [] \<longleftrightarrow> (\<forall>cid \<in> set ?ids. is_sec cid \<or> is_ctl cid)"
      by (auto simp: filter_empty_conv)
    have "validate_catalog repo catalog = Inr [] \<longleftrightarrow>
        (\<exists>per. traverse (check_control repo src_tokens ?fs) (ct_controls catalog) = Inr per \<and> (\<forall>vs \<in> set per. vs = [])) \<and>
        filter (\<lambda>cid. \<not> (is_sec cid \<or> is_ctl cid)) ?ids = [] \<and> minus (filter is_sec ?ids) stpa = [] \<and> minus stpa ?ids = [] \<and>
        minus ?fs (cited_frameworks catalog) = [] \<and>
        concat (map (\<lambda>(m, tokens). map (Dangling m) (minus tokens ?ids)) src_tokens) = [] \<and> minus mapped ?ids = []"
      unfolding validate_catalog_def e Let_def sum.case
      by (cases "traverse (check_control repo src_tokens ?fs) (ct_controls catalog)") auto
    then show ?thesis
      unfolding c b d minus_Nil consistent_def e using sec cited by auto
  qed (auto simp: validate_catalog_def consistent_def Let_def split: sum.splits)
  with Loaded show ?thesis
    by (cases "validate_catalog repo catalog") (auto simp: main_governance_def run_governance_def split: if_splits)
qed (simp_all add: main_governance_def run_governance_def)

text \<open>A catalog of one control and a repository it is consistent with; without the token in the source
  file it is not.\<close>

definition demo_control :: compliance_control where
  "demo_control =
     \<lparr>cc_title = ''t'', cc_statement = ''s'', cc_invariants = [3], cc_modules = [''src/praxis/a.py''],
      cc_proving_tests = [''tests/t.py::test_a''], cc_regulatory = [\<lparr>rr_framework = ''NIS2'', rr_article = ''1'', rr_note = []\<rparr>],
      cc_status = IMPLEMENTED, cc_tracking = None\<rparr>"

definition demo_catalog :: compliance_catalog where
  "demo_catalog = \<lparr>ct_version = ''1'', ct_notes = [], ct_frameworks = [(''NIS2'', ''n'')], ct_controls = [(''SEC-1'', demo_control)]\<rparr>"

definition demo_repo :: "string \<Rightarrow> repo" where
  "demo_repo source =
     \<lparr>rp_exists = (\<lambda>p. p \<in> {''src/praxis/a.py'', ''tests/t.py''}), rp_is_file = (\<lambda>p. p = ''tests/t.py''),
      rp_read = (\<lambda>p. if p = ''src/praxis/a.py'' then Some source else if p = ''tests/t.py'' then Some ''def test_a()''
                     else if p = STPA_PATH then Some ''| SEC-1 | x |'' else if p = MAP_PATH then Some ''SEC-1.'' else None),
      rp_python_files = [''src/praxis/a.py'']\<rparr>"

lemma demo_gate:
  "main_governance (demo_repo ''# SEC-1'') (Loaded demo_catalog) = Inr 0"
  "main_governance (demo_repo ''# none'') (Loaded demo_catalog) = Inr 1"
  by code_simp+

end
