(* ===== verification/Ssrf.thy ===== *)
theory Ssrf
  imports Adapters "HOL-Library.Word"
begin

section \<open>The egress filter (_ssrf.py)\<close>

text \<open>
  Every request the server makes on its own goes through this filter. An address is the word the
  \<^verbatim>\<open>ipaddress\<close> module keeps; its predicates are the networks of that module, and \<open>delegates\<close> says
  whether the interpreter decides all of them on the embedded address of an IPv4-mapped one (the later
  patch releases do) or only \<^verbatim>\<open>is_private\<close>. The parameters are \<open>aton\<close>, the C library's \<^verbatim>\<open>inet_aton\<close>, the
  resolver, and \<open>hostname\<close>, what \<^verbatim>\<open>urllib\<close> reads as the host of a URL.
\<close>

datatype ip_addr = V4 "32 word" | V6 "128 word"

subsection \<open>Reading an address\<close>

fun hex_digits :: "nat \<Rightarrow> string" where
  "hex_digits n = (if n < 16 then [digit_char n] else hex_digits (n div 16) @ [digit_char (n mod 16)])"

declare hex_digits.simps [simp del]

definition hextet_value :: "string \<Rightarrow> nat" where
  "hextet_value s = foldl (\<lambda>v c. 16 * v + (case hex_value c of None \<Rightarrow> 0 | Some d \<Rightarrow> d)) 0 s"

definition base_value :: "nat \<Rightarrow> nat list \<Rightarrow> nat" where
  "base_value b ds = foldl (\<lambda>v d. b * v + d) 0 ds"

definition parse_ipv4 :: "string \<Rightarrow> 32 word option" where
  "parse_ipv4 s =
     (if is_ipv4 s then Some (word_of_nat (base_value 256 (map digits_value (py_split CHR ''.'' s)))) else None)"

text \<open>The hextets of the parts between the colons, the skipped ones written out.\<close>

definition expand_hextets :: "string list \<Rightarrow> nat list" where
  "expand_hextets parts =
     (case filter (\<lambda>i. parts ! i = []) [1..<length parts - 1] of
        [] \<Rightarrow> map hextet_value parts
      | i # _ \<Rightarrow>
          (let hi = take i parts; lo = drop (i + 1) parts;
               hi' = (if hd parts = [] then [] else hi);
               lo' = (if last parts = [] then [] else lo)
           in map hextet_value hi' @ replicate (8 - (length hi' + length lo')) 0 @ map hextet_value lo'))"

definition v6_parts :: "string \<Rightarrow> string list" where
  "v6_parts s =
     (let parts = py_split CHR '':'' s
      in if CHR ''.'' \<in> set (last parts)
         then (case parse_ipv4 (last parts) of
                 None \<Rightarrow> parts
               | Some w \<Rightarrow> butlast parts @ [hex_digits (unat w div 65536), hex_digits (unat w mod 65536)])
         else parts)"

definition parse_ipv6 :: "string \<Rightarrow> 128 word option" where
  "parse_ipv6 s =
     (if is_ipv6 s
      then Some (word_of_nat (base_value 65536 (expand_hextets (v6_parts (takeWhile (\<lambda>c. c \<noteq> CHR ''%'') s)))))
      else None)"

definition parse_ip :: "string \<Rightarrow> ip_addr option" where
  "parse_ip s = (case parse_ipv4 s of Some w \<Rightarrow> Some (V4 w) | None \<Rightarrow> map_option V6 (parse_ipv6 s))"

definition rstrip_dots :: "string \<Rightarrow> string" where
  "rstrip_dots s = rev (dropWhile (\<lambda>c. c = CHR ''.'') (rev s))"

definition as_ip :: "(string \<Rightarrow> 32 word option) \<Rightarrow> string \<Rightarrow> ip_addr option" where
  "as_ip aton name =
     (let candidate = rstrip_dots name
      in if candidate = [] then None
         else (case parse_ip candidate of Some ip \<Rightarrow> Some ip | None \<Rightarrow> map_option V4 (aton candidate)))"

subsection \<open>Writing an address\<close>

definition octets_of :: "32 word \<Rightarrow> nat list" where
  "octets_of w = [unat w div 16777216, unat w div 65536 mod 256, unat w div 256 mod 256, unat w mod 256]"

definition hextets_of :: "128 word \<Rightarrow> nat list" where
  "hextets_of w = map (\<lambda>k. unat w div 65536 ^ k mod 65536) (rev [0..<8])"

text \<open>The loop of \<^verbatim>\<open>_compress_hextets\<close>: the first longest run of zeros, as its start and length.\<close>

fun zero_run :: "nat \<Rightarrow> nat \<times> nat \<Rightarrow> nat \<times> nat \<Rightarrow> string list \<Rightarrow> nat \<times> nat" where
  "zero_run i current best [] = best"
| "zero_run i (start, n) (bstart, bn) (h # hs) =
     (if h = ''0''
      then (let start' = (if n = 0 then i else start)
            in zero_run (i + 1) (start', n + 1) (if bn < n + 1 then (start', n + 1) else (bstart, bn)) hs)
      else zero_run (i + 1) (0, 0) (bstart, bn) hs)"

definition compress_hextets :: "string list \<Rightarrow> string list" where
  "compress_hextets hs =
     (case zero_run 0 (0, 0) (0, 0) hs of
        (start, n) \<Rightarrow>
          if 1 < n
          then (let hs1 = (if start + n = length hs then hs @ [[]] else hs);
                    hs2 = take start hs1 @ [[]] @ drop (start + n) hs1
                in if start = 0 then [] # hs2 else hs2)
          else hs)"

fun ip_text :: "ip_addr \<Rightarrow> string" where
  "ip_text (V4 w) = py_join ''.'' (map nat_str (octets_of w))"
| "ip_text (V6 w) = py_join '':'' (compress_hextets (map hex_digits (hextets_of w)))"

subsection \<open>The networks\<close>

definition in_net :: "'a::len word \<Rightarrow> 'a word \<times> nat \<Rightarrow> bool" where
  "in_net w net \<longleftrightarrow> (case net of (a, p) \<Rightarrow> drop_bit (LENGTH('a) - p) w = drop_bit (LENGTH('a) - p) a)"

definition quad :: "nat \<Rightarrow> nat \<Rightarrow> nat \<Rightarrow> nat \<Rightarrow> 32 word" where
  "quad a b c d = word_of_nat (base_value 256 [a, b, c, d])"

definition CGNAT_V4 :: "32 word \<times> nat" where "CGNAT_V4 = (quad 100 64 0 0, 10)"
definition SIXTOFOUR_RELAY_V4 :: "32 word \<times> nat" where "SIXTOFOUR_RELAY_V4 = (quad 192 88 99 0, 24)"
definition BLOCKED_NAMES :: "string list" where
  "BLOCKED_NAMES = [''localhost'', ''localhost.localdomain'', ''ip6-localhost'']"

definition v4_loopback :: "32 word \<Rightarrow> bool" where "v4_loopback w \<longleftrightarrow> in_net w (quad 127 0 0 0, 8)"
definition v4_link_local :: "32 word \<Rightarrow> bool" where "v4_link_local w \<longleftrightarrow> in_net w (quad 169 254 0 0, 16)"
definition v4_multicast :: "32 word \<Rightarrow> bool" where "v4_multicast w \<longleftrightarrow> in_net w (quad 224 0 0 0, 4)"
definition v4_reserved :: "32 word \<Rightarrow> bool" where "v4_reserved w \<longleftrightarrow> in_net w (quad 240 0 0 0, 4)"

definition V4_PRIVATE :: "(32 word \<times> nat) list" where
  "V4_PRIVATE =
     [(quad 0 0 0 0, 8), (quad 10 0 0 0, 8), (quad 127 0 0 0, 8), (quad 169 254 0 0, 16), (quad 172 16 0 0, 12),
      (quad 192 0 0 0, 24), (quad 192 0 0 170, 31), (quad 192 0 2 0, 24), (quad 192 168 0 0, 16),
      (quad 198 18 0 0, 15), (quad 198 51 100 0, 24), (quad 203 0 113 0, 24), (quad 240 0 0 0, 4),
      (quad 255 255 255 255, 32)]"

definition v4_private :: "32 word \<Rightarrow> bool" where
  "v4_private w \<longleftrightarrow>
     list_ex (in_net w) V4_PRIVATE \<and> \<not> list_ex (in_net w) [(quad 192 0 0 9, 32), (quad 192 0 0 10, 32)]"

definition V6_PRIVATE :: "(128 word \<times> nat) list" where
  "V6_PRIVATE =
     [(1, 128), (0, 128), (push_bit 32 0xffff, 96), (push_bit 80 0x0064ff9b0001, 48), (push_bit 112 0x0100, 64),
      (push_bit 112 0x2001, 23), (push_bit 96 0x20010db8, 32), (push_bit 112 0x2002, 16), (push_bit 112 0xfc00, 7),
      (push_bit 112 0xfe80, 10)]"

definition V6_PRIVATE_EXCEPTIONS :: "(128 word \<times> nat) list" where
  "V6_PRIVATE_EXCEPTIONS =
     [(push_bit 96 0x20010001 + 1, 128), (push_bit 96 0x20010001 + 2, 128), (push_bit 96 0x20010003, 32),
      (push_bit 80 0x200100040112, 48), (push_bit 96 0x20010020, 28), (push_bit 96 0x20010030, 28)]"

definition V6_RESERVED :: "(128 word \<times> nat) list" where
  "V6_RESERVED =
     [(0, 8), (push_bit 112 0x0100, 8), (push_bit 112 0x0200, 7), (push_bit 112 0x0400, 6), (push_bit 112 0x0800, 5),
      (push_bit 112 0x1000, 4), (push_bit 112 0x4000, 3), (push_bit 112 0x6000, 3), (push_bit 112 0x8000, 3),
      (push_bit 112 0xa000, 3), (push_bit 112 0xc000, 3), (push_bit 112 0xe000, 4), (push_bit 112 0xf000, 5),
      (push_bit 112 0xf800, 6), (push_bit 112 0xfe00, 9)]"

definition ipv4_mapped :: "128 word \<Rightarrow> 32 word option" where
  "ipv4_mapped w = (if drop_bit 32 w = 0xffff then Some (ucast w) else None)"

definition v6_private :: "128 word \<Rightarrow> bool" where
  "v6_private w \<longleftrightarrow>
     (case ipv4_mapped w of
        Some a \<Rightarrow> v4_private a
      | None \<Rightarrow> list_ex (in_net w) V6_PRIVATE \<and> \<not> list_ex (in_net w) V6_PRIVATE_EXCEPTIONS)"

definition v4_flagged :: "32 word \<Rightarrow> bool" where
  "v4_flagged w \<longleftrightarrow>
     v4_loopback w \<or> v4_link_local w \<or> v4_private w \<or> v4_multicast w \<or> v4_reserved w \<or> w = 0"

definition v6_flagged :: "128 word \<Rightarrow> bool" where
  "v6_flagged w \<longleftrightarrow>
     w = 1 \<or> in_net w (push_bit 112 0xfe80, 10) \<or> v6_private w \<or> in_net w (push_bit 112 0xff00, 8) \<or>
     list_ex (in_net w) V6_RESERVED \<or> w = 0"

fun ip_is_blocked :: "bool \<Rightarrow> ip_addr \<Rightarrow> bool" where
  "ip_is_blocked delegates (V4 w) = (in_net w CGNAT_V4 \<or> in_net w SIXTOFOUR_RELAY_V4 \<or> v4_flagged w)"
| "ip_is_blocked delegates (V6 w) =
     (case ipv4_mapped w of
        Some a \<Rightarrow> if delegates then v4_flagged a else v6_flagged w
      | None \<Rightarrow> v6_flagged w)"

subsection \<open>The filter\<close>

text \<open>\<^verbatim>\<open>strip("[]")\<close> takes brackets of either kind off both ends.\<close>

definition strip_brackets :: "string \<Rightarrow> string" where
  "strip_brackets s =
     (let b = (\<lambda>c. c = CHR ''['' \<or> c = CHR '']'') in rev (dropWhile b (rev (dropWhile b s))))"

definition is_blocked_address :: "bool \<Rightarrow> (string \<Rightarrow> 32 word option) \<Rightarrow> string \<Rightarrow> bool" where
  "is_blocked_address delegates aton host =
     (let name = py_lower (strip_brackets (py_strip host))
      in if name \<in> set BLOCKED_NAMES then True
         else (case as_ip aton name of None \<Rightarrow> False | Some ip \<Rightarrow> ip_is_blocked delegates ip))"

definition has_scheme :: "string \<Rightarrow> bool" where
  "has_scheme url \<longleftrightarrow> (\<exists>i < length url. startswith (drop i url) ''://'')"

definition before_zone :: "string \<Rightarrow> string" where
  "before_zone s = takeWhile (\<lambda>c. c \<noteq> CHR ''%'') s"

definition normalized_host :: "(string \<Rightarrow> string option) \<Rightarrow> string \<Rightarrow> string" where
  "normalized_host hostname url =
     (let host = (case hostname (if has_scheme url then url else ''//'' @ url) of None \<Rightarrow> [] | Some h \<Rightarrow> h)
      in before_zone (py_lower (strip_brackets (py_strip host))))"

datatype ssrf_blocked =
    No_host string
  | Blocked_target string
  | Unresolved_name string
  | Does_not_resolve string
  | Unparseable_address string string
  | Blocked_answer string string
  | No_addresses string

definition assert_egress_allowed ::
  "bool \<Rightarrow> (string \<Rightarrow> 32 word option) \<Rightarrow> (string \<Rightarrow> string option) \<Rightarrow> string \<Rightarrow> ssrf_blocked + unit" where
  "assert_egress_allowed delegates aton hostname url =
     (let name = normalized_host hostname url
      in if name = [] then Inl (No_host url)
         else if name \<in> set BLOCKED_NAMES then Inl (Blocked_target name)
         else case as_ip aton name of
                None \<Rightarrow> Inl (Unresolved_name name)
              | Some ip \<Rightarrow> if ip_is_blocked delegates ip then Inl (Blocked_target name) else Inr ())"

text \<open>The loop over the resolved addresses; the set of texts seen is the set of those kept.\<close>

fun vet ::
  "bool \<Rightarrow> (string \<Rightarrow> 32 word option) \<Rightarrow> string \<Rightarrow> string list \<Rightarrow> string list \<Rightarrow> ssrf_blocked + string list" where
  "vet delegates aton name vetted [] = Inr vetted"
| "vet delegates aton name vetted (a # addrs) =
     (case as_ip aton (before_zone a) of
        None \<Rightarrow> Inl (Unparseable_address name a)
      | Some ip \<Rightarrow>
          if ip_is_blocked delegates ip then Inl (Blocked_answer name (ip_text ip))
          else vet delegates aton name (if ip_text ip \<in> set vetted then vetted else vetted @ [ip_text ip]) addrs)"

definition resolve_and_assert_egress_allowed ::
  "bool \<Rightarrow> (string \<Rightarrow> 32 word option) \<Rightarrow> (string \<Rightarrow> string option) \<Rightarrow> (string \<Rightarrow> string list option) \<Rightarrow> string \<Rightarrow>
   ssrf_blocked + string list" where
  "resolve_and_assert_egress_allowed delegates aton hostname resolver url =
     (let name = normalized_host hostname url
      in if name = [] then Inl (No_host url)
         else if name \<in> set BLOCKED_NAMES then Inl (Blocked_target name)
         else case as_ip aton name of
                Some literal \<Rightarrow>
                  if ip_is_blocked delegates literal then Inl (Blocked_target name) else Inr [ip_text literal]
              | None \<Rightarrow>
                  (case resolver name of
                     None \<Rightarrow> Inl (Does_not_resolve name)
                   | Some addresses \<Rightarrow>
                       (case vet delegates aton name [] addresses of
                          Inl e \<Rightarrow> Inl e
                        | Inr vetted \<Rightarrow> if vetted = [] then Inl (No_addresses name) else Inr vetted)))"

subsection \<open>What is written is read back\<close>

lemma nat_str_length: "n < 1000 \<Longrightarrow> length (nat_str n) \<le> 3"
proof -
  assume "n < 1000"
  then have "n div 10 < 100" "n div 10 div 10 < 10"
    by (simp_all add: less_mult_imp_div_less)
  then show ?thesis by (subst nat_str.simps, subst nat_str.simps, subst nat_str.simps) simp
qed

lemma octet_text: "n < 256 \<Longrightarrow> is_octet (nat_str n)"
proof -
  assume n: "n < 256"
  have z: "nat_str n = ''0'' \<or> hd (nat_str n) \<noteq> CHR ''0''"
    using hd_nat_str [of n] by (cases "n = 0") (simp_all add: nat_str.simps [of 0] digit_char_def)
  show ?thesis
    using n z nat_str_length [of n] is_digit_nat_str [of _ n] by (auto simp: is_octet_def list_all_iff)
qed

lemma not_digit_not_in: "\<not> is_digit c \<Longrightarrow> c \<notin> set (nat_str n)"
  using is_digit_nat_str by blast

lemma punctuation_not_digit:
  "\<not> is_digit CHR ''.''" "\<not> is_digit CHR '':''" "\<not> is_digit CHR ''%''" "\<not> is_digit CHR ''/''"
  by (simp_all add: is_digit_def char_between_def ord_def)

lemma base_value_octets: "base_value 256 (octets_of w) = unat w"
proof -
  let ?n = "unat w"
  have "?n div 16777216 = ?n div 256 div 256 div 256" "?n div 65536 = ?n div 256 div 256"
    by (simp_all add: div_mult2_eq [symmetric])
  then show ?thesis
    by (simp add: base_value_def octets_of_def mult_div_mod_eq [symmetric])
qed

lemma octets_small: "\<forall>d \<in> set (octets_of w). d < 256"
proof -
  have "unat w < 4294967296" using unsigned_less [of w, where 'a = nat] by simp
  then have "unat w div 16777216 < 256" by (simp add: less_mult_imp_div_less)
  then show ?thesis by (simp add: octets_of_def)
qed

lemma split_octets: "py_split CHR ''.'' (py_join ''.'' (map nat_str (octets_of w))) = map nat_str (octets_of w)"
  by (rule py_split_join) (auto simp: octets_of_def not_digit_not_in punctuation_not_digit)

lemma parse_ipv4_text: "parse_ipv4 (ip_text (V4 w)) = Some w"
  using octets_small [of w] base_value_octets [of w]
  by (simp add: parse_ipv4_def is_ipv4_def split_octets comp_def list_all_iff octet_text Let_def)
    (simp add: octets_of_def octet_text)

lemma hex_digits_chars: "c \<in> set (hex_digits n) \<Longrightarrow> \<exists>d < 16. c = digit_char d"
proof (induction n rule: hex_digits.induct)
  case (1 n)
  then show ?case
    using hex_digits.simps [of n]
    by (cases "n < 16"; cases "c \<in> set (hex_digits (n div 16))") (auto intro: exI [of _ "n mod 16"])
qed

lemma hex_digits_Nil [simp]: "hex_digits n \<noteq> []"
  by (subst hex_digits.simps) simp

lemma hextet_value_hex [simp]: "hextet_value (hex_digits n) = n"
proof (induction n rule: hex_digits.induct)
  case (1 n)
  have snoc: "hextet_value (s @ [c]) = 16 * hextet_value s + (case hex_value c of None \<Rightarrow> 0 | Some d \<Rightarrow> d)" for s c
    by (simp add: hextet_value_def)
  show ?case
  proof (cases "n < 16")
    case True
    then show ?thesis by (subst hex_digits.simps) (simp add: hextet_value_def)
  next
    case False
    with 1 show ?thesis by (subst hex_digits.simps) (simp add: snoc)
  qed
qed

lemma hex_digits_zero: "hex_digits n = ''0'' \<longleftrightarrow> n = 0"
proof
  have "hextet_value ''0'' = 0"
    using hex_value_digit [of 0] by (simp add: hextet_value_def digit_char_def)
  moreover assume "hex_digits n = ''0''"
  ultimately show "n = 0" using hextet_value_hex [of n] by metis
qed (simp add: hex_digits.simps [of 0] digit_char_def)

lemma hex_digits_length: "n < 65536 \<Longrightarrow> length (hex_digits n) \<le> 4"
proof -
  assume "n < 65536"
  then have "n div 16 < 4096" "n div 16 div 16 < 256" "n div 16 div 16 div 16 < 16"
    by (simp_all add: less_mult_imp_div_less)
  then show ?thesis by (subst hex_digits.simps, subst hex_digits.simps, subst hex_digits.simps, subst hex_digits.simps) simp
qed

lemma digit_char_hex: "d < 16 \<Longrightarrow> digit_char d \<in> set ''0123456789abcdef''"
  unfolding digit_char_def by (rule nth_mem) simp

lemma hextet_text: "n < 65536 \<Longrightarrow> is_hextet (hex_digits n)"
  using hex_digits_length [of n] by (auto simp: is_hextet_def list_all_iff dest!: hex_digits_chars digit_char_hex)

lemma hex_no_punctuation: "c \<in> set ''.:%/'' \<Longrightarrow> c \<notin> set (hex_digits n)"
  by (auto dest!: hex_digits_chars digit_char_hex)

lemma base_value_hextets: "base_value 65536 (hextets_of w) = unat w"
proof -
  define f where "f k = unat w div 65536 ^ k" for k
  have step: "65536 * f (Suc k) + f k mod 65536 = f k" for k
  proof -
    have "f (Suc k) = f k div 65536"
      by (simp add: f_def div_mult2_eq [symmetric] mult.commute)
    then show ?thesis by (simp only: mult_div_mod_eq)
  qed
  have "unat w < 65536 ^ 8" using unsigned_less [of w, where 'a = nat] by simp
  then have "f 7 < 65536" unfolding f_def by (intro less_mult_imp_div_less) simp
  then have top: "f 7 mod 65536 = f 7" by simp
  have "rev [0..<8] = [7, 6, 5, 4, 3, 2, 1, 0::nat]" by (simp add: upt_rec)
  then have "hextets_of w = map (\<lambda>k. f k mod 65536) [7, 6, 5, 4, 3, 2, 1, 0]"
    unfolding hextets_of_def f_def by (rule arg_cong)
  moreover have "65536 * f 7 + f 6 mod 65536 = f 6" using step [of 6] by simp
  moreover have "65536 * f 6 + f 5 mod 65536 = f 5" using step [of 5] by simp
  moreover have "65536 * f 5 + f 4 mod 65536 = f 4" using step [of 4] by simp
  moreover have "65536 * f 4 + f 3 mod 65536 = f 3" using step [of 3] by simp
  moreover have "65536 * f 3 + f 2 mod 65536 = f 2" using step [of 2] by simp
  moreover have "65536 * f 2 + f 1 mod 65536 = f 1" using step [of 1] by (simp add: numeral_2_eq_2)
  moreover have "65536 * f 1 + f 0 mod 65536 = f 0" using step [of 0] by simp
  ultimately have "base_value 65536 (hextets_of w) = f 0" by (simp add: base_value_def top)
  then show ?thesis by (simp add: f_def)
qed

lemma hextets_small: "\<forall>d \<in> set (hextets_of w). d < 65536"
  by (simp add: hextets_of_def)

lemma length_hextets [simp]: "length (hextets_of w) = 8"
  by (simp add: hextets_of_def)

text \<open>The run that is compressed is a run of zeros of the list.\<close>

lemma zero_run_spec:
  assumes "zero_run i cur best hs = (s, n)" and "length pre = i"
    and "0 < snd cur \<longrightarrow> fst cur + snd cur = i \<and> (\<forall>k < snd cur. pre ! (fst cur + k) = ''0'')"
    and "fst best + snd best \<le> i \<and> (\<forall>k < snd best. pre ! (fst best + k) = ''0'')"
  shows "s + n \<le> i + length hs \<and> (\<forall>k < n. (pre @ hs) ! (s + k) = ''0'')"
  using assms
proof (induction i cur best hs arbitrary: pre rule: zero_run.induct)
  case (1 i current best)
  then show ?case by (auto simp: nth_append)
next
  case (2 i start m bstart bn h hs)
  show ?case
  proof (cases "h = ''0''")
    case True
    define start' where "start' = (if m = 0 then i else start)"
    have c: "start' + (m + 1) = i + 1" "\<forall>k < m + 1. (pre @ [h]) ! (start' + k) = ''0''"
      using 2(5,4) True by (auto simp: start'_def nth_append less_Suc_eq)
    have b: "bstart + bn \<le> i + 1" "\<forall>k < bn. (pre @ [h]) ! (bstart + k) = ''0''"
      using 2(6,4) by (auto simp: nth_append)
    have "zero_run (i + 1) (start', m + 1) (if bn < m + 1 then (start', m + 1) else (bstart, bn)) hs = (s, n)"
      unfolding start'_def using 2(3) True by (auto simp: Let_def split: if_splits)
    from 2(1) [OF True start'_def this, of "pre @ [h]"] b c 2(4) show ?thesis by simp
  next
    case False
    with 2(3) have "zero_run (i + 1) (0, 0) (bstart, bn) hs = (s, n)" by simp
    moreover have "bstart + bn \<le> i + 1" "\<forall>k < bn. (pre @ [h]) ! (bstart + k) = ''0''"
      using 2(6,4) by (auto simp: nth_append)
    ultimately show ?thesis using 2(2) [OF False, of "pre @ [h]"] 2(4) by simp
  qed
qed

text \<open>A compressed list: the parts before the run, the gap and the parts after it, with one more empty
  part where the run touches an end.\<close>

lemma compress_cases:
  obtains "compress_hextets hs = hs"
  | A n B where "hs = A @ replicate n ''0'' @ B" "1 < n"
      "compress_hextets hs = (if A = [] then [[]] else []) @ A @ [[]] @ B @ (if B = [] then [[]] else [])"
proof -
  obtain s n where z: "zero_run 0 (0, 0) (0, 0) hs = (s, n)" by (cases "zero_run 0 (0, 0) (0, 0) hs")
  have r: "s + n \<le> length hs" "\<forall>k < n. hs ! (s + k) = ''0''"
    using zero_run_spec [OF z, of "[]"] by simp_all
  show thesis
  proof (cases "1 < n")
    case False
    with z that(1) show ?thesis by (simp add: compress_hextets_def)
  next
    case True
    have "take n (drop s hs) = replicate n ''0''"
      using r by (intro nth_equalityI) auto
    then have hs: "hs = take s hs @ replicate n ''0'' @ drop (s + n) hs"
      by (metis append_take_drop_id drop_drop add.commute)
    have e: "take s hs = [] \<longleftrightarrow> s = 0" "drop (s + n) hs = [] \<longleftrightarrow> s + n = length hs"
      using r(1) True by auto
    have "compress_hextets hs = (if take s hs = [] then [[]] else []) @ take s hs @ [[]] @ drop (s + n) hs @
        (if drop (s + n) hs = [] then [[]] else [])"
      using z True r(1) unfolding e by (simp add: compress_hextets_def Let_def)
    with hs True that(2) show ?thesis by blast
  qed
qed

text \<open>The only empty part between the first and the last is the gap.\<close>

lemma gap_filter:
  assumes "\<forall>h \<in> set A. h \<noteq> []" and "\<forall>h \<in> set B. h \<noteq> []"
    and "parts = (if A = [] then [[]] else []) @ A @ [[]] @ B @ (if B = [] then [[]] else [])"
  shows "filter (\<lambda>i. parts ! i = []) [1..<length parts - 1] = [max 1 (length A)]"
proof -
  define A' where "A' = (if A = [] then [[]] else A)"
  define B' where "B' = (if B = [] then [[]] else B)"
  have p: "parts = A' @ [[]] @ B'" using assms(3) by (simp add: A'_def B'_def)
  have l: "A' \<noteq> []" "B' \<noteq> []" "length A' = max 1 (length A)"
    by (simp_all add: A'_def B'_def neq_Nil_conv) (cases A; simp)
  have "[1..<length parts - 1] = [1..<length A'] @ [length A'] @ [Suc (length A')..<length parts - 1]"
    using upt_add_eq_append [of 1 "length A'" "length B'"] l(1,2)
    by (simp add: p upt_conv_Cons [of "length A'"] Suc_le_eq)
  moreover have "filter (\<lambda>i. parts ! i = []) [1..<length A'] = []"
    using assms(1) by (auto simp: filter_empty_conv p nth_append A'_def)
  moreover have "filter (\<lambda>i. parts ! i = []) [Suc (length A')..<length parts - 1] = []"
    using assms(2) by (auto simp: filter_empty_conv p nth_append nth_Cons B'_def split: nat.splits)
  ultimately show ?thesis unfolding l(3) [symmetric] by (simp add: p)
qed

lemma gap_pieces:
  assumes "\<forall>h \<in> set A. h \<noteq> []" and "\<forall>h \<in> set B. h \<noteq> []"
    and "parts = (if A = [] then [[]] else []) @ A @ [[]] @ B @ (if B = [] then [[]] else [])"
  shows "hd parts = [] \<longleftrightarrow> A = []" and "last parts = [] \<longleftrightarrow> B = []"
    and "take (max 1 (length A)) parts = (if A = [] then [[]] else A)"
    and "drop (max 1 (length A) + 1) parts = (if B = [] then [[]] else B)"
  using assms by (cases A; cases B rule: rev_cases; auto simp: Suc_le_eq max_def)+

lemma zeros_of_text: "map hex_digits zs = replicate n ''0'' \<Longrightarrow> zs = replicate n 0"
  by (induction zs arbitrary: n; case_tac n) (auto simp: hex_digits_zero)

lemma compressed_parts:
  assumes "\<forall>n \<in> set ns. n < 65536" and "length ns = 8"
  shows "ipv6_parts (compress_hextets (map hex_digits ns)) \<and>
    expand_hextets (compress_hextets (map hex_digits ns)) = ns \<and>
    3 \<le> length (compress_hextets (map hex_digits ns)) \<and>
    (\<forall>p \<in> set (compress_hextets (map hex_digits ns)). p = [] \<or> (\<exists>n. p = hex_digits n))"
proof (cases rule: compress_cases [of "map hex_digits ns"])
  case 1
  have f: "filter (\<lambda>i. map hex_digits ns ! i = []) [1..<length (map hex_digits ns) - 1] = []"
    by (auto simp: filter_empty_conv)
  show ?thesis
    unfolding 1 ipv6_parts_def expand_hextets_def f
    using assms hextet_text by (auto simp: list_all_iff comp_def)
next
  case (2 A n B)
  let ?parts = "compress_hextets (map hex_digits ns)"
  obtain xs zs ys where ns: "ns = xs @ zs @ ys" and A: "A = map hex_digits xs" and B: "B = map hex_digits ys"
      and z: "map hex_digits zs = replicate n ''0''"
    using 2(1) by (fastforce simp: map_eq_append_conv append_eq_map_conv)
  have zs: "zs = replicate n 0" using z by (rule zeros_of_text)
  have ne: "\<forall>h \<in> set A. h \<noteq> []" "\<forall>h \<in> set B. h \<noteq> []" by (auto simp: A B)
  have len: "length xs + length ys + n = 8" using assms(2) ns zs by simp
  have hex: "list_all is_hextet A" "list_all is_hextet B"
    using assms(1) hextet_text by (auto simp: A B ns list_all_iff)
  have v: "map hextet_value A = xs" "map hextet_value B = ys" by (simp_all add: A B comp_def)
  note p = gap_pieces [OF ne 2(3)]
  have l: "length ?parts = (if A = [] then 1 else length A) + 1 + (if B = [] then 1 else length B)"
    by (simp add: 2(3))
  have "ipv6_parts ?parts"
    unfolding ipv6_parts_def gap_filter [OF ne 2(3)] list.case Let_def p
    unfolding l using len 2(2) hex by (auto simp: A B)
  moreover have "expand_hextets ?parts = ns"
    unfolding expand_hextets_def gap_filter [OF ne 2(3)] list.case Let_def p
    using v len by (auto simp: ns zs)
  moreover have "3 \<le> length ?parts" using l by (cases A; cases B) auto
  moreover have "\<forall>p \<in> set ?parts. p = [] \<or> (\<exists>n. p = hex_digits n)"
    unfolding 2(3) by (auto simp: A B)
  ultimately show ?thesis by blast
qed

lemma v6_text_chars:
  assumes "d \<in> set ''.%/''"
  shows "d \<notin> set (ip_text (V6 w))"
proof -
  have "set (py_join '':'' ps) \<subseteq> insert CHR '':'' (\<Union> (set ` set ps))" for ps
    by (induction "'':''" ps rule: py_join.induct) auto
  moreover have "d \<notin> set p" if "p \<in> set (compress_hextets (map hex_digits (hextets_of w)))" for p
    using compressed_parts [OF hextets_small length_hextets, of w] that hex_no_punctuation [of d] assms by fastforce
  moreover have "d \<noteq> CHR '':''" using assms by auto
  ultimately show ?thesis unfolding ip_text.simps by fast
qed

lemma parse_ip_text: "parse_ip (ip_text ip) = Some ip"
proof (cases ip)
  case (V4 w)
  then show ?thesis using parse_ipv4_text [of w] by (simp add: parse_ip_def)
next
  case (V6 w)
  let ?parts = "compress_hextets (map hex_digits (hextets_of w))"
  note c = compressed_parts [OF hextets_small length_hextets, of w]
  have free: "\<forall>p \<in> set ?parts. d \<notin> set p" if "d \<in> set ''.:%/''" for d
    using c hex_no_punctuation [OF that] by fastforce
  note chars = v6_text_chars [of _ w, folded V6]
  have split: "py_split CHR '':'' (ip_text ip) = ?parts"
    unfolding V6 ip_text.simps using free [of "CHR '':''"] c by (intro py_split_join) auto
  have "?parts \<noteq> []" using c by auto
  then have last: "CHR ''.'' \<notin> set (last ?parts)" using free [of "CHR ''.''"] by simp
  have z: "takeWhile (\<lambda>c. c \<noteq> CHR ''%'') (ip_text ip) = ip_text ip"
    using chars [of "CHR ''%''"] by (simp add: takeWhile_eq_all_conv) blast
  have "parse_ipv4 (ip_text ip) = None"
    using py_split_no_sep [of "CHR ''.''" "ip_text ip"] chars [of "CHR ''.''"] by (simp add: parse_ipv4_def is_ipv4_def)
  moreover have "is_ipv6 (ip_text ip)"
    using chars [of "CHR ''/''"] chars [of "CHR ''%''"] c last by (simp add: is_ipv6_def is_ipv6_body_def split Let_def)
  moreover have "v6_parts (ip_text ip) = ?parts" using last by (simp add: v6_parts_def split Let_def)
  ultimately show ?thesis
    using c by (simp add: parse_ip_def parse_ipv6_def z base_value_hextets V6 [symmetric])
qed

text \<open>An address that was written ends in no dot, so the filter reads the same address again.\<close>

lemma as_ip_text: "as_ip aton (ip_text ip) = Some ip"
proof -
  have "ip_text ip \<noteq> [] \<and> last (ip_text ip) \<noteq> CHR ''.''"
  proof (cases ip)
    case (V4 w)
    then show ?thesis
      using not_digit_not_in [of "CHR ''.''" "unat w mod 256"] punctuation_not_digit(1)
      by (auto simp: octets_of_def) (metis last_in_set nat_str_not_Nil)
  next
    case (V6 w)
    have "2 \<le> length ps \<Longrightarrow> py_join '':'' ps \<noteq> []" for ps by (cases "('':'', ps)" rule: py_join.cases) auto
    then have "ip_text ip \<noteq> []"
      using compressed_parts [OF hextets_small length_hextets, of w] by (simp add: V6)
    then show ?thesis using v6_text_chars [of "CHR ''.''" w] V6 by (metis last_in_set list.set_intros(1))
  qed
  then have "rstrip_dots (ip_text ip) = ip_text ip"
    by (cases "ip_text ip" rule: rev_cases) (auto simp: rstrip_dots_def)
  with \<open>ip_text ip \<noteq> [] \<and> _\<close> show ?thesis by (simp add: as_ip_def parse_ip_text)
qed

subsection \<open>What the filter lets through\<close>

definition public_text :: "bool \<Rightarrow> (string \<Rightarrow> 32 word option) \<Rightarrow> string \<Rightarrow> bool" where
  "public_text delegates aton a \<longleftrightarrow>
     (case as_ip aton a of None \<Rightarrow> False | Some ip \<Rightarrow> ip_text ip = a \<and> \<not> ip_is_blocked delegates ip)"

lemma vet_public:
  "vet delegates aton name vetted addrs = Inr out \<Longrightarrow> distinct vetted \<Longrightarrow> list_all (public_text delegates aton) vetted \<Longrightarrow>
   distinct out \<and> list_all (public_text delegates aton) out \<and>
   set out = set vetted \<union> {ip_text ip | ip a. a \<in> set addrs \<and> as_ip aton (before_zone a) = Some ip} \<and>
   (\<forall>a \<in> set addrs. as_ip aton (before_zone a) \<noteq> None)"
proof (induction addrs arbitrary: vetted)
  case (Cons a addrs)
  then obtain ip where ip: "as_ip aton (before_zone a) = Some ip" and b: "\<not> ip_is_blocked delegates ip"
    by (auto split: option.splits if_splits)
  let ?v = "if ip_text ip \<in> set vetted then vetted else vetted @ [ip_text ip]"
  have "vet delegates aton name ?v addrs = Inr out" "distinct ?v" "list_all (public_text delegates aton) ?v"
    using Cons.prems ip b by (simp_all add: public_text_def [of _ _ "ip_text ip"] as_ip_text)
  from Cons.IH [OF this] ip show ?case by auto
qed auto

text \<open>C20: When the rebinding-aware filter lets a URL through, it returns a non-empty list of distinct
  addresses, each of which reads back as exactly the address that was checked and is outside every
  blocked range, so pinning the connection to the returned texts connects to what was vetted; and the
  list is either the literal the URL names or the set of all addresses the resolver gave, every one of
  them parsed and none left unchecked. This holds for any resolver, any C library and any URL parser.\<close>

theorem egress_pins_vetted:
  assumes "resolve_and_assert_egress_allowed delegates aton hostname resolver url = Inr addrs"
  shows "addrs \<noteq> [] \<and> distinct addrs \<and>
     (\<forall>a \<in> set addrs. \<exists>ip. as_ip aton a = Some ip \<and> ip_text ip = a \<and> \<not> ip_is_blocked delegates ip) \<and>
     (case as_ip aton (normalized_host hostname url) of
        Some ip \<Rightarrow> addrs = [ip_text ip]
      | None \<Rightarrow> \<exists>answers. resolver (normalized_host hostname url) = Some answers \<and>
          (\<forall>a \<in> set answers. as_ip aton (before_zone a) \<noteq> None) \<and>
          set addrs = {ip_text ip | ip a. a \<in> set answers \<and> as_ip aton (before_zone a) = Some ip})"
proof (cases "as_ip aton (normalized_host hostname url)")
  case None
  then obtain answers where r: "resolver (normalized_host hostname url) = Some answers"
    and v: "vet delegates aton (normalized_host hostname url) [] answers = Inr addrs" and n: "addrs \<noteq> []"
    using assms by (auto simp: resolve_and_assert_egress_allowed_def Let_def split: if_splits option.splits sum.splits)
  have p: "public_text delegates aton a \<longleftrightarrow>
      (\<exists>ip. as_ip aton a = Some ip \<and> ip_text ip = a \<and> \<not> ip_is_blocked delegates ip)" for a
    by (auto simp: public_text_def split: option.splits)
  from vet_public [OF v] have "distinct addrs \<and> list_all (public_text delegates aton) addrs \<and>
      set addrs = {ip_text ip | ip a. a \<in> set answers \<and> as_ip aton (before_zone a) = Some ip} \<and>
      (\<forall>a \<in> set answers. as_ip aton (before_zone a) \<noteq> None)"
    by simp
  with n r None show ?thesis unfolding list_all_iff p by simp
next
  case (Some ip)
  with assms show ?thesis
    by (auto simp: resolve_and_assert_egress_allowed_def as_ip_text Let_def split: if_splits)
qed

text \<open>The strict filter accepts exactly the URLs whose host is a literal outside the blocked ranges,
  and on those the rebinding-aware filter returns that literal and never asks the resolver; a URL without
  a host, a known local name and every other name are refused by the strict filter.\<close>

theorem strict_filter_exact:
  "assert_egress_allowed delegates aton hostname url = Inr () \<longleftrightarrow>
   (\<exists>ip. normalized_host hostname url \<notin> {[], ''localhost'', ''localhost.localdomain'', ''ip6-localhost''} \<and>
      as_ip aton (normalized_host hostname url) = Some ip \<and> \<not> ip_is_blocked delegates ip \<and>
      resolve_and_assert_egress_allowed delegates aton hostname resolver url = Inr [ip_text ip])"
  by (auto simp: assert_egress_allowed_def resolve_and_assert_egress_allowed_def BLOCKED_NAMES_def Let_def
      split: option.splits if_splits)

text \<open>Prefixes nest: the leading bits of an address decide those of a shorter prefix.\<close>

lemma drop_bit_more: "drop_bit (m + n) w = drop_bit n (drop_bit m w)" for w :: "'a::len word"
  by (simp add: drop_bit_drop_bit add.commute)

lemma not_mapped: "drop_bit 96 w \<noteq> 0 \<Longrightarrow> ipv4_mapped w = None"
proof -
  assume n: "drop_bit 96 w \<noteq> 0"
  have "drop_bit 64 (0xffff :: 128 word) = 0" by simp
  moreover have "drop_bit 96 w = drop_bit 64 (drop_bit 32 w)" using drop_bit_more [of 32 64 w] by simp
  ultimately have "drop_bit 32 w \<noteq> 0xffff" using n by metis
  then show ?thesis by (simp add: ipv4_mapped_def)
qed

lemma in_net_prefix:
  fixes w :: "128 word"
  shows "in_net w (a, p) \<Longrightarrow> n \<le> p \<Longrightarrow> p \<le> 128 \<Longrightarrow> drop_bit (128 - n) w = drop_bit (128 - n) a"
  using drop_bit_more [of "128 - p" "p - n" w] drop_bit_more [of "128 - p" "p - n" a] by (simp add: in_net_def)

lemma exception_prefix: "list_ex (in_net w) V6_PRIVATE_EXCEPTIONS \<Longrightarrow> drop_bit 112 w = 0x2001"
  unfolding V6_PRIVATE_EXCEPTIONS_def
  by (auto dest!: in_net_prefix [where n = 16])

text \<open>Every IPv6 address that embeds an IPv4 one through NAT64 (\<^verbatim>\<open>64:ff9b::/96\<close>) or 6to4
  (\<^verbatim>\<open>2002::/16\<close>) is refused, whatever it embeds and whichever interpreter runs the filter.\<close>

theorem translated_addresses_blocked:
  assumes "drop_bit 96 w = 0x64ff9b \<or> drop_bit 112 w = 0x2002"
  shows "ip_is_blocked delegates (V6 w)"
proof -
  have n: "ipv4_mapped w = None"
  proof (rule not_mapped)
    have "drop_bit 112 w = drop_bit 16 (drop_bit 96 w)" using drop_bit_more [of 96 16 w] by simp
    then have "drop_bit 96 w = 0 \<Longrightarrow> drop_bit 112 w = 0" by simp
    with assms show "drop_bit 96 w \<noteq> 0" by auto
  qed
  have "in_net w (0, 8)" if "drop_bit 96 w = 0x64ff9b"
  proof -
    have "drop_bit 120 w = drop_bit 24 (drop_bit 96 w)" using drop_bit_more [of 96 24 w] by simp
    then show ?thesis unfolding that by (simp add: in_net_def)
  qed
  moreover have "v6_private w" if "drop_bit 112 w = 0x2002"
    using that exception_prefix [of w] n by (auto simp: v6_private_def V6_PRIVATE_def in_net_def)
  ultimately have "v6_flagged w"
    using assms by (auto simp: v6_flagged_def V6_RESERVED_def)
  with n show ?thesis by simp
qed

subsection \<open>At concrete inputs\<close>

definition no_aton :: "string \<Rightarrow> 32 word option" where
  "no_aton s = None"

definition demo_resolver :: "string \<Rightarrow> string list option" where
  "demo_resolver name = (if name = ''api.example'' then Some [''8.8.8.8'', ''2606:4700::1111%eth0'', ''8.8.8.8''] else None)"

theorem translated_addresses_blocked_witness:
  "ip_is_blocked True (V6 (push_bit 112 0x2002 + 5)) \<and> ip_is_blocked False (V6 (push_bit 96 0x64ff9b + 0x08080808))"
  using translated_addresses_blocked [of "push_bit 112 0x2002 + 5" True]
    translated_addresses_blocked [of "push_bit 96 0x64ff9b + 0x08080808" False] by simp

lemma demo_addr_texts:
  "ip_text (V4 (quad 8 8 8 8)) = ''8.8.8.8''"
  "ip_text (V6 0x26064700000000000000000000001111) = ''2606:4700::1111''"
proof -
  show "ip_text (V4 (quad 8 8 8 8)) = ''8.8.8.8''"
    by (simp add: octets_of_def quad_def base_value_def nat_str.simps digit_char_def)
  have "hextets_of 0x26064700000000000000000000001111 = [0x2606, 0x4700, 0, 0, 0, 0, 0, 0x1111]"
    by (simp add: hextets_of_def upt_rec)
  then show "ip_text (V6 0x26064700000000000000000000001111) = ''2606:4700::1111''"
    by (simp add: hex_digits.simps digit_char_def compress_hextets_def)
qed

lemma demo_public:
  "\<not> ip_is_blocked True (V4 (quad 8 8 8 8))" "\<not> ip_is_blocked True (V6 0x26064700000000000000000000001111)"
  by (simp_all add: in_net_def CGNAT_V4_def SIXTOFOUR_RELAY_V4_def quad_def base_value_def v4_flagged_def v4_loopback_def
      v4_link_local_def v4_private_def v4_multicast_def v4_reserved_def V4_PRIVATE_def
      ipv4_mapped_def v6_flagged_def v6_private_def V6_PRIVATE_def V6_RESERVED_def)

lemma demo_vetted:
  "resolve_and_assert_egress_allowed True no_aton (\<lambda>_. Some ''api.example'') demo_resolver ''https://api.example/x'' =
   Inr [''8.8.8.8'', ''2606:4700::1111'']"
proof -
  have n: "normalized_host (\<lambda>_. Some ''api.example'') ''https://api.example/x'' = ''api.example''"
    unfolding normalized_host_def Let_def option.case by code_simp
  have "\<not> is_ipv4 ''api.example''" "\<not> is_ipv6 ''api.example''" by code_simp+
  then have "parse_ip ''api.example'' = None" by (simp add: parse_ip_def parse_ipv4_def parse_ipv6_def)
  then have a: "as_ip no_aton ''api.example'' = None" by (simp add: as_ip_def rstrip_dots_def no_aton_def)
  have b: "as_ip no_aton ''8.8.8.8'' = Some (V4 (quad 8 8 8 8))"
    "as_ip no_aton ''2606:4700::1111'' = Some (V6 0x26064700000000000000000000001111)"
    by (metis as_ip_text demo_addr_texts)+
  show ?thesis
    by (simp add: resolve_and_assert_egress_allowed_def n a demo_resolver_def before_zone_def b demo_public demo_addr_texts
        BLOCKED_NAMES_def Let_def del: ip_text.simps ip_is_blocked.simps)
qed

theorem egress_pins_vetted_witness:
  "resolve_and_assert_egress_allowed True no_aton (\<lambda>_. Some ''api.example'') demo_resolver ''https://api.example/x'' =
     Inr [''8.8.8.8'', ''2606:4700::1111''] \<and>
   (\<exists>ip. as_ip no_aton ''2606:4700::1111'' = Some ip \<and> ip_text ip = ''2606:4700::1111'' \<and> \<not> ip_is_blocked True ip)"
  using egress_pins_vetted [OF demo_vetted] demo_vetted by simp

lemma mapped_parsed:
  "as_ip aton ''::ffff:100.64.0.1'' = Some (V6 0xffff64400001)" "as_ip aton ''100.64.0.1'' = Some (V4 (quad 100 64 0 1))"
proof -
  have q: "parse_ipv4 ''100.64.0.1'' = Some (quad 100 64 0 1)"
  proof -
    have "is_ipv4 ''100.64.0.1''" by code_simp
    then show ?thesis by (simp add: parse_ipv4_def quad_def digits_value_def ord_def)
  qed
  have f: "is_ipv6 ''::ffff:100.64.0.1''" "\<not> is_ipv4 ''::ffff:100.64.0.1''" by code_simp+
  have h: "hex_digits 25664 = ''6440''" "hex_digits 1 = ''1''" by (simp_all add: hex_digits.simps digit_char_def)
  have v: "v6_parts ''::ffff:100.64.0.1'' = [[], [], ''ffff'', ''6440'', ''1'']"
    by (simp add: v6_parts_def q quad_def base_value_def h [simplified])
  have r: "replicate 5 (0::nat) = [0, 0, 0, 0, 0]" by (simp add: eval_nat_numeral)
  have "expand_hextets [[], [], ''ffff'', ''6440'', ''1''] = [0, 0, 0, 0, 0, 0xffff, 0x6440, 1]"
    by (simp add: expand_hextets_def upt_rec hextet_value_def hex_value.simps char_between_def ord_def Let_def r)
  then have "parse_ipv6 ''::ffff:100.64.0.1'' = Some 0xffff64400001" by (simp add: parse_ipv6_def f v base_value_def)
  with f(2) show "as_ip aton ''::ffff:100.64.0.1'' = Some (V6 0xffff64400001)"
    by (simp add: as_ip_def parse_ip_def parse_ipv4_def rstrip_dots_def)
  show "as_ip aton ''100.64.0.1'' = Some (V4 (quad 100 64 0 1))"
    by (simp add: as_ip_def parse_ip_def q rstrip_dots_def)
qed

text \<open>An IPv4-mapped address escapes the two ranges the filter adds to those of the library: with an
  interpreter that decides a mapped address on the embedded one, the strict filter refuses a CGNAT
  address written as such and accepts the same address in its mapped spelling, although the text of the
  module says that a mapped address is covered.\<close>

theorem mapped_cgnat_allowed:
  "assert_egress_allowed True aton (\<lambda>_. Some ''100.64.0.1'') url = Inl (Blocked_target ''100.64.0.1'') \<and>
   assert_egress_allowed True aton (\<lambda>_. Some ''::ffff:100.64.0.1'') url = Inr () \<and>
   (\<exists>w. as_ip aton ''::ffff:100.64.0.1'' = Some (V6 w) \<and> as_ip aton ''100.64.0.1'' = map_option V4 (ipv4_mapped w))"
proof -
  have n: "normalized_host (\<lambda>_. Some ''100.64.0.1'') url = ''100.64.0.1''"
    "normalized_host (\<lambda>_. Some ''::ffff:100.64.0.1'') url = ''::ffff:100.64.0.1''"
    unfolding normalized_host_def Let_def option.case by code_simp+
  have "ip_is_blocked True (V4 (quad 100 64 0 1))"
    by (simp add: in_net_def CGNAT_V4_def quad_def base_value_def)
  moreover have "\<not> ip_is_blocked True (V6 0xffff64400001)"
    by (simp add: in_net_def ipv4_mapped_def quad_def base_value_def v4_flagged_def v4_loopback_def v4_link_local_def
        v4_private_def v4_multicast_def v4_reserved_def V4_PRIVATE_def)
  ultimately show ?thesis
    by (simp add: assert_egress_allowed_def n mapped_parsed BLOCKED_NAMES_def Let_def del: ip_is_blocked.simps)
      (simp add: ipv4_mapped_def quad_def base_value_def)
qed

end
