(* ===== verification/Rfc3161.thy ===== *)
theory Rfc3161
  imports Ssrf EvidenceChain
begin

section \<open>The RFC 3161 time-stamping client (audit/rfc3161.py)\<close>

text \<open>
  \<^verbatim>\<open>Rfc3161Stamper\<close> asks a time-stamping authority for a token over a Merkle root and verifies
  stored tokens against the certificate of that authority. ASN.1 (asn1crypto) and certificates
  (cryptography) are packages outside the repository: the record \<open>tsa_library\<close> holds what the
  code calls of them, each a function from the encoded bytes to the fields the code reads, \<open>None\<close> where
  it raises. The hash functions \<open>H\<close> are named by \<^verbatim>\<open>hashlib\<close>'s names. A byte is a
  character. The lemmas say what an accepted token proves, that a token the authority signed is accepted,
  and where a request may go.
\<close>

subsection \<open>base64 and fromhex\<close>

definition b64_char :: "nat \<Rightarrow> char" where
  "b64_char n =
     (if n < 26 then char_of (n + 65) else if n < 52 then char_of (n + 71)
      else if n < 62 then char_of (n - 4) else if n = 62 then CHR ''+'' else CHR ''/'')"

definition b64_value :: "char \<Rightarrow> nat option" where
  "b64_value c =
     (if char_between 65 90 c then Some (ord c - 65)
      else if char_between 97 122 c then Some (ord c - 71)
      else if char_between 48 57 c then Some (ord c + 4)
      else if c = CHR ''+'' then Some 62 else if c = CHR ''/'' then Some 63 else None)"

fun b64encode :: "string \<Rightarrow> string" where
  "b64encode [] = []"
| "b64encode [a] = [b64_char (ord a div 4), b64_char (ord a mod 4 * 16), CHR ''='', CHR ''='']"
| "b64encode [a, b] =
     [b64_char (ord a div 4), b64_char (ord a mod 4 * 16 + ord b div 16), b64_char (ord b mod 16 * 4), CHR ''='']"
| "b64encode (a # b # c # r) =
     [b64_char (ord a div 4), b64_char (ord a mod 4 * 16 + ord b div 16),
      b64_char (ord b mod 16 * 4 + ord c div 64), b64_char (ord c mod 64)] @ b64encode r"

text \<open>\<^verbatim>\<open>base64.b64decode(s, validate=True)\<close>, \<open>None\<close> where it raises. A group of four characters
  is three bytes; padding ends the text. \<open>excess\<close>: whether the interpreter lets padding follow complete
  groups (the early 3.12 releases do). The bits a padded group has to spare are dropped.\<close>

fun b64_groups :: "bool \<Rightarrow> string \<Rightarrow> string option" where
  "b64_groups excess (w # x # y # z # r) =
     (if excess \<and> list_all ((=) CHR ''='') (w # x # y # z # r) then Some []
      else case (b64_value w, b64_value x) of
        (Some i, Some j) \<Rightarrow>
          (if z = CHR ''=''
           then (if r \<noteq> [] then None
                 else if y = CHR ''='' then Some [char_of (i * 4 + j div 16)]
                 else map_option (\<lambda>k. [char_of (i * 4 + j div 16), char_of (j mod 16 * 16 + k div 4)]) (b64_value y))
           else (case (b64_value y, b64_value z, b64_groups excess r) of
                   (Some k, Some l, Some out) \<Rightarrow>
                     Some (char_of (i * 4 + j div 16) # char_of (j mod 16 * 16 + k div 4) #
                           char_of (k mod 4 * 64 + l) # out)
                 | _ \<Rightarrow> None))
      | _ \<Rightarrow> None)"
| "b64_groups excess s = (if s = [] \<or> excess \<and> list_all ((=) CHR ''='') s then Some [] else None)"

definition b64decode :: "bool \<Rightarrow> string \<Rightarrow> string option" where
  "b64decode excess s = (if startswith s ''='' then None else b64_groups excess s)"

text \<open>\<^verbatim>\<open>bytes.fromhex\<close>: pairs of digits, with white space allowed between them.\<close>

definition ascii_space :: "char \<Rightarrow> bool" where
  "ascii_space c \<longleftrightarrow> char_between 9 13 c \<or> c = CHR '' ''"

fun bytes_fromhex :: "string \<Rightarrow> string option" where
  "bytes_fromhex [] = Some []"
| "bytes_fromhex [c] = (if ascii_space c then Some [] else None)"
| "bytes_fromhex (c # d # r) =
     (if ascii_space c then bytes_fromhex (d # r)
      else case (hex_value c, hex_value d, bytes_fromhex r) of
        (Some a, Some b, Some out) \<Rightarrow> Some (char_of (16 * a + b) # out)
      | _ \<Rightarrow> None)"

lemma b64_value_char: "n < 64 \<Longrightarrow> b64_value (b64_char n) = Some n"
  by (auto simp: b64_value_def b64_char_def char_between_def ord_def)

lemma b64_char_not_pad: "n < 64 \<Longrightarrow> b64_char n \<noteq> CHR ''=''"
  using b64_value_char [of n] by (auto simp: b64_value_def char_between_def ord_def)

lemma byte_less: "ord c < 256"
  by (simp add: ord_def)

lemma digits_of_byte:
  "ord a div 4 < 64" "ord c mod 64 < 64" "ord a mod 4 * 16 < 64" "ord b mod 16 * 4 < 64"
  "ord a mod 4 * 16 + ord b div 16 < 64" "ord b mod 16 * 4 + ord c div 64 < 64"
  using byte_less [of a] byte_less [of b] byte_less [of c] by linarith+

lemma high_digits:
  "ord c div 16 div 16 = 0" "ord c div 16 mod 16 = ord c div 16" "ord c div 64 div 4 = 0" "ord c div 64 mod 4 = ord c div 64"
proof -
  have "ord c div 16 < 16" "ord c div 64 < 4" using byte_less [of c] by linarith+
  then show "ord c div 16 div 16 = 0" "ord c div 16 mod 16 = ord c div 16"
    "ord c div 64 div 4 = 0" "ord c div 64 mod 4 = ord c div 64" by simp_all
qed

lemma b64_groups_encode: "b64_groups excess (b64encode s) = Some s"
  by (induction s rule: b64encode.induct)
    (simp_all add: b64_value_char b64_char_not_pad b64_char_not_pad [symmetric] digits_of_byte high_digits)

text \<open>Decoding what was encoded gives the bytes, for every interpreter.\<close>

lemma b64decode_encode: "b64decode excess (b64encode s) = Some s"
proof -
  have "\<not> startswith (b64encode s) ''=''"
    by (cases s rule: b64encode.cases) (auto simp: startswith_def b64_char_not_pad digits_of_byte)
  then show ?thesis by (simp add: b64decode_def b64_groups_encode)
qed

lemma bytes_fromhex_hex: "bytes_fromhex (bytes_hex s) = Some s"
proof (induction s)
  case (Cons c s)
  have d: "ord c div 16 < 16" "ord c mod 16 < 16" using byte_less [of c] by linarith+
  have "\<not> ascii_space (digit_char (ord c div 16))"
    using less_16_cases [OF d(1)] by (auto simp: digit_char_def ascii_space_def char_between_def ord_def)
  with Cons d show ?case by (simp add: bytes_hex_def hex_byte_def)
qed (simp add: bytes_hex_def)

subsection \<open>What the packages give\<close>

text \<open>The fields the code reads of a \<^verbatim>\<open>TSTInfo\<close>, of a signer, of a \<^verbatim>\<open>SignedData\<close> and of
  a response. \<open>si_signed_attrs\<close> are the bytes of the DER set of attributes.\<close>

record tst_info =
  ti_nonce :: "int option"
  ti_hashed_message :: string
  ti_gen_time :: int
  ti_gen_text :: string

record signed_attr =
  at_type :: string
  at_values :: "string list"

record signer_info =
  si_digest_algorithm :: string
  si_signed_attrs :: "string option"
  si_signature :: string

record signed_data =
  sd_econtent :: string
  sd_signer_infos :: "signer_info list"

record content_info =
  ci_content_type :: string
  ci_content :: "signed_data option"

record tsa_token =
  tk_der :: string
  tk_econtent :: string

record tsa_response =
  rs_status :: string
  rs_token :: "tsa_token option"

datatype 'k public_key = Rsa 'k | Ec 'k | Other_key

record 'k certificate =
  ct_public_key :: "'k public_key"
  ct_not_before :: int
  ct_not_after :: int

record 'k tsa_library =
  tl_request :: "string \<Rightarrow> nat \<Rightarrow> string"
  tl_response :: "string \<Rightarrow> tsa_response option"
  tl_content_info :: "string \<Rightarrow> content_info option"
  tl_tst_info :: "string \<Rightarrow> tst_info option"
  tl_signed_attrs :: "string \<Rightarrow> signed_attr list option"
  tl_certificate :: "string \<Rightarrow> 'k certificate option"
  tl_signature_ok :: "'k public_key \<Rightarrow> string \<Rightarrow> string \<Rightarrow> string \<Rightarrow> bool"   \<comment> \<open>hash, signature, bytes\<close>
  tl_excess_padding :: bool

subsection \<open>Verifying a token\<close>

definition GRANTED :: "string set" where
  "GRANTED = {''granted'', ''granted_with_mods''}"

definition HASHES :: "string set" where
  "HASHES = {''sha256'', ''sha384'', ''sha512''}"

text \<open>The loop over the attributes: the last message digest, and whether the last content type is a
  \<^verbatim>\<open>TSTInfo\<close>; \<open>None\<close> is the \<^verbatim>\<open>IndexError\<close> of an attribute without a value.\<close>

fun read_attrs :: "string option \<times> bool \<Rightarrow> signed_attr list \<Rightarrow> (string option \<times> bool) option" where
  "read_attrs st [] = Some st"
| "read_attrs (message_digest, content_type_ok) (attr # attrs) =
     (if at_type attr = ''message_digest''
      then (case at_values attr of [] \<Rightarrow> None | v # _ \<Rightarrow> read_attrs (Some v, content_type_ok) attrs)
      else if at_type attr = ''content_type''
      then (case at_values attr of [] \<Rightarrow> None | v # _ \<Rightarrow> read_attrs (message_digest, v = ''tst_info'') attrs)
      else read_attrs (message_digest, content_type_ok) attrs)"

text \<open>\<^verbatim>\<open>_verify_signer\<close>; \<open>None\<close>: it raised.\<close>

definition key_accepts :: "'k tsa_library \<Rightarrow> 'k public_key \<Rightarrow> string \<Rightarrow> string \<Rightarrow> string \<Rightarrow> bool" where
  "key_accepts lib key hash_name signature signed_bytes \<longleftrightarrow>
     key \<noteq> Other_key \<and> tl_signature_ok lib key hash_name signature signed_bytes"

definition verify_signer ::
  "'k tsa_library \<Rightarrow> (string \<Rightarrow> string \<Rightarrow> string) \<Rightarrow> signed_data \<Rightarrow> string \<Rightarrow> bool option" where
  "verify_signer lib H sd cert_pem =
     (case tl_certificate lib cert_pem of
        None \<Rightarrow> None
      | Some cert \<Rightarrow>
          (case sd_signer_infos sd of
             [signer] \<Rightarrow>
               (let digest_name = si_digest_algorithm signer
                in if digest_name \<notin> HASHES then Some False
                   else (case si_signed_attrs signer of
                           None \<Rightarrow> Some False
                         | Some signed_bytes \<Rightarrow>
                             (case tl_signed_attrs lib signed_bytes of
                                None \<Rightarrow> None
                              | Some [] \<Rightarrow> Some False
                              | Some attrs \<Rightarrow>
                                  (case tl_tst_info lib (sd_econtent sd) of
                                     None \<Rightarrow> None
                                   | Some tst \<Rightarrow>
                                       (case read_attrs (None, False) attrs of
                                          None \<Rightarrow> None
                                        | Some (message_digest, content_type_ok) \<Rightarrow>
                                            if message_digest \<noteq> Some (H digest_name (sd_econtent sd)) \<or> \<not> content_type_ok
                                            then Some False
                                            else if \<not> key_accepts lib (ct_public_key cert) digest_name (si_signature signer)
                                                      signed_bytes
                                            then Some False
                                            else Some (ct_not_before cert \<le> ti_gen_time tst \<and>
                                                       ti_gen_time tst \<le> ct_not_after cert))))))
           | _ \<Rightarrow> Some False))"

definition rfc3161_verify_raw ::
  "'k tsa_library \<Rightarrow> (string \<Rightarrow> string \<Rightarrow> string) \<Rightarrow> string option \<Rightarrow> string \<Rightarrow> pyval \<Rightarrow> bool option" where
  "rfc3161_verify_raw lib H cert_pem digest_hex token =
     (case token of
        PDict t \<Rightarrow>
          (if map_of t ''tsa'' \<noteq> Some (PStr ''rfc3161'') then Some False
           else (case (map_of t ''token_b64'', cert_pem) of
                   (Some (PStr token_b64), Some pem) \<Rightarrow>
                     (case b64decode (tl_excess_padding lib) token_b64 of
                        None \<Rightarrow> None
                      | Some token_der \<Rightarrow>
                          (case tl_content_info lib token_der of
                             None \<Rightarrow> None
                           | Some ci \<Rightarrow>
                               if ci_content_type ci \<noteq> ''signed_data'' then Some False
                               else (case ci_content ci of
                                       None \<Rightarrow> None
                                     | Some sd \<Rightarrow>
                                         (case (tl_tst_info lib (sd_econtent sd), bytes_fromhex digest_hex) of
                                            (Some tst, Some digest) \<Rightarrow>
                                              if ti_hashed_message tst \<noteq> digest then Some False
                                              else verify_signer lib H sd pem
                                          | _ \<Rightarrow> None))))
                 | _ \<Rightarrow> Some False))
      | _ \<Rightarrow> Some False)"

text \<open>\<^verbatim>\<open>verify\<close>: every exception is a token that does not verify.\<close>

definition rfc3161_verify ::
  "'k tsa_library \<Rightarrow> (string \<Rightarrow> string \<Rightarrow> string) \<Rightarrow> string option \<Rightarrow> string \<Rightarrow> pyval \<Rightarrow> bool" where
  "rfc3161_verify lib H cert_pem digest_hex token \<longleftrightarrow> rfc3161_verify_raw lib H cert_pem digest_hex token = Some True"

subsection \<open>The request over HTTPS\<close>

text \<open>\<open>up_port\<close> is \<open>None\<close> where reading the port raises.\<close>

record url_parts =
  up_scheme :: string
  up_hostname :: "string option"
  up_port :: "nat option option"
  up_path :: string
  up_query :: string

record tsa_connection =
  tc_pinned_ip :: string
  tc_port :: nat
  tc_server_hostname :: string
  tc_target :: string
  tc_headers :: "(string, string) pydict"
  tc_body :: string

datatype post_error =
    Url_invalid | Not_https string | Egress ssrf_blocked | Port_invalid
  | Tsa_status int | Response_too_large | Unreachable_tsa | Reply_broken

text \<open>What one attempt brings: an \<^verbatim>\<open>OSError\<close>, another exception of the HTTP client, or a status
  with the bytes the body holds.\<close>

datatype attempt = Os_error | Http_exception | Reply int string

text \<open>The loop over the vetted addresses, with the connections it opens.\<close>

fun try_addresses ::
  "nat \<Rightarrow> (string \<Rightarrow> attempt) \<Rightarrow> (string \<Rightarrow> tsa_connection) \<Rightarrow> string list \<Rightarrow>
   (post_error + string) \<times> tsa_connection list" where
  "try_addresses max_bytes net conn [] = (Inl Unreachable_tsa, [])"
| "try_addresses max_bytes net conn (ip # ips) =
     (case net ip of
        Os_error \<Rightarrow> apsnd ((#) (conn ip)) (try_addresses max_bytes net conn ips)
      | Http_exception \<Rightarrow> (Inl Reply_broken, [conn ip])
      | Reply status content \<Rightarrow>
          (if status \<noteq> 200 then Inl (Tsa_status status)
           else let data = take (max_bytes + 1) content
                in if max_bytes < length data then Inl Response_too_large else Inr data, [conn ip]))"

definition https_post ::
  "(string \<Rightarrow> url_parts option) \<Rightarrow> (string \<Rightarrow> ssrf_blocked + string list) \<Rightarrow> (string \<Rightarrow> attempt) \<Rightarrow> nat \<Rightarrow> string \<Rightarrow> string \<Rightarrow>
   (post_error + string) \<times> tsa_connection list" where
  "https_post urlparse vetted net max_bytes url body =
     (case urlparse url of
        None \<Rightarrow> (Inl Url_invalid, [])
      | Some parsed \<Rightarrow>
          if up_scheme parsed \<noteq> ''https'' then (Inl (Not_https (up_scheme parsed)), [])
          else (case vetted url of
                  Inl e \<Rightarrow> (Inl (Egress e), [])
                | Inr ips \<Rightarrow>
                    (case up_port parsed of
                       None \<Rightarrow> (Inl Port_invalid, [])
                     | Some port \<Rightarrow>
                         (let host = (case up_hostname parsed of None \<Rightarrow> [] | Some h \<Rightarrow> h);
                              path = (if up_path parsed = [] then ''/'' else up_path parsed);
                              target = (if up_query parsed = [] then path else path @ ''?'' @ up_query parsed)
                          in try_addresses max_bytes net
                               (\<lambda>ip. \<lparr>tc_pinned_ip = ip,
                                      tc_port = (case port of None \<Rightarrow> 443 | Some p \<Rightarrow> if p = 0 then 443 else p),
                                      tc_server_hostname = host, tc_target = target,
                                      tc_headers = [(''Content-Type'', ''application/timestamp-query''),
                                                    (''Accept'', ''application/timestamp-reply''),
                                                    (''Content-Length'', nat_str (length body))],
                                      tc_body = body\<rparr>) ips))))"

subsection \<open>Obtaining a token\<close>

datatype stamp_error =
    Bad_digest | Post_failed post_error | Bad_response | Not_granted string | No_token | Nonce_mismatch | Imprint_mismatch

definition rfc3161_stamp ::
  "'k tsa_library \<Rightarrow> (string \<Rightarrow> string \<Rightarrow> post_error + string) \<Rightarrow> string \<Rightarrow> nat \<Rightarrow> string \<Rightarrow> stamp_error + pyval" where
  "rfc3161_stamp lib transport tsa_url nonce digest_hex =
     (case bytes_fromhex digest_hex of
        None \<Rightarrow> Inl Bad_digest
      | Some digest \<Rightarrow>
          (case transport tsa_url (tl_request lib digest nonce) of
             Inl e \<Rightarrow> Inl (Post_failed e)
           | Inr response_der \<Rightarrow>
               (case tl_response lib response_der of
                  None \<Rightarrow> Inl Bad_response
                | Some response \<Rightarrow>
                    if rs_status response \<notin> GRANTED then Inl (Not_granted (rs_status response))
                    else (case rs_token response of
                            None \<Rightarrow> Inl No_token
                          | Some token \<Rightarrow>
                              (case tl_tst_info lib (tk_econtent token) of
                                 None \<Rightarrow> Inl Bad_response
                               | Some tst \<Rightarrow>
                                   if ti_nonce tst \<noteq> Some (int nonce) then Inl Nonce_mismatch
                                   else if ti_hashed_message tst \<noteq> digest then Inl Imprint_mismatch
                                   else Inr (PDict
                                          [(''tsa'', PStr ''rfc3161''), (''digest'', PStr digest_hex),
                                           (''token_b64'', PStr (b64encode (tk_der token))),
                                           (''gen_time'', PStr (ti_gen_text tst))]))))))"

text \<open>\<^verbatim>\<open>Rfc3161Stamper(tsa_url, cert_pem=...)\<close> with the packages installed. \<open>draw\<close> and \<open>net\<close> are the
  nonce drawn and the network's answers at the time of a call.\<close>

definition DEFAULT_MAX_BYTES :: nat where "DEFAULT_MAX_BYTES = 64 * 1024"

definition default_transport ::
  "(string \<Rightarrow> url_parts option) \<Rightarrow> (string \<Rightarrow> ssrf_blocked + string list) \<Rightarrow> (string \<Rightarrow> attempt) \<Rightarrow>
   string \<Rightarrow> string \<Rightarrow> post_error + string" where
  "default_transport urlparse vetted net url body = fst (https_post urlparse vetted net DEFAULT_MAX_BYTES url body)"

definition rfc3161_stamper ::
  "'k tsa_library \<Rightarrow> (string \<Rightarrow> string \<Rightarrow> string) \<Rightarrow> (string \<Rightarrow> string \<Rightarrow> string \<Rightarrow> post_error + string) \<Rightarrow>
   (string \<Rightarrow> nat) \<Rightarrow> string \<Rightarrow> string \<Rightarrow> stamper" where
  "rfc3161_stamper lib H transport_at draw tsa_url cert_pem =
     \<lparr>sp_stamp = (\<lambda>digest_hex now.
        case rfc3161_stamp lib (transport_at now) tsa_url (draw now) digest_hex of Inl _ \<Rightarrow> None | Inr token \<Rightarrow> Some token),
      sp_verify = rfc3161_verify lib H (Some cert_pem)\<rparr>"

subsection \<open>What verification looks at\<close>

text \<open>Only the kind and the encoded token count: the digest and the time stored beside them are labels.\<close>

lemma rfc3161_verify_labels:
  assumes "map_of t ''tsa'' = map_of t' ''tsa''" and "map_of t ''token_b64'' = map_of t' ''token_b64''"
  shows "rfc3161_verify lib H pem d (PDict t) = rfc3161_verify lib H pem d (PDict t')"
  by (simp add: rfc3161_verify_def rfc3161_verify_raw_def assms)

lemma rfc3161_verify_needs_cert: "\<not> rfc3161_verify lib H None d token"
  by (simp add: rfc3161_verify_def rfc3161_verify_raw_def split: pyval.splits option.splits)

lemma verify_signerE:
  assumes "verify_signer lib H sd pem = Some True"
  obtains cert signer signed_bytes attrs tst where
    "tl_certificate lib pem = Some cert" "sd_signer_infos sd = [signer]" "si_digest_algorithm signer \<in> HASHES"
    "si_signed_attrs signer = Some signed_bytes" "tl_signed_attrs lib signed_bytes = Some attrs"
    "tl_tst_info lib (sd_econtent sd) = Some tst"
    "read_attrs (None, False) attrs = Some (Some (H (si_digest_algorithm signer) (sd_econtent sd)), True)"
    "key_accepts lib (ct_public_key cert) (si_digest_algorithm signer) (si_signature signer) signed_bytes"
    "ct_not_before cert \<le> ti_gen_time tst" "ti_gen_time tst \<le> ct_not_after cert"
  using assms
  by (auto simp: verify_signer_def Let_def split: option.splits list.splits if_splits)

lemma rfc3161_verifyE:
  assumes "rfc3161_verify lib H (Some pem) digest_hex token"
  obtains t token_b64 token_der ci sd tst where
    "token = PDict t" "map_of t ''tsa'' = Some (PStr ''rfc3161'')" "map_of t ''token_b64'' = Some (PStr token_b64)"
    "b64decode (tl_excess_padding lib) token_b64 = Some token_der"
    "tl_content_info lib token_der = Some ci" "ci_content_type ci = ''signed_data''" "ci_content ci = Some sd"
    "tl_tst_info lib (sd_econtent sd) = Some tst" "bytes_fromhex digest_hex = Some (ti_hashed_message tst)"
    "verify_signer lib H sd pem = Some True"
  using assms
  by (auto simp: rfc3161_verify_def rfc3161_verify_raw_def split: pyval.splits option.splits if_splits)

subsection \<open>Where a request goes\<close>

lemma try_addresses_tried:
  "try_addresses max_bytes net conn ips = (r, cs) \<Longrightarrow>
   (\<exists>n. cs = map conn (take n ips)) \<and> (\<forall>data. r = Inr data \<longrightarrow> length data \<le> max_bytes)"
proof (induction ips arbitrary: r cs)
  case (Cons ip ips)
  show ?case
  proof (cases "net ip")
    case Os_error
    with Cons.prems obtain cs' where t: "try_addresses max_bytes net conn ips = (r, cs')" "cs = conn ip # cs'"
      by (cases "try_addresses max_bytes net conn ips") auto
    from Cons.IH [OF t(1)] obtain n where "cs' = map conn (take n ips)" "\<forall>data. r = Inr data \<longrightarrow> length data \<le> max_bytes"
      by blast
    then have "cs = map conn (take (Suc n) (ip # ips))" using t(2) by simp
    with \<open>\<forall>data. r = Inr data \<longrightarrow> length data \<le> max_bytes\<close> show ?thesis by blast
  qed (use Cons.prems in \<open>auto simp: Let_def intro!: exI [of _ 1] split: if_splits\<close>)
qed simp

text \<open>A request is attempted only over https and only at addresses the egress filter returned, in their order,
  and a body that is returned is within the bound.\<close>

lemma https_post_pinned:
  assumes "https_post urlparse vetted net max_bytes url body = (r, cs)"
  shows "(cs \<noteq> [] \<longrightarrow> (\<exists>parsed ips n. urlparse url = Some parsed \<and> up_scheme parsed = ''https'' \<and>
            vetted url = Inr ips \<and> map tc_pinned_ip cs = take n ips \<and> (\<forall>c \<in> set cs. tc_body c = body))) \<and>
         (\<forall>data. r = Inr data \<longrightarrow> length data \<le> max_bytes)"
  using assms
  by (auto simp: https_post_def Let_def o_def split: option.splits sum.splits if_splits dest!: try_addresses_tried)

text \<open>With the filter of the program in place, every address attempted is a public one.\<close>

lemma allowed_public:
  assumes "resolve_and_assert_egress_allowed delegates aton hostname resolver url = Inr addrs"
  shows "list_all (public_text delegates aton) addrs"
proof (cases "as_ip aton (normalized_host hostname url)")
  case None
  then show ?thesis using assms
    by (auto simp: resolve_and_assert_egress_allowed_def Let_def dest: vet_public split: if_splits option.splits sum.splits)
next
  case (Some ip)
  then show ?thesis using assms
    by (auto simp: resolve_and_assert_egress_allowed_def public_text_def as_ip_text Let_def split: if_splits)
qed

lemma https_post_public:
  assumes "https_post urlparse (resolve_and_assert_egress_allowed delegates aton hostname resolver) net max_bytes url body = (r, cs)"
    and "c \<in> set cs"
  shows "public_text delegates aton (tc_pinned_ip c)"
proof -
  have "cs \<noteq> []" using assms(2) by auto
  then obtain ips n where v: "resolve_and_assert_egress_allowed delegates aton hostname resolver url = Inr ips"
    and p: "map tc_pinned_ip cs = take n ips" using https_post_pinned [OF assms(1)] by blast
  have "tc_pinned_ip c \<in> set (take n ips)" using assms(2) unfolding p [symmetric] by auto
  then have i: "tc_pinned_ip c \<in> set ips" by (rule in_set_takeD)
  show ?thesis using allowed_public [OF v] i by (simp add: list_all_iff)
qed

subsection \<open>A token that is obtained and a token that is accepted\<close>

lemma rfc3161_stampE:
  assumes "rfc3161_stamp lib transport url nonce digest_hex = Inr out"
  obtains digest response_der response token tst where
    "bytes_fromhex digest_hex = Some digest" "transport url (tl_request lib digest nonce) = Inr response_der"
    "tl_response lib response_der = Some response" "rs_status response \<in> GRANTED" "rs_token response = Some token"
    "tl_tst_info lib (tk_econtent token) = Some tst" "ti_nonce tst = Some (int nonce)" "ti_hashed_message tst = digest"
    "out = PDict [(''tsa'', PStr ''rfc3161''), (''digest'', PStr digest_hex),
       (''token_b64'', PStr (b64encode (tk_der token))), (''gen_time'', PStr (ti_gen_text tst))]"
  using assms by (auto simp: rfc3161_stamp_def split: option.splits sum.splits if_splits)

text \<open>What an authority has to do for its tokens to be accepted: what its token encodes is signed data over the
  content the client saw, and the signature verifies.\<close>

definition tsa_honest :: "'k tsa_library \<Rightarrow> (string \<Rightarrow> string \<Rightarrow> string) \<Rightarrow> string \<Rightarrow> bool" where
  "tsa_honest lib H pem \<longleftrightarrow>
     (\<forall>der response token. tl_response lib der = Some response \<longrightarrow> rs_token response = Some token \<longrightarrow>
        (\<exists>sd. tl_content_info lib (tk_der token) = Some \<lparr>ci_content_type = ''signed_data'', ci_content = Some sd\<rparr> \<and>
              sd_econtent sd = tk_econtent token \<and> verify_signer lib H sd pem = Some True))"

text \<open>The client of such an authority is a stamper the evidence layer can rest on.\<close>

lemma rfc3161_honest:
  assumes "tsa_honest lib H pem"
  shows "honest_stamper (rfc3161_stamper lib H transport_at draw url pem)"
proof
  fix d now tok
  assume "sp_stamp (rfc3161_stamper lib H transport_at draw url pem) d now = Some tok"
  then have st: "rfc3161_stamp lib (transport_at now) url (draw now) d = Inr tok"
    by (simp add: rfc3161_stamper_def split: sum.splits)
  then show "wf_val tok \<and> opaques tok = {} \<and>
      sp_verify (rfc3161_stamper lib H transport_at draw url pem) d (json_norm no_default tok)"
  proof (cases rule: rfc3161_stampE)
    case (1 digest response_der response token tst)
    obtain sd where "tl_content_info lib (tk_der token) = Some \<lparr>ci_content_type = ''signed_data'', ci_content = Some sd\<rparr>"
      "sd_econtent sd = tk_econtent token" "verify_signer lib H sd pem = Some True"
      using assms 1(3,5) unfolding tsa_honest_def by blast
    with 1 show ?thesis
      by (simp add: rfc3161_stamper_def rfc3161_verify_def rfc3161_verify_raw_def b64decode_encode)
  qed
qed

text \<open>C15: If the RFC 3161 stamper accepts a token for a digest, then the authority itself attested that digest: there
  is a TSTInfo content whose message imprint is exactly the bytes of the digest and whose time lies in the
  validity of the configured certificate, and the authority issued that content, unless the token exhibits a
  collision of the named hash functions with a content it did issue. The hypotheses are the two things a
  signature gives: what verifies under the certificate's key was signed with it, and the authority signs
  attributes only over the digest of a content it issued. The unsigned fields of the token (its digest and time
  labels) play no part.\<close>

theorem accepted_token_was_issued:
  assumes accepted: "rfc3161_verify lib H (Some pem) digest_hex token"
    and cert: "tl_certificate lib pem = Some cert"
    and unforged: "\<And>h signature m. key_accepts lib (ct_public_key cert) h signature m \<Longrightarrow> m \<in> under_key"
    and issues: "\<And>m attrs d. m \<in> under_key \<Longrightarrow> tl_signed_attrs lib m = Some attrs \<Longrightarrow>
       read_attrs (None, False) attrs = Some (Some d, True) \<Longrightarrow> \<exists>content \<in> issued. \<exists>h \<in> HASHES. d = H h content"
  shows "\<exists>content tst. tl_tst_info lib content = Some tst \<and> bytes_fromhex digest_hex = Some (ti_hashed_message tst) \<and>
     ct_not_before cert \<le> ti_gen_time tst \<and> ti_gen_time tst \<le> ct_not_after cert \<and>
     (content \<in> issued \<or> (\<exists>other \<in> issued. \<exists>h \<in> HASHES. \<exists>h' \<in> HASHES. other \<noteq> content \<and> H h content = H h' other))"
  using accepted
proof (cases rule: rfc3161_verifyE)
  case (1 t token_b64 token_der ci sd tst)
  from 1(10) show ?thesis
  proof (cases rule: verify_signerE)
    case inner: (1 cert' signer signed_bytes attrs tst')
    have same: "cert' = cert" "tst' = tst" using inner(1,6) 1(8) cert by simp_all
    obtain other h where o: "other \<in> issued" "h \<in> HASHES" "H (si_digest_algorithm signer) (sd_econtent sd) = H h other"
      using issues [OF unforged [OF inner(8) [unfolded same]] inner(5,7)] by blast
    have "sd_econtent sd \<in> issued \<or>
        (\<exists>other \<in> issued. \<exists>h \<in> HASHES. \<exists>h' \<in> HASHES. other \<noteq> sd_econtent sd \<and> H h (sd_econtent sd) = H h' other)"
    proof (cases "other = sd_econtent sd")
      case False
      then show ?thesis by (intro disjI2 bexI conjI) (rule False o inner(3))+
    qed (use o(1) in simp)
    with 1(8,9) inner(9,10) [unfolded same] show ?thesis by (intro exI [of _ "sd_econtent sd"] exI [of _ tst] conjI)
  qed
qed

text \<open>An authority with one key that signs one set of attributes, over a content with the imprint \<open>ab\<close>.\<close>

definition demo_hash :: "string \<Rightarrow> string \<Rightarrow> string" where
  "demo_hash name b = name @ '':'' @ b"

definition demo_tst :: tst_info where
  "demo_tst = \<lparr>ti_nonce = Some 7, ti_hashed_message = [CHR 0xab], ti_gen_time = 50, ti_gen_text = ''2026-01-01T00:00:00+00:00''\<rparr>"

definition demo_signed :: signed_data where
  "demo_signed = \<lparr>sd_econtent = ''TST'',
     sd_signer_infos = [\<lparr>si_digest_algorithm = ''sha256'', si_signed_attrs = Some ''ATTRS'', si_signature = ''SIG''\<rparr>]\<rparr>"

definition demo_attrs :: "signed_attr list" where
  "demo_attrs = [\<lparr>at_type = ''content_type'', at_values = [''tst_info'']\<rparr>,
     \<lparr>at_type = ''message_digest'', at_values = [''sha256:TST'']\<rparr>]"

definition demo_cert :: "string certificate" where
  "demo_cert = \<lparr>ct_public_key = Rsa ''KEY'', ct_not_before = 0, ct_not_after = 100\<rparr>"

definition demo_tsa :: "string tsa_library" where
  "demo_tsa = \<lparr>tl_request = (\<lambda>_ _. ''REQ''),
     tl_response = (\<lambda>_. Some \<lparr>rs_status = ''granted'', rs_token = Some \<lparr>tk_der = ''TOK'', tk_econtent = ''TST''\<rparr>\<rparr>),
     tl_content_info = (\<lambda>der. if der = ''TOK'' then Some \<lparr>ci_content_type = ''signed_data'', ci_content = Some demo_signed\<rparr> else None),
     tl_tst_info = (\<lambda>content. if content = ''TST'' then Some demo_tst else None),
     tl_signed_attrs = (\<lambda>m. if m = ''ATTRS'' then Some demo_attrs else None),
     tl_certificate = (\<lambda>_. Some demo_cert),
     tl_signature_ok = (\<lambda>key h s m. key = Rsa ''KEY'' \<and> s = ''SIG'' \<and> m = ''ATTRS''),
     tl_excess_padding = False\<rparr>"

lemma demo_honest: "tsa_honest demo_tsa demo_hash ''PEM''"
  by (simp add: tsa_honest_def demo_tsa_def demo_signed_def demo_tst_def demo_attrs_def demo_cert_def demo_hash_def
      verify_signer_def key_accepts_def HASHES_def)

definition demo_token :: pyval where
  "demo_token = PDict [(''tsa'', PStr ''rfc3161''), (''digest'', PStr ''ab''), (''token_b64'', PStr (b64encode ''TOK'')),
     (''gen_time'', PStr ''2026-01-01T00:00:00+00:00'')]"

lemma demo_stamped: "rfc3161_stamp demo_tsa (\<lambda>_ _. Inr ''DER'') ''https://tsa.example/'' 7 ''ab'' = Inr demo_token"
proof -
  have "char_of (171 :: nat) = CHR 0xab" by code_simp
  then show ?thesis
    by (simp add: rfc3161_stamp_def demo_tsa_def demo_tst_def demo_token_def GRANTED_def ascii_space_def char_between_def
        ord_def hex_value.simps)
qed

lemma demo_accepted: "rfc3161_verify demo_tsa demo_hash (Some ''PEM'') ''ab'' demo_token"
proof -
  let ?S = "rfc3161_stamper demo_tsa demo_hash (\<lambda>_ _ _. Inr ''DER'') (\<lambda>_. 7) ''https://tsa.example/'' ''PEM''"
  have "sp_stamp ?S ''ab'' [] = Some demo_token" by (simp add: rfc3161_stamper_def demo_stamped)
  then have "sp_verify ?S ''ab'' (json_norm no_default demo_token)"
    using honest_stamper.stamped [OF rfc3161_honest [OF demo_honest]] by blast
  then show ?thesis by (simp add: rfc3161_stamper_def demo_token_def rfc3161_verify_def rfc3161_verify_raw_def)
qed

theorem accepted_token_was_issued_witness:
  "rfc3161_verify demo_tsa demo_hash (Some ''PEM'') ''ab'' demo_token \<and>
   (\<exists>content tst. tl_tst_info demo_tsa content = Some tst \<and> bytes_fromhex ''ab'' = Some (ti_hashed_message tst) \<and>
      ct_not_before demo_cert \<le> ti_gen_time tst \<and> ti_gen_time tst \<le> ct_not_after demo_cert \<and>
      (content \<in> {''TST''} \<or>
       (\<exists>other \<in> {''TST''}. \<exists>h \<in> HASHES. \<exists>h' \<in> HASHES. other \<noteq> content \<and> demo_hash h content = demo_hash h' other)))"
proof (rule conjI)
  show "rfc3161_verify demo_tsa demo_hash (Some ''PEM'') ''ab'' demo_token" by (rule demo_accepted)
next
  show "\<exists>content tst. tl_tst_info demo_tsa content = Some tst \<and> bytes_fromhex ''ab'' = Some (ti_hashed_message tst) \<and>
      ct_not_before demo_cert \<le> ti_gen_time tst \<and> ti_gen_time tst \<le> ct_not_after demo_cert \<and>
      (content \<in> {''TST''} \<or>
       (\<exists>other \<in> {''TST''}. \<exists>h \<in> HASHES. \<exists>h' \<in> HASHES. other \<noteq> content \<and> demo_hash h content = demo_hash h' other))"
  proof (rule accepted_token_was_issued [OF demo_accepted, of _ "{''ATTRS''}"])
    show "tl_certificate demo_tsa ''PEM'' = Some demo_cert" by (simp add: demo_tsa_def)
    show "m \<in> {''ATTRS''}" if "key_accepts demo_tsa (ct_public_key demo_cert) h signature m" for h signature m
      using that by (simp add: key_accepts_def demo_tsa_def)
    show "\<exists>content \<in> {''TST''}. \<exists>h \<in> HASHES. d = demo_hash h content"
      if "m \<in> {''ATTRS''}" "tl_signed_attrs demo_tsa m = Some attrs" "read_attrs (None, False) attrs = Some (Some d, True)"
      for m attrs d
    proof -
      have "attrs = demo_attrs" using that(1,2) by (auto simp: demo_tsa_def)
      with that(3) have "d = demo_hash ''sha256'' ''TST''" by (simp add: demo_attrs_def demo_hash_def)
      then show ?thesis by (auto simp: HASHES_def)
    qed
  qed
qed

end
