(* ===== verification/Syslog.thy ===== *)
theory Syslog
  imports AuditLog
begin

section \<open>The syslog sink (execution/audit.py)\<close>

text \<open>
  \<^verbatim>\<open>SyslogAuditSink\<close> forwards audit lines as datagrams over a socket it opens when it first needs it and
  drops when a send fails. The state is the endpoint the open socket is connected to; what connecting
  and sending do is given per call. The lemmas say that the frames that reach the collector are exactly those of
  the lines that were accepted, in order, and relate the sink to the fan-out of AuditLog.
\<close>

definition PRIORITY :: int where
  "PRIORITY = 10 * 8 + 5"

datatype endpoint = Unix_datagram string | Udp string int

record syslog_sink =
  sy_address :: string
  sy_tag :: string
  sy_sock :: "endpoint option"

definition syslog_init :: "string option \<Rightarrow> syslog_sink" where
  "syslog_init address =
     \<lparr>sy_address = (case address of None \<Rightarrow> ''/dev/log'' | Some a \<Rightarrow> a), sy_tag = ''praxis-audit'', sy_sock = None\<rparr>"

text \<open>\<^verbatim>\<open>address.rpartition(":")\<close> without the separator: all of it is the last part if there is none.\<close>

definition rpartition_colon :: "string \<Rightarrow> string \<times> string" where
  "rpartition_colon s =
     (if CHR '':'' \<in> set s
      then (rev (tl (dropWhile (\<lambda>c. c \<noteq> CHR '':'') (rev s))), rev (takeWhile (\<lambda>c. c \<noteq> CHR '':'') (rev s)))
      else ([], s))"

text \<open>The endpoint an address names; \<open>None\<close> is the \<^verbatim>\<open>ValueError\<close> of a port that is not a number.\<close>

definition endpoint_of :: "string \<Rightarrow> endpoint option" where
  "endpoint_of address =
     (if startswith address ''/'' then Some (Unix_datagram address)
      else let (host, port) = rpartition_colon address
           in case int_of_str port of Inl _ \<Rightarrow> None | Inr p \<Rightarrow> Some (Udp host p))"

datatype syslog_error = Address_invalid | Connect_failed | Send_failed

record syslog_env =
  sn_connect :: "endpoint \<Rightarrow> bool"
  sn_send :: bool

definition connect :: "syslog_env \<Rightarrow> syslog_sink \<Rightarrow> syslog_error + endpoint" where
  "connect env s =
     (case endpoint_of (sy_address s) of
        None \<Rightarrow> Inl Address_invalid
      | Some e \<Rightarrow> if sn_connect env e then Inr e else Inl Connect_failed)"

definition frame :: "syslog_sink \<Rightarrow> string \<Rightarrow> string" where
  "frame s line = utf8_encode (''<'' @ int_str PRIORITY @ ''>'' @ sy_tag s @ '': '' @ line)"

text \<open>The result, the sink, and the datagrams that left with where they went.\<close>

definition syslog_emit ::
  "syslog_env \<Rightarrow> string \<Rightarrow> syslog_sink \<Rightarrow> (syslog_error + unit) \<times> syslog_sink \<times> (endpoint \<times> string) list" where
  "syslog_emit env line s =
     (case (case sy_sock s of None \<Rightarrow> connect env s | Some e \<Rightarrow> Inr e) of
        Inl x \<Rightarrow> (Inl x, s, [])
      | Inr e \<Rightarrow>
          if sn_send env then (Inr (), s\<lparr>sy_sock := Some e\<rparr>, [(e, frame s line)])
          else (Inl Send_failed, s\<lparr>sy_sock := None\<rparr>, []))"

definition syslog_close :: "syslog_sink \<Rightarrow> syslog_sink" where
  "syslog_close s = s\<lparr>sy_sock := None\<rparr>"

subsection \<open>What reaches the collector\<close>

text \<open>The sink over a sequence of lines, each with what its connection and send do.\<close>

fun forward :: "syslog_sink \<Rightarrow> (syslog_env \<times> string) list \<Rightarrow> syslog_sink \<times> (endpoint \<times> string) list \<times> bool list" where
  "forward s [] = (s, [], [])"
| "forward s ((env, line) # es) =
     (let (r, s1, out) = syslog_emit env line s; (s2, outs, oks) = forward s1 es
      in (s2, out @ outs, isl r # oks))"

text \<open>The socket, when open, leads to where the address says.\<close>

definition sock_ok :: "syslog_sink \<Rightarrow> bool" where
  "sock_ok s \<longleftrightarrow> (\<forall>e. sy_sock s = Some e \<longrightarrow> endpoint_of (sy_address s) = Some e)"

lemma syslog_emit_cases:
  assumes "sock_ok s" and "syslog_emit env line s = (r, s', out)"
  shows "sock_ok s' \<and> sy_address s' = sy_address s \<and> sy_tag s' = sy_tag s \<and>
     (case r of
        Inr _ \<Rightarrow> (\<exists>e. endpoint_of (sy_address s) = Some e \<and> out = [(e, frame s line)] \<and> sy_sock s' = Some e)
      | Inl _ \<Rightarrow> out = [] \<and> sy_sock s' = None)"
  using assms
  by (auto simp: syslog_emit_def connect_def sock_ok_def split: option.splits if_splits sum.splits)

lemma frame_cong: "sy_tag s = sy_tag t \<Longrightarrow> frame s = frame t"
  by (rule ext) (simp add: frame_def)

text \<open>The datagrams are the frames of the accepted lines, in order and once each, and all go to the one endpoint
  the address names, whatever fails in between; after a refusal the sink holds no socket, so the next line
  connects again.\<close>

lemma forward_exact:
  assumes "sock_ok s" and "forward s es = (s', outs, failed)"
  shows "length failed = length es \<and> sock_ok s' \<and>
     map snd outs = map (\<lambda>((_, line), _). frame s line) (filter (\<lambda>(_, bad). \<not> bad) (zip es failed)) \<and>
     (\<forall>(e, _) \<in> set outs. endpoint_of (sy_address s) = Some e) \<and>
     (es \<noteq> [] \<longrightarrow> (sy_sock s' = None \<longleftrightarrow> last failed))"
  using assms
proof (induction es arbitrary: s outs failed)
  case (Cons x es)
  obtain env line where x: "x = (env, line)" by (cases x)
  obtain r s1 out where e: "syslog_emit env line s = (r, s1, out)" by (metis prod_cases3)
  obtain outs' failed' where f: "forward s1 es = (s', outs', failed')" and os: "outs = out @ outs'" "failed = isl r # failed'"
    using Cons.prems(2) by (auto simp: x e Let_def split: prod.splits)
  note c = syslog_emit_cases [OF Cons.prems(1) e]
  have ok: "sock_ok s1" and same: "frame s1 = frame s" "sy_address s1 = sy_address s"
    using c frame_cong [of s1 s] by simp_all
  note ih = Cons.IH [OF ok f, unfolded same]
  have last: "sy_sock s' = None \<longleftrightarrow> last failed" if "es = []" using that c f os by (cases r) auto
  have zip: "zip (x # es) failed = (x, isl r) # zip es failed'" using os by simp
  have one: "map snd out = (if isl r then [] else [frame s line])"
    "\<forall>(e, _) \<in> set out. endpoint_of (sy_address s) = Some e" using c by (cases r; force)+
  have "map snd outs = map (\<lambda>((_, line), _). frame s line) (filter (\<lambda>(_, bad). \<not> bad) (zip (x # es) failed))"
    unfolding zip using ih one(1) by (simp add: os(1) x)
  moreover have "\<forall>(e, _) \<in> set outs. endpoint_of (sy_address s) = Some e" using ih one(2) by (auto simp: os(1))
  moreover have "sy_sock s' = None \<longleftrightarrow> last failed"
  proof (cases "es = []")
    case False
    then have "failed' \<noteq> []" using ih by auto
    with False ih show ?thesis by (simp add: os(2))
  qed (rule last)
  ultimately show ?case using ih os(2) by simp
qed simp

text \<open>The sink as one of the sinks of the fan-out: its name is recorded as failed exactly when the line
  did not leave.\<close>

lemma emit_one_syslog:
  assumes "we_sink env ''syslog'' \<longleftrightarrow> \<not> isl (fst (syslog_emit senv line s))"
  shows "lg_forwarded (emit_one env line ''syslog'' lg) =
     lg_forwarded lg @ (if snd (snd (syslog_emit senv line s)) = [] then [] else [(''syslog'', line)]) \<and>
     (''syslog'' \<in> lg_failed (emit_one env line ''syslog'' lg) \<longleftrightarrow> snd (snd (syslog_emit senv line s)) = [])"
proof -
  have "isl (fst (syslog_emit senv line s)) \<longleftrightarrow> snd (snd (syslog_emit senv line s)) = []"
    by (auto simp: syslog_emit_def split: sum.splits option.splits)
  with assms show ?thesis by (auto simp: emit_one_def stderr_note_def)
qed

lemma syslog_frame_text: "sy_tag s = ''praxis-audit'' \<Longrightarrow> frame s line = utf8_encode (''<85>praxis-audit: '' @ line)"
proof -
  assume "sy_tag s = ''praxis-audit''"
  moreover have "int_str PRIORITY = ''85''" by (simp add: PRIORITY_def int_str_def nat_str.simps digit_char_def)
  ultimately show ?thesis by (simp add: frame_def)
qed

end
