(* ===== verification/Skills.thy ===== *)
theory Skills
  imports Findall Json "HOL-Library.Product_Lexorder"
begin

section \<open>Skill bundles, routing and its evaluation (skills/)\<close>

text \<open>
  A bundle is the text of its \<^verbatim>\<open>SKILL.md\<close>; the frontmatter model is the required texts and the
  comma-separated tuples the pydantic class declares. A score is a rational: the product and quotient of
  \<^verbatim>\<open>_lexical\<close> are not rounded.
\<close>

subsection \<open>Manifests\<close>

definition MAX_SKILL_BYTES :: nat where "MAX_SKILL_BYTES = 1 * 1024 * 1024"
definition MAX_FRONTMATTER_BYTES :: nat where "MAX_FRONTMATTER_BYTES = 64 * 1024"

definition KINDS :: "string list" where
  "KINDS = [''host-knowledge'', ''tool'']"

record skill_manifest =
  sk_name :: string
  sk_description :: string
  sk_kind :: string
  sk_path :: string
  sk_inputs :: "string list"
  sk_outputs :: "string list"

definition is_fence :: "string \<Rightarrow> bool" where
  "is_fence line \<longleftrightarrow> py_rstrip line = ''---''"

definition header_pair :: "string \<Rightarrow> (string \<times> string) option" where
  "header_pair line =
     (if py_strip line = [] \<or> startswith (py_lstrip line) ''#'' then None
      else if is_space (hd line) then None
      else if CHR '':'' \<notin> set line then None
      else let (k, v) = partition_at CHR '':'' line in Some (py_strip k, py_strip v))"

text \<open>The loop over the header lines; \<open>None\<close> is the refusal of a duplicate key.\<close>

fun read_header :: "(string, string) pydict \<Rightarrow> string list \<Rightarrow> (string, string) pydict option" where
  "read_header meta [] = Some meta"
| "read_header meta (line # ls) =
     (case header_pair line of
        None \<Rightarrow> read_header meta ls
      | Some (k, v) \<Rightarrow> if k \<in> set (keys meta) then None else read_header (meta @ [(k, v)]) ls)"

definition parse_frontmatter :: "string \<Rightarrow> (string, string) pydict \<times> string" where
  "parse_frontmatter text =
     (case splitlines text of
        [] \<Rightarrow> ([], text)
      | l0 # ls \<Rightarrow>
          if \<not> is_fence l0 then ([], text)
          else (case dropWhile (\<lambda>l. \<not> is_fence l) ls of
                  [] \<Rightarrow> ([], text)
                | _ # body \<Rightarrow>
                    (let header_lines = takeWhile (\<lambda>l. \<not> is_fence l) ls
                     in if MAX_FRONTMATTER_BYTES < length (utf8_encode (py_join [CHR ''\<newline>''] header_lines)) then ([], text)
                        else (case read_header [] header_lines of
                                None \<Rightarrow> ([], text)
                              | Some meta \<Rightarrow> (meta, py_join [CHR ''\<newline>''] body)))))"

definition split_csv :: "string option \<Rightarrow> string list" where
  "split_csv value =
     (case value of
        None \<Rightarrow> []
      | Some s \<Rightarrow> filter (\<lambda>x. x \<noteq> []) (map py_strip (py_split CHR '','' s)))"

text \<open>\<^verbatim>\<open>SkillFrontmatter.model_validate\<close>: \<open>None\<close> is its \<^verbatim>\<open>ValidationError\<close>.\<close>

definition required_text :: "string option \<Rightarrow> string option" where
  "required_text value =
     (case value of None \<Rightarrow> None | Some s \<Rightarrow> if py_strip s = [] then None else Some (py_strip s))"

definition SkillFrontmatter :: "(string, string) pydict \<Rightarrow> string \<Rightarrow> skill_manifest option" where
  "SkillFrontmatter meta parent =
     (case (required_text (map_of meta ''name''), required_text (map_of meta ''description''), map_of meta ''kind'') of
        (Some name, Some description, Some kind) \<Rightarrow>
          if kind \<notin> set KINDS then None
          else Some \<lparr>sk_name = name, sk_description = description, sk_kind = kind, sk_path = parent,
                     sk_inputs = split_csv (map_of meta ''inputs''), sk_outputs = split_csv (map_of meta ''outputs'')\<rparr>
      | _ \<Rightarrow> None)"

text \<open>A file: its size and its text, unless reading raises.\<close>

record skill_file =
  sf_parent :: string
  sf_size :: "nat option"
  sf_text :: "string option"

definition load_skill :: "skill_file \<Rightarrow> skill_manifest option" where
  "load_skill f =
     (case sf_size f of
        None \<Rightarrow> None
      | Some n \<Rightarrow>
          if MAX_SKILL_BYTES < n then None
          else (case sf_text f of
                  None \<Rightarrow> None
                | Some text \<Rightarrow> SkillFrontmatter (fst (parse_frontmatter text)) (sf_parent f)))"

subsection \<open>The registry\<close>

text \<open>\<open>files\<close> is \<^verbatim>\<open>sorted(skills_dir.glob("*/SKILL.md"))\<close>.\<close>

definition discover :: "bool \<Rightarrow> skill_file list \<Rightarrow> skill_manifest list" where
  "discover is_dir files =
     (if is_dir then map the (filter (\<lambda>m. m \<noteq> None) (map load_skill files)) else [])"

definition by_kind :: "string \<Rightarrow> skill_manifest list \<Rightarrow> skill_manifest list" where
  "by_kind kind ms = filter (\<lambda>m. sk_kind m = kind) ms"

definition get_skill :: "string \<Rightarrow> skill_manifest list \<Rightarrow> skill_manifest option" where
  "get_skill name ms = find (\<lambda>m. sk_name m = name) ms"

subsection \<open>Routing\<close>

definition WORD :: rexp where
  "WORD = many1 (Cls (\<lambda>c. az c \<or> is_digit c))"

definition STOP :: "string list" where
  "STOP = [''the'', ''a'', ''an'', ''of'', ''to'', ''for'', ''on'', ''in'', ''and'', ''or'', ''is'', ''how'', ''do'', ''i'', ''my'']"

definition tokens :: "string \<Rightarrow> string set" where
  "tokens text = set (filter (\<lambda>w. w \<notin> set STOP) (re_findall WORD (py_lower text)))"

type_synonym skill_match = "string \<times> rat"

definition substring :: "string \<Rightarrow> string \<Rightarrow> bool" where
  "substring w s \<longleftrightarrow> list_ex (\<lambda>i. startswith (drop i s) w) [0..<length s + 1]"

definition exact_matches :: "skill_manifest list \<Rightarrow> string \<Rightarrow> skill_match list" where
  "exact_matches ms query =
     (let q = py_lower (py_strip query)
      in concat (map (\<lambda>m.
           let name = py_lower (sk_name m)
           in if q = name then [(sk_name m, 1)]
              else if substring name q \<or> substring (map (\<lambda>c. if c = CHR ''-'' then CHR '' '' else c) name) q
              then [(sk_name m, 9 / 10)] else []) ms))"

definition lexical_matches :: "skill_manifest list \<Rightarrow> string \<Rightarrow> skill_match list" where
  "lexical_matches ms query =
     (let query_terms = tokens query
      in if query_terms = {} then []
         else concat (map (\<lambda>m.
           let overlap = query_terms \<inter> tokens (sk_name m @ '' '' @ sk_description m)
           in if overlap = {} then []
              else [(sk_name m, 85 / 100 * of_nat (card overlap) / of_nat (card query_terms))]) ms))"

definition keep_best :: "skill_match \<Rightarrow> (string, rat) pydict \<Rightarrow> (string, rat) pydict" where
  "keep_best m best =
     (if (case map_of best (fst m) of None \<Rightarrow> 0 | Some s \<Rightarrow> s) < snd m then AList.update (fst m) (snd m) best else best)"

text \<open>The chain of matchers; \<open>None\<close> is a matcher that raised, which is skipped.\<close>

definition route_chain :: "(string \<Rightarrow> skill_match list option) list \<Rightarrow> string \<Rightarrow> skill_match list" where
  "route_chain matchers query =
     (let best = fold (\<lambda>matcher best. case matcher query of None \<Rightarrow> best | Some results \<Rightarrow> fold keep_best results best)
                   matchers [];
          ranked = sort_key (\<lambda>(name, score). (- score, name)) best
      in filter (\<lambda>(name, score). 0 < score) ranked)"

definition route :: "skill_manifest list \<Rightarrow> string \<Rightarrow> skill_match list" where
  "route ms query = route_chain [\<lambda>q. Some (exact_matches ms q), \<lambda>q. Some (lexical_matches ms q)] query"

definition best_route :: "skill_manifest list \<Rightarrow> string \<Rightarrow> string option" where
  "best_route ms query = (case route ms query of [] \<Rightarrow> None | r # _ \<Rightarrow> Some (fst r))"

subsection \<open>Evaluation\<close>

record eval_result =
  ev_p_at_1 :: rat
  ev_mrr :: rat
  ev_n :: nat
  ev_failures :: "(string \<times> string \<times> string) list"

text \<open>One row of the golden set: whether it is a hit, its reciprocal rank and what was on top.\<close>

definition top_name :: "string list \<Rightarrow> string" where
  "top_name names = (case names of [] \<Rightarrow> [] | n # _ \<Rightarrow> n)"

definition reciprocal_rank :: "string \<Rightarrow> string list \<Rightarrow> rat" where
  "reciprocal_rank expected names =
     (if expected \<in> set names then 1 / of_nat (length (takeWhile (\<lambda>n. n \<noteq> expected) names) + 1) else 0)"

definition evaluate :: "(string \<Rightarrow> string list) \<Rightarrow> (string \<times> string) list \<Rightarrow> eval_result" where
  "evaluate names_of golden =
     (let n = length golden
      in if n = 0 then \<lparr>ev_p_at_1 = 1, ev_mrr = 1, ev_n = 0, ev_failures = []\<rparr>
         else
           let hits = length (filter (\<lambda>(query, expected). top_name (names_of query) = expected) golden);
               rr = sum_list (map (\<lambda>(query, expected). reciprocal_rank expected (names_of query)) golden);
               failures = map (\<lambda>(query, expected). (query, expected, top_name (names_of query)))
                 (filter (\<lambda>(query, expected). top_name (names_of query) \<noteq> expected) golden)
           in \<lparr>ev_p_at_1 = of_nat hits / of_nat n, ev_mrr = rr / of_nat n, ev_n = n, ev_failures = failures\<rparr>)"

definition run_eval :: "bool \<Rightarrow> skill_file list \<Rightarrow> (string \<times> string) list \<Rightarrow> eval_result" where
  "run_eval is_dir files golden = evaluate (\<lambda>q. map fst (route (discover is_dir files) q)) golden"

subsection \<open>The header says one thing\<close>

text \<open>The pairs the lines of a header hold, in order.\<close>

definition header_pairs :: "string list \<Rightarrow> (string \<times> string) list" where
  "header_pairs ls = map the (filter (\<lambda>p. p \<noteq> None) (map header_pair ls))"

lemma read_header_iff:
  "read_header meta ls = Some out \<longleftrightarrow>
   out = meta @ header_pairs ls \<and> distinct (keys (header_pairs ls)) \<and> set (keys meta) \<inter> set (keys (header_pairs ls)) = {}"
  by (induction meta ls rule: read_header.induct) (auto simp: header_pairs_def split: option.splits)

definition header_of :: "string \<Rightarrow> string list option" where
  "header_of text =
     (case splitlines text of
        [] \<Rightarrow> None
      | l0 # ls \<Rightarrow> if is_fence l0 \<and> list_ex is_fence ls then Some (takeWhile (\<lambda>l. \<not> is_fence l) ls) else None)"

lemma parse_frontmatter_header:
  assumes "fst (parse_frontmatter text) \<noteq> []"
  obtains ls where "header_of text = Some ls" "fst (parse_frontmatter text) = header_pairs ls"
    "distinct (keys (header_pairs ls))" "length (utf8_encode (py_join [CHR ''\<newline>''] ls)) \<le> 65536"
proof -
  from assms obtain l0 ls where l: "splitlines text = l0 # ls" "is_fence l0"
    by (auto simp: parse_frontmatter_def split: list.splits if_splits)
  with assms obtain f body where d: "dropWhile (\<lambda>l. \<not> is_fence l) ls = f # body"
    by (auto simp: parse_frontmatter_def split: list.splits)
  let ?h = "takeWhile (\<lambda>l. \<not> is_fence l) ls"
  have "list_ex is_fence ls"
    using d hd_dropWhile [of "\<lambda>l. \<not> is_fence l" ls] set_dropWhileD [of f "\<lambda>l. \<not> is_fence l" ls]
    by (auto simp: list_ex_iff)
  then have h: "header_of text = Some ?h" using l by (simp add: header_of_def)
  show thesis
    using assms l d h that [of ?h]
    by (auto simp: parse_frontmatter_def MAX_FRONTMATTER_BYTES_def Let_def read_header_iff split: if_splits option.splits)
qed


subsection \<open>The ranking\<close>

definition best_of :: "skill_match list \<Rightarrow> skill_match set" where
  "best_of found = {(n, s). 0 < s \<and> (n, s) \<in> set found \<and> (\<forall>s'. (n, s') \<in> set found \<longrightarrow> s' \<le> s)}"

definition outranks :: "skill_match \<Rightarrow> skill_match \<Rightarrow> bool" where
  "outranks a b \<longleftrightarrow> snd b < snd a \<or> snd b = snd a \<and> fst a < fst b"

text \<open>What the matchers that did not raise found, in order.\<close>

definition found_by :: "(string \<Rightarrow> skill_match list option) list \<Rightarrow> string \<Rightarrow> skill_match list" where
  "found_by matchers query =
     concat (map (\<lambda>matcher. case matcher query of None \<Rightarrow> [] | Some results \<Rightarrow> results) matchers)"

text \<open>The dictionary of the loop holds the highest positive score of every name.\<close>

definition holds_best :: "(string, rat) pydict \<Rightarrow> skill_match list \<Rightarrow> bool" where
  "holds_best best seen \<longleftrightarrow>
     distinct (keys best) \<and>
     (\<forall>n s. (n, s) \<in> set seen \<longrightarrow> s \<le> (case map_of best n of None \<Rightarrow> 0 | Some v \<Rightarrow> v)) \<and>
     (\<forall>n v. map_of best n = Some v \<longrightarrow> 0 < v \<and> (n, v) \<in> set seen)"

lemma holds_best_keep:
  assumes "holds_best best seen"
  shows "holds_best (keep_best m best) (seen @ [m])"
proof -
  obtain n s where m: "m = (n, s)" by (cases m)
  let ?old = "case map_of best n of None \<Rightarrow> 0 | Some v \<Rightarrow> v"
  have old: "0 \<le> ?old" using assms by (auto simp: holds_best_def less_imp_le split: option.splits)
  show ?thesis
  proof (cases "?old < s")
    case True
    then have k: "keep_best m best = AList.update n s best" by (simp add: keep_best_def m)
    have u: "map_of (AList.update n s best) k = (if k = n then Some s else map_of best k)" for k
      by (simp add: update_conv')
    have "t \<le> s" if "(n, t) \<in> set seen" for t
    proof -
      have "t \<le> ?old" using assms that unfolding holds_best_def by blast
      with True show ?thesis by linarith
    qed
    with assms True old show ?thesis
      unfolding k holds_best_def u by (auto simp: m distinct_update)
  next
    case False
    with assms show ?thesis by (auto simp: keep_best_def m holds_best_def)
  qed
qed

lemma holds_best_set: "holds_best best seen \<Longrightarrow> set best = best_of seen"
proof (intro set_eqI iffI)
  assume h: "holds_best best seen"
  then have d: "(n, v) \<in> set best \<longleftrightarrow> map_of best n = Some v" for n v
    by (simp add: holds_best_def map_of_eq_Some_iff)
  fix p
  show "p \<in> best_of seen" if "p \<in> set best"
  proof (cases p)
    case (Pair n v)
    with that have m: "map_of best n = Some v" by (simp add: d)
    have "t \<le> v" if "(n, t) \<in> set seen" for t
    proof -
      have "t \<le> (case map_of best n of None \<Rightarrow> 0 | Some v \<Rightarrow> v)" using h that unfolding holds_best_def by blast
      with m show ?thesis by simp
    qed
    moreover have "0 < v \<and> (n, v) \<in> set seen" using h m unfolding holds_best_def by blast
    ultimately show ?thesis by (simp add: best_of_def Pair)
  qed
  show "p \<in> set best" if "p \<in> best_of seen"
  proof (cases p)
    case (Pair n s)
    with that have p: "0 < s" "(n, s) \<in> set seen" "\<forall>t. (n, t) \<in> set seen \<longrightarrow> t \<le> s" by (auto simp: best_of_def)
    have "s \<le> (case map_of best n of None \<Rightarrow> 0 | Some v \<Rightarrow> v)" using h p(2) unfolding holds_best_def by blast
    with p(1) obtain v where v: "map_of best n = Some v" "s \<le> v" by (auto split: option.splits)
    with h p have "v \<le> s" unfolding holds_best_def by blast
    with v Pair show ?thesis by (simp add: d)
  qed
qed

lemma fold_keep_best:
  "holds_best best seen \<Longrightarrow> holds_best (fold keep_best ms best) (seen @ ms)"
proof (induction ms arbitrary: best seen)
  case (Cons m ms)
  from Cons.IH [OF holds_best_keep [OF Cons.prems, of m]] show ?case by simp
qed simp

lemma chain_fold:
  "fold (\<lambda>matcher best. case matcher query of None \<Rightarrow> best | Some results \<Rightarrow> fold keep_best results best) matchers best =
   fold keep_best (found_by matchers query) best"
  by (induction matchers arbitrary: best) (auto simp: found_by_def split: option.splits)

lemma chain_ranks:
  "distinct (map fst (route_chain matchers query)) \<and> sorted_wrt outranks (route_chain matchers query) \<and>
   set (route_chain matchers query) = best_of (found_by matchers query)"
proof -
  let ?best = "fold keep_best (found_by matchers query) []"
  let ?key = "\<lambda>(name, score). (- score, name) :: rat \<times> string"
  have h: "holds_best ?best (found_by matchers query)"
    using fold_keep_best [of "[]" "[]" "found_by matchers query"] by (simp add: holds_best_def)
  have b: "distinct (keys ?best)" "set ?best = best_of (found_by matchers query)"
    using holds_best_set [OF h] h by (simp_all add: holds_best_def)
  have pos: "filter (\<lambda>(name, score). 0 < score) (sort_key ?key ?best) = sort_key ?key ?best"
    using b(2) by (auto simp: filter_id_conv best_of_def)
  have d: "distinct (map fst (sort_key ?key ?best))"
    using b(1) by (metis (no_types) distinct_map distinct_sort set_sort)
  have "sorted_wrt outranks xs" if "sorted (map ?key xs)" "distinct (map fst xs)" for xs
    using that
  proof (induction xs)
    case (Cons x xs)
    have "outranks x y" if "y \<in> set xs" for y
    proof -
      have "?key x \<le> ?key y" "fst x \<noteq> fst y" using Cons.prems that by auto
      then show ?thesis by (cases x; cases y) (auto simp: outranks_def)
    qed
    with Cons show ?case by simp
  qed simp
  from this [OF sorted_sort_key d] show ?thesis
    unfolding route_chain_def chain_fold Let_def pos using b(2) d by simp
qed

text \<open>Whatever chain of matchers routes a query, a matcher that raises only loses its own results:
  the ranking lists, without repeating a name and from the best to the worst (ties by name), exactly the
  highest score the other matchers gave each skill, if it is positive.\<close>

theorem route_ranks_best:
  "distinct (map fst (route_chain matchers query)) \<and> sorted_wrt outranks (route_chain matchers query) \<and>
   set (route_chain matchers query) = best_of (found_by matchers query)"
  by (rule chain_ranks)

subsection \<open>An exact name wins\<close>

lemma exact_score: "(n, s) \<in> set (exact_matches ms query) \<Longrightarrow>
  s = 9 / 10 \<or> s = 1 \<and> (\<exists>m \<in> set ms. sk_name m = n \<and> py_lower (sk_name m) = py_lower (py_strip query))"
  by (auto simp: exact_matches_def Let_def split: if_splits)

lemma lexical_score: "(n, s) \<in> set (lexical_matches ms query) \<Longrightarrow> 0 < s \<and> s \<le> 85 / 100"
proof -
  assume found: "(n, s) \<in> set (lexical_matches ms query)"
  then have ne: "tokens query \<noteq> {}" by (auto simp: lexical_matches_def)
  define row where "row m = (let overlap = tokens query \<inter> tokens (sk_name m @ '' '' @ sk_description m)
      in if overlap = {} then [] else [(sk_name m, 85 / 100 * of_nat (card overlap) / of_nat (card (tokens query)) :: rat)])"
    for m :: skill_manifest
  have "(n, s) \<in> (\<Union>m \<in> set ms. set (row m))"
    using found unfolding lexical_matches_def Let_def if_not_P [OF ne] set_concat set_map image_image row_def .
  then obtain m where "(n, s) \<in> set (row m)" by blast
  then have overlap: "tokens query \<inter> tokens (sk_name m @ '' '' @ sk_description m) \<noteq> {}"
    and s: "s = 85 / 100 * of_nat (card (tokens query \<inter> tokens (sk_name m @ '' '' @ sk_description m))) / of_nat (card (tokens query))"
    by (simp_all add: row_def Let_def split: if_splits)
  have fin: "finite (tokens query)" by (simp add: tokens_def)
  let ?k = "card (tokens query \<inter> tokens (sk_name m @ '' '' @ sk_description m))" and ?n = "card (tokens query)"
  have "0 < ?k" "?k \<le> ?n" using overlap fin by (auto simp: card_gt_0_iff card_mono)
  then have "(0::rat) < of_nat ?k / of_nat ?n" "of_nat ?k / of_nat ?n \<le> (1::rat)" by simp_all
  then show ?thesis unfolding s times_divide_eq_right [symmetric] by linarith
qed

lemma route_found: "found_by [\<lambda>q. Some (exact_matches ms q), \<lambda>q. Some (lexical_matches ms q)] query =
  exact_matches ms query @ lexical_matches ms query"
  by (simp add: found_by_def)

lemma route_facts:
  "sorted_wrt outranks (route ms query)"
  "set (route ms query) = best_of (exact_matches ms query @ lexical_matches ms query)"
  using chain_ranks [of "[\<lambda>q. Some (exact_matches ms q), \<lambda>q. Some (lexical_matches ms q)]" query]
  by (simp_all add: route_def route_found)

text \<open>A query that is the name of a skill, up to case and the white space around it, routes to that
  skill with score 1, ahead of every partial and every lexical match, as long as no other skill has the
  same name up to case; every score a route reports lies above 0 and at most at 1.\<close>

theorem exact_name_wins:
  assumes "m \<in> set ms" and "py_lower (py_strip query) = py_lower (sk_name m)"
    and "\<forall>m' \<in> set ms. py_lower (sk_name m') = py_lower (sk_name m) \<longrightarrow> sk_name m' = sk_name m"
  shows "\<exists>others. route ms query = (sk_name m, 1) # others \<and> best_route ms query = Some (sk_name m) \<and>
    list_all (\<lambda>(n, s). n \<noteq> sk_name m \<and> 0 < s \<and> s \<le> 9 / 10) others"
proof -
  let ?found = "exact_matches ms query @ lexical_matches ms query"
  have one: "(sk_name m, 1) \<in> set ?found"
    using assms(1,2) by (auto simp: exact_matches_def Let_def)
  have score: "s = 1 \<and> n = sk_name m \<or> s \<le> 9 / 10" if "(n, s) \<in> set ?found" for n s
    using that exact_score [of n s ms query] lexical_score [of n s ms query] assms by fastforce
  have top: "(sk_name m, 1) \<in> set (route ms query)"
    unfolding route_facts(2) best_of_def using one score by fastforce
  have mem: "n = sk_name m \<and> s = 1 \<or> n \<noteq> sk_name m \<and> 0 < s \<and> s \<le> 9 / 10" if "(n, s) \<in> set (route ms query)" for n s
    using that score [of n s] one unfolding route_facts(2) best_of_def by force
  from top obtain r others where r: "route ms query = r # others" by (cases "route ms query") auto
  have f: "sorted_wrt outranks (r # others)" using route_facts(1) [of ms query] r by simp
  have first: "r = (sk_name m, 1)"
  proof (rule ccontr)
    assume n: "r \<noteq> (sk_name m, 1)"
    with top r have "(sk_name m, 1) \<in> set others" by simp
    with f have "outranks r (sk_name m, 1)" by simp
    moreover have "snd r \<le> 9 / 10" using mem [of "fst r" "snd r"] n r by (cases r) auto
    ultimately show False by (simp add: outranks_def)
  qed
  have "n \<noteq> sk_name m \<and> 0 < s \<and> s \<le> 9 / 10" if "(n, s) \<in> set others" for n s
    using mem [of n s] f that r first by (auto simp: outranks_def)
  with r first show ?thesis by (auto simp: best_route_def list_all_iff)
qed

subsection \<open>The evaluation\<close>

lemma reciprocal_rank_bounds: "0 \<le> reciprocal_rank e names \<and> reciprocal_rank e names \<le> 1"
  by (simp add: reciprocal_rank_def divide_le_eq_1)

lemma reciprocal_rank_hit: "e \<noteq> [] \<Longrightarrow> top_name names = e \<Longrightarrow> reciprocal_rank e names = 1"
  by (cases names) (auto simp: reciprocal_rank_def top_name_def)

text \<open>The evaluation is a bounded score that counts what it reports: precision and reciprocal rank
  lie between 0 and 1, the failures are the queries whose top result is not the expected skill, precision
  is 1 exactly when there are none, and the mean reciprocal rank is never below the precision, when every
  expected name is set.\<close>

theorem evaluation_scores:
  assumes "\<forall>(query, expected) \<in> set golden. expected \<noteq> []"
  shows "0 \<le> ev_p_at_1 (evaluate names_of golden) \<and>
     ev_p_at_1 (evaluate names_of golden) \<le> ev_mrr (evaluate names_of golden) \<and> ev_mrr (evaluate names_of golden) \<le> 1 \<and>
     ev_n (evaluate names_of golden) = length golden \<and>
     ev_p_at_1 (evaluate names_of golden) * of_nat (length golden) =
       of_nat (length golden) - of_nat (length (ev_failures (evaluate names_of golden))) \<and>
     (ev_p_at_1 (evaluate names_of golden) = 1 \<longleftrightarrow> ev_failures (evaluate names_of golden) = [])"
proof (cases "golden = []")
  case False
  let ?hit = "\<lambda>(query, expected). top_name (names_of query) = expected"
  let ?rank = "\<lambda>(query, expected). reciprocal_rank expected (names_of query)"
  let ?n = "of_nat (length golden) :: rat" and ?hits = "of_nat (length (filter ?hit golden)) :: rat"
  have n: "0 < ?n" using False by simp
  have sum: "of_nat (length (filter ?hit gs)) \<le> sum_list (map ?rank gs) \<and> sum_list (map ?rank gs) \<le> of_nat (length gs)"
    if "\<forall>(query, expected) \<in> set gs. expected \<noteq> []" for gs
    using that
  proof (induction gs)
    case (Cons g gs)
    obtain q e where g: "g = (q, e)" by (cases g)
    have "e \<noteq> []" using Cons.prems g by simp
    then show ?case
      using Cons reciprocal_rank_hit [of e "names_of q"] reciprocal_rank_bounds [of e "names_of q"] by (auto simp: g)
  qed simp
  have len: "length (filter ?hit golden) + length (filter (\<lambda>(query, expected). top_name (names_of query) \<noteq> expected) golden) = length golden"
    using sum_length_filter_compl [of ?hit golden] by (simp add: case_prod_unfold)
  have e: "ev_p_at_1 (evaluate names_of golden) = ?hits / ?n" "ev_mrr (evaluate names_of golden) = sum_list (map ?rank golden) / ?n"
    "ev_n (evaluate names_of golden) = length golden"
    "length (ev_failures (evaluate names_of golden)) = length (filter (\<lambda>(query, expected). top_name (names_of query) \<noteq> expected) golden)"
    using False by (simp_all add: evaluate_def Let_def)
  have "?hits = ?n - of_nat (length (ev_failures (evaluate names_of golden)))"
    unfolding e(4) len [symmetric] by simp
  moreover have "(?hits / ?n = 1) = (ev_failures (evaluate names_of golden) = [])"
    using calculation n e(4) by (auto simp: divide_eq_1_iff)
  ultimately show ?thesis
    using sum [OF assms] n unfolding e by (auto simp: divide_right_mono)
qed (simp add: evaluate_def)

subsection \<open>At concrete inputs\<close>

definition demo_file :: skill_file where
  "demo_file = \<lparr>sf_parent = ''skills/d'', sf_size = Some 60,
     sf_text = Some (py_join [CHR ''\<newline>''] [''---'', ''name: drift'', ''description: find drift'', ''kind: tool'', ''inputs: a, ,b'', ''---'', ''text''])\<rparr>"

definition demo_skill :: "string \<Rightarrow> string \<Rightarrow> skill_manifest" where
  "demo_skill name description = \<lparr>sk_name = name, sk_description = description, sk_kind = ''tool'', sk_path = ''p'', sk_inputs = [], sk_outputs = []\<rparr>"

lemma demo_loads:
  "load_skill demo_file = Some \<lparr>sk_name = ''drift'', sk_description = ''find drift'', sk_kind = ''tool'', sk_path = ''skills/d'',
     sk_inputs = [''a'', ''b''], sk_outputs = []\<rparr>"
proof -
  let ?h = "[''name: drift'', ''description: find drift'', ''kind: tool'', ''inputs: a, ,b'']"
  have l: "splitlines (the (sf_text demo_file)) = ''---'' # ?h @ [''---'', ''text'']"
    unfolding demo_file_def by code_simp
  have f: "is_fence ''---''" "list_all (\<lambda>l. \<not> is_fence l) ?h" by code_simp+
  have r: "read_header [] ?h = Some [(''name'', ''drift''), (''description'', ''find drift''), (''kind'', ''tool''), (''inputs'', ''a, ,b'')]"
    by code_simp
  have n: "length (utf8_encode (py_join [CHR ''\<newline>''] ?h)) = 60"
    by code_simp
  have "fst (parse_frontmatter (the (sf_text demo_file))) =
      [(''name'', ''drift''), (''description'', ''find drift''), (''kind'', ''tool''), (''inputs'', ''a, ,b'')]"
    using f(2) unfolding parse_frontmatter_def l
    by (simp add: f(1) r n MAX_FRONTMATTER_BYTES_def Let_def del: read_header.simps py_join.simps)
  moreover have "py_strip ''drift'' = ''drift''" "py_strip ''find drift'' = ''find drift''" "split_csv (Some ''a, ,b'') = [''a'', ''b'']"
    by code_simp+
  ultimately show ?thesis
    by (simp add: load_skill_def demo_file_def MAX_SKILL_BYTES_def SkillFrontmatter_def required_text_def KINDS_def split_csv_def)
qed


theorem exact_name_wins_witness:
  "\<exists>others. route [demo_skill ''drift'' ''find drift'', demo_skill ''stop'' ''halt''] '' Drift '' = (''drift'', 1) # others"
proof -
  have "py_lower (py_strip '' Drift '') = ''drift''" "py_lower ''drift'' = ''drift''" "py_lower ''stop'' = ''stop''"
    by code_simp+
  with exact_name_wins [of "demo_skill ''drift'' ''find drift''"
      "[demo_skill ''drift'' ''find drift'', demo_skill ''stop'' ''halt'']" "'' Drift ''"] show ?thesis
    by (auto simp: demo_skill_def)
qed

theorem evaluation_scores_witness:
  "ev_p_at_1 (evaluate (\<lambda>q. if q = ''a'' then [''x''] else [''y'', ''x'']) [(''a'', ''x''), (''b'', ''x'')]) = 1 / 2 \<and>
   ev_mrr (evaluate (\<lambda>q. if q = ''a'' then [''x''] else [''y'', ''x'']) [(''a'', ''x''), (''b'', ''x'')]) = 3 / 4 \<and>
   (1 :: rat) / 2 \<le> 3 / 4"
proof -
  let ?e = "evaluate (\<lambda>q. if q = ''a'' then [''x''] else [''y'', ''x'']) [(''a'', ''x''), (''b'', ''x'')]"
  have e: "ev_p_at_1 ?e = 1 / 2" "ev_mrr ?e = 3 / 4"
    by (simp_all add: evaluate_def top_name_def reciprocal_rank_def Let_def)
  with evaluation_scores [of "[(''a'', ''x''), (''b'', ''x'')]" "\<lambda>q. if q = ''a'' then [''x''] else [''y'', ''x'']"] show ?thesis
    by simp
qed

end
