(* ===== verification/Spec2Isabelle.thy ===== *)
theory Spec2Isabelle
  imports RunTraces Anchoring PostgresStore Vectors Tools Startup Governance Rfc3161 Syslog Skills
begin

text \<open>
  Praxis: a verification of the audited execution path and of the parts around it.

  The program (src/src/praxis) is a server that lets a model read and change a fleet. A tool call
  reaches \<^verbatim>\<open>run\<close>, the one audited path: it classifies the command, refuses what the mode, the kill
  switch, the consent ceiling, the contract, the budget or a missing approval forbid, executes what is
  left, and appends one record to a hash-chained log. Evidence checkpoints put Merkle roots of the log
  under timestamps. Facts about the fleet are kept bitemporally in an append-only store; collectors
  turn captured output into observed facts; the drift engine compares them with known-good ones; and
  actuation adapters wrap ssh, ansible, tofu, talosctl and runbooks. Tool calls arrive over stdio or
  over HTTP, where every session has a context of its own.

  The theories, from the bottom, with the files they model:

  \<^item> Prelude: strings, decimal text, UTF-8 and floats as Python has them, insertion-ordered dicts as
    association lists, and the simplification collections the other theories share. PyRe: the regular
    expressions of the sources with backtracking order (\<^verbatim>\<open>ends\<close>) and a relational meaning
    (\<^verbatim>\<open>sem\<close>).
  \<^item> Patterns, Policy (execution/patterns.py, policy.py): the pattern sets, tiers, classification and the
    decision. Concrete evaluates them on a probe the later instances use.
  \<^item> Contract (execution/contract.py): predicates, budgets, and the approval registry as an instance of
    the locale nonce_store, whose counting argument gives single use.
  \<^item> Json: json.dumps, json.loads, str, int and == on values, with their round trip.
  \<^item> AuditLog, Redaction (execution/audit.py, redaction.py): the hash chain with its writer, its failures,
    recovery and verification; the masking of secrets. Syslog: the sink that forwards lines as datagrams.
  \<^item> Runner, RunTraces (execution/runner.py): the stages of \<^verbatim>\<open>run\<close> as functions of the context, the
    facts about one call, and the facts about sequences of calls.
  \<^item> Merkle, Evidence, EvidenceChain, Anchoring (audit/merkle.py, evidence.py, session.py, the stampers of
    rfc3161.py): the tree, the checkpoints, the scheduler against the locale honest_stamper, and the
    verification with an anchor.
  \<^item> Facts, Tables, SqliteStore, StoreSpec, PostgresStore, Vectors (model/facts.py, store/): rows with the
    triggers of both schemas (locale append_only), every operation of both backends, the abstract store
    both refine (locale fact_store), and the nearest-neighbour query.
  \<^item> Drift, Cis, Collectors (drift/, collectors/): the diff, the convergence plan, the report parsers, the
    CIS controls one by one, seeding, and the parsers of telemetry.
  \<^item> Credentials, Actuation, Adapters (actuation/): the scoped grants; the request, the subprocess and the
    gates of any adapter (locale gated_adapter); the five adapters, each an instance of the locale.
  \<^item> Tools (tools/, context.py): the handlers over the audited path. Registry, Surface (execution/correlation.py,
    tools/registry.py, tools/__init__.py): the correlation identifiers, the registry, and the six tools as
    its specifications.
  \<^item> Config (config.py): the reading of every environment variable, the loopback test of a host and the
    guard of the transports.
  \<^item> Server, HttpServer (server.py, http_server.py): the dispatch of one JSON-RPC message, the stdio loop
    over bounded reads, and one POST of the HTTP transport with its sessions. Startup (server.py,
    __main__.py): a configuration assembled into a context, started and shut down.
  \<^item> Ssrf (_ssrf.py): addresses as words, the blocked networks and both entry points of the egress
    filter. Rfc3161 (audit/rfc3161.py): the time-stamping client, with what its packages return as a record of
    functions.
  \<^item> Findall, Governance (governance/): matches of a pattern in a text; the compliance catalog and the
    cross-reference gate.
  \<^item> Skills (skills/): front matter, loading and discovery of bundles, the routing chain and its scores.

  How the model stands to the code. A class with mutable state is a record that every operation takes
  and returns; a raise is a left value (\<^verbatim>\<open>Inl\<close>), and a handler that catches it a case on it; the
  locks make every operation one step. A hash function, the clock, fresh identifiers, the outcome of a
  file write, a process or a probe, and what a path resolves to are arguments. Where a statement says
  that a tool is not executed, it says that the result and the final context are the same for any two
  tools (or any two systems), which covers every effect. Characters are those below code point 256; a
  JSON escape beyond them is an explicit error of the model, never a value.

  Bounds. The JSON reader and the regular expressions are total: the reader has as fuel twice the length of the
  text plus one, and Json proves that this never runs out; the star of an expression only goes on when it
  has consumed a character. The output bound, the preview bound, the registry bound, the probe bounds
  and the digit bound are the numbers of the code.

  What the lemmas show. For the path: nothing runs except behind every gate, every call leaves exactly
  one record, tokens stay out of the results, taint and the kill switch hold for the rest of a session,
  a dry run opens the gate once, the budget is a ceiling. For the log and the evidence: what is
  written verifies, what is changed is detected, and exactly when verification raises. For the
  stores: both refine the abstract store, agree with each other, lose no update and rewrite no history.
  For drift: the diff, the CIS scan and the evidence parser are exact, seeding is the baseline, and
  convergence needs a person. For actuation: host type, approval, grant and health gate every adapter,
  and an action string cannot inject an option. Tools proves that the emergency stop stops, and what
  revoking the last grant does. For the transports: only a valid tools/call has an effect and every
  answer that carries a tool's result is on record; the stdio loop ends and answers every well-formed
  request; a POST without the token changes nothing; sessions are bounded, expire for good, and share
  neither approvals, budget nor taint. For the configuration and the startup: what every loaded
  configuration satisfies, which of them may bind a socket, exactly when a start succeeds, and that it
  only appends to the trail. For the egress filter: what a caller may connect to was vetted; for the
  time-stamping client: a token that is accepted was issued by the authority, unless hashes collide, and the
  client of an honest authority is a stamper the evidence can rest on. For governance
  and skills: the gate passes exactly on the consistent catalogs, and a bundle that loads is unambiguous.

  Not modelled, and why. Requests that overlap in time inside one HTTP session: every operation is one
  step, as the locks of the code make it, and a request is a sequence of them. Sockets and threads (a
  socket is what connecting and sending do) and the opening of databases (permissions, pragmas, schema
  creation) are I/O. Validation by pydantic, the URL parser, \<^verbatim>\<open>inet_aton\<close>, the resolver, and
  the ASN.1 and certificate packages of the RFC 3161 client are code outside the repository and
  arguments of the definitions that use them; the test that those packages are installed is left out. The clock is one
  call of the system clock. schema.py writes what pydantic generates, and the scripts directory holds a
  fuzzing driver and a printing driver of the verification modelled here. The recursion limit of the
  interpreter is a predicate on the text where a transport catches it, and is not modelled elsewhere.
\<close>

end
